(* ===== verification/Py_Prelude.thy ===== *)
theory Py_Prelude
  imports Complex_Main "HOL-Library.AList" "HOL-Library.Multiset" "HOL-Library.Sublist"
begin

text \<open>
  The prelude of the development: the fragment of Python the modelled programs use.

  \<^item> \<open>py_error\<close> and \<open>rbind\<close>: an exception is the left value of a sum, and a statement
    sequence stops at the first one.
  \<^item> \<open>py_index\<close>, \<open>py_slice\<close>: indexing and slicing with Python's treatment of negative and
    out-of-range positions.
  \<^item> \<open>py_split\<close>, \<open>py_split1\<close>, \<open>py_strip\<close>, \<open>py_contains\<close>, \<open>to_base\<close>, \<open>of_base\<close>: the
    string operations (\<open>str.split\<close>, \<open>str.strip\<close>, \<open>in\<close>, \<open>%d\<close>, \<open>hex\<close>, \<open>int\<close>);
    \<open>path_join\<close>, \<open>basename\<close>: those of \<open>os.path\<close>.
  \<^item> dictionaries: association lists without repeated keys (\<open>AList.update\<close>,
    \<open>AList.delete\<close>, \<open>map_of\<close>). The order in which a dictionary is iterated is
    arbitrary in Python 2; code that depends on it takes the order as an argument
    (\<open>dict_order\<close>).
  \<^item> \<open>pynum\<close>: Python 2 numbers, an \<open>int\<close> or a \<open>float\<close>, with \<open>/\<close> rounding down on
    two \<open>int\<close> operands and true division otherwise. A \<open>float\<close> is an exact rational:
    rounding of binary floating point is not modelled.
\<close>

named_theorems py_simps \<open>evaluation rules of the Python fragment\<close>
named_theorems dict_simps \<open>keys and lookups after dictionary operations\<close>
named_theorems res_elims \<open>inversion of successful results\<close>

section \<open>Exceptions as values\<close>

datatype py_error =
    KeyError
  | IndexError
  | ValueError
  | TypeError
  | ZeroDivisionError
  | UnboundLocalError
  | AttributeError
  | OSError
  | NameError
  | AssertionError
  | UnicodeDecodeError
  | PyException

type_synonym 'a pyres = "py_error + 'a"

definition rbind :: "'e + 'a \<Rightarrow> ('a \<Rightarrow> 'e + 'b) \<Rightarrow> 'e + 'b" where
  "rbind m f = (case m of Inl e \<Rightarrow> Inl e | Inr x \<Rightarrow> f x)"

lemma rbind_simps [simp]:
  "rbind (Inl e) f = Inl e"
  "rbind (Inr x) f = f x"
  by (simp_all add: rbind_def)

lemma rbind_cong [fundef_cong]:
  assumes "m = m'" and "\<And>x. m' = Inr x \<Longrightarrow> f x = f' x"
  shows "rbind m f = rbind m' f'"
  using assms by (auto simp: rbind_def split: sum.split)

lemma rbind_Inr_iff [res_elims]:
  "rbind m f = Inr y \<longleftrightarrow> (\<exists>x. m = Inr x \<and> f x = Inr y)"
  by (cases m) auto

lemma rbind_Inl_iff [res_elims]:
  "rbind m f = Inl e \<longleftrightarrow> m = Inl e \<or> (\<exists>x. m = Inr x \<and> f x = Inl e)"
  by (cases m) auto

text \<open>A \<open>for\<close> loop whose body may raise, folded over the remaining items.\<close>

fun rfold :: "('a \<Rightarrow> 's \<Rightarrow> 'e + 's) \<Rightarrow> 'a list \<Rightarrow> 's \<Rightarrow> 'e + 's" where
  "rfold f [] s = Inr s"
| "rfold f (x # xs) s = rbind (f x s) (rfold f xs)"

lemma rfold_append: "rfold f (xs @ ys) s = rbind (rfold f xs s) (rfold f ys)"
  by (induction xs arbitrary: s) (auto simp: rbind_def split: sum.split)

lemma rfold_invariant:
  assumes "rfold f xs s = Inr t" and "P s"
    and "\<And>x u v. x \<in> set xs \<Longrightarrow> P u \<Longrightarrow> f x u = Inr v \<Longrightarrow> P v"
  shows "P t"
  using assms by (induction xs arbitrary: s) (auto simp: rbind_Inr_iff)

lemma rfold_total:
  assumes "\<And>x u. x \<in> set xs \<Longrightarrow> P u \<Longrightarrow> \<exists>v. f x u = Inr v \<and> P v" and "P s"
  shows "\<exists>t. rfold f xs s = Inr t \<and> P t"
  using assms
proof (induction xs arbitrary: s)
  case Nil
  then show ?case by simp
next
  case (Cons x xs)
  then obtain v where v: "f x s = Inr v" "P v" by (meson list.set_intros(1))
  have "\<exists>t. rfold f xs v = Inr t \<and> P t"
    by (rule Cons.IH) (use Cons.prems(1) v(2) in auto)
  with v show ?case by simp
qed

text \<open>
  The interface between a printer and a reader that works through a stream of items with
  \<open>rfold\<close>: \<open>enc\<close> prints a value as items, and reading these items in a state that is
  \<open>ready\<close> has the effect \<open>put\<close> on it. What holds for one value then holds for a list.
\<close>

locale stream_codec =
  fixes enc :: "'a \<Rightarrow> 'i list"
    and step :: "'i \<Rightarrow> 's \<Rightarrow> 'e + 's"
    and put :: "'a \<Rightarrow> 's \<Rightarrow> 's"
    and ok :: "'a \<Rightarrow> bool"
    and ready_for :: "'s \<Rightarrow> bool"
  assumes read_one: "ok x \<Longrightarrow> ready_for s \<Longrightarrow> rfold step (enc x) s = Inr (put x s)"
    and ready_put: "ok x \<Longrightarrow> ready_for s \<Longrightarrow> ready_for (put x s)"
begin

lemma read_all:
  "list_all ok xs \<Longrightarrow> ready_for s \<Longrightarrow> rfold step (concat (map enc xs)) s = Inr (fold put xs s)"
  by (induction xs arbitrary: s) (simp_all add: rfold_append read_one ready_put)

lemma ready_all: "list_all ok xs \<Longrightarrow> ready_for s \<Longrightarrow> ready_for (fold put xs s)"
  by (induction xs arbitrary: s) (simp_all add: ready_put)

end

text \<open>A property that every step of a transition relation keeps holds in every state it reaches.\<close>

locale preserved =
  fixes step :: "'s \<Rightarrow> 's \<Rightarrow> bool" and P :: "'s \<Rightarrow> bool"
  assumes step: "step p q \<Longrightarrow> P p \<Longrightarrow> P q"
begin

lemma reach: "step\<^sup>*\<^sup>* p q \<Longrightarrow> P p \<Longrightarrow> P q"
  by (induction rule: rtranclp_induct) (auto intro: step)

lemma power: "(step ^^ n) p q \<Longrightarrow> P p \<Longrightarrow> P q"
  by (induction n arbitrary: q) (auto intro: step)

end

text \<open>A list comprehension whose element expression may raise.\<close>

fun rmap :: "('a \<Rightarrow> 'e + 'b) \<Rightarrow> 'a list \<Rightarrow> 'e + 'b list" where
  "rmap f [] = Inr []"
| "rmap f (x # xs) = rbind (f x) (\<lambda>y. rbind (rmap f xs) (\<lambda>ys. Inr (y # ys)))"

lemma rmap_append:
  "rmap f (xs @ ys) = rbind (rmap f xs) (\<lambda>us. rbind (rmap f ys) (\<lambda>vs. Inr (us @ vs)))"
  by (induction xs) (auto simp: rbind_def split: sum.split)

lemma rmap_cong [fundef_cong]:
  "xs = ys \<Longrightarrow> (\<And>x. x \<in> set ys \<Longrightarrow> f x = g x) \<Longrightarrow> rmap f xs = rmap g ys"
  by (induction ys arbitrary: xs) auto

lemma rmap_concat:
  "rmap f (concat xss) = rbind (rmap (rmap f) xss) (\<lambda>yss. Inr (concat yss))"
  by (induction xss) (auto simp: rmap_append rbind_def split: sum.split)

lemma rmap_Inr_iff [res_elims]: "rmap f xs = Inr ys \<longleftrightarrow> list_all2 (\<lambda>x y. f x = Inr y) xs ys"
  by (induction xs arbitrary: ys) (auto simp: rbind_Inr_iff list_all2_Cons1)

lemma rmap_Inl:
  "rmap f xs = Inl e \<Longrightarrow> \<exists>x \<in> set xs. f x = Inl e"
  by (induction xs) (auto simp: rbind_Inl_iff)

lemma rmap_ok_iff: "(\<exists>ys. rmap f xs = Inr ys) \<longleftrightarrow> (\<forall>x \<in> set xs. \<exists>y. f x = Inr y)"
  by (induction xs) (auto simp: rbind_Inr_iff)

lemma rmap_total: "(\<And>x. x \<in> set xs \<Longrightarrow> f x = Inr (g x)) \<Longrightarrow> rmap f xs = Inr (map g xs)"
  by (induction xs) auto

section \<open>Lists: indexing and slicing\<close>

definition py_pos :: "nat \<Rightarrow> int \<Rightarrow> int" where
  \<comment> \<open>a negative index counts from the end\<close>
  "py_pos n i = (if i < 0 then int n + i else i)"

definition py_index :: "'a list \<Rightarrow> int \<Rightarrow> 'a pyres" where
  "py_index xs i =
     (let j = py_pos (length xs) i
      in if 0 \<le> j \<and> j < int (length xs) then Inr (xs ! nat j) else Inl IndexError)"

definition py_clamp :: "nat \<Rightarrow> int \<Rightarrow> nat" where
  \<comment> \<open>a slice bound: relative to the end when negative, then clamped to the list\<close>
  "py_clamp n i = nat (min (int n) (max 0 (py_pos n i)))"

definition py_slice :: "'a list \<Rightarrow> int \<Rightarrow> int \<Rightarrow> 'a list" where
  \<comment> \<open>\<open>xs[lo:hi]\<close>\<close>
  "py_slice xs lo hi =
     (let l = py_clamp (length xs) lo; h = py_clamp (length xs) hi
      in take (h - l) (drop l xs))"

definition py_slice_to :: "'a list \<Rightarrow> int \<Rightarrow> 'a list" where
  \<comment> \<open>\<open>xs[:hi]\<close>\<close>
  "py_slice_to xs hi = take (py_clamp (length xs) hi) xs"

definition py_slice_from :: "'a list \<Rightarrow> int \<Rightarrow> 'a list" where
  \<comment> \<open>\<open>xs[lo:]\<close>\<close>
  "py_slice_from xs lo = drop (py_clamp (length xs) lo) xs"

lemma py_index_nat [py_simps]: "i < length xs \<Longrightarrow> py_index xs (int i) = Inr (xs ! i)"
  by (simp add: py_index_def py_pos_def)

lemma py_index_last [py_simps]: "xs \<noteq> [] \<Longrightarrow> py_index xs (- 1) = Inr (last xs)"
  by (cases xs) (auto simp: py_index_def py_pos_def last_conv_nth nat_diff_distrib)

lemma py_index_neg [py_simps]:
  "0 < k \<Longrightarrow> k \<le> length xs \<Longrightarrow> py_index xs (- int k) = Inr (xs ! (length xs - k))"
  by (auto simp: py_index_def py_pos_def nat_diff_distrib)

lemma py_clamp_nat [py_simps]: "py_clamp n (int i) = min n i"
  by (simp add: py_clamp_def py_pos_def)

lemma py_clamp_neg [py_simps]: "0 < k \<Longrightarrow> py_clamp n (- int k) = n - k"
  by (simp add: py_clamp_def py_pos_def)

lemma py_clamp_le: "py_clamp n i \<le> n"
  by (simp add: py_clamp_def)

lemma nth_update_if: "xs[i := x] ! j = (if i = j \<and> j < length xs then x else xs ! j)"
  by (cases "i = j") (auto simp: list_update_beyond)

lemma list_all_update: "list_all P xs \<Longrightarrow> P x \<Longrightarrow> list_all P (xs[i := x])"
  by (simp add: list_all_length nth_update_if)

lemma list_ex_update: "list_ex P (xs[i := x]) \<Longrightarrow> P x \<or> list_ex P xs"
  by (metis (no_types, lifting) insert_iff list_ex_iff set_update_subset_insert subsetD)

lemma filter_slice:
  assumes "\<And>i. i < length xs \<Longrightarrow> P (xs ! i) \<longleftrightarrow> s \<le> i \<and> i < e"
  shows "filter P xs = take (e - s) (drop s xs)"
  using assms
proof (induction xs arbitrary: s e)
  case Nil
  then show ?case by simp
next
  case (Cons x xs)
  have head: "P x \<longleftrightarrow> s = 0 \<and> 0 < e" using Cons.prems [of 0] by simp
  have "P (xs ! i) \<longleftrightarrow> s - 1 \<le> i \<and> i < e - 1" if "i < length xs" for i
    using Cons.prems [of "Suc i"] that by auto
  then have "filter P xs = take (e - 1 - (s - 1)) (drop (s - 1) xs)" by (rule Cons.IH)
  with head show ?case by (cases s; cases e) simp_all
qed

lemma py_slice_nat: "py_slice xs (int i) (int j) = take (j - i) (drop i xs)"
  by (cases "i \<le> length xs") (simp_all add: py_slice_def py_clamp_nat min_def)

lemma set_py_slice: "set (py_slice xs lo hi) \<subseteq> set xs"
  unfolding py_slice_def Let_def by (meson order_trans set_drop_subset set_take_subset)

lemma py_slice_split: "py_slice_to xs i @ py_slice_from xs i = xs"
  by (simp add: py_slice_to_def py_slice_from_def)

section \<open>Strings\<close>

abbreviation newline :: char where "newline \<equiv> CHR 0x0A"
abbreviation tab :: char where "tab \<equiv> CHR 0x09"
abbreviation dquote :: char where "dquote \<equiv> CHR 0x22"

text \<open>\<open>s.split(c)\<close> for a one-character separator, and \<open>s.split(c, 1)\<close>.\<close>

fun py_split :: "char \<Rightarrow> string \<Rightarrow> string list" where
  "py_split c [] = [[]]"
| "py_split c (x # xs) =
     (if x = c then [] # py_split c xs
      else case py_split c xs of [] \<Rightarrow> [[x]] | w # ws \<Rightarrow> (x # w) # ws)"

definition py_split1 :: "char \<Rightarrow> string \<Rightarrow> string \<times> string option" where
  "py_split1 c s =
     (takeWhile (\<lambda>x. x \<noteq> c) s,
      case dropWhile (\<lambda>x. x \<noteq> c) s of [] \<Rightarrow> None | _ # r \<Rightarrow> Some r)"

fun py_join :: "string \<Rightarrow> string list \<Rightarrow> string" where
  "py_join sep [] = []"
| "py_join sep [w] = w"
| "py_join sep (w # v # ws) = w @ sep @ py_join sep (v # ws)"

definition is_space :: "char \<Rightarrow> bool" where
  "is_space c \<longleftrightarrow> c = CHR '' '' \<or> (9 \<le> (of_char c :: nat) \<and> (of_char c :: nat) \<le> 13)"

definition py_strip :: "string \<Rightarrow> string" where
  "py_strip s = rev (dropWhile is_space (rev (dropWhile is_space s)))"

definition py_contains :: "'a list \<Rightarrow> 'a list \<Rightarrow> bool" where
  \<comment> \<open>\<open>t in s\<close>: \<open>t\<close> is a contiguous part of \<open>s\<close>\<close>
  "py_contains t s \<longleftrightarrow> list_ex (prefix t) (suffixes s)"

lemma py_split_nonempty [simp]: "py_split c s \<noteq> []"
  by (induction s) (auto split: list.split)

lemma py_split_no_sep: "c \<notin> set s \<Longrightarrow> py_split c s = [s]"
  by (induction s) auto

lemma py_split_append:
  "c \<notin> set w \<Longrightarrow> py_split c (w @ c # s) = w # py_split c s"
  by (induction w) auto

lemma py_join_split: "py_join [c] (py_split c s) = s"
proof (induction s)
  case Nil
  then show ?case by simp
next
  case (Cons x s)
  obtain w ws where ws: "py_split c s = w # ws"
    by (cases "py_split c s") auto
  show ?case
  proof (cases "x = c")
    case True
    with Cons ws show ?thesis by simp
  next
    case False
    with Cons ws show ?thesis by (cases ws) auto
  qed
qed

lemma py_split_join:
  assumes "ws \<noteq> []" and "\<forall>w \<in> set ws. c \<notin> set w"
  shows "py_split c (py_join [c] ws) = ws"
  using assms
proof (induction "[c]" ws rule: py_join.induct)
  case (3 w v ws)
  then have "py_split c (w @ c # py_join [c] (v # ws)) = w # py_split c (py_join [c] (v # ws))"
    by (intro py_split_append) simp
  with 3 show ?case by simp
qed (auto simp: py_split_no_sep)

lemma py_split_no_sep_in: "w \<in> set (py_split c s) \<Longrightarrow> c \<notin> set w"
  by (induction s arbitrary: w) (auto split: if_splits list.splits)

lemma py_contains_iff: "py_contains t s \<longleftrightarrow> (\<exists>u v. s = u @ t @ v)"
  unfolding py_contains_def list_ex_iff set_suffixes_eq prefix_def
  by (auto simp: suffix_def)

lemma py_split1_Some:
  "py_split1 c s = (a, Some b) \<longleftrightarrow> s = a @ c # b \<and> c \<notin> set a"
proof
  assume h: "py_split1 c s = (a, Some b)"
  then have d: "dropWhile (\<lambda>x. x \<noteq> c) s = c # b"
    by (auto simp: py_split1_def split: list.splits)
       (metis (mono_tags, lifting) dropWhile_eq_Cons_conv)
  have "s = takeWhile (\<lambda>x. x \<noteq> c) s @ dropWhile (\<lambda>x. x \<noteq> c) s" by simp
  with h d show "s = a @ c # b \<and> c \<notin> set a"
    by (auto simp: py_split1_def dest: set_takeWhileD)
next
  assume "s = a @ c # b \<and> c \<notin> set a"
  then have s: "s = a @ c # b" and "\<And>x. x \<in> set a \<Longrightarrow> x \<noteq> c" by auto
  then show "py_split1 c s = (a, Some b)"
    by (simp add: py_split1_def s takeWhile_append2 dropWhile_append2)
qed

section \<open>Paths\<close>

definition path_join :: "string \<Rightarrow> string \<Rightarrow> string" where
  \<comment> \<open>\<open>os.path.join\<close>\<close>
  "path_join a b =
     (if take 1 b = ''/'' then b else if a = [] \<or> last a = CHR ''/'' then a @ b else a @ ''/'' @ b)"

definition basename :: "string \<Rightarrow> string" where
  "basename p = rev (takeWhile (\<lambda>c. c \<noteq> CHR ''/'') (rev p))"

section \<open>Numerals\<close>

definition digit_chars :: string where
  "digit_chars = ''0123456789abcdef''"

definition digit_char :: "nat \<Rightarrow> char" where
  "digit_char d = digit_chars ! d"

definition digit_val :: "char \<Rightarrow> nat option" where
  "digit_val c = (if c \<in> set digit_chars
     then Some (length (takeWhile (\<lambda>x. x \<noteq> c) digit_chars)) else None)"

text \<open>The digits of a number in base \<open>b\<close> (\<open>%d\<close> for 10, \<open>hex\<close> for 16), and back.\<close>

fun to_base :: "nat \<Rightarrow> nat \<Rightarrow> string" where
  "to_base b n = (if b < 2 \<or> n < b then [digit_char n]
                  else to_base b (n div b) @ [digit_char (n mod b)])"

declare to_base.simps [simp del]

fun of_base_acc :: "nat \<Rightarrow> nat \<Rightarrow> string \<Rightarrow> nat option" where
  "of_base_acc b a [] = Some a"
| "of_base_acc b a (c # cs) =
     (case digit_val c of
        None \<Rightarrow> None
      | Some d \<Rightarrow> if d < b then of_base_acc b (b * a + d) cs else None)"

definition of_base :: "nat \<Rightarrow> string \<Rightarrow> nat option" where
  "of_base b s = (if s = [] then None else of_base_acc b 0 s)"

lemma digit_val_char [simp]: "d < 16 \<Longrightarrow> digit_val (digit_char d) = Some d"
proof -
  have "\<forall>d \<in> set [0..<16]. digit_val (digit_char d) = Some d"
    by (simp add: upt_rec digit_val_def digit_char_def digit_chars_def)
  then show "d < 16 \<Longrightarrow> digit_val (digit_char d) = Some d" by simp
qed

lemma of_base_acc_append:
  "of_base_acc b a (xs @ ys) =
     (case of_base_acc b a xs of None \<Rightarrow> None | Some a' \<Rightarrow> of_base_acc b a' ys)"
  by (induction xs arbitrary: a) (auto split: option.splits)

lemma to_base_nonempty [simp]: "to_base b n \<noteq> []"
  by (subst to_base.simps) simp

lemma of_base_acc_to_base:
  assumes "2 \<le> b" "b \<le> 16"
  shows "of_base_acc b 0 (to_base b n) = Some n"
  using assms
proof (induction b n rule: to_base.induct)
  case (1 b n)
  show ?case
  proof (cases "n < b")
    case True
    with 1 show ?thesis by (simp add: to_base.simps [of b n])
  next
    case False
    with 1 have "of_base_acc b 0 (to_base b (n div b)) = Some (n div b)" by simp
    moreover have b: "n mod b < b" using "1.prems" by simp
    moreover from b "1.prems" have "n mod b < 16" by linarith
    ultimately show ?thesis using False "1.prems"
      by (simp add: to_base.simps [of b n] of_base_acc_append)
  qed
qed

lemma of_base_to_base: "2 \<le> b \<Longrightarrow> b \<le> 16 \<Longrightarrow> of_base b (to_base b n) = Some n"
  by (simp add: of_base_def of_base_acc_to_base)

definition is_digit :: "char \<Rightarrow> bool" where
  "is_digit c \<longleftrightarrow> c \<in> set ''0123456789''"

lemma digit_char_is_digit: "d < 10 \<Longrightarrow> is_digit (digit_char d)"
proof -
  have "\<forall>d \<in> set [0..<10]. is_digit (digit_char d)"
    by (simp add: upt_rec is_digit_def digit_char_def digit_chars_def)
  then show "d < 10 \<Longrightarrow> is_digit (digit_char d)" by simp
qed

lemma to_base_10_digits: "c \<in> set (to_base 10 n) \<Longrightarrow> is_digit c"
proof (induction "10::nat" n rule: to_base.induct)
  case (1 n)
  then show ?case
    by (cases "n < 10")
       (auto simp: to_base.simps [of 10 n] digit_char_is_digit)
qed

definition str_int :: "int \<Rightarrow> string" where
  \<comment> \<open>\<open>str(i)\<close> and \<open>'%d' % i\<close>\<close>
  "str_int i = (if i < 0 then CHR ''-'' # to_base 10 (nat (- i)) else to_base 10 (nat i))"

section \<open>Dictionaries\<close>

text \<open>
  \<open>hord\<close> gives the iteration order of a dictionary from its insertion order: any
  permutation of the keys.
\<close>

definition dict_order :: "('k list \<Rightarrow> 'k list) \<Rightarrow> bool" where
  "dict_order hord \<longleftrightarrow> (\<forall>ks. mset (hord ks) = mset ks)"

abbreviation keys :: "('k \<times> 'v) list \<Rightarrow> 'k list" where
  "keys d \<equiv> map fst d"

definition dict_ok :: "('k \<times> 'v) list \<Rightarrow> bool" where
  "dict_ok d \<longleftrightarrow> distinct (keys d)"

lemma dict_order_set: "dict_order hord \<Longrightarrow> set (hord ks) = set ks"
  unfolding dict_order_def by (metis set_mset_mset)

lemma dict_order_distinct: "dict_order hord \<Longrightarrow> distinct (hord ks) = distinct ks"
  unfolding dict_order_def by (metis mset_eq_imp_distinct_iff)

lemma dict_order_length: "dict_order hord \<Longrightarrow> length (hord ks) = length ks"
  unfolding dict_order_def by (metis size_mset)

lemma dict_order_id: "dict_order (\<lambda>ks. ks)"
  by (simp add: dict_order_def)

lemma dict_order_rev: "dict_order rev"
  by (simp add: dict_order_def)

lemma dict_ok_Nil [simp]: "dict_ok []"
  by (simp add: dict_ok_def)

lemma dict_ok_update [simp]: "dict_ok d \<Longrightarrow> dict_ok (AList.update k v d)"
  by (simp add: dict_ok_def distinct_update)

lemma dict_ok_delete [simp]: "dict_ok d \<Longrightarrow> dict_ok (AList.delete k d)"
  by (simp add: dict_ok_def distinct_delete)

lemma keys_update [dict_simps]: "set (keys (AList.update k v d)) = insert k (set (keys d))"
  by (simp add: dom_update)

lemma keys_delete [dict_simps]: "set (keys (AList.delete k d)) = set (keys d) - {k}"
  by (simp add: delete_keys)

lemma lookup_update [dict_simps]: "map_of (AList.update k v d) = (map_of d)(k \<mapsto> v)"
  by (simp add: update_conv')

lemma lookup_delete [dict_simps]: "map_of (AList.delete k d) = (map_of d)(k := None)"
  by (simp add: delete_conv')

lemma lookup_keys: "map_of d k \<noteq> None \<longleftrightarrow> k \<in> set (keys d)"
  by (simp add: map_of_eq_None_iff)

lemma length_update_key:
  "k \<in> set (keys d) \<Longrightarrow> length (AList.update k v d) = length d"
  by (induction d) auto

lemma keys_update_same: "k \<in> set (keys d) \<Longrightarrow> keys (AList.update k v d) = keys d"
  by (induction d) auto

lemma keys_update_Some [dict_simps]:
  "map_of d k = Some v \<Longrightarrow> keys (AList.update k w d) = keys d"
  using lookup_keys [of d k] by (intro keys_update_same) simp

lemma length_delete_key:
  "k \<in> set (keys d) \<Longrightarrow> length (AList.delete k d) < length d"
  by (induction d) (force simp: less_Suc_eq_le length_delete_le Suc_le_eq)+

definition dict_get :: "('k \<times> 'v) list \<Rightarrow> 'k \<Rightarrow> 'v pyres" where
  \<comment> \<open>\<open>d[k]\<close>\<close>
  "dict_get d k = (case map_of d k of None \<Rightarrow> Inl KeyError | Some v \<Rightarrow> Inr v)"

definition dict_del :: "('k \<times> 'v) list \<Rightarrow> 'k \<Rightarrow> ('k \<times> 'v) list pyres" where
  \<comment> \<open>\<open>del d[k]\<close>\<close>
  "dict_del d k = (case map_of d k of None \<Rightarrow> Inl KeyError | Some _ \<Rightarrow> Inr (AList.delete k d))"

lemma dict_get_Inr [res_elims]: "dict_get d k = Inr v \<longleftrightarrow> map_of d k = Some v"
  by (simp add: dict_get_def split: option.split)

lemma dict_del_Inr [res_elims]:
  "dict_del d k = Inr d' \<longleftrightarrow> k \<in> set (keys d) \<and> d' = AList.delete k d"
  using map_of_eq_None_iff [of d k] by (auto simp: dict_del_def split: option.split)

section \<open>Numbers of Python 2\<close>

datatype pynum = PyInt int | PyFloat rat

fun num_val :: "pynum \<Rightarrow> rat" where
  "num_val (PyInt i) = of_int i"
| "num_val (PyFloat q) = q"

definition py_trunc :: "rat \<Rightarrow> int" where
  \<comment> \<open>\<open>int(q)\<close>: towards zero\<close>
  "py_trunc q = (if q < 0 then - \<lfloor>- q\<rfloor> else \<lfloor>q\<rfloor>)"

fun num_add :: "pynum \<Rightarrow> pynum \<Rightarrow> pynum" where
  "num_add (PyInt a) (PyInt b) = PyInt (a + b)"
| "num_add x y = PyFloat (num_val x + num_val y)"

fun num_sub :: "pynum \<Rightarrow> pynum \<Rightarrow> pynum" where
  "num_sub (PyInt a) (PyInt b) = PyInt (a - b)"
| "num_sub x y = PyFloat (num_val x - num_val y)"

fun num_mul :: "pynum \<Rightarrow> pynum \<Rightarrow> pynum" where
  "num_mul (PyInt a) (PyInt b) = PyInt (a * b)"
| "num_mul x y = PyFloat (num_val x * num_val y)"

fun num_div :: "pynum \<Rightarrow> pynum \<Rightarrow> pynum pyres" where
  "num_div (PyInt a) (PyInt b) =
     (if b = 0 then Inl ZeroDivisionError else Inr (PyInt (a div b)))"
| "num_div x y =
     (if num_val y = 0 then Inl ZeroDivisionError else Inr (PyFloat (num_val x / num_val y)))"

fun num_mod :: "pynum \<Rightarrow> pynum \<Rightarrow> pynum pyres" where
  \<comment> \<open>the result has the sign of the divisor\<close>
  "num_mod (PyInt a) (PyInt b) =
     (if b = 0 then Inl ZeroDivisionError else Inr (PyInt (a mod b)))"
| "num_mod x y =
     (if num_val y = 0 then Inl ZeroDivisionError
      else Inr (PyFloat (num_val x - num_val y * of_int \<lfloor>num_val x / num_val y\<rfloor>)))"

fun num_int :: "pynum \<Rightarrow> int" where
  "num_int (PyInt i) = i"
| "num_int (PyFloat q) = py_trunc q"

lemma num_val_add [simp]: "num_val (num_add x y) = num_val x + num_val y"
  by (cases "(x, y)" rule: num_add.cases) auto

lemma num_val_sub [simp]: "num_val (num_sub x y) = num_val x - num_val y"
  by (cases "(x, y)" rule: num_sub.cases) auto

lemma num_val_mul [simp]: "num_val (num_mul x y) = num_val x * num_val y"
  by (cases "(x, y)" rule: num_mul.cases) auto

lemma num_div_zero [simp]: "num_val y = 0 \<Longrightarrow> num_div x y = Inl ZeroDivisionError"
  by (cases "(x, y)" rule: num_div.cases) auto

lemma num_div_defined: "num_val y \<noteq> 0 \<Longrightarrow> \<exists>z. num_div x y = Inr z"
  by (cases "(x, y)" rule: num_div.cases) auto

lemma num_div_bounds:
  assumes "num_div x y = Inr z"
  shows "num_val z \<le> num_val x / num_val y \<and> num_val x / num_val y < num_val z + 1"
proof (cases "(x, y)" rule: num_div.cases)
  case (1 a b)
  with assms have z: "z = PyInt (a div b)" and "b \<noteq> 0" by (auto split: if_splits)
  have "a div b = \<lfloor>(of_int a :: rat) / of_int b\<rfloor>"
    by (simp add: floor_divide_of_int_eq)
  with 1 z show ?thesis using floor_correct [of "(of_int a :: rat) / of_int b"] by simp
qed (use assms in \<open>auto split: if_splits\<close>)

lemma py_trunc_of_int [simp]: "py_trunc (of_int i) = i"
  unfolding py_trunc_def by (metis add.inverse_inverse floor_of_int of_int_minus)

lemma py_trunc_nonneg: "0 \<le> q \<Longrightarrow> py_trunc q = \<lfloor>q\<rfloor>"
  by (simp add: py_trunc_def)

end
