(* ===== verification/Rad_Util.thy ===== *)
theory Rad_Util
  imports Py_Prelude
begin

text \<open>
  The helper library of the binding generator, \<open>bindings/python/rad_util.py\<close>.

  Modelled: the binary number conversions (\<open>int2bin\<close>, \<open>bin2int\<close>, \<open>binary_range\<close>,
  \<open>lsb\<close>, \<open>gray_encode\<close>), the number theory (\<open>gcf\<close>, \<open>lcm\<close>, \<open>reduce_fraction\<close>, on
  integers), the list functions (\<open>transpose\<close>, \<open>permutations\<close>, \<open>uniquify\<close>,
  \<open>find_common_fixes\<close>, \<open>is_rotated\<close>), the statistics (\<open>quantile\<close>, \<open>trim\<close>), the
  geometry (\<open>polygon_area\<close>, \<open>round_grid\<close>, \<open>float_range\<close>) and the option parser
  (\<open>get_args\<close>). The code is Python 2: \<open>/\<close> on integers rounds down. Floats are exact
  rationals. Names that HOL already uses carry the suffix \<open>_py\<close>.
\<close>

unbundle bit_operations_syntax

section \<open>Definitions\<close>

subsection \<open>Binary strings\<close>

definition hex2bin :: "(char \<times> string) list" where
  "hex2bin =
     [(CHR ''0'', ''0000''), (CHR ''1'', ''0001''), (CHR ''2'', ''0010''), (CHR ''3'', ''0011''),
      (CHR ''4'', ''0100''), (CHR ''5'', ''0101''), (CHR ''6'', ''0110''), (CHR ''7'', ''0111''),
      (CHR ''8'', ''1000''), (CHR ''9'', ''1001''), (CHR ''a'', ''1010''), (CHR ''b'', ''1011''),
      (CHR ''c'', ''1100''), (CHR ''d'', ''1101''), (CHR ''e'', ''1110''), (CHR ''f'', ''1111'')]"

definition py_hex :: "int \<Rightarrow> string" where
  \<comment> \<open>\<open>hex(i)\<close>: lower case, without the \<open>L\<close> of a long, which the caller removes\<close>
  "py_hex i = (if i < 0 then ''-0x'' @ to_base 16 (nat (- i)) else ''0x'' @ to_base 16 (nat i))"

definition int2bin :: "int \<Rightarrow> int \<Rightarrow> string pyres" where
  "int2bin i n =
     rbind (rmap (dict_get hex2bin) (py_slice_from (py_hex i) 2)) (\<lambda>parts.
       let result = concat parts in
       if CHR ''1'' \<in> set (py_slice_to result (- n)) then Inl ValueError
       else
         let result' = py_slice_from result (- n) in
         Inr (replicate (nat (n - int (length result'))) CHR ''0'' @ result'))"

definition bin2int :: "string \<Rightarrow> int pyres" where
  \<comment> \<open>\<open>int(bin_string, 2)\<close>: surrounding blanks, a sign and the prefix \<open>0b\<close> are accepted\<close>
  "bin2int bin_string =
     (let t = py_strip bin_string;
          neg = (case t of [] \<Rightarrow> False | c # _ \<Rightarrow> c = CHR ''-'');
          u = (case t of [] \<Rightarrow> t | c # r \<Rightarrow> if c = CHR ''-'' \<or> c = CHR ''+'' then r else t);
          v = (if prefix ''0b'' u \<or> prefix ''0B'' u then drop 2 u else u)
      in case of_base 2 v of
           None \<Rightarrow> Inl ValueError
         | Some k \<Rightarrow> Inr (if neg then - int k else int k))"

definition reverse_py :: "string \<Rightarrow> string" where
  "reverse_py input_string = rev input_string"

definition lsb :: "int \<Rightarrow> nat \<Rightarrow> int" where
  "lsb x n = x AND (2 ^ n - 1)"

definition gray_encode :: "int \<Rightarrow> int" where
  "gray_encode i = i XOR drop_bit 1 i"

text \<open>
  \<open>binary_range\<close> keeps the current number in \<open>v\<close>, least significant digit first;
  \<open>toggle[i]\<close> is the carry into position \<open>i\<close>. The outer loop has no bound of its own,
  so it is a partial function whose value \<open>None\<close> means that it does not return.
\<close>

function binary_range_carry :: "nat \<Rightarrow> nat \<Rightarrow> string \<Rightarrow> nat list \<Rightarrow> string \<times> nat list" where
  "binary_range_carry bits i v toggle =
     (if i < bits \<and> toggle ! i = 1 then
        (if v ! i = CHR ''0''
         then binary_range_carry bits (Suc i) (v[i := CHR ''1'']) (toggle[Suc i := 0])
         else binary_range_carry bits (Suc i) (v[i := CHR ''0'']) (toggle[Suc i := 1]))
      else (v, toggle))"
  by pat_completeness auto
termination
  by (relation "measure (\<lambda>(bits, i, _). bits - i)") auto

declare binary_range_carry.simps [simp del]

partial_function (option) binary_range_loop ::
  "nat \<Rightarrow> string \<Rightarrow> nat list \<Rightarrow> string list \<Rightarrow> string list option" where
  "binary_range_loop bits v toggle l =
     (if toggle ! bits \<noteq> 1 then
        let l' = l @ [rev v];
            (v', toggle') = binary_range_carry bits 0 v (1 # replicate bits 0)
        in binary_range_loop bits v' toggle' l'
      else Some l)"

definition binary_range :: "nat \<Rightarrow> string list option" where
  "binary_range bits = binary_range_loop bits (replicate bits CHR ''0'') (1 # replicate bits 0) []"

subsection \<open>Number theory\<close>

function gcf_loop :: "int \<Rightarrow> int \<Rightarrow> int" where
  "gcf_loop result remainder =
     (if remainder \<noteq> 0 then gcf_loop remainder (result mod remainder) else result)"
  by pat_completeness auto
termination
  by (relation "measure (\<lambda>(_, r). nat \<bar>r\<bar>)") (auto simp: abs_mod_less)

declare gcf_loop.simps [simp del]

definition gcf :: "int \<Rightarrow> int \<Rightarrow> int" where
  "gcf a b = \<bar>gcf_loop (max a b) (min a b)\<bar>"

definition lcm_py :: "int \<Rightarrow> int \<Rightarrow> int" where
  "lcm_py a b = (let denom = gcf a b in if denom = 0 then 0 else a * (b div denom))"

definition reduce_fraction :: "int \<times> int \<Rightarrow> (int \<times> int) pyres" where
  "reduce_fraction fraction =
     (let (numerator, denominator) = fraction;
          common_factor = \<bar>gcf numerator denominator\<bar>
      in if common_factor = 0 then Inl ZeroDivisionError
         else Inr (numerator div common_factor, denominator div common_factor))"

subsection \<open>Lists\<close>

lemma sum_list_tl_less:
  assumes "m \<noteq> []" and "[] \<notin> set m"
  shows "sum_list (map length (map tl m)) < sum_list (map length m)"
proof -
  have "sum_list (map (length \<circ> tl) m) < sum_list (map length m)"
  proof (rule sum_list_strict_mono)
    show "m \<noteq> []" by (rule assms)
    show "(length \<circ> tl) x < length x" if "x \<in> set m" for x
    proof -
      from that assms(2) have "x \<noteq> []" by metis
      then show ?thesis by simp
    qed
  qed
  then show ?thesis by simp
qed

function transpose_py :: "'a list list \<Rightarrow> 'a list list" where
  \<comment> \<open>\<open>zip(*matrix)\<close> stops at the shortest row\<close>
  "transpose_py matrix =
     (if matrix = [] \<or> [] \<in> set matrix then []
      else map hd matrix # transpose_py (map tl matrix))"
  by pat_completeness auto
termination
  by (relation "measure (\<lambda>m. sum_list (map length m))")
     (auto simp del: map_map simp: sum_list_tl_less)

declare transpose_py.simps [simp del]

fun permutations :: "'a list \<Rightarrow> 'a list list" where
  "permutations [] = [[]]"
| "permutations [x] = [[x]]"
| "permutations (item # x # xs) =
     concat (map (\<lambda>sub_list. map (\<lambda>i. take i sub_list @ item # drop i sub_list)
                               [0..<length (item # x # xs)])
                 (permutations (x # xs)))"

text \<open>
  \<open>uniquify\<close>: \<open>hashable\<close> says whether the items can be dictionary keys (otherwise the
  first insertion raises \<open>TypeError\<close> and the slow loop runs), \<open>hord\<close> is the iteration
  order of the dictionary.
\<close>

fun uniquify_ordered :: "'a list \<Rightarrow> 'a list \<Rightarrow> 'a list" where
  "uniquify_ordered d [] = []"
| "uniquify_ordered d (x # xs) =
     (if x \<notin> set d then x # uniquify_ordered (x # d) xs else uniquify_ordered d xs)"

fun uniquify_keys :: "('a \<times> int) list \<Rightarrow> 'a list \<Rightarrow> ('a \<times> int) list" where
  "uniquify_keys d [] = d"
| "uniquify_keys d (x # xs) = uniquify_keys (AList.update x 0 d) xs"

fun uniquify_slow :: "'a list \<Rightarrow> 'a list \<Rightarrow> 'a list" where
  "uniquify_slow result [] = result"
| "uniquify_slow result (x # xs) =
     (if x \<notin> set result then uniquify_slow (result @ [x]) xs else uniquify_slow result xs)"

definition uniquify :: "bool \<Rightarrow> ('a list \<Rightarrow> 'a list) \<Rightarrow> 'a list \<Rightarrow> bool \<Rightarrow> 'a list" where
  "uniquify hashable hord seq preserve_order =
     (if seq = [] \<or> hashable then
        (if preserve_order then uniquify_ordered [] seq else hord (keys (uniquify_keys [] seq)))
      else uniquify_slow [] seq)"

fun reverse_dict_loop :: "('v \<times> 'k) list \<Rightarrow> ('k \<times> 'v) list \<Rightarrow> ('v \<times> 'k) list" where
  "reverse_dict_loop result [] = result"
| "reverse_dict_loop result ((key, value) # items) =
     reverse_dict_loop (AList.update value key result) items"

definition reverse_dict :: "('k \<times> 'v) list \<Rightarrow> ('v \<times> 'k) list" where
  "reverse_dict d = reverse_dict_loop [] d"

function common_prefix_loop :: "string \<Rightarrow> string \<Rightarrow> nat \<Rightarrow> nat \<Rightarrow> string \<Rightarrow> string" where
  "common_prefix_loop s1 s2 common_len i acc =
     (if i < common_len then
        (if s1 ! i \<noteq> s2 ! i then acc
         else common_prefix_loop s1 s2 common_len (Suc i) (acc @ [s1 ! i]))
      else acc)"
  by pat_completeness auto
termination
  by (relation "measure (\<lambda>(_, _, n, i, _). n - i)") auto

function common_suffix_loop :: "string \<Rightarrow> string \<Rightarrow> nat \<Rightarrow> nat \<Rightarrow> string \<Rightarrow> string" where
  \<comment> \<open>\<open>s[-i]\<close> with \<open>1 \<le> i \<le> len(s)\<close> is the item at \<open>len(s) - i\<close>\<close>
  "common_suffix_loop s1 s2 common_len i acc =
     (if i < common_len + 1 then
        (if s1 ! (length s1 - i) \<noteq> s2 ! (length s2 - i) then acc
         else common_suffix_loop s1 s2 common_len (Suc i) (acc @ [s1 ! (length s1 - i)]))
      else acc)"
  by pat_completeness auto
termination
  by (relation "measure (\<lambda>(_, _, n, i, _). Suc n - i)") auto

declare common_prefix_loop.simps [simp del] common_suffix_loop.simps [simp del]

definition find_common_fixes :: "string \<Rightarrow> string \<Rightarrow> string \<times> string" where
  "find_common_fixes s1 s2 =
     (let common_len = min (length s1) (length s2)
      in (common_prefix_loop s1 s2 common_len 0 [],
          rev (common_suffix_loop s1 s2 common_len 1 [])))"

definition is_rotated :: "'a list \<Rightarrow> 'a list \<Rightarrow> bool pyres" where
  "is_rotated seq1 seq2 =
     (if length seq1 \<noteq> length seq2 then Inr False
      else rbind (py_index seq2 0) (\<lambda>head_item.
        let start_indexes = filter (\<lambda>i. seq1 ! i = head_item) [0..<length seq1];
            double_seq1 = seq1 @ seq1
        in Inr (list_ex (\<lambda>i. py_slice double_seq1 (int i) (int i + int (length seq1)) = seq2)
                        start_indexes)))"

subsection \<open>Statistics and geometry\<close>

definition quantile :: "rat list \<Rightarrow> rat \<Rightarrow> rat pyres" where
  "quantile l p =
     (let l_sort = sort l;
          n = int (length l);
          r = 1 + of_int (n - 1) * p;
          i = py_trunc r;
          f = r - of_int i
      in if i < n then
           rbind (py_index l_sort (i - 1)) (\<lambda>a.
             rbind (py_index l_sort i) (\<lambda>b. Inr ((1 - f) * a + f * b)))
         else py_index l_sort (i - 1))"

definition trim :: "rat list \<Rightarrow> rat list pyres" where
  "trim l =
     (let l_sort = sort l; index = int (length l_sort) div 2
      in rbind (if length l_sort mod 2 = 0
                then rbind (py_index l_sort index) (\<lambda>a.
                       rbind (py_index l_sort (index - 1)) (\<lambda>b. Inr ((a + b) / 2)))
                else py_index l_sort index) (\<lambda>median.
         rbind (quantile l_sort (1 / 4)) (\<lambda>q1.
         rbind (quantile l_sort (3 / 4)) (\<lambda>q3.
           let iqr = q3 - q1; iqr_extra = iqr * (3 / 2)
           in Inr (filter (\<lambda>x. x \<ge> q1 - iqr_extra \<and> x \<le> q3 + iqr_extra) l_sort)))))"

fun shoelace :: "(int \<times> int) list \<Rightarrow> int \<Rightarrow> int" where
  \<comment> \<open>the accumulation loop of \<open>polygon_area\<close>\<close>
  "shoelace ((x, y) # (x', y') # ps) area = shoelace ((x', y') # ps) (area + x' * y - y' * x)"
| "shoelace _ area = area"

definition polygon_area :: "(rat \<times> rat) list \<Rightarrow> int \<Rightarrow> (rat \<times> (int \<times> int) list) pyres" where
  \<comment> \<open>the scaled and closed list is written back to the caller's \<open>points_list\<close>\<close>
  "polygon_area points_list precision =
     (let pts = map (\<lambda>(x, y). (py_trunc (x * of_int precision), py_trunc (y * of_int precision)))
                    points_list
      in rbind (py_index pts (- 1)) (\<lambda>final.
         rbind (py_index pts 0) (\<lambda>first.
           let closed = (if final \<noteq> first then pts @ [first] else pts);
               area = \<bar>shoelace closed 0 div 2\<bar>
           in if precision = 0 then Inl ZeroDivisionError
              else Inr (of_int area / of_int (precision ^ 2), closed))))"

partial_function (option) float_range_loop :: "rat \<Rightarrow> rat \<Rightarrow> rat \<Rightarrow> rat list \<Rightarrow> rat list option" where
  "float_range_loop cur stop step l =
     (if cur < stop then float_range_loop (cur + step) stop step (l @ [cur]) else Some l)"

definition float_range :: "rat \<Rightarrow> rat option \<Rightarrow> rat option \<Rightarrow> rat list option" where
  "float_range start stop step =
     (let stop' = (case stop of None \<Rightarrow> start | Some s \<Rightarrow> s);
          start' = (case stop of None \<Rightarrow> 0 | Some _ \<Rightarrow> start);
          step' = (case step of None \<Rightarrow> 1 | Some s \<Rightarrow> s)
      in float_range_loop start' stop' step' [])"

definition round_grid :: "pynum \<Rightarrow> pynum \<Rightarrow> int \<Rightarrow> pynum pyres" where
  \<comment> \<open>no branch assigns \<open>add_one\<close> when \<open>mode\<close> is 1 or -1 and \<open>value\<close> is on the grid, or
    when \<open>mode\<close> is any other number\<close>
  "round_grid v grid mode =
     rbind (num_mod v grid) (\<lambda>off_grid.
       rbind (if mode = 0 then Inr (if num_val off_grid \<ge> num_val grid / 2 then 1 else 0)
              else if mode = 1 \<and> num_val off_grid \<noteq> 0 then Inr 1
              else if mode = - 1 \<and> num_val off_grid \<noteq> 0 then Inr 0
              else Inl UnboundLocalError) (\<lambda>add_one.
         rbind (num_div v grid) (\<lambda>q. Inr (num_mul (PyInt (num_int q + add_one)) grid))))"

subsection \<open>Command-line options\<close>

datatype arg_value = NoValue | OneValue string | ArgList "string list"

fun get_args_loop ::
  "(string \<times> arg_value) list \<Rightarrow> string list \<Rightarrow> string list \<Rightarrow> (string \<times> arg_value) list \<times> string list"
where
  "get_args_loop d args [] = (d, args)"
| "get_args_loop d args (arg # argv) =
     (if prefix ''-'' arg then
        let parts = py_split CHR ''='' (dropWhile (\<lambda>c. c = CHR ''-'') arg)
        in if length parts = 2
           then get_args_loop (AList.update (parts ! 0) (OneValue (parts ! 1)) d) args argv
           else get_args_loop (AList.update (parts ! 0) NoValue d) args argv
      else get_args_loop d (args @ [arg]) argv)"

definition get_args :: "string list \<Rightarrow> (string \<times> arg_value) list" where
  "get_args argv = (let (d, args) = get_args_loop [] [] argv
                    in AList.update ''args'' (ArgList args) d)"

section \<open>Binary strings\<close>

text \<open>The value of a string of binary digits, most significant first.\<close>

definition bval :: "string \<Rightarrow> nat" where
  "bval s = foldl (\<lambda>a c. 2 * a + (if c = CHR ''1'' then 1 else 0)) 0 s"

abbreviation binary :: "string \<Rightarrow> bool" where
  "binary s \<equiv> set s \<subseteq> {CHR ''0'', CHR ''1''}"

lemma bval_foldl:
  "foldl (\<lambda>a c. 2 * a + (if c = CHR ''1'' then 1 else 0)) a s = a * 2 ^ length s + bval s"
proof (induction s arbitrary: a)
  case Nil
  then show ?case by (simp add: bval_def)
next
  case (Cons c s)
  have "bval (c # s) = (if c = CHR ''1'' then 1 else 0) * 2 ^ length s + bval s"
    using Cons.IH [of "if c = CHR ''1'' then 1 else 0"] by (simp add: bval_def)
  then show ?case
    using Cons.IH [of "2 * a + (if c = CHR ''1'' then 1 else 0)"] by (simp add: algebra_simps)
qed

lemma bval_append: "bval (xs @ ys) = bval xs * 2 ^ length ys + bval ys"
  using bval_foldl [of "bval xs" ys] by (simp add: bval_def)

lemma bval_Nil [simp]: "bval [] = 0"
  by (simp add: bval_def)

lemma bval_Cons: "bval (c # s) = (if c = CHR ''1'' then 1 else 0) * 2 ^ length s + bval s"
  using bval_append [of "[c]" s] by (simp add: bval_def)

lemma bval_less: "bval s < 2 ^ length s"
  by (induction s) (auto simp: bval_Cons)

lemma bval_zero_iff: "bval s = 0 \<longleftrightarrow> CHR ''1'' \<notin> set s"
  by (induction s) (auto simp: bval_Cons)

lemma bval_zeros: "bval (replicate k CHR ''0'' @ s) = bval s"
  by (simp add: bval_append bval_zero_iff)

lemma bval_inj:
  "length s = length t \<Longrightarrow> binary s \<Longrightarrow> binary t \<Longrightarrow> bval s = bval t \<Longrightarrow> s = t"
proof (induction s t rule: list_induct2)
  case Nil
  then show ?case by simp
next
  case (Cons c s d t)
  have lt: "bval s < 2 ^ length s" "bval t < 2 ^ length s"
    using bval_less [of s] bval_less [of t] Cons.hyps by auto
  have "c = CHR ''0'' \<or> c = CHR ''1''" "d = CHR ''0'' \<or> d = CHR ''1''"
    using Cons.prems by auto
  with Cons lt show ?case by (auto simp: bval_Cons)
qed

lemma of_base_2_bval: "binary s \<Longrightarrow> of_base_acc 2 a s = Some (a * 2 ^ length s + bval s)"
proof (induction s arbitrary: a)
  case Nil
  then show ?case by simp
next
  case (Cons c s)
  have "digit_val CHR ''0'' = Some 0" "digit_val CHR ''1'' = Some 1"
    using digit_val_char [of 0] digit_val_char [of 1]
    by (simp_all add: digit_char_def digit_chars_def)
  with Cons show ?case by (auto simp: bval_Cons algebra_simps)
qed

lemma binary_not_space: "binary s \<Longrightarrow> py_strip s = s"
proof -
  assume b: "binary s"
  have d: "dropWhile is_space t = t" if "binary t" for t
    using that by (cases t) (auto simp: is_space_def)
  from b have "binary (rev s)" by simp
  with b show ?thesis by (simp add: py_strip_def d)
qed

lemma bin2int_binary: "binary s \<Longrightarrow> s \<noteq> [] \<Longrightarrow> bin2int s = Inr (int (bval s))"
proof -
  assume b: "binary s" and ne: "s \<noteq> []"
  then obtain c r where s: "s = c # r" by (cases s) auto
  from b s have c: "c \<noteq> CHR ''-''" "c \<noteq> CHR ''+''" by auto
  have "\<not> prefix ''0b'' s" "\<not> prefix ''0B'' s"
    using b by (auto simp: prefix_def)
  moreover have "of_base 2 s = Some (bval s)"
    using of_base_2_bval [OF b, of 0] ne by (simp add: of_base_def)
  moreover from c s have "(case s of [] \<Rightarrow> False | d # _ \<Rightarrow> d = CHR ''-'') = False"
    "(case s of [] \<Rightarrow> s | d # r \<Rightarrow> if d = CHR ''-'' \<or> d = CHR ''+'' then r else s) = s"
    by simp_all
  ultimately show ?thesis
    using b by (simp only: bin2int_def binary_not_space Let_def) simp
qed

lemma hex2bin_digit:
  assumes "d < 16"
  obtains b where "map_of hex2bin (digit_char d) = Some b" "length b = 4" "binary b" "bval b = d"
proof -
  have "\<forall>d \<in> set [0..<16]. case map_of hex2bin (digit_char d) of
      None \<Rightarrow> False | Some b \<Rightarrow> length b = 4 \<and> binary b \<and> bval b = d"
    by (simp add: upt_rec hex2bin_def digit_char_def digit_chars_def bval_def)
  with assms have "case map_of hex2bin (digit_char d) of
      None \<Rightarrow> False | Some b \<Rightarrow> length b = 4 \<and> binary b \<and> bval b = d"
    by (simp only: set_upt atLeastLessThan_iff) simp
  with that show thesis by (cases "map_of hex2bin (digit_char d)") auto
qed

lemma hex_digits_to_bits:
  "\<exists>parts. rmap (dict_get hex2bin) (to_base 16 n) = Inr parts \<and>
     binary (concat parts) \<and> bval (concat parts) = n"
proof (induction "16::nat" n rule: to_base.induct)
  case (1 n)
  obtain b where b: "map_of hex2bin (digit_char (n mod 16)) = Some b" "length b = 4"
      "binary b" "bval b = n mod 16"
    by (rule hex2bin_digit [of "n mod 16"]) auto
  then have one: "dict_get hex2bin (digit_char (n mod 16)) = Inr b"
    by (simp add: dict_get_def)
  show ?case
  proof (cases "n < 16")
    case True
    with b one show ?thesis by (simp add: to_base.simps [of 16 n])
  next
    case False
    with 1 obtain parts where p: "rmap (dict_get hex2bin) (to_base 16 (n div 16)) = Inr parts"
        "binary (concat parts)" "bval (concat parts) = n div 16"
      by auto
    with False b one show ?thesis
      by (simp add: to_base.simps [of 16 n] rmap_append bval_append)
  qed
qed

lemma int2bin_nat:
  assumes "0 \<le> i" and "0 < n"
  obtains s where "binary s" "bval s = nat i"
    "int2bin i (int n) =
       (if CHR ''1'' \<in> set (take (length s - n) s) then Inl ValueError
        else Inr (replicate (n - length s) CHR ''0'' @ drop (length s - n) s))"
proof -
  obtain parts where p: "rmap (dict_get hex2bin) (to_base 16 (nat i)) = Inr parts"
      "binary (concat parts)" "bval (concat parts) = nat i"
    using hex_digits_to_bits by blast
  have "py_slice_from (py_hex i) 2 = to_base 16 (nat i)"
    using assms(1) py_clamp_nat [of _ 2] by (simp add: py_hex_def py_slice_from_def)
  with p assms(2) show thesis
    by (intro that [of "concat parts"])
       (auto simp: int2bin_def py_slice_to_def py_slice_from_def py_clamp_neg Let_def
         nat_diff_distrib' min_def intro!: arg_cong [where f = "\<lambda>k. replicate k _"])
qed

lemma int2bin_fits:
  assumes "0 \<le> i" and "0 < n" and "i < 2 ^ n"
  shows "\<exists>s. int2bin i (int n) = Inr s \<and> length s = n \<and> binary s \<and> bval s = nat i"
proof -
  obtain s where s: "binary s" "bval s = nat i"
    and eq: "int2bin i (int n) =
       (if CHR ''1'' \<in> set (take (length s - n) s) then Inl ValueError
        else Inr (replicate (n - length s) CHR ''0'' @ drop (length s - n) s))"
    using assms(1,2) by (rule int2bin_nat)
  let ?p = "take (length s - n) s" and ?q = "drop (length s - n) s"
  have val: "bval s = bval ?p * 2 ^ length ?q + bval ?q"
    by (metis append_take_drop_id bval_append)
  have "bval ?p = 0"
  proof (cases "n \<le> length s")
    case True
    then have "length ?q = n" by simp
    moreover have "bval s < 2 ^ n" using s(2) assms(1,3) by (simp add: nat_less_iff)
    ultimately show ?thesis using val by (cases "bval ?p") auto
  next
    case False
    then show ?thesis by simp
  qed
  with val have "CHR ''1'' \<notin> set ?p" "bval ?q = nat i"
    using s(2) by (auto simp: bval_zero_iff)
  moreover have "binary (replicate (n - length s) CHR ''0'' @ ?q)"
    using s(1) set_drop_subset [of _ s] by auto
  ultimately show ?thesis using eq by (auto simp: bval_zeros)
qed

lemma int2bin_too_large:
  assumes "0 < n" and "2 ^ n \<le> i"
  shows "int2bin i (int n) = Inl ValueError"
proof -
  have i: "0 \<le> i" using assms(2) by (meson order_trans zero_le_numeral zero_le_power)
  obtain s where s: "binary s" "bval s = nat i"
    and eq: "int2bin i (int n) =
       (if CHR ''1'' \<in> set (take (length s - n) s) then Inl ValueError
        else Inr (replicate (n - length s) CHR ''0'' @ drop (length s - n) s))"
    using i assms(1) by (rule int2bin_nat)
  have ge: "2 ^ n \<le> bval s" using s(2) assms(2) i by (simp add: le_nat_iff)
  with bval_less [of s] have "(2::nat) ^ n < 2 ^ length s" by linarith
  then have len: "n < length s" by simp
  let ?p = "take (length s - n) s" and ?q = "drop (length s - n) s"
  have "bval s = bval ?p * 2 ^ n + bval ?q"
    using bval_append [of ?p ?q] len by simp
  moreover have "bval ?q < 2 ^ n" using bval_less [of ?q] len by simp
  ultimately have "bval ?p \<noteq> 0" using ge by (cases "bval ?p = 0") auto
  with eq show ?thesis by (simp add: bval_zero_iff)
qed

section \<open>Gray code and bit masks\<close>

lemma xor_self_shift_zero: "(d::int) XOR drop_bit 1 d = 0 \<Longrightarrow> 0 \<le> d \<Longrightarrow> d = 0"
proof -
  assume "d XOR drop_bit 1 d = 0" and "0 \<le> d"
  then have "d = drop_bit 1 d" by (metis xor.right_neutral xor_self_eq xor.assoc)
  then have "d = d div 2" by (simp add: drop_bit_eq_div)
  with \<open>0 \<le> d\<close> show "d = 0" by linarith
qed

lemma gray_encode_xor: "gray_encode i XOR gray_encode j = (i XOR j) XOR drop_bit 1 (i XOR j)"
  by (rule bit_eqI) (auto simp: gray_encode_def bit_simps)

lemma xor_succ_odd: "i XOR (i + 1) = 2 * (i div 2 XOR (i div 2 + 1)) + 1" if odd_i: "odd (i::int)"
proof -
  obtain j where i: "i = 2 * j + 1" using odd_i by (rule oddE)
  have "i XOR (i + 1) = of_bool (odd i \<noteq> odd (i + 1)) + 2 * (i div 2 XOR (i + 1) div 2)"
    by (rule xor_int_rec)
  moreover have "(i + 1) div 2 = i div 2 + 1" using i by simp
  ultimately show ?thesis using odd_i by simp
qed

lemma xor_succ_step:
  "odd m \<Longrightarrow> (2 * m + 1) XOR drop_bit 1 (2 * m + 1) = 2 * (m XOR drop_bit 1 (m::int))"
  by (subst xor_int_rec) (simp add: drop_bit_eq_div)

lemma xor_succ_props:
  "odd (int n XOR (int n + 1)) \<and>
   (\<exists>k. (int n XOR (int n + 1)) XOR drop_bit 1 (int n XOR (int n + 1)) = 2 ^ k)"
proof (induction n rule: less_induct)
  case (less n)
  show ?case
  proof (cases "even n")
    case True
    then obtain j where "n = 2 * j" by (auto elim: evenE)
    then have "int n XOR (int n + 1) = 1"
      by (subst xor_int_rec) simp
    then show ?thesis by (auto intro: exI [of _ 0])
  next
    case False
    let ?m = "int (n div 2) XOR (int (n div 2) + 1)"
    have "n div 2 < n" using False by (cases n) auto
    with less.IH obtain k where m: "odd ?m" "?m XOR drop_bit 1 ?m = 2 ^ k" by blast
    have eq: "int n XOR (int n + 1) = 2 * ?m + 1"
      using False by (subst xor_succ_odd) (auto simp: zdiv_int)
    have "(2 * ?m + 1) XOR drop_bit 1 (2 * ?m + 1) = 2 ^ Suc k"
      unfolding xor_succ_step [OF m(1)] m(2) by simp
    with eq show ?thesis by (metis even_plus_one_iff dvd_triv_left)
  qed
qed

lemma gray_encode_inj:
  assumes "0 \<le> i" "0 \<le> j" "gray_encode i = gray_encode j"
  shows "i = j"
proof -
  have "(i XOR j) XOR drop_bit 1 (i XOR j) = 0"
    using gray_encode_xor [of i j] assms(3) by simp
  moreover have "0 \<le> i XOR j" using assms(1,2) by simp
  ultimately have "i XOR j = 0" by (rule xor_self_shift_zero)
  then show ?thesis by (metis xor.right_neutral xor_self_eq xor.assoc)
qed

lemma lsb_mod: "lsb x n = x mod 2 ^ n"
  by (simp add: lsb_def take_bit_eq_mod [symmetric] take_bit_eq_mask mask_eq_exp_minus_1)

section \<open>Number theory\<close>

lemma gcf_loop_gcd: "\<bar>gcf_loop a b\<bar> = gcd a b"
proof (induction a b rule: gcf_loop.induct)
  case (1 a b)
  show ?case
  proof (cases "b = 0")
    case True
    then show ?thesis by (simp add: gcf_loop.simps)
  next
    case False
    with 1 show ?thesis by (simp add: gcf_loop.simps [of a b] gcd_red_int [symmetric])
  qed
qed

lemma gcf_gcd: "gcf a b = gcd a b"
  by (auto simp: gcf_def gcf_loop_gcd max_def min_def gcd.commute)

lemma lcm_py_abs: "\<bar>lcm_py a b\<bar> = lcm a b"
proof (cases "gcd a b = 0")
  case True
  then show ?thesis by (simp add: lcm_py_def gcf_gcd)
next
  case False
  have "lcm_py a b * gcd a b = a * b"
    using False by (simp add: lcm_py_def gcf_gcd)
  then have "\<bar>lcm_py a b\<bar> * gcd a b = lcm a b * gcd a b"
    by (metis abs_gcd_int abs_mult lcm_mult_gcd mult.commute normalize_int_def)
  with False show ?thesis by (metis mult_right_cancel)
qed

lemma reduce_fraction_coprime:
  assumes "(n, d) \<noteq> (0, 0)"
  shows "\<exists>n' d'. reduce_fraction (n, d) = Inr (n', d') \<and> coprime n' d' \<and> n * d' = d * n' \<and>
           (\<exists>k > 0. n = k * n' \<and> d = k * d')"
proof -
  let ?g = "gcd n d"
  have g: "?g > 0" using assms by (simp add: gcd_pos_int)
  have "n = ?g * (n div ?g)" "d = ?g * (d div ?g)" by simp_all
  moreover have "coprime (n div ?g) (d div ?g)"
    using assms by (intro div_gcd_coprime) auto
  moreover have "n * (d div ?g) = d * (n div ?g)"
    by (metis dvd_div_mult gcd_dvd1 gcd_dvd2 mult.commute)
  moreover have "reduce_fraction (n, d) = Inr (n div ?g, d div ?g)"
    using g by (simp add: reduce_fraction_def gcf_gcd Let_def)
  ultimately show ?thesis using g by blast
qed

section \<open>Lists\<close>

lemma rotate_slice:
  assumes "i < length xs"
  shows "py_slice (xs @ xs) (int i) (int i + int (length xs)) = rotate i xs"
proof -
  have "py_slice (xs @ xs) (int i) (int (i + length xs)) = drop i xs @ take i xs"
    using assms unfolding py_slice_def py_clamp_nat Let_def by (simp add: min_def)
  then show ?thesis using assms by (simp add: rotate_drop_take)
qed

lemma is_rotated_rotate:
  assumes "ys \<noteq> []"
  shows "is_rotated xs ys = Inr (\<exists>n. ys = rotate n xs)"
proof (cases "length xs = length ys")
  case False
  then show ?thesis by (auto simp: is_rotated_def)
next
  case True
  with assms have xs: "xs \<noteq> []" by auto
  have hd0: "py_index ys 0 = Inr (hd ys)"
    using assms py_index_nat [of 0 ys] by (simp add: hd_conv_nth)
  have "(\<exists>i < length xs. xs ! i = hd ys \<and>
           py_slice (xs @ xs) (int i) (int i + int (length xs)) = ys) \<longleftrightarrow> (\<exists>n. ys = rotate n xs)"
    (is "?l \<longleftrightarrow> ?r")
  proof
    assume ?l
    then show ?r using rotate_slice by metis
  next
    assume ?r
    then obtain n where n: "ys = rotate (n mod length xs) xs" by (metis rotate_conv_mod)
    have lt: "n mod length xs < length xs" using xs by simp
    with n have "hd ys = xs ! (n mod length xs)" by (simp add: hd_rotate_conv_nth xs)
    with n lt rotate_slice [OF lt] show ?l by auto
  qed
  with True hd0 show ?thesis
    by (auto simp: is_rotated_def Let_def list_ex_iff)
qed

lemma is_rotated_empty: "is_rotated [] [] = Inl IndexError"
  by (simp add: is_rotated_def py_index_def Let_def)

lemma set_insertions:
  "set (map (\<lambda>i. take i s @ x # drop i s) [0..<Suc (length s)]) = {u @ x # v | u v. s = u @ v}"
proof (intro equalityI subsetI)
  fix t
  assume "t \<in> set (map (\<lambda>i. take i s @ x # drop i s) [0..<Suc (length s)])"
  then obtain i where "t = take i s @ x # drop i s" unfolding set_map by blast
  then show "t \<in> {u @ x # v | u v. s = u @ v}" by (metis (mono_tags, lifting) CollectI append_take_drop_id)
next
  fix t
  assume "t \<in> {u @ x # v | u v. s = u @ v}"
  then obtain u v where "t = u @ x # v" "s = u @ v" by auto
  then show "t \<in> set (map (\<lambda>i. take i s @ x # drop i s) [0..<Suc (length s)])"
    by (auto intro!: image_eqI [of _ _ "length u"])
qed

lemma permutations_length: "p \<in> set (permutations xs) \<Longrightarrow> length p = length xs"
  by (induction xs arbitrary: p rule: permutations.induct) auto

lemma permutations_set: "set (permutations xs) = {ys. mset ys = mset xs}"
proof (induction xs rule: permutations.induct)
  case 1
  then show ?case by simp
next
  case (2 x)
  then show ?case by auto
next
  case (3 item x xs)
  have len: "\<And>s. s \<in> set (permutations (x # xs)) \<Longrightarrow> length (item # x # xs) = Suc (length s)"
    by (simp add: permutations_length)
  have "set (permutations (item # x # xs)) =
      (\<Union>s \<in> set (permutations (x # xs)).
         set (map (\<lambda>i. take i s @ item # drop i s) [0..<Suc (length s)]))"
    using len by (force simp: permutations_length)
  also have "\<dots> = (\<Union>s \<in> set (permutations (x # xs)). {u @ item # v | u v. s = u @ v})"
    unfolding set_insertions ..
  also have "\<dots> = {ys. mset ys = mset (item # x # xs)}"
  proof (intro equalityI subsetI)
    fix ys
    assume "ys \<in> {ys. mset ys = mset (item # x # xs)}"
    then have m: "mset ys = mset (item # x # xs)" by simp
    then have "item \<in> set ys" by (metis list.set_intros(1) set_mset_mset)
    then obtain u v where ys: "ys = u @ item # v" by (meson split_list)
    with m have "u @ v \<in> set (permutations (x # xs))" by (simp add: 3)
    with ys show "ys \<in> (\<Union>s \<in> set (permutations (x # xs)). {u @ item # v | u v. s = u @ v})"
      by blast
  qed (auto simp: 3)
  finally show ?case .
qed

lemma permutations_count: "length (permutations xs) = fact (length xs)"
proof (induction xs rule: permutations.induct)
  case (3 item x xs)
  then show ?case by (simp add: length_concat comp_def sum_list_triv)
qed auto

lemma insertions_inj:
  assumes "x \<notin> set (u @ v)" "x \<notin> set (u' @ v')" "u @ x # v = u' @ x # v'"
  shows "u = u' \<and> v = v'"
  using assms by (auto simp: append_eq_append_conv2 Cons_eq_append_conv append_eq_Cons_conv)

lemma permutations_distinct: "distinct xs \<Longrightarrow> distinct (permutations xs)"
proof -
  assume d: "distinct xs"
  have "card (set (permutations xs)) = fact (length xs)"
  proof -
    have "set (permutations xs) = {ys. length ys = length xs \<and> distinct ys \<and> set ys \<subseteq> set xs}"
    proof (intro equalityI subsetI)
      fix ys assume "ys \<in> set (permutations xs)"
      then have "mset ys = mset xs" by (simp add: permutations_set)
      then show "ys \<in> {ys. length ys = length xs \<and> distinct ys \<and> set ys \<subseteq> set xs}"
        using d by (metis (mono_tags, lifting) CollectI mset_eq_imp_distinct_iff set_mset_mset size_mset subset_refl)
    next
      fix ys assume "ys \<in> {ys. length ys = length xs \<and> distinct ys \<and> set ys \<subseteq> set xs}"
      then have ys: "length ys = length xs" "distinct ys" "set ys \<subseteq> set xs" by auto
      then have "set ys = set xs"
        using d by (metis List.finite_set card_subset_eq distinct_card)
      with ys d have "mset ys = mset xs" by (simp add: set_eq_iff_mset_eq_distinct)
      then show "ys \<in> set (permutations xs)" by (simp add: permutations_set)
    qed
    then show ?thesis
      using card_lists_distinct_length_eq [of "set xs" "length xs"] d
      by (simp only: distinct_card fact_prod) simp
  qed
  then show ?thesis by (metis card_distinct permutations_count)
qed

lemma transpose_py_rect:
  assumes "m \<noteq> []" and "\<forall>row \<in> set m. length row = k"
  shows "transpose_py m = map (\<lambda>j. map (\<lambda>row. row ! j) m) [0..<k]"
  using assms
proof (induction k arbitrary: m)
  case 0
  then have "[] \<in> set m" by (metis length_0_conv list.set_intros(1) neq_Nil_conv)
  then show ?case by (simp add: transpose_py.simps [of m])
next
  case (Suc k)
  have ne: "[] \<notin> set m" using Suc.prems(2) by auto
  have "transpose_py (map tl m) = map (\<lambda>j. map (\<lambda>row. row ! j) (map tl m)) [0..<k]"
    by (rule Suc.IH) (use Suc.prems in auto)
  moreover have "tl row ! j = row ! Suc j \<and> hd row = row ! 0" if "row \<in> set m" for row j
  proof -
    from that Suc.prems(2) have "row \<noteq> []" by auto
    then obtain x xs where "row = x # xs" by (meson neq_Nil_conv)
    then show ?thesis by simp
  qed
  ultimately have "transpose_py m =
      map (\<lambda>row. row ! 0) m # map (\<lambda>j. map (\<lambda>row. row ! Suc j) m) [0..<k]"
    using Suc.prems(1) ne by (simp add: transpose_py.simps [of m] cong: map_cong)
  also have "\<dots> = map (\<lambda>j. map (\<lambda>row. row ! j) m) (0 # map Suc [0..<k])"
    by simp
  also have "0 # map Suc [0..<k] = [0..<Suc k]"
    by (simp only: map_Suc_upt) (simp add: upt_conv_Cons)
  finally show ?case .
qed

lemma uniquify_ordered_props:
  "distinct (uniquify_ordered d xs)" "set (uniquify_ordered d xs) = set xs - set d"
  by (induction d xs rule: uniquify_ordered.induct) auto

lemma uniquify_ordered_subseq: "subseq (uniquify_ordered d xs) xs"
  by (induction d xs rule: uniquify_ordered.induct) auto

lemma uniquify_ordered_cong:
  "set d = set e \<Longrightarrow> uniquify_ordered d xs = uniquify_ordered e xs"
proof (induction xs arbitrary: d e)
  case (Cons x xs)
  from Cons.prems have "set (x # d) = set (x # e)" by simp
  from Cons.IH [OF this] Cons.IH [OF Cons.prems] Cons.prems show ?case by simp
qed simp

lemma uniquify_slow_eq: "uniquify_slow r xs = r @ uniquify_ordered r xs"
proof (induction r xs rule: uniquify_slow.induct)
  case (2 r x xs)
  have "uniquify_ordered (r @ [x]) xs = uniquify_ordered (x # r) xs"
    by (rule uniquify_ordered_cong) simp
  with 2 show ?case by simp
qed simp

lemma uniquify_keys_props:
  "dict_ok d \<Longrightarrow> dict_ok (uniquify_keys d xs) \<and>
     set (keys (uniquify_keys d xs)) = set (keys d) \<union> set xs"
proof (induction d xs rule: uniquify_keys.induct)
  case (2 d x xs)
  then show ?case by (auto simp del: set_map simp: keys_update)
qed simp

lemma reverse_dict_loop_lookup:
  assumes "distinct (map snd items)"
  shows "map_of (reverse_dict_loop r items) v =
     (case map_of (map (\<lambda>(k, v). (v, k)) items) v of Some k \<Rightarrow> Some k | None \<Rightarrow> map_of r v)"
  using assms
proof (induction r items rule: reverse_dict_loop.induct)
  case (2 r k w items)
  show ?case
  proof (cases "v = w")
    case True
    with 2 have "map_of (map (\<lambda>(k, v). (v, k)) items) v = None"
      by (force simp: map_of_eq_None_iff)
    with 2 True show ?thesis by (simp add: update_conv')
  next
    case False
    with 2 show ?thesis by (simp add: update_conv' split: option.split)
  qed
qed simp

lemma reverse_dict_lookup:
  assumes "dict_ok d" and "distinct (map snd d)"
  shows "map_of (reverse_dict d) v = Some k \<longleftrightarrow> map_of d k = Some v"
proof -
  let ?r = "map (\<lambda>(k, v). (v, k)) d"
  have "distinct (map fst ?r)" using assms(2) by (simp add: comp_def case_prod_beta)
  then have "map_of ?r v = Some k \<longleftrightarrow> (v, k) \<in> set ?r" by (rule map_of_eq_Some_iff)
  also have "\<dots> \<longleftrightarrow> (k, v) \<in> set d" by auto
  also have "\<dots> \<longleftrightarrow> map_of d k = Some v"
    using assms(1) by (simp add: dict_ok_def map_of_eq_Some_iff)
  finally show ?thesis
    unfolding reverse_dict_def reverse_dict_loop_lookup [OF assms(2)]
    by (cases "map_of ?r v") auto
qed

lemma common_prefix_loop_eq:
  assumes "n \<le> length s1" "n \<le> length s2" "i \<le> n" "acc = take i s1" "take i s1 = take i s2"
  shows "\<exists>j. i \<le> j \<and> j \<le> n \<and> common_prefix_loop s1 s2 n i acc = take j s1 \<and>
    take j s1 = take j s2 \<and> (j < n \<longrightarrow> s1 ! j \<noteq> s2 ! j)"
  using assms
proof (induction s1 s2 n i acc rule: common_prefix_loop.induct)
  case (1 s1 s2 n i acc)
  show ?case
  proof (cases "i < n \<and> s1 ! i = s2 ! i")
    case True
    then have "acc @ [s1 ! i] = take (Suc i) s1" "take (Suc i) s1 = take (Suc i) s2"
      using "1.prems" by (simp_all add: take_Suc_conv_app_nth)
    with 1 True obtain j where "Suc i \<le> j" "j \<le> n"
      "common_prefix_loop s1 s2 n (Suc i) (acc @ [s1 ! i]) = take j s1"
      "take j s1 = take j s2" "j < n \<longrightarrow> s1 ! j \<noteq> s2 ! j"
      by auto
    with True show ?thesis by (auto simp: common_prefix_loop.simps [of s1 s2 n i] intro!: exI [of _ j])
  next
    case False
    with "1.prems" show ?thesis
      by (auto simp: common_prefix_loop.simps [of s1 s2 n i] intro!: exI [of _ i])
  qed
qed

lemma common_suffix_prefix:
  assumes "n \<le> length s1" "n \<le> length s2" "i \<le> n"
  shows "common_suffix_loop s1 s2 n (Suc i) acc = common_prefix_loop (rev s1) (rev s2) n i acc"
  using assms
proof (induction "rev s1" "rev s2" n i acc rule: common_prefix_loop.induct)
  case (1 n i acc)
  show ?case
  proof (cases "i < n")
    case True
    then have "rev s1 ! i = s1 ! (length s1 - Suc i)" "rev s2 ! i = s2 ! (length s2 - Suc i)"
      using "1.prems" by (simp_all add: rev_nth)
    with 1 True show ?thesis
      by (simp add: common_prefix_loop.simps [of "rev s1" "rev s2" n i]
          common_suffix_loop.simps [of s1 s2 n "Suc i"])
  next
    case False
    then show ?thesis
      by (simp add: common_prefix_loop.simps [of "rev s1" "rev s2" n i]
          common_suffix_loop.simps [of s1 s2 n "Suc i"])
  qed
qed

lemma common_prefix_longest:
  "let p = common_prefix_loop s1 s2 (min (length s1) (length s2)) 0 [] in
     prefix p s1 \<and> prefix p s2 \<and> (\<forall>r. prefix r s1 \<and> prefix r s2 \<longrightarrow> prefix r p)"
proof -
  let ?n = "min (length s1) (length s2)"
  obtain j where j: "j \<le> ?n" "common_prefix_loop s1 s2 ?n 0 [] = take j s1"
      "take j s1 = take j s2" "j < ?n \<longrightarrow> s1 ! j \<noteq> s2 ! j"
    using common_prefix_loop_eq [of ?n s1 s2 0 "[]"]
    by (metis (no_types) min.cobounded1 min.cobounded2 take_0 zero_le)
  have "prefix r (take j s1)" if r: "prefix r s1" "prefix r s2" for r
  proof -
    have len: "length r \<le> ?n" using r by (simp add: prefix_length_le)
    have "length r \<le> j"
    proof (rule ccontr)
      assume a: "\<not> length r \<le> j"
      with len have "j < ?n" by linarith
      moreover from a r have "s1 ! j = r ! j" "s2 ! j = r ! j"
        by (auto simp: prefix_def nth_append)
      ultimately show False using j(4) by simp
    qed
    with r(1) show ?thesis by (auto simp: prefix_def)
  qed
  with j show ?thesis by (metis take_is_prefix)
qed

section \<open>Statistics and geometry\<close>

lemma quantile_position:
  assumes "l \<noteq> []" and "0 \<le> p" and "p \<le> 1"
  obtains k f where "k < length l" "0 \<le> f" "f < 1" "f = 0 \<or> Suc k < length l"
    "of_nat k + f = of_nat (length l - 1) * p"
    "quantile l p = Inr (if Suc k < length l then (1 - f) * sort l ! k + f * sort l ! Suc k
                         else sort l ! k)"
proof -
  let ?n = "length l" and ?x = "of_nat (length l - 1) * p :: rat"
  have n: "0 < ?n" using assms(1) by simp
  have x: "0 \<le> ?x" "?x \<le> of_nat (?n - 1)"
    using assms(2,3) mult_left_le [of p "of_nat (?n - 1)"] by (auto simp: mult.commute)
  define k where "k = nat \<lfloor>?x\<rfloor>"
  define f where "f = ?x - of_nat k"
  have fl: "\<lfloor>?x\<rfloor> = int k" using x(1) by (simp add: k_def)
  have f: "0 \<le> f" "f < 1"
    using of_int_floor_le [of ?x] floor_correct [of ?x] unfolding fl f_def of_int_of_nat_eq by auto
  have "of_nat k \<le> (of_nat (?n - 1) :: rat)" using x(2) f(1) by (simp add: f_def)
  then have k: "k \<le> ?n - 1" by (simp only: of_nat_le_iff)
  have "int ?n - 1 = int (?n - 1)" using n by linarith
  then have r: "1 + of_int (int ?n - 1) * p = 1 + ?x" by (simp only: of_int_of_nat_eq)
  have i: "py_trunc (1 + ?x) = int (Suc k)"
    using x(1) fl by (simp add: py_trunc_nonneg)
  have last: "f = 0" if "\<not> Suc k < ?n"
  proof -
    from that k have "k = ?n - 1" by linarith
    with x(2) f(1) show ?thesis by (simp add: f_def)
  qed
  have "quantile l p = Inr (if Suc k < ?n then (1 - f) * sort l ! k + f * sort l ! Suc k
                         else sort l ! k)"
  proof (cases "Suc k < ?n")
    case True
    moreover have "py_index (sort l) (int (Suc k) - 1) = Inr (sort l ! k)"
      "py_index (sort l) (int (Suc k)) = Inr (sort l ! Suc k)"
      using True py_index_nat [of k "sort l"] py_index_nat [of "Suc k" "sort l"] by simp_all
    moreover have "1 + ?x - of_int (int (Suc k)) = f" by (simp add: f_def)
    ultimately show ?thesis
      unfolding quantile_def Let_def r i by simp
  next
    case False
    moreover have "py_index (sort l) (int (Suc k) - 1) = Inr (sort l ! k)"
    proof -
      have "k < ?n" using k n by linarith
      then have "k < length (sort l)" by simp
      from py_index_nat [OF this] show ?thesis by simp
    qed
    ultimately show ?thesis
      unfolding quantile_def Let_def r i by simp
  qed
  moreover have "k < ?n" using k n by linarith
  moreover have "f = 0 \<or> Suc k < ?n" using last by blast
  moreover have "of_nat k + f = ?x" by (simp add: f_def)
  ultimately show thesis using f by (intro that [of k f])
qed

lemma quantile_bounds:
  assumes "l \<noteq> []" and "0 \<le> p" and "p \<le> 1"
  shows "\<exists>q. quantile l p = Inr q \<and> Min (set l) \<le> q \<and> q \<le> Max (set l)"
proof -
  obtain k f where kf: "k < length l" "0 \<le> f" "f < 1" "f = 0 \<or> Suc k < length l"
    and q: "quantile l p = Inr (if Suc k < length l then (1 - f) * sort l ! k + f * sort l ! Suc k
                         else sort l ! k)"
    using assms by (rule quantile_position)
  have mem: "Min (set l) \<le> sort l ! j \<and> sort l ! j \<le> Max (set l)" if "j < length l" for j
  proof -
    have "sort l ! j \<in> set l" using that by (metis length_sort nth_mem set_sort)
    then show ?thesis by simp
  qed
  show ?thesis
  proof (cases "Suc k < length l")
    case True
    let ?a = "sort l ! k" and ?b = "sort l ! Suc k"
    from True kf mem have ab: "Min (set l) \<le> ?a" "?a \<le> Max (set l)" "Min (set l) \<le> ?b"
      "?b \<le> Max (set l)" by auto
    have "(1 - f) * Min (set l) + f * Min (set l) \<le> (1 - f) * ?a + f * ?b"
      using ab kf by (intro add_mono mult_left_mono) auto
    moreover have "(1 - f) * ?a + f * ?b \<le> (1 - f) * Max (set l) + f * Max (set l)"
      using ab kf by (intro add_mono mult_left_mono) auto
    moreover have "(1 - f) * c + f * c = c" for c :: rat by (simp add: algebra_simps)
    ultimately show ?thesis using q True by (intro exI [of _ "(1 - f) * ?a + f * ?b"]) simp
  next
    case False
    with q kf mem show ?thesis by auto
  qed
qed

text \<open>The accumulation loop adds up the cross products of consecutive points.\<close>

lemma shoelace_acc: "shoelace ps a = a + shoelace ps 0"
proof (induction ps arbitrary: a rule: induct_list012)
  case (3 p q ps)
  obtain x y x' y' where pq: "p = (x, y)" "q = (x', y')" by (cases p; cases q) auto
  show ?case
    using "3.IH"(2) [of "a + x' * y - y' * x"] "3.IH"(2) [of "x' * y - y' * x"]
    by (simp add: pq)
qed simp_all

lemma float_range_loop_stops:
  assumes "0 < step"
  shows "float_range_loop cur stop step l =
    Some (l @ map (\<lambda>k. cur + of_nat k * step) [0..<nat \<lceil>(stop - cur) / step\<rceil>])"
proof (induction "nat \<lceil>(stop - cur) / step\<rceil>" arbitrary: cur l)
  case 0
  then have "(stop - cur) / step \<le> 0" by (metis ceiling_le_zero nat_eq_iff2 nat_0_iff)
  then have "\<not> cur < stop" using assms by (simp add: divide_le_0_iff)
  with 0 show ?case by (subst float_range_loop.simps) simp
next
  case (Suc n)
  have pos: "0 < (stop - cur) / step"
    using Suc.hyps(2) by (metis ceiling_le_zero not_le nat_0_iff nat.distinct(1))
  then have lt: "cur < stop" using assms by (simp add: zero_less_divide_iff)
  have "(stop - (cur + step)) / step = (stop - cur) / step - 1"
    using assms by (simp add: field_simps)
  then have n: "n = nat \<lceil>(stop - (cur + step)) / step\<rceil>"
    using Suc.hyps(2) by simp
  have "float_range_loop cur stop step l = float_range_loop (cur + step) stop step (l @ [cur])"
    using lt by (subst float_range_loop.simps) simp
  also have "\<dots> = Some ((l @ [cur]) @ map (\<lambda>k. cur + step + of_nat k * step) [0..<n])"
    using Suc.hyps(1) [OF n, of "l @ [cur]"] by (simp only: n [symmetric])
  also have "map (\<lambda>k. cur + step + of_nat k * step) [0..<n] =
      map (\<lambda>k. cur + of_nat k * step) (map Suc [0..<n])"
    by (simp add: algebra_simps)
  also have "(l @ [cur]) @ map (\<lambda>k. cur + of_nat k * step) (map Suc [0..<n]) =
      l @ map (\<lambda>k. cur + of_nat k * step) (0 # map Suc [0..<n])"
    by simp
  also have "0 # map Suc [0..<n] = [0..<Suc n]"
    by (simp only: map_Suc_upt) (simp add: upt_conv_Cons)
  finally show ?case using Suc.hyps(2) by simp
qed

lemma float_range_loop_diverges:
  assumes "step \<le> 0" and "cur < stop"
  shows "float_range_loop cur stop step l = None"
proof (rule ccontr)
  assume "float_range_loop cur stop step l \<noteq> None"
  then obtain r where r: "float_range_loop cur stop step l = Some r" by auto
  have "step \<le> 0 \<longrightarrow> \<not> cur < stop"
  proof (rule float_range_loop.raw_induct
      [where P = "\<lambda>cur stop step l r. step \<le> 0 \<longrightarrow> \<not> cur < stop", OF _ r])
    fix f :: "rat \<Rightarrow> rat \<Rightarrow> rat \<Rightarrow> rat list \<Rightarrow> rat list option"
    fix cur stop step :: rat and l r :: "rat list"
    assume IH: "\<And>cur stop step l r. f cur stop step l = Some r \<Longrightarrow> step \<le> 0 \<longrightarrow> \<not> cur < stop"
      and eq: "(if cur < stop then f (cur + step) stop step (l @ [cur]) else Some l) = Some r"
    show "step \<le> (0::rat) \<longrightarrow> \<not> cur < stop"
    proof (intro impI notI)
      assume "step \<le> 0" "cur < stop"
      with eq IH have "\<not> cur + step < stop" by metis
      with \<open>step \<le> 0\<close> \<open>cur < stop\<close> show False by linarith
    qed
  qed
  with assms show False by simp
qed

lemma round_grid_int:
  assumes "0 < g"
  shows "round_grid (PyInt v) (PyInt g) mode =
    (if mode = 0 then Inr (PyInt ((v div g + (if 2 * (v mod g) \<ge> g then 1 else 0)) * g))
     else if mode = 1 \<and> v mod g \<noteq> 0 then Inr (PyInt ((v div g + 1) * g))
     else if mode = - 1 \<and> v mod g \<noteq> 0 then Inr (PyInt (v div g * g))
     else Inl UnboundLocalError)"
proof -
  have "((of_int (v mod g) :: rat) \<ge> of_int g / 2) \<longleftrightarrow> (of_int g :: rat) \<le> of_int (2 * (v mod g))"
    unfolding of_int_mult of_int_numeral by linarith
  then have "((of_int (v mod g) :: rat) \<ge> of_int g / 2) \<longleftrightarrow> 2 * (v mod g) \<ge> g"
    by (simp only: of_int_le_iff)
  with assms show ?thesis by (simp add: round_grid_def)
qed

lemma round_grid_nearest_int:
  assumes "0 < g"
  shows "\<exists>r. round_grid (PyInt v) (PyInt g) 0 = Inr (PyInt r) \<and> g dvd r \<and> 2 * \<bar>v - r\<bar> \<le> g"
proof -
  have v: "v = v div g * g + v mod g" by simp
  have m: "0 \<le> v mod g" "v mod g < g" using assms by simp_all
  show ?thesis
  proof (cases "2 * (v mod g) \<ge> g")
    case True
    have "v - (v div g + 1) * g = v mod g - g" using v by (simp add: algebra_simps)
    with True m show ?thesis using round_grid_int [OF assms, of v 0] by simp
  next
    case False
    have "v - v div g * g = v mod g" using v by (simp add: algebra_simps)
    with False m show ?thesis using round_grid_int [OF assms, of v 0] by simp
  qed
qed

section \<open>Command-line options\<close>

definition option_of :: "string \<Rightarrow> string \<times> arg_value" where
  "option_of arg =
     (let parts = py_split CHR ''='' (dropWhile (\<lambda>c. c = CHR ''-'') arg)
      in (parts ! 0, if length parts = 2 then OneValue (parts ! 1) else NoValue))"

lemma get_args_loop_args:
  "snd (get_args_loop d args argv) = args @ filter (\<lambda>a. \<not> prefix ''-'' a) argv"
  by (induction d args argv rule: get_args_loop.induct) (simp_all add: Let_def)

lemma map_of_update_override:
  "map_of (AList.update k v d) ++ map_of xs = map_of d ++ map_of (xs @ [(k, v)])"
  by (rule ext) (simp add: update_conv' map_add_def split: option.split)

lemma get_args_loop_options:
  "map_of (fst (get_args_loop d args argv)) =
     map_of d ++ map_of (rev (map option_of (filter (prefix ''-'') argv)))"
proof (induction d args argv rule: get_args_loop.induct)
  case (2 d args arg argv)
  show ?case
  proof (cases "prefix ''-'' arg")
    case True
    let ?parts = "py_split CHR ''='' (dropWhile (\<lambda>c. c = CHR ''-'') arg)"
    from 2 True show ?thesis
      by (cases "length ?parts = 2") (simp_all add: Let_def option_of_def map_of_update_override)
  next
    case False
    with 2 show ?thesis by simp
  qed
qed simp

section \<open>Enumeration of the binary numbers\<close>

fun ripple :: "string \<Rightarrow> string \<times> bool" where
  \<comment> \<open>one increment of a number with its least significant digit first, and the carry out\<close>
  "ripple [] = ([], True)"
| "ripple (c # cs) =
     (if c = CHR ''0'' then (CHR ''1'' # cs, False)
      else let (r, carry) = ripple cs in (CHR ''0'' # r, carry))"

lemma ripple_length: "length (fst (ripple s)) = length s"
  by (induction s) (auto simp: Let_def split: prod.splits)

lemma ripple_binary: "binary s \<Longrightarrow> binary (fst (ripple s))"
  by (induction s) (auto simp: Let_def split: prod.splits)

lemma ripple_value:
  assumes "binary s"
  shows "if snd (ripple s) then Suc (bval (rev s)) = 2 ^ length s
         else bval (rev (fst (ripple s))) = Suc (bval (rev s))"
  using assms
proof (induction s)
  case Nil
  then show ?case by simp
next
  case (Cons c s)
  have one: "bval [CHR ''0''] = 0" "bval [CHR ''1''] = 1" by (simp_all add: bval_def)
  from Cons.prems have "c = CHR ''0'' \<or> c = CHR ''1''" by auto
  then show ?case
    using Cons by (cases "ripple s") (auto simp: bval_append one split: if_splits)
qed

lemma binary_range_carry_ripple:
  assumes "length v = bits" "length t = Suc bits" "i \<le> bits" "t ! i = 1" "binary v"
    and "\<forall>j. i < j \<longrightarrow> j \<le> bits \<longrightarrow> t ! j = 0"
  shows "fst (binary_range_carry bits i v t) = take i v @ fst (ripple (drop i v)) \<and>
    (snd (binary_range_carry bits i v t) ! bits = 1 \<longleftrightarrow> snd (ripple (drop i v)))"
  using assms
proof (induction bits i v t rule: binary_range_carry.induct)
  case (1 bits i v t)
  show ?case
  proof (cases "i < bits")
    case False
    with "1.prems" have "i = bits" by simp
    with "1.prems" show ?thesis by (simp add: binary_range_carry.simps [of bits bits])
  next
    case True
    then have d: "drop i v = v ! i # drop (Suc i) v"
      using "1.prems" by (simp add: Cons_nth_drop_Suc)
    show ?thesis
    proof (cases "v ! i = CHR ''0''")
      case zero: True
      have "binary_range_carry bits i v t = (v[i := CHR ''1''], t[Suc i := 0])"
        using True zero "1.prems"
        by (simp add: binary_range_carry.simps [of bits i]
            binary_range_carry.simps [of bits "Suc i"])
      moreover have "v[i := CHR ''1''] = take i v @ CHR ''1'' # drop (Suc i) v"
        using True "1.prems" by (simp add: upd_conv_take_nth_drop)
      moreover have "t[Suc i := 0] ! bits = 0"
        using True "1.prems" by (cases "Suc i = bits") auto
      ultimately show ?thesis using d zero by simp
    next
      case one: False
      let ?v = "v[i := CHR ''0'']" and ?t = "t[Suc i := 1]"
      have step: "binary_range_carry bits i v t = binary_range_carry bits (Suc i) ?v ?t"
        using True one "1.prems" by (simp add: binary_range_carry.simps [of bits i])
      have bin: "binary ?v" using "1.prems"(5) set_update_subset_insert [of v i] by blast
      have "fst (binary_range_carry bits (Suc i) ?v ?t) =
            take (Suc i) ?v @ fst (ripple (drop (Suc i) ?v)) \<and>
          (snd (binary_range_carry bits (Suc i) ?v ?t) ! bits = 1 \<longleftrightarrow>
             snd (ripple (drop (Suc i) ?v)))"
        using "1.IH"(2) [OF _ one] True "1.prems" bin by simp
      moreover have "take (Suc i) ?v = take i v @ [CHR ''0'']" "drop (Suc i) ?v = drop (Suc i) v"
        using True "1.prems" by (simp_all add: take_Suc_conv_app_nth)
      ultimately show ?thesis using step d one by (auto simp: Let_def split: prod.splits)
    qed
  qed
qed

lemma binary_range_loop_enum:
  assumes "length v = bits" "binary v" "t ! bits \<noteq> 1" "0 < bits"
  shows "\<exists>r. binary_range_loop bits v t l = Some (l @ r) \<and>
    map Inr r = map (\<lambda>k. int2bin (int k) (int bits)) [bval (rev v)..<2 ^ bits]"
  using assms
proof (induction "2 ^ bits - bval (rev v)" arbitrary: v t l rule: less_induct)
  case less
  let ?k = "bval (rev v)" and ?c = "binary_range_carry bits 0 v (1 # replicate bits 0)"
  have lt: "?k < 2 ^ bits" using bval_less [of "rev v"] less.prems(1) by simp
  obtain s where s: "int2bin (int ?k) (int bits) = Inr s" "length s = bits" "binary s" "bval s = ?k"
    using int2bin_fits [of "int ?k" bits] lt less.prems(4) by auto
  have "s = rev v"
    by (rule bval_inj) (use s less.prems in auto)
  then have head: "Inr (rev v) = int2bin (int ?k) (int bits)" using s by simp
  have carry: "fst ?c = fst (ripple v)" "snd ?c ! bits = 1 \<longleftrightarrow> snd (ripple v)"
    using binary_range_carry_ripple [of v bits "1 # replicate bits 0" 0] less.prems
    by (auto simp: nth_Cons')
  have unfold: "binary_range_loop bits v t l = binary_range_loop bits (fst ?c) (snd ?c) (l @ [rev v])"
    using less.prems(3) by (subst binary_range_loop.simps) (simp add: Let_def case_prod_beta)
  show ?case
  proof (cases "snd (ripple v)")
    case True
    then have "Suc ?k = 2 ^ bits" using ripple_value [OF less.prems(2)] less.prems(1) by simp
    then have "[?k..<2 ^ bits] = [?k]" by (metis upt_conv_Cons lt order_refl upt_conv_Nil)
    moreover have "binary_range_loop bits v t l = Some (l @ [rev v])"
      unfolding unfold using True carry(2) by (subst binary_range_loop.simps) simp
    ultimately show ?thesis using head by simp
  next
    case False
    then have k: "bval (rev (fst (ripple v))) = Suc ?k"
      using ripple_value [OF less.prems(2)] by simp
    have "\<exists>r. binary_range_loop bits (fst ?c) (snd ?c) (l @ [rev v]) = Some ((l @ [rev v]) @ r) \<and>
      map Inr r = map (\<lambda>k. int2bin (int k) (int bits)) [bval (rev (fst ?c))..<2 ^ bits]"
    proof (rule less.hyps)
      show "2 ^ bits - bval (rev (fst ?c)) < 2 ^ bits - ?k"
        using carry(1) k lt by simp
    qed (use carry k False less.prems ripple_length ripple_binary in auto)
    then obtain r where "binary_range_loop bits v t l = Some (l @ rev v # r)"
      "map Inr r = map (\<lambda>k. int2bin (int k) (int bits)) [Suc ?k..<2 ^ bits]"
      unfolding unfold carry(1) k by auto
    with head lt show ?thesis by (auto simp: upt_conv_Cons)
  qed
qed

section \<open>Properties\<close>

text \<open>\<open>int2bin i n\<close> gives exactly \<open>n\<close> binary digits that \<open>bin2int\<close> reads back as \<open>i\<close>,
  and raises \<open>ValueError\<close> exactly when \<open>n\<close> digits do not suffice.\<close>

theorem int2bin_bin2int:
  assumes "0 \<le> i" and "0 < n"
  shows "case int2bin i (int n) of
      Inr s \<Rightarrow> i < 2 ^ n \<and> length s = n \<and> set s \<subseteq> {CHR ''0'', CHR ''1''} \<and> bin2int s = Inr i
    | Inl e \<Rightarrow> 2 ^ n \<le> i \<and> e = ValueError"
proof (cases "i < 2 ^ n")
  case True
  then obtain s where s: "int2bin i (int n) = Inr s" "length s = n" "binary s" "bval s = nat i"
    using int2bin_fits assms by blast
  then have "bin2int s = Inr i" using bin2int_binary [of s] assms by auto
  with s True show ?thesis by auto
next
  case False
  then show ?thesis using int2bin_too_large [of n i] assms(2) by simp
qed

theorem int2bin_bin2int_witness:
  "\<exists>s. int2bin 5 4 = Inr s \<and> length s = 4 \<and> bin2int s = Inr 5"
  using int2bin_bin2int [of 5 4] by (cases "int2bin 5 4") auto

text \<open>\<open>binary_range\<close> returns, and yields the \<open>bits\<close>-digit numerals of
  \<open>0, 1, ..., 2^bits - 1\<close> in this order.\<close>

theorem binary_range_enumerates:
  assumes "0 < bits"
  shows "\<exists>r. binary_range bits = Some r \<and>
    map Inr r = map (\<lambda>k. int2bin (int k) (int bits)) [0..<2 ^ bits]"
proof -
  have "(1 # replicate bits (0::nat)) ! bits \<noteq> 1" using assms by (simp add: nth_Cons')
  moreover have "bval (replicate bits CHR ''0'') = 0" using bval_zeros [of bits "[]"] by simp
  ultimately show ?thesis
    using binary_range_loop_enum [of "replicate bits CHR ''0''" bits "1 # replicate bits 0" "[]"] assms
    by (auto simp: binary_range_def)
qed

theorem binary_range_enumerates_witness:
  "\<exists>r. binary_range 3 = Some r \<and> length r = 8"
proof -
  obtain r where r: "binary_range 3 = Some r"
    "map Inr r = map (\<lambda>k. int2bin (int k) (int 3)) [0..<2 ^ 3]"
    using binary_range_enumerates [of 3] by auto
  from arg_cong [OF r(2), of length] have "length r = 2 ^ 3 - 0"
    by (simp only: length_map length_upt)
  with r(1) show ?thesis by simp
qed

text \<open>The codes of consecutive numbers differ in exactly one bit, and no two numbers
  have the same code.\<close>

theorem gray_encode_one_bit:
  "(\<exists>k. gray_encode (int n) XOR gray_encode (int n + 1) = 2 ^ k) \<and> inj_on gray_encode {0..}"
  using xor_succ_props [of n] gray_encode_inj by (auto simp: gray_encode_xor inj_on_def)

text \<open>\<open>gcf\<close> is the greatest common divisor on all integers, \<open>lcm\<close> the least common
  multiple up to its sign, and \<open>reduce_fraction\<close> cancels it by a positive factor, raising
  \<open>ZeroDivisionError\<close> for 0/0 only.\<close>

theorem number_theory:
  "gcf a b = gcd a b \<and> \<bar>lcm_py a b\<bar> = lcm a b \<and>
   (case reduce_fraction (a, b) of
      Inr (n, d) \<Rightarrow> coprime n d \<and> (\<exists>k. 0 < k \<and> a = k * n \<and> b = k * d)
    | Inl e \<Rightarrow> e = ZeroDivisionError \<and> a = 0 \<and> b = 0)"
proof (cases "(a, b) = (0, 0)")
  case True
  then show ?thesis using lcm_py_abs [of a b] by (simp add: gcf_gcd reduce_fraction_def)
next
  case False
  then obtain n d where "reduce_fraction (a, b) = Inr (n, d)" "coprime n d"
    "\<exists>k > 0. a = k * n \<and> b = k * d"
    using reduce_fraction_coprime [of a b] by blast
  then show ?thesis using gcf_gcd [of a b] lcm_py_abs [of a b] by auto
qed

text \<open>\<open>permutations\<close> yields the rearrangements of the list and nothing else, \<open>n!\<close> items
  in all.\<close>

theorem permutations_complete:
  "set (permutations xs) = {ys. mset ys = mset xs} \<and> length (permutations xs) = fact (length xs)"
  by (simp add: permutations_set permutations_count)

lemma neq_rotate_Nil: "xs \<noteq> [] \<Longrightarrow> [] \<noteq> rotate n xs"
  by (metis rotate_is_Nil_conv)

text \<open>\<open>is_rotated\<close> decides whether the second list is a rotation of the first, for every
  pair of lists but two empty ones, where it raises \<open>IndexError\<close>.\<close>

theorem is_rotated_decides:
  "is_rotated xs ys =
     (if xs = [] \<and> ys = [] then Inl IndexError else Inr (\<exists>n. ys = rotate n xs))"
proof (cases "ys = []")
  case True
  then show ?thesis
    by (cases "xs = []") (simp_all add: is_rotated_empty, simp add: is_rotated_def neq_rotate_Nil)
next
  case False
  then show ?thesis by (simp add: is_rotated_rotate)
qed

text \<open>\<open>find_common_fixes\<close> returns the longest common prefix and the longest common
  suffix.\<close>

theorem find_common_fixes_longest:
  "case find_common_fixes s1 s2 of (p, q) \<Rightarrow>
     {r. prefix r s1 \<and> prefix r s2} = {r. prefix r p} \<and>
     {r. suffix r s1 \<and> suffix r s2} = {r. suffix r q}"
proof -
  let ?n = "min (length s1) (length s2)"
  let ?p = "common_prefix_loop s1 s2 ?n 0 []" and ?q = "common_suffix_loop s1 s2 ?n 1 []"
  have p: "{r. prefix r s1 \<and> prefix r s2} = {r. prefix r ?p}"
    using common_prefix_longest [of s1 s2] by (auto simp: Let_def intro: prefix_order.trans)
  have "?q = common_prefix_loop (rev s1) (rev s2) ?n 0 []"
    using common_suffix_prefix [of ?n s1 s2 0 "[]"] by simp
  then have "prefix (rev r) (rev s1) \<and> prefix (rev r) (rev s2) \<longleftrightarrow> prefix (rev r) ?q" for r
    using common_prefix_longest [of "rev s1" "rev s2"]
    by (auto simp: Let_def intro: prefix_order.trans)
  then have "{r. suffix r s1 \<and> suffix r s2} = {r. suffix r (rev ?q)}"
    by (simp add: suffix_to_prefix)
  with p show ?thesis unfolding find_common_fixes_def Let_def prod.case by (intro conjI)
qed

text \<open>On a non-empty list and \<open>0 \<le> p \<le> 1\<close>, \<open>quantile\<close> returns the value that
  interpolates the sorted list linearly at position \<open>(n - 1) p\<close>, and it lies between the
  least and the greatest item.\<close>

theorem quantile_interpolates:
  assumes "l \<noteq> []" and "0 \<le> p" and "p \<le> 1"
  shows "\<exists>q k f. quantile l p = Inr q \<and> k < length l \<and> 0 \<le> f \<and> f < 1 \<and>
    of_nat k + f = of_nat (length l - 1) * p \<and>
    q = (if Suc k < length l then (1 - f) * sort l ! k + f * sort l ! Suc k else sort l ! k) \<and>
    Min (set l) \<le> q \<and> q \<le> Max (set l)"
proof -
  obtain k f where "k < length l" "0 \<le> f" "f < 1" "of_nat k + f = of_nat (length l - 1) * p"
    "quantile l p = Inr (if Suc k < length l then (1 - f) * sort l ! k + f * sort l ! Suc k
                         else sort l ! k)"
    using quantile_position [OF assms] by metis
  moreover obtain q where "quantile l p = Inr q" "Min (set l) \<le> q" "q \<le> Max (set l)"
    using quantile_bounds [OF assms] by blast
  ultimately show ?thesis by (intro exI [of _ q] exI [of _ k] exI [of _ f]) auto
qed

theorem quantile_interpolates_witness:
  "\<exists>q. quantile [3, 1, 2, 6] (1 / 2) = Inr q \<and> 1 \<le> q \<and> q \<le> 6"
  using quantile_interpolates [of "[3, 1, 2, 6]" "1 / 2"] by auto

text \<open>\<open>get_args\<close> keeps the arguments that do not start with a dash, in order, under
  \<open>args\<close>, and maps every option name to the value of its last occurrence.\<close>

theorem get_args_lookup:
  "map_of (get_args argv) =
     (map_of (rev (map option_of (filter (prefix ''-'') argv))))
       (''args'' \<mapsto> ArgList (filter (\<lambda>a. \<not> prefix ''-'' a) argv))"
  using get_args_loop_args [of "[]" "[]" argv] get_args_loop_options [of "[]" "[]" argv]
  by (simp add: get_args_def case_prod_beta lookup_update)

end
