(* ===== verification/Topsort.thy ===== *)
theory Topsort
  imports Rad_Util
begin

text \<open>
  Dependency sorting, \<open>bindings/python/topsort.py\<close>.

  A graph is given as a list of (parent, child) pairs. \<open>build_graph\<close> is the counting
  loop that \<open>topsort\<close> and \<open>topsort_levels\<close> share: the number of parents of every
  element, and the children of every parent. \<open>topsort\<close> is the work-list algorithm;
  \<open>topsort_levels_core\<close> is a generator, modelled as the list of the levels it yields
  together with how it ends; \<open>find_cycles\<close> enumerates the simple paths from every
  unvisited start and yields the cycles. The order in which Python 2 iterates a
  dictionary is the argument \<open>hord\<close>, any permutation (\<open>dict_order\<close>).
\<close>

section \<open>Definitions\<close>

datatype 'a topsort_error =
    TopsortKeyError
  | CycleError "'a list" "('a \<times> int) list" "('a \<times> 'a list) list"

text \<open>One iteration of the counting loop.\<close>

definition add_pair :: "'a \<times> 'a \<Rightarrow> ('a \<times> int) list \<times> ('a \<times> 'a list) list
    \<Rightarrow> ('a \<times> int) list \<times> ('a \<times> 'a list) list" where
  "add_pair pair st =
     (let (parent, child) = pair;
          (num_parents, children) = st;
          np1 = (if parent \<notin> set (keys num_parents) then AList.update parent 0 num_parents
                 else num_parents);
          np2 = (if child \<notin> set (keys np1) then AList.update child 0 np1 else np1);
          np3 = AList.update child (the (map_of np2 child) + 1) np2;
          ch = AList.update parent
                 ((case map_of children parent of None \<Rightarrow> [] | Some cs \<Rightarrow> cs) @ [child]) children
      in (np3, ch))"

definition build_graph :: "('a \<times> 'a) list \<Rightarrow> ('a \<times> int) list \<times> ('a \<times> 'a list) list" where
  "build_graph pairlist = fold add_pair pairlist ([], [])"

text \<open>
  The inner loop of \<open>topsort\<close>: one parent less for every child; a child without parents
  left is appended to \<open>answer\<close>.
\<close>

fun knock_down :: "'a list \<Rightarrow> ('a \<times> int) list \<Rightarrow> 'a list
    \<Rightarrow> 'a topsort_error + ('a \<times> int) list \<times> 'a list" where
  "knock_down [] num_parents todo = Inr (num_parents, todo)"
| "knock_down (child # cs) num_parents todo =
     (case map_of num_parents child of
        None \<Rightarrow> Inl TopsortKeyError
      | Some n \<Rightarrow>
          let np = AList.update child (n - 1) num_parents
          in if n - 1 = 0 then knock_down cs np (todo @ [child]) else knock_down cs np todo)"

lemma knock_down_keys:
  "knock_down cs np todo = Inr (np', todo') \<Longrightarrow> keys np' = keys np"
proof (induction cs np todo rule: knock_down.induct)
  case (2 child cs np todo)
  then show ?case
    by (cases "map_of np child")
       (auto simp: Let_def keys_update_Some split: if_splits)
qed simp

text \<open>
  The loop over the growing list \<open>answer\<close>: \<open>visited\<close> is the part already iterated,
  \<open>todo\<close> the rest, so that \<open>answer = visited @ todo\<close>.
\<close>

function topsort_loop :: "'a list \<Rightarrow> 'a list \<Rightarrow> ('a \<times> int) list \<Rightarrow> ('a \<times> 'a list) list
    \<Rightarrow> 'a topsort_error + 'a list \<times> ('a \<times> int) list \<times> ('a \<times> 'a list) list" where
  "topsort_loop visited [] num_parents children = Inr (visited, num_parents, children)"
| "topsort_loop visited (parent # todo) num_parents children =
     (if parent \<notin> set (keys num_parents) then Inl TopsortKeyError
      else
        let np = AList.delete parent num_parents in
        case map_of children parent of
          None \<Rightarrow> topsort_loop (visited @ [parent]) todo np children
        | Some cs \<Rightarrow>
            rbind (knock_down cs np todo) (\<lambda>(np', todo').
              topsort_loop (visited @ [parent]) todo' np' (AList.delete parent children)))"
  by pat_completeness auto
termination
proof (relation "measure (\<lambda>(_, _, np, _). length np)", goal_cases)
  case 1
  then show ?case by simp
next
  case (2 visited parent todo np children np1)
  then show ?case by (simp add: length_delete_key)
next
  case (3 visited parent todo np children np1 cs r np' todo')
  then have "keys np' = keys (AList.delete parent np)" by (auto dest: knock_down_keys)
  then have "length np' = length (AList.delete parent np)" by (metis length_map)
  with 3 show ?case by (simp add: length_delete_key)
qed

definition topsort :: "('a list \<Rightarrow> 'a list) \<Rightarrow> ('a \<times> 'a) list \<Rightarrow> 'a topsort_error + 'a list" where
  "topsort hord pairlist =
     (let (num_parents, children) = build_graph pairlist;
          answer = filter (\<lambda>x. map_of num_parents x = Some 0) (hord (keys num_parents))
      in rbind (topsort_loop [] answer num_parents children) (\<lambda>(ans, np, ch).
           if np \<noteq> [] then Inl (CycleError ans np ch) else Inr ans))"

text \<open>One level of \<open>topsort_levels_core\<close>: remove its elements and count their children down.\<close>

fun count_down :: "'a list \<Rightarrow> ('a \<times> int) list \<Rightarrow> 'a topsort_error + ('a \<times> int) list" where
  "count_down [] num_parents = Inr num_parents"
| "count_down (child # cs) num_parents =
     (case map_of num_parents child of
        None \<Rightarrow> Inl TopsortKeyError
      | Some n \<Rightarrow> count_down cs (AList.update child (n - 1) num_parents))"

fun remove_level :: "'a list \<Rightarrow> ('a \<times> int) list \<Rightarrow> ('a \<times> 'a list) list
    \<Rightarrow> 'a topsort_error + ('a \<times> int) list \<times> ('a \<times> 'a list) list" where
  "remove_level [] num_parents children = Inr (num_parents, children)"
| "remove_level (p # ps) num_parents children =
     (if p \<notin> set (keys num_parents) then Inl TopsortKeyError
      else
        let np = AList.delete p num_parents in
        case map_of children p of
          None \<Rightarrow> remove_level ps np children
        | Some cs \<Rightarrow>
            rbind (count_down cs np) (\<lambda>np'. remove_level ps np' (AList.delete p children)))"

lemma count_down_keys: "count_down cs np = Inr np' \<Longrightarrow> keys np' = keys np"
proof (induction cs np rule: count_down.induct)
  case (2 child cs np)
  then show ?case
    by (cases "map_of np child")
       (auto simp: keys_update_Some)
qed simp

lemma remove_level_length:
  "remove_level ps np ch = Inr (np', ch') \<Longrightarrow> length np' \<le> length np \<and> (ps \<noteq> [] \<longrightarrow> length np' < length np)"
proof (induction ps np ch rule: remove_level.induct)
  case (2 p ps np ch)
  have del: "length (AList.delete p np) < length np" if "p \<in> set (keys np)"
    using that by (rule length_delete_key)
  show ?case
  proof (cases "map_of ch p")
    case None
    with 2 del show ?thesis by (force simp: Let_def split: if_splits)
  next
    case (Some cs)
    with "2.prems" obtain np1 where np1: "p \<in> set (keys np)"
      "count_down cs (AList.delete p np) = Inr np1"
      "remove_level ps np1 (AList.delete p ch) = Inr (np', ch')"
      by (auto simp: Let_def rbind_Inr_iff split: if_splits)
    have "length np' \<le> length np1" using 2(2) [of _ cs np1] np1 Some by simp
    moreover have "length np1 = length (AList.delete p np)"
      using count_down_keys [OF np1(2)] by (metis length_map)
    ultimately show ?thesis using del np1(1) by simp
  qed
qed simp

function topsort_levels_core :: "('a list \<Rightarrow> 'a list) \<Rightarrow> ('a \<times> int) list \<Rightarrow> ('a \<times> 'a list) list
    \<Rightarrow> 'a list list \<times> ('a topsort_error + unit)" where
  "topsort_levels_core hord num_parents children =
     (let level_parents = filter (\<lambda>x. map_of num_parents x = Some 0) (hord (keys num_parents))
      in if level_parents = [] then
           ([], if num_parents \<noteq> [] then Inl (CycleError [] num_parents children) else Inr ())
         else case remove_level level_parents num_parents children of
             Inl e \<Rightarrow> ([level_parents], Inl e)
           | Inr (np, ch) \<Rightarrow>
               let (levels, outcome) = topsort_levels_core hord np ch
               in (level_parents # levels, outcome))"
  by pat_completeness auto
termination
  by (relation "measure (\<lambda>(_, np, _). length np)") (auto dest!: remove_level_length [rotated] sym [of "Inr _"])

declare topsort_levels_core.simps [simp del]

definition topsort_levels :: "('a list \<Rightarrow> 'a list) \<Rightarrow> ('a \<times> 'a) list
    \<Rightarrow> 'a list list \<times> ('a topsort_error + unit)" where
  "topsort_levels hord pairlist =
     (let (num_parents, children) = build_graph pairlist
      in topsort_levels_core hord num_parents children)"

section \<open>The graph of a pair list\<close>

definition elems :: "('a \<times> 'a) list \<Rightarrow> 'a set" where
  "elems P = fst ` set P \<union> snd ` set P"

definition children_of :: "('a \<times> 'a) list \<Rightarrow> 'a \<Rightarrow> 'a list" where
  "children_of P p = map snd (filter (\<lambda>e. fst e = p) P)"

definition indeg :: "'a set \<Rightarrow> ('a \<times> 'a) list \<Rightarrow> 'a \<Rightarrow> nat" where
  \<comment> \<open>the number of pairs that give \<open>x\<close> a parent outside \<open>D\<close>\<close>
  "indeg D P x = length (filter (\<lambda>e. snd e = x \<and> fst e \<notin> D) P)"

definition graph_state :: "('a \<times> 'a) list \<Rightarrow> 'a set \<Rightarrow> ('a \<times> int) list \<Rightarrow> ('a \<times> 'a list) list \<Rightarrow> bool" where
  \<comment> \<open>the dictionaries describe the graph with the elements of \<open>D\<close> removed\<close>
  "graph_state P D np ch \<longleftrightarrow>
     dict_ok np \<and> set (keys np) = elems P - D \<and>
     (\<forall>x \<in> elems P - D. map_of np x = Some (int (indeg D P x))) \<and>
     (\<forall>p. map_of ch p = (if p \<in> D \<or> children_of P p = [] then None else Some (children_of P p)))"

lemma finite_elems [simp]: "finite (elems P)"
  by (simp add: elems_def)

lemma elemsI: "(p, c) \<in> set P \<Longrightarrow> p \<in> elems P \<and> c \<in> elems P"
  by (force simp: elems_def)

lemma elems_snoc: "elems (P @ [(p, c)]) = insert p (insert c (elems P))"
  by (auto simp: elems_def)

lemma indeg_zero_iff: "indeg D P x = 0 \<longleftrightarrow> (\<forall>p. (p, x) \<in> set P \<longrightarrow> p \<in> D)"
  by (auto simp: indeg_def filter_empty_conv)

lemma set_children_of: "set (children_of P p) = {c. (p, c) \<in> set P}"
  by (force simp: children_of_def)

lemma count_children_of:
  "count_list (children_of P p) x = length (filter (\<lambda>e. fst e = p \<and> snd e = x) P)"
  by (induction P) (auto simp: children_of_def)

lemma indeg_insert:
  assumes "p \<notin> D"
  shows "indeg D P x = indeg (insert p D) P x + count_list (children_of P p) x"
  using assms unfolding count_children_of indeg_def by (induction P) auto

lemma add_pair_graph_state:
  assumes "graph_state P {} np ch"
  shows "case add_pair (p, c) (np, ch) of (np', ch') \<Rightarrow> graph_state (P @ [(p, c)]) {} np' ch'"
proof -
  let ?np1 = "if p \<notin> set (keys np) then AList.update p 0 np else np"
  let ?np2 = "if c \<notin> set (keys ?np1) then AList.update c 0 ?np1 else ?np1"
  have ok: "dict_ok np" and ks: "set (keys np) = elems P"
    and cnt: "\<And>x. x \<in> elems P \<Longrightarrow> map_of np x = Some (int (indeg {} P x))"
    and ch: "\<And>q. map_of ch q = (if children_of P q = [] then None else Some (children_of P q))"
    using assms by (auto simp: graph_state_def)
  have fresh: "indeg {} P x = 0" if "x \<notin> elems P" for x
    using that by (auto simp: indeg_zero_iff dest: elemsI)
  define np2 where "np2 = ?np2"
  have k2: "set (keys np2) = elems (P @ [(p, c)])"
    unfolding elems_snoc np2_def using ks by (auto simp: keys_update simp del: set_map)
  have l2: "map_of np2 x = Some (int (indeg {} P x))" if "x \<in> elems (P @ [(p, c)])" for x
    using that cnt fresh ks unfolding np2_def
    by (auto simp: elems_snoc keys_update lookup_update simp del: set_map split: if_splits)
  have deg: "indeg {} (P @ [(p, c)]) x = indeg {} P x + (if x = c then 1 else 0)" for x
    by (simp add: indeg_def)
  have cin: "c \<in> elems (P @ [(p, c)])" by (simp add: elems_snoc)
  have "graph_state (P @ [(p, c)]) {} (AList.update c (the (map_of np2 c) + 1) np2)
     (AList.update p ((case map_of ch p of None \<Rightarrow> [] | Some cs \<Rightarrow> cs) @ [c]) ch)"
    unfolding graph_state_def
  proof (intro conjI)
    show "dict_ok (AList.update c (the (map_of np2 c) + 1) np2)" using ok by (simp add: np2_def)
    show "set (keys (AList.update c (the (map_of np2 c) + 1) np2)) = elems (P @ [(p, c)]) - {}"
      unfolding keys_update k2 using cin by auto
    show "\<forall>x \<in> elems (P @ [(p, c)]) - {}.
        map_of (AList.update c (the (map_of np2 c) + 1) np2) x = Some (int (indeg {} (P @ [(p, c)]) x))"
      unfolding lookup_update deg using l2 cin by auto
    show "\<forall>q. map_of (AList.update p ((case map_of ch p of None \<Rightarrow> [] | Some cs \<Rightarrow> cs) @ [c]) ch) q =
        (if q \<in> {} \<or> children_of (P @ [(p, c)]) q = [] then None
         else Some (children_of (P @ [(p, c)]) q))"
      unfolding lookup_update using ch by (auto simp: children_of_def)
  qed
  then show ?thesis unfolding np2_def add_pair_def Let_def prod.case .
qed

lemma build_graph_state:
  "case build_graph P of (np, ch) \<Rightarrow> graph_state P {} np ch"
proof (induction P rule: rev_induct)
  case Nil
  then show ?case by (simp add: build_graph_def graph_state_def elems_def children_of_def)
next
  case (snoc e P)
  obtain np ch where b: "build_graph P = (np, ch)" by fastforce
  obtain p c where e: "e = (p, c)" by fastforce
  have "build_graph (P @ [e]) = add_pair (p, c) (np, ch)"
    using b e by (simp add: build_graph_def)
  with add_pair_graph_state [of P np ch p c] snoc b e show ?case by simp
qed

section \<open>Removing one element\<close>

lemma knock_down_result:
  assumes "\<forall>c \<in> set cs. \<exists>n. map_of np c = Some n \<and> int (count_list cs c) \<le> n"
  shows "\<exists>np' new. knock_down cs np todo = Inr (np', todo @ new) \<and> keys np' = keys np \<and>
    (\<forall>x. map_of np' x = map_option (\<lambda>n. n - int (count_list cs x)) (map_of np x)) \<and>
    distinct new \<and> set new = {c \<in> set cs. map_of np c = Some (int (count_list cs c))}"
  using assms
proof (induction cs arbitrary: np todo)
  case Nil
  then show ?case by (auto simp: option.map_ident)
next
  case (Cons c cs)
  then obtain n where n: "map_of np c = Some n" "1 + int (count_list cs c) \<le> n" by auto
  let ?np = "AList.update c (n - 1) np"
  have lk: "map_of ?np = (map_of np)(c \<mapsto> n - 1)" by (simp add: lookup_update)
  have pre: "\<forall>d \<in> set cs. \<exists>m. map_of ?np d = Some m \<and> int (count_list cs d) \<le> m"
  proof
    fix d assume "d \<in> set cs"
    with Cons.prems n show "\<exists>m. map_of ?np d = Some m \<and> int (count_list cs d) \<le> m"
      unfolding lk by (cases "d = c") auto
  qed
  define todo1 where "todo1 = (if n = 1 then todo @ [c] else todo)"
  obtain np' new where IH: "knock_down cs ?np todo1 = Inr (np', todo1 @ new)" "keys np' = keys ?np"
      "\<And>x. map_of np' x = map_option (\<lambda>n. n - int (count_list cs x)) (map_of ?np x)"
      "distinct new" "set new = {d \<in> set cs. map_of ?np d = Some (int (count_list cs d))}"
    using Cons.IH [OF pre] by blast
  have kd: "knock_down (c # cs) np todo = knock_down cs ?np todo1"
    using n(1) by (simp add: Let_def todo1_def)
  have kk: "keys np' = keys np" using IH(2) n(1) by (simp only: keys_update_Some)
  have lk': "\<forall>x. map_of np' x = map_option (\<lambda>n. n - int (count_list (c # cs) x)) (map_of np x)"
    using IH(3) n(1) unfolding lk by simp
  have mem: "d \<in> set new \<longleftrightarrow>
      d \<in> set (c # cs) \<and> map_of np d = Some (int (count_list (c # cs) d))" if "d \<noteq> c" for d
    using IH(5) that unfolding lk by auto
  have c_new: "c \<in> set new \<longleftrightarrow> c \<in> set cs \<and> n = 1 + int (count_list cs c)"
    using IH(5) unfolding lk by auto
  show ?case
  proof (cases "n = 1")
    case True
    with n(2) have "count_list cs c = 0" by simp
    then have "c \<notin> set cs" by (simp add: count_list_0_iff)
    with c_new have "distinct (c # new)" using IH(4) by simp
    moreover have "set (c # new) = {d \<in> set (c # cs). map_of np d = Some (int (count_list (c # cs) d))}"
      using mem n(1) True \<open>count_list cs c = 0\<close> by auto
    moreover have "knock_down (c # cs) np todo = Inr (np', todo @ (c # new))"
      using kd IH(1) True by (simp add: todo1_def)
    ultimately show ?thesis using kk lk' by blast
  next
    case False
    have "c \<in> set cs" if "n = 1 + int (count_list cs c)"
    proof -
      from that False have "count_list cs c \<noteq> 0" by simp
      then show ?thesis by (simp add: count_list_0_iff)
    qed
    with c_new have "c \<in> set new \<longleftrightarrow> n = 1 + int (count_list cs c)" by blast
    then have "set new = {d \<in> set (c # cs). map_of np d = Some (int (count_list (c # cs) d))}"
      using mem n(1) by auto
    moreover have "knock_down (c # cs) np todo = Inr (np', todo @ new)"
      using kd IH(1) False by (simp add: todo1_def)
    ultimately show ?thesis using kk lk' IH(4) by blast
  qed
qed

lemma count_down_knock_down:
  "count_down cs np = (case knock_down cs np todo of Inl e \<Rightarrow> Inl e | Inr (np', _) \<Rightarrow> Inr np')"
  by (induction cs np todo rule: knock_down.induct) (auto simp: Let_def split: option.split)

lemma graph_state_knock_down:
  assumes st: "graph_state P D np ch" and p: "p \<in> elems P - D" "indeg D P p = 0"
    and closed: "\<forall>x \<in> D. indeg D P x = 0"
  obtains np' new where
    "knock_down (children_of P p) (AList.delete p np) todo = Inr (np', todo @ new)"
    "graph_state P (insert p D) np' (AList.delete p ch)"
    "distinct new" "set new = {c. (p, c) \<in> set P \<and> indeg (insert p D) P c = 0}"
proof -
  let ?cs = "children_of P p" and ?np = "AList.delete p np"
  have child: "c \<in> elems P - D \<and> c \<noteq> p" if "c \<in> set ?cs" for c
  proof -
    from that have pc: "(p, c) \<in> set P" by (simp add: set_children_of)
    then have "indeg D P c \<noteq> 0" using p(1) by (auto simp: indeg_zero_iff)
    with closed p(2) pc show ?thesis by (metis DiffI elemsI)
  qed
  have lk: "map_of ?np x = Some (int (indeg D P x))" if "x \<in> elems P - insert p D" for x
    using st that by (auto simp: graph_state_def lookup_delete)
  have split: "indeg D P x = indeg (insert p D) P x + count_list ?cs x" for x
    using p(1) by (intro indeg_insert) simp
  have "\<forall>c \<in> set ?cs. \<exists>n. map_of ?np c = Some n \<and> int (count_list ?cs c) \<le> n"
    using child lk split by auto
  from knock_down_result [OF this, of todo] obtain np' new where
      kd: "knock_down ?cs ?np todo = Inr (np', todo @ new)" "keys np' = keys ?np"
      "\<And>x. map_of np' x = map_option (\<lambda>n. n - int (count_list ?cs x)) (map_of ?np x)"
      "distinct new" "set new = {c \<in> set ?cs. map_of ?np c = Some (int (count_list ?cs c))}"
    by blast
  have "graph_state P (insert p D) np' (AList.delete p ch)"
    unfolding graph_state_def
  proof (intro conjI ballI allI)
    show "dict_ok np'" using st kd(2) by (simp add: graph_state_def dict_ok_def distinct_delete)
    show "set (keys np') = elems P - insert p D"
      unfolding kd(2) keys_delete using st by (auto simp: graph_state_def)
    show "map_of np' x = Some (int (indeg (insert p D) P x))" if "x \<in> elems P - insert p D" for x
      using lk [OF that] split [of x] by (simp add: kd(3))
    show "map_of (AList.delete p ch) q =
        (if q \<in> insert p D \<or> children_of P q = [] then None else Some (children_of P q))" for q
      using st by (auto simp: graph_state_def lookup_delete)
  qed
  moreover have "set new = {c. (p, c) \<in> set P \<and> indeg (insert p D) P c = 0}"
    unfolding kd(5) using child lk split by (auto simp: set_children_of)
  ultimately show thesis using that kd(1,4) by blast
qed

lemma graph_state_leaf:
  assumes "graph_state P D np ch" and "p \<in> elems P - D" and "children_of P p = []"
  shows "graph_state P (insert p D) (AList.delete p np) ch"
proof -
  have "indeg D P x = indeg (insert p D) P x" for x
    using indeg_insert [of p D P x] assms(2,3) by simp
  with assms show ?thesis
    by (auto simp: graph_state_def keys_delete lookup_delete simp del: set_map)
qed

lemma graph_state_children:
  assumes "graph_state P D np ch" and "p \<notin> D"
  shows "map_of ch p = (if children_of P p = [] then None else Some (children_of P p))"
  using assms by (simp add: graph_state_def)

section \<open>Correctness of topsort\<close>

text \<open>Every parent stands before its children.\<close>

definition parents_first :: "('a \<times> 'a) list \<Rightarrow> 'a list \<Rightarrow> bool" where
  "parents_first P xs \<longleftrightarrow> (\<forall>us x vs. xs = us @ x # vs \<longrightarrow> (\<forall>p. (p, x) \<in> set P \<longrightarrow> p \<in> set us))"

lemma parents_first_Nil [simp]: "parents_first P []"
  by (simp add: parents_first_def)

lemma parents_first_snoc:
  "parents_first P (xs @ [x]) \<longleftrightarrow> parents_first P xs \<and> (\<forall>p. (p, x) \<in> set P \<longrightarrow> p \<in> set xs)"
proof
  assume pf: "parents_first P (xs @ [x])"
  have "\<forall>us y vs. xs = us @ y # vs \<longrightarrow> (\<forall>p. (p, y) \<in> set P \<longrightarrow> p \<in> set us)"
    using pf unfolding parents_first_def by (metis append.assoc append_Cons)
  with pf show "parents_first P xs \<and> (\<forall>p. (p, x) \<in> set P \<longrightarrow> p \<in> set xs)"
    unfolding parents_first_def by blast
next
  assume pf: "parents_first P xs \<and> (\<forall>p. (p, x) \<in> set P \<longrightarrow> p \<in> set xs)"
  show "parents_first P (xs @ [x])"
    unfolding parents_first_def
  proof (intro allI impI)
    fix us y vs p
    assume eq: "xs @ [x] = us @ y # vs" and p: "(p, y) \<in> set P"
    show "p \<in> set us"
    proof (cases vs rule: rev_cases)
      case Nil
      with eq pf p show ?thesis by simp
    next
      case (snoc ws w)
      with eq have "xs = us @ y # ws" by simp
      with pf p show ?thesis unfolding parents_first_def by blast
    qed
  qed
qed

lemma parents_first_closed: "parents_first P xs \<Longrightarrow> x \<in> set xs \<Longrightarrow> indeg (set xs) P x = 0"
  unfolding parents_first_def indeg_zero_iff
  by (metis (no_types, lifting) UnI1 set_append split_list)

lemma indeg_mono: "D \<subseteq> E \<Longrightarrow> indeg D P x = 0 \<Longrightarrow> indeg E P x = 0"
  by (auto simp: indeg_zero_iff)

text \<open>The elements ready to be output: all their parents are in \<open>D\<close>.\<close>

definition ready :: "('a \<times> 'a) list \<Rightarrow> 'a set \<Rightarrow> 'a set" where
  "ready P D = {x \<in> elems P - D. indeg D P x = 0}"

lemma ready_insert:
  assumes "p \<in> ready P D" and "\<forall>x \<in> D. indeg D P x = 0"
  shows "ready P (insert p D) = (ready P D - {p}) \<union> {c. (p, c) \<in> set P \<and> indeg (insert p D) P c = 0}"
    and "{c. (p, c) \<in> set P \<and> indeg (insert p D) P c = 0} \<inter> ready P D = {}"
proof -
  have p: "p \<notin> D" "indeg D P p = 0" using assms(1) by (auto simp: ready_def)
  have child: "c \<in> elems P - D \<and> c \<noteq> p \<and> indeg D P c \<noteq> 0" if "(p, c) \<in> set P" for c
  proof -
    from that p(1) have "indeg D P c \<noteq> 0" by (auto simp: indeg_zero_iff)
    with assms(2) p(2) elemsI [OF that] show ?thesis by auto
  qed
  have other: "indeg (insert p D) P x = 0 \<longleftrightarrow> indeg D P x = 0" if "(p, x) \<notin> set P" for x
    using that by (auto simp: indeg_zero_iff)
  show "ready P (insert p D) = (ready P D - {p}) \<union> {c. (p, c) \<in> set P \<and> indeg (insert p D) P c = 0}"
  proof (intro set_eqI)
    fix x
    show "x \<in> ready P (insert p D) \<longleftrightarrow>
        x \<in> (ready P D - {p}) \<union> {c. (p, c) \<in> set P \<and> indeg (insert p D) P c = 0}"
      using child [of x] other [of x] by (cases "(p, x) \<in> set P") (auto simp: ready_def)
  qed
  show "{c. (p, c) \<in> set P \<and> indeg (insert p D) P c = 0} \<inter> ready P D = {}"
    using child by (fastforce simp: ready_def)
qed

lemma ready_insert_leaf:
  assumes "p \<in> ready P D" and "children_of P p = []"
  shows "ready P (insert p D) = ready P D - {p}"
proof -
  have "indeg (insert p D) P x = indeg D P x" for x
    using indeg_insert [of p D P x] assms by (simp add: ready_def)
  then show ?thesis by (auto simp: ready_def)
qed

text \<open>What the loop of \<open>topsort\<close> keeps true.\<close>

definition topsort_inv :: "('a \<times> 'a) list \<Rightarrow> 'a list \<Rightarrow> 'a list \<Rightarrow> ('a \<times> int) list \<Rightarrow> ('a \<times> 'a list) list \<Rightarrow> bool"
where
  "topsort_inv P visited todo np ch \<longleftrightarrow>
     graph_state P (set visited) np ch \<and> distinct visited \<and> set visited \<subseteq> elems P \<and>
     parents_first P visited \<and> distinct todo \<and> set todo = ready P (set visited)"

lemma topsort_inv_step:
  assumes inv: "topsort_inv P visited (p # todo) np ch"
  shows "p \<in> set (keys np)"
    and "children_of P p = [] \<Longrightarrow>
      map_of ch p = None \<and> topsort_inv P (visited @ [p]) todo (AList.delete p np) ch"
    and "children_of P p \<noteq> [] \<Longrightarrow> map_of ch p = Some (children_of P p) \<and>
      (\<exists>np' todo'. knock_down (children_of P p) (AList.delete p np) todo = Inr (np', todo') \<and>
         topsort_inv P (visited @ [p]) todo' np' (AList.delete p ch))"
proof -
  let ?D = "insert p (set visited)"
  have gs: "graph_state P (set visited) np ch" and pr: "p \<in> ready P (set visited)"
    and dt: "p \<notin> set todo" "distinct todo" "set todo = ready P (set visited) - {p}"
    using inv by (auto simp: topsort_inv_def)
  then have p: "p \<in> elems P - set visited" "indeg (set visited) P p = 0" by (auto simp: ready_def)
  have closed: "\<forall>x \<in> set visited. indeg (set visited) P x = 0"
    using inv parents_first_closed by (auto simp: topsort_inv_def)
  have base: "distinct (visited @ [p])" "set (visited @ [p]) \<subseteq> elems P" "parents_first P (visited @ [p])"
    using inv p by (auto simp: topsort_inv_def parents_first_snoc indeg_zero_iff)
  show "p \<in> set (keys np)" using gs p(1) by (simp add: graph_state_def)
  show "map_of ch p = None \<and> topsort_inv P (visited @ [p]) todo (AList.delete p np) ch"
    if "children_of P p = []"
    using that gs p(1) base dt ready_insert_leaf [OF pr that] graph_state_leaf [OF gs p(1) that]
    by (simp add: topsort_inv_def graph_state_children)
  show "map_of ch p = Some (children_of P p) \<and>
      (\<exists>np' todo'. knock_down (children_of P p) (AList.delete p np) todo = Inr (np', todo') \<and>
         topsort_inv P (visited @ [p]) todo' np' (AList.delete p ch))"
    if ne: "children_of P p \<noteq> []"
  proof -
    obtain np' new where kd:
        "knock_down (children_of P p) (AList.delete p np) todo = Inr (np', todo @ new)"
        "graph_state P ?D np' (AList.delete p ch)" "distinct new"
        "set new = {c. (p, c) \<in> set P \<and> indeg ?D P c = 0}"
      using graph_state_knock_down [OF gs p closed, of todo] by blast
    have "distinct (todo @ new)" "set (todo @ new) = ready P ?D"
      using dt kd(3,4) ready_insert [OF pr closed] by auto
    with kd base ne gs p(1) show ?thesis by (auto simp: topsort_inv_def graph_state_children)
  qed
qed

lemma topsort_loop_correct:
  assumes "topsort_inv P visited todo np ch"
  shows "\<exists>ans np' ch'. topsort_loop visited todo np ch = Inr (ans, np', ch') \<and> topsort_inv P ans [] np' ch'"
  using assms
proof (induction visited todo np ch rule: topsort_loop.induct)
  case (1 visited np ch)
  then show ?case by auto
next
  case (2 visited p todo np ch)
  note step = topsort_inv_step [OF "2.prems"]
  show ?case
  proof (cases "children_of P p = []")
    case True
    with step "2.IH"(1) [of "AList.delete p np"] show ?thesis by (simp add: Let_def)
  next
    case False
    with step(3) obtain np' todo' where
      "map_of ch p = Some (children_of P p)"
      "knock_down (children_of P p) (AList.delete p np) todo = Inr (np', todo')"
      "topsort_inv P (visited @ [p]) todo' np' (AList.delete p ch)"
      by blast
    with step(1) "2.IH"(2) [of "AList.delete p np" "children_of P p" "(np', todo')" np' todo']
    show ?thesis by (simp add: Let_def)
  qed
qed

section \<open>Cycles and the outcome\<close>

lemma stuck_has_cycle:
  assumes "S \<noteq> {}" and "finite S" and "\<forall>x \<in> S. \<exists>p \<in> S. (p, x) \<in> R"
  shows "\<not> acyclic R"
proof
  assume "acyclic R"
  then have "acyclic (R \<inter> S \<times> S)" by (rule acyclic_subset) auto
  moreover have "finite (R \<inter> S \<times> S)" using assms(2) by auto
  ultimately have wf: "wf (R \<inter> S \<times> S)" by (intro finite_acyclic_wf)
  obtain s where "s \<in> S" using assms(1) by auto
  from wfE_min [OF wf this] obtain m where "m \<in> S" "\<And>y. (y, m) \<in> R \<inter> S \<times> S \<Longrightarrow> y \<notin> S"
    by blast
  moreover from assms(3) \<open>m \<in> S\<close> obtain p where "p \<in> S" "(p, m) \<in> R" by blast
  ultimately show False by blast
qed

lemma parents_first_acyclic:
  assumes "parents_first P xs" and "elems P \<subseteq> set xs"
  shows "acyclic (set P)"
  using assms
proof -
  define pos where "pos x = length (takeWhile (\<lambda>y. y \<noteq> x) xs)" for x
  have "pos p < pos x" if "(p, x) \<in> set P" for p x
  proof -
    have "x \<in> set xs" using elemsI [OF that] assms(2) by auto
    then obtain us vs where xs: "xs = us @ x # vs" "x \<notin> set us" by (meson split_list_first)
    then have "p \<in> set us" using assms(1) that unfolding parents_first_def by blast
    then obtain as bs where "us = as @ p # bs" "p \<notin> set as" by (meson split_list_first)
    then have "pos p < length us"
      unfolding pos_def xs(1) by (auto simp: takeWhile_append)
    moreover have "pos x = length us" unfolding pos_def xs(1) using xs(2) by (auto simp: takeWhile_append)
    ultimately show ?thesis by simp
  qed
  then have "set P \<subseteq> measure pos" by auto
  with wf_measure have "wf (set P)" by (rule wf_subset)
  then show ?thesis by (rule wf_acyclic)
qed

lemma graph_state_empty_iff: "graph_state P D np ch \<Longrightarrow> np = [] \<longleftrightarrow> elems P \<subseteq> D"
proof -
  assume "graph_state P D np ch"
  then have "set (keys np) = elems P - D" by (simp only: graph_state_def)
  moreover have "np = [] \<longleftrightarrow> set (keys np) = {}" by simp
  ultimately show ?thesis by (simp only: Diff_eq_empty_iff)
qed

lemma not_ready_cyclic:
  assumes "ready P D = {}" and "\<not> elems P \<subseteq> D"
  shows "\<not> acyclic (set P)"
proof (rule stuck_has_cycle)
  show "elems P - D \<noteq> {}" using assms(2) by blast
  show "\<forall>x \<in> elems P - D. \<exists>p \<in> elems P - D. (p, x) \<in> set P"
  proof
    fix x assume "x \<in> elems P - D"
    with assms(1) have "indeg D P x \<noteq> 0" by (auto simp: ready_def)
    then obtain p where "(p, x) \<in> set P" "p \<notin> D" by (auto simp: indeg_zero_iff)
    then show "\<exists>p \<in> elems P - D. (p, x) \<in> set P" using elemsI [of p x P] by blast
  qed
qed simp

lemma zero_keys_ready:
  assumes "dict_order hord" and "graph_state P D np ch"
  shows "set (filter (\<lambda>x. map_of np x = Some 0) (hord (keys np))) = ready P D"
    and "distinct (filter (\<lambda>x. map_of np x = Some 0) (hord (keys np)))"
proof -
  have ks: "set (keys np) = elems P - D"
    using assms(2) by (auto simp: graph_state_def)
  have "map_of np x = Some (int (indeg D P x))" if "x \<in> elems P - D" for x
    using assms(2) that by (simp add: graph_state_def)
  then show "set (filter (\<lambda>x. map_of np x = Some 0) (hord (keys np))) = ready P D"
    unfolding ready_def set_filter dict_order_set [OF assms(1)] ks by auto
  show "distinct (filter (\<lambda>x. map_of np x = Some 0) (hord (keys np)))"
    using assms by (intro distinct_filter) (simp add: dict_order_distinct graph_state_def dict_ok_def)
qed

lemma topsort_result:
  assumes "dict_order hord"
  obtains ans np ch where "topsort_inv P ans [] np ch"
    "topsort hord P = (if elems P \<subseteq> set ans then Inr ans else Inl (CycleError ans np ch))"
proof -
  obtain np ch where b: "build_graph P = (np, ch)" by fastforce
  then have gs: "graph_state P {} np ch" using build_graph_state [of P] by simp
  let ?a = "filter (\<lambda>x. map_of np x = Some 0) (hord (keys np))"
  have sa: "set ?a = ready P {}" "distinct ?a"
    by (rule zero_keys_ready [OF assms gs])+
  with gs sa have "topsort_inv P [] ?a np ch" by (simp add: topsort_inv_def)
  then obtain ans np' ch' where "topsort_loop [] ?a np ch = Inr (ans, np', ch')" "topsort_inv P ans [] np' ch'"
    using topsort_loop_correct by blast
  moreover from this(2) have "graph_state P (set ans) np' ch'" by (simp add: topsort_inv_def)
  then have "np' = [] \<longleftrightarrow> elems P \<subseteq> set ans" by (rule graph_state_empty_iff)
  ultimately show thesis using b by (intro that [of ans np' ch']) (simp_all add: topsort_def)
qed

section \<open>Correctness of topsort_levels\<close>

definition closed_under :: "('a \<times> 'a) list \<Rightarrow> 'a set \<Rightarrow> bool" where
  \<comment> \<open>\<open>D\<close> holds all parents of its elements\<close>
  "closed_under P D \<longleftrightarrow> (\<forall>x \<in> D. indeg D P x = 0)"

lemma closed_under_insert:
  "closed_under P D \<Longrightarrow> p \<in> ready P D \<Longrightarrow> closed_under P (insert p D)"
  using indeg_mono [of D "insert p D" P] by (auto simp: closed_under_def ready_def)

lemma remove_level_correct:
  assumes "graph_state P D np ch" "closed_under P D" "distinct ps" "set ps \<subseteq> ready P D"
  shows "\<exists>np' ch'. remove_level ps np ch = Inr (np', ch') \<and>
    graph_state P (D \<union> set ps) np' ch' \<and> closed_under P (D \<union> set ps)"
  using assms
proof (induction ps arbitrary: D np ch)
  case Nil
  then show ?case by simp
next
  case (Cons p ps)
  then have pr: "p \<in> ready P D" and p: "p \<in> elems P - D" "indeg D P p = 0"
    by (auto simp: ready_def)
  have pk: "p \<in> set (keys np)" using Cons.prems(1) p(1) by (simp add: graph_state_def)
  have cl: "closed_under P (insert p D)" using Cons.prems(2) pr by (rule closed_under_insert)
  have all: "\<forall>x \<in> D. indeg D P x = 0" using Cons.prems(2) by (simp add: closed_under_def)
  have rest: "set ps \<subseteq> ready P (insert p D)"
    using Cons.prems(3,4) ready_insert(1) [OF pr all] by auto
  have un: "D \<union> set (p # ps) = insert p D \<union> set ps" by simp
  show ?case
  proof (cases "children_of P p = []")
    case True
    have "graph_state P (insert p D) (AList.delete p np) ch"
      using Cons.prems(1) p(1) True by (rule graph_state_leaf)
    with Cons.IH [OF this cl] Cons.prems(1,3) p(1) rest True pk show ?thesis
      unfolding un by (simp add: Let_def graph_state_children)
  next
    case False
    obtain np' new where kd:
        "knock_down (children_of P p) (AList.delete p np) [] = Inr (np', [] @ new)"
        "graph_state P (insert p D) np' (AList.delete p ch)"
      using graph_state_knock_down [OF Cons.prems(1) p all] by blast
    then have "count_down (children_of P p) (AList.delete p np) = Inr np'"
      by (simp add: count_down_knock_down [of _ _ "[]"])
    with Cons.IH [OF kd(2) cl] Cons.prems(1,3) p(1) rest False pk show ?thesis
      unfolding un by (simp add: Let_def graph_state_children)
  qed
qed

text \<open>
  What the generator has produced when it ends: the levels \<open>ls\<close>, starting from the
  elements \<open>D\<close> already removed.
\<close>

definition levels_ok :: "('a \<times> 'a) list \<Rightarrow> 'a set \<Rightarrow> 'a list list \<Rightarrow> bool" where
  "levels_ok P D ls \<longleftrightarrow>
     distinct (concat ls) \<and> set (concat ls) \<inter> D = {} \<and>
     (\<forall>k < length ls. ls ! k \<noteq> [] \<and> set (ls ! k) = ready P (D \<union> set (concat (take k ls)))) \<and>
     ready P (D \<union> set (concat ls)) = {}"

lemma levels_ok_Nil: "levels_ok P D [] \<longleftrightarrow> ready P D = {}"
  by (simp add: levels_ok_def)

lemma levels_ok_Cons:
  assumes "distinct l" "l \<noteq> []" "set l = ready P D" "levels_ok P (D \<union> set l) ls"
  shows "levels_ok P D (l # ls)"
  unfolding levels_ok_def
proof (intro conjI allI impI)
  show "distinct (concat (l # ls))" "set (concat (l # ls)) \<inter> D = {}"
    using assms by (auto simp: levels_ok_def ready_def)
  show "ready P (D \<union> set (concat (l # ls))) = {}"
    using assms(4) by (simp add: levels_ok_def Un_assoc)
  fix k assume "k < length (l # ls)"
  then show "(l # ls) ! k \<noteq> []" "set ((l # ls) ! k) = ready P (D \<union> set (concat (take k (l # ls))))"
    using assms by (cases k; simp add: levels_ok_def Un_assoc)+
qed

lemma concat_position:
  assumes "n < length (concat ls)"
  obtains k i where "k < length ls" "i < length (ls ! k)" "concat ls ! n = ls ! k ! i"
    "n = length (concat (take k ls)) + i"
  using assms
proof (induction ls arbitrary: n thesis)
  case Nil
  then show ?case by simp
next
  case (Cons l ls)
  show ?case
  proof (cases "n < length l")
    case True
    then show ?thesis by (intro Cons.prems(1) [of 0 n]) (simp_all add: nth_append)
  next
    case False
    then have "n - length l < length (concat ls)" using Cons.prems(2) by simp
    then obtain k i where "k < length ls" "i < length (ls ! k)" "concat ls ! (n - length l) = ls ! k ! i"
      "n - length l = length (concat (take k ls)) + i"
      by (rule Cons.IH [rotated])
    with False show ?thesis by (intro Cons.prems(1) [of "Suc k" i]) (simp_all add: nth_append)
  qed
qed

lemma levels_ok_acyclic:
  assumes "levels_ok P {} ls" and "elems P \<subseteq> set (concat ls)"
  shows "acyclic (set P)"
proof (rule parents_first_acyclic [OF _ assms(2)])
  show "parents_first P (concat ls)" unfolding parents_first_def
  proof (intro allI impI)
    fix us x vs p assume c: "concat ls = us @ x # vs" and e: "(p, x) \<in> set P"
    have "length us < length (concat ls)" using c by simp
    then obtain k i where ki: "k < length ls" "i < length (ls ! k)" "concat ls ! length us = ls ! k ! i"
        "length us = length (concat (take k ls)) + i"
      by (rule concat_position)
    have "x = ls ! k ! i" using c ki(3) by simp
    then have "x \<in> set (ls ! k)" using ki(2) by simp
    then have "x \<in> ready P (set (concat (take k ls)))"
      using assms(1) ki(1) by (auto simp: levels_ok_def)
    with e have "p \<in> set (concat (take k ls))" by (simp add: ready_def indeg_zero_iff)
    moreover have "prefix (concat (take k ls)) us"
    proof -
      have "concat ls = concat (take k ls) @ concat (drop k ls)"
        by (metis append_take_drop_id concat_append)
      then have "concat (take k ls) = take (length (concat (take k ls))) us"
        using c ki(4) by (metis append_eq_append_conv_if le_add1)
      then show ?thesis by (metis take_is_prefix)
    qed
    ultimately show "p \<in> set us" by (meson set_mono_prefix subsetD)
  qed
qed

lemma levels_ok_elems: "levels_ok P D ls \<Longrightarrow> set (concat ls) \<subseteq> elems P"
proof
  fix x assume ok: "levels_ok P D ls" and "x \<in> set (concat ls)"
  then obtain l where "l \<in> set ls" "x \<in> set l" by auto
  then obtain k where "k < length ls" "l = ls ! k" by (metis in_set_conv_nth)
  with ok \<open>x \<in> set l\<close> show "x \<in> elems P" by (auto simp: levels_ok_def ready_def)
qed

lemma topsort_levels_core_correct:
  assumes "dict_order hord" "graph_state P D np ch" "closed_under P D"
  shows "case topsort_levels_core hord np ch of (ls, out) \<Rightarrow> levels_ok P D ls \<and>
    (if elems P \<subseteq> D \<union> set (concat ls) then out = Inr ()
     else \<exists>np'. np' \<noteq> [] \<and> (\<exists>ch'. out = Inl (CycleError [] np' ch')))"
  using assms
proof (induction hord np ch arbitrary: D rule: topsort_levels_core.induct)
  case (1 hord np ch)
  let ?l = "filter (\<lambda>x. map_of np x = Some 0) (hord (keys np))"
  have l: "set ?l = ready P D" "distinct ?l"
    by (rule zero_keys_ready [OF "1.prems"(1,2)])+
  have emp: "np = [] \<longleftrightarrow> elems P \<subseteq> D" using "1.prems"(2) by (rule graph_state_empty_iff)
  show ?case
  proof (cases "?l = []")
    case True
    with l(1) have "ready P D = {}" by simp
    with emp True show ?thesis
      by (simp add: topsort_levels_core.simps [of hord np ch] levels_ok_Nil)
  next
    case False
    obtain np' ch' where rl: "remove_level ?l np ch = Inr (np', ch')"
        "graph_state P (D \<union> set ?l) np' ch'" "closed_under P (D \<union> set ?l)"
      using remove_level_correct [OF "1.prems"(2,3) l(2)] l(1) by auto
    obtain ls out where rec: "topsort_levels_core hord np' ch' = (ls, out)" by fastforce
    have "levels_ok P (D \<union> set ?l) ls \<and>
      (if elems P \<subseteq> (D \<union> set ?l) \<union> set (concat ls) then out = Inr ()
       else \<exists>np'. np' \<noteq> [] \<and> (\<exists>ch'. out = Inl (CycleError [] np' ch')))"
      using "1.IH" [OF refl False rl(1) refl "1.prems"(1) rl(2,3)] unfolding rec prod.case .
    moreover have "topsort_levels_core hord np ch = (?l # ls, out)"
      using False rl(1) rec by (simp add: topsort_levels_core.simps [of hord np ch] Let_def)
    ultimately show ?thesis
      using levels_ok_Cons [OF l(2) False l(1)] by (simp add: Un_assoc)
  qed
qed

section \<open>Finding cycles\<close>

text \<open>
  The graph is a dictionary from a parent to its children. The stack \<open>paths\<close> is a list
  whose head is the end that \<open>pop\<close> removes. A path is a non-empty list; \<open>is_rotated\<close> is
  applied to non-empty cycles only, so it never raises here, and an exception of it
  would count as a difference.
\<close>

definition is_dup :: "'a list list \<Rightarrow> 'a list \<Rightarrow> bool" where
  "is_dup cycles cycle \<longleftrightarrow> list_ex (\<lambda>other_cycle. is_rotated other_cycle cycle = Inr True) cycles"

fun visit_children :: "'a list \<Rightarrow> 'a list \<Rightarrow> 'a list list \<Rightarrow> 'a list list \<Rightarrow> 'a list
    \<Rightarrow> 'a list list \<times> 'a list list \<times> 'a list" where
  \<comment> \<open>\<open>path\<close>, the children still to look at, and the state: cycles, paths, visited nodes\<close>
  "visit_children path [] cycles paths visited = (cycles, paths, visited)"
| "visit_children path (child # cs) cycles paths visited =
     (if child \<in> set path then
        let cycle = dropWhile (\<lambda>x. x \<noteq> child) path
        in if is_dup cycles cycle then visit_children path cs cycles paths visited
           else visit_children path cs (cycles @ [cycle]) paths visited
      else visit_children path cs cycles ((path @ [child]) # paths) (List.insert child visited))"

definition graph_nodes :: "('a \<times> 'a list) list \<Rightarrow> 'a set" where
  "graph_nodes g = set (keys g) \<union> (\<Union>e \<in> set g. set (snd e))"

definition room :: "('a \<times> 'a list) list \<Rightarrow> 'a list \<Rightarrow> nat" where
  \<comment> \<open>how many nodes of the graph a path may still visit\<close>
  "room g path = card (graph_nodes g) - card (set path \<inter> graph_nodes g)"

lemma finite_graph_nodes [simp]: "finite (graph_nodes g)"
  by (simp add: graph_nodes_def)

lemma map_of_graph_nodes: "map_of g p = Some cs \<Longrightarrow> set cs \<subseteq> graph_nodes g"
  using map_of_SomeD [of g p cs] by (force simp: graph_nodes_def)

lemma room_less:
  assumes "c \<in> graph_nodes g" "c \<notin> set path"
  shows "room g (path @ [c]) < room g path"
proof -
  let ?N = "graph_nodes g"
  have sub: "insert c (set path \<inter> ?N) \<subseteq> ?N" using assms(1) by auto
  have "set (path @ [c]) \<inter> ?N = insert c (set path \<inter> ?N)" using assms(1) by auto
  moreover have "card (insert c (set path \<inter> ?N)) = Suc (card (set path \<inter> ?N))"
    using assms(2) by simp
  moreover have "card (insert c (set path \<inter> ?N)) \<le> card ?N"
    using sub by (intro card_mono) simp_all
  ultimately show ?thesis by (simp add: room_def)
qed

lemma visit_children_paths:
  "visit_children path cs cycles paths visited = (cycles', paths', visited') \<Longrightarrow>
     \<exists>new. paths' = new @ paths \<and> set new = {path @ [c] | c. c \<in> set cs \<and> c \<notin> set path}"
proof (induction path cs cycles paths visited rule: visit_children.induct)
  case (2 path child cs cycles paths visited)
  then show ?case
    by (cases "child \<in> set path") (fastforce simp: Let_def split: if_splits)+
qed auto

function find_cycles_loop :: "('a \<times> 'a list) list \<Rightarrow> 'a list list \<Rightarrow> 'a list list \<Rightarrow> 'a list
    \<Rightarrow> 'a list list \<times> 'a list" where
  "find_cycles_loop g [] cycles visited = (cycles, visited)"
| "find_cycles_loop g (path # paths) cycles visited =
     (case map_of g (last path) of
        None \<Rightarrow> find_cycles_loop g paths cycles visited
      | Some cs \<Rightarrow>
          let (cycles', paths', visited') = visit_children path cs cycles paths visited
          in find_cycles_loop g paths' cycles' visited')"
  by pat_completeness auto
termination
proof (relation "inv_image (mult less_than) (\<lambda>(g, paths, _, _). mset (map (room g) paths))", goal_cases)
  case 1
  then show ?case by (simp add: wf_mult)
next
  case (2 g path paths cycles visited)
  show ?case
    using one_step_implies_mult [of "{#room g path#}" "{#}" less_than "mset (map (room g) paths)"]
    by simp
next
  case (3 g path paths cycles visited cs r cycles' y paths' visited')
  then have "visit_children path cs cycles paths visited = (cycles', paths', visited')" by simp
  from visit_children_paths [OF this] obtain new where new: "paths' = new @ paths"
      "set new = {path @ [c] | c. c \<in> set cs \<and> c \<notin> set path}"
    by blast
  have "\<forall>k \<in># mset (map (room g) new). \<exists>j \<in># {#room g path#}. (k, j) \<in> less_than"
    using new(2) 3(1) map_of_graph_nodes [of g "last path" cs] by (auto intro: room_less)
  then have "(mset (map (room g) paths) + mset (map (room g) new),
      mset (map (room g) paths) + {#room g path#}) \<in> mult less_than"
    by (intro one_step_implies_mult) auto
  then show ?case using new(1) by (simp add: add.commute)
qed

fun find_cycles_from :: "('a \<times> 'a list) list \<Rightarrow> 'a list \<Rightarrow> 'a list list \<Rightarrow> 'a list \<Rightarrow> 'a list list" where
  "find_cycles_from g [] cycles visited = cycles"
| "find_cycles_from g (parent # rest) cycles visited =
     (if parent \<in> set visited then find_cycles_from g rest cycles visited
      else let (cycles', visited') = find_cycles_loop g [[parent]] cycles visited
           in find_cycles_from g rest cycles' visited')"

definition find_cycles :: "('a list \<Rightarrow> 'a list) \<Rightarrow> ('a \<times> 'a list) list \<Rightarrow> 'a list list" where
  "find_cycles hord parent_children =
     find_cycles_from parent_children (hord (keys parent_children)) [] []"

text \<open>Paths and cycles of the graph; two cycles are the same up to rotation.\<close>

definition edge :: "('a \<times> 'a list) list \<Rightarrow> 'a \<Rightarrow> 'a \<Rightarrow> bool" where
  "edge g a b \<longleftrightarrow> (\<exists>cs. map_of g a = Some cs \<and> b \<in> set cs)"

definition simple_path :: "('a \<times> 'a list) list \<Rightarrow> 'a list \<Rightarrow> bool" where
  "simple_path g p \<longleftrightarrow> p \<noteq> [] \<and> distinct p \<and> successively (edge g) p"

definition is_cycle :: "('a \<times> 'a list) list \<Rightarrow> 'a list \<Rightarrow> bool" where
  "is_cycle g c \<longleftrightarrow> simple_path g c \<and> edge g (last c) (hd c)"

definition same_cycle :: "'a list \<Rightarrow> 'a list \<Rightarrow> bool" where
  "same_cycle a b \<longleftrightarrow> (\<exists>n. b = rotate n a)"

lemma same_cycle_refl [simp]: "same_cycle a a"
  unfolding same_cycle_def by (metis rotate0 id_apply)

lemma same_cycle_trans: "same_cycle a b \<Longrightarrow> same_cycle b c \<Longrightarrow> same_cycle a c"
  unfolding same_cycle_def by (metis rotate_rotate)

lemma same_cycle_sym: "same_cycle a b \<Longrightarrow> same_cycle b a"
proof -
  assume "same_cycle a b"
  then obtain n where n: "b = rotate (n mod length a) a"
    unfolding same_cycle_def by (metis rotate_conv_mod)
  show ?thesis
  proof (cases "a = []")
    case True
    with n show ?thesis by simp
  next
    case False
    then have "rotate (length a - n mod length a) b = a"
      using n by (simp add: rotate_rotate)
    then show ?thesis unfolding same_cycle_def by metis
  qed
qed

lemma is_dup_iff: "c \<noteq> [] \<Longrightarrow> is_dup cycles c \<longleftrightarrow> (\<exists>r \<in> set cycles. same_cycle r c)"
  by (simp add: is_dup_def list_ex_iff is_rotated_rotate same_cycle_def)

lemma dropWhile_to_child:
  assumes "child \<in> set path"
  obtains us vs where "path = us @ child # vs" "child \<notin> set us"
    "dropWhile (\<lambda>x. x \<noteq> child) path = child # vs"
proof -
  from assms obtain us vs where s: "path = us @ child # vs" "child \<notin> set us"
    by (meson split_list_first)
  have "dropWhile (\<lambda>x. x \<noteq> child) (us @ child # vs) = child # vs"
    using s(2) by (subst dropWhile_append2) auto
  with s that show thesis by simp
qed

lemma closing_edge_cycle:
  assumes "simple_path g path" "child \<in> set path" "edge g (last path) child"
  shows "is_cycle g (dropWhile (\<lambda>x. x \<noteq> child) path)"
proof -
  obtain us vs where s: "path = us @ child # vs" "dropWhile (\<lambda>x. x \<noteq> child) path = child # vs"
    using assms(2) by (rule dropWhile_to_child)
  with assms show ?thesis
    by (auto simp: is_cycle_def simple_path_def successively_append_iff)
qed

text \<open>What the search has collected so far: cycles of the graph, no two the same.\<close>

definition cycles_ok :: "('a \<times> 'a list) list \<Rightarrow> 'a list list \<Rightarrow> bool" where
  "cycles_ok g cycles \<longleftrightarrow>
     (\<forall>c \<in> set cycles. is_cycle g c) \<and> sorted_wrt (\<lambda>a b. \<not> same_cycle a b) cycles"

definition found :: "'a list list \<Rightarrow> 'a list \<Rightarrow> bool" where
  "found cycles c \<longleftrightarrow> (\<exists>r \<in> set cycles. same_cycle r c)"

lemma found_mono: "found cycles c \<Longrightarrow> set cycles \<subseteq> set cycles' \<Longrightarrow> found cycles' c"
  by (auto simp: found_def)

lemma visit_children_mono:
  "visit_children path cs cycles paths visited = (cycles', paths', visited') \<Longrightarrow>
     set cycles \<subseteq> set cycles' \<and> set visited' = set visited \<union> {c \<in> set cs. c \<notin> set path}"
  by (induction path cs cycles paths visited rule: visit_children.induct)
     (auto simp: Let_def split: if_splits)

lemma visit_children_ok:
  assumes "visit_children path cs cycles paths visited = (cycles', paths', visited')"
    and "cycles_ok g cycles" "simple_path g path" "\<forall>c \<in> set cs. edge g (last path) c"
  shows "cycles_ok g cycles'"
  using assms
proof (induction path cs cycles paths visited rule: visit_children.induct)
  case (2 path child cs cycles paths visited)
  show ?case
  proof (cases "child \<in> set path")
    case True
    let ?c = "dropWhile (\<lambda>x. x \<noteq> child) path"
    have cyc: "is_cycle g ?c"
      using "2.prems"(3,4) True by (intro closing_edge_cycle) auto
    then have ne: "?c \<noteq> []" by (simp add: is_cycle_def simple_path_def)
    have "cycles_ok g (cycles @ [?c])" if "\<not> is_dup cycles ?c"
      using "2.prems"(2) cyc that ne by (auto simp: cycles_ok_def is_dup_iff sorted_wrt_append)
    with 2 True show ?thesis by (auto simp: Let_def split: if_splits)
  next
    case False
    with 2 show ?thesis by simp
  qed
qed simp

lemma visit_children_found:
  assumes "visit_children path cs cycles paths visited = (cycles', paths', visited')"
    and "c \<in> set cs" "c \<in> set path"
  shows "found cycles' (dropWhile (\<lambda>x. x \<noteq> c) path)"
  using assms
proof (induction path cs cycles paths visited rule: visit_children.induct)
  case (2 path child cs cycles paths visited)
  show ?case
  proof (cases "c = child")
    case True
    let ?c = "dropWhile (\<lambda>x. x \<noteq> child) path"
    have ne: "?c \<noteq> []" using "2.prems"(3) True by auto
    obtain cs1 where rest: "visit_children path cs cs1 paths visited = (cycles', paths', visited')"
        "found cs1 ?c"
      using "2.prems"(1,3) True ne
      by (auto simp: Let_def is_dup_iff found_def split: if_splits)
    with visit_children_mono [OF rest(1)] True show ?thesis by (auto intro: found_mono)
  next
    case False
    with 2 show ?thesis by (auto simp: Let_def split: if_splits)
  qed
qed simp

lemma find_cycles_loop_mono:
  "find_cycles_loop g paths cycles visited = (cycles', visited') \<Longrightarrow>
     set cycles \<subseteq> set cycles' \<and> set visited \<subseteq> set visited'"
proof (induction g paths cycles visited rule: find_cycles_loop.induct)
  case (2 g path paths cycles visited)
  show ?case
  proof (cases "map_of g (last path)")
    case None
    with 2 show ?thesis by simp
  next
    case (Some cs)
    obtain c1 p1 v1 where vc: "visit_children path cs cycles paths visited = (c1, p1, v1)"
      by (metis prod_cases3)
    with 2 Some have "set c1 \<subseteq> set cycles' \<and> set v1 \<subseteq> set visited'" by simp
    with visit_children_mono [OF vc] show ?thesis by auto
  qed
qed auto

lemma find_cycles_loop_ok:
  assumes "find_cycles_loop g paths cycles visited = (cycles', visited')"
    and "cycles_ok g cycles" "\<forall>p \<in> set paths. simple_path g p \<and> hd p = s"
  shows "cycles_ok g cycles' \<and>
    (\<forall>v \<in> set visited'. v \<in> set visited \<or> (\<exists>p. simple_path g p \<and> hd p = s \<and> last p = v))"
  using assms
proof (induction g paths cycles visited rule: find_cycles_loop.induct)
  case (2 g path paths cycles visited)
  show ?case
  proof (cases "map_of g (last path)")
    case None
    with 2 show ?thesis by simp
  next
    case (Some cs)
    obtain c1 p1 v1 where vc: "visit_children path cs cycles paths visited = (c1, p1, v1)"
      by (metis prod_cases3)
    have path: "simple_path g path" "hd path = s" using "2.prems"(3) by auto
    have edges: "\<forall>c \<in> set cs. edge g (last path) c" using Some by (simp add: edge_def)
    have ext: "simple_path g (path @ [c]) \<and> hd (path @ [c]) = s" if "c \<in> set cs" "c \<notin> set path" for c
      using path edges that by (auto simp: simple_path_def successively_append_iff)
    have "\<forall>p \<in> set p1. simple_path g p \<and> hd p = s"
      using visit_children_paths [OF vc] "2.prems"(3) ext by auto
    moreover have "cycles_ok g c1" using vc "2.prems"(2) path(1) edges by (rule visit_children_ok)
    ultimately have "cycles_ok g cycles' \<and>
        (\<forall>v \<in> set visited'. v \<in> set v1 \<or> (\<exists>p. simple_path g p \<and> hd p = s \<and> last p = v))"
      using "2.IH"(2) [OF Some refl vc [symmetric] refl] "2.prems"(1) Some vc by simp
    moreover have "\<forall>v \<in> set v1. v \<in> set visited \<or> (\<exists>p. simple_path g p \<and> hd p = s \<and> last p = v)"
      using visit_children_mono [OF vc] ext by (metis (no_types, lifting) CollectD UnE last_snoc)
    ultimately show ?thesis by blast
  qed
qed auto

lemma find_cycles_loop_found:
  assumes "find_cycles_loop g paths cycles visited = (cycles', visited')"
    and "p \<in> set paths" "p \<noteq> []" "simple_path g (p @ ext)" "c \<in> set (p @ ext)" "edge g (last (p @ ext)) c"
  shows "found cycles' (dropWhile (\<lambda>x. x \<noteq> c) (p @ ext))"
  using assms
proof (induction g paths cycles visited arbitrary: p ext rule: find_cycles_loop.induct)
  case (2 g path paths cycles visited)
  have next_edge: "edge g (last p) e \<and> e \<notin> set p" if "ext = e # es" for e es
    using "2.prems"(3,4) that by (auto simp: simple_path_def successively_append_iff)
  show ?case
  proof (cases "map_of g (last path)")
    case None
    have "p \<noteq> path"
      using None "2.prems"(3,6) next_edge by (cases ext) (auto simp: edge_def)
    with 2 None show ?thesis by simp
  next
    case (Some cs)
    obtain c1 p1 v1 where vc: "visit_children path cs cycles paths visited = (c1, p1, v1)"
      by (metis prod_cases3)
    obtain new where new: "p1 = new @ paths" "set new = {path @ [c] | c. c \<in> set cs \<and> c \<notin> set path}"
      using visit_children_paths [OF vc] by blast
    have run: "find_cycles_loop g p1 c1 v1 = (cycles', visited')"
      using "2.prems"(1) Some vc by simp
    have IH: "found cycles' (dropWhile (\<lambda>x. x \<noteq> c) (q @ es))"
      if "q \<in> set p1" "q \<noteq> []" "q @ es = p @ ext" for q es
      using "2.IH"(2) [OF Some refl vc [symmetric] refl run that(1,2), of es] "2.prems"(4-6)
      unfolding that(3) by blast
    show ?thesis
    proof (cases "p = path")
      case False
      with "2.prems"(2) new(1) IH [of p ext] "2.prems"(3) show ?thesis by simp
    next
      case True
      show ?thesis
      proof (cases ext)
        case Nil
        with "2.prems"(5,6) True Some have "c \<in> set cs" "c \<in> set path" by (auto simp: edge_def)
        with vc have "found c1 (dropWhile (\<lambda>x. x \<noteq> c) path)" by (rule visit_children_found)
        with find_cycles_loop_mono [OF run] Nil True show ?thesis by (auto intro: found_mono)
      next
        case (Cons e es)
        with next_edge True Some have "e \<in> set cs" "e \<notin> set path" by (auto simp: edge_def)
        with new have "path @ [e] \<in> set p1" by auto
        with IH [of "path @ [e]" es] Cons True show ?thesis by simp
      qed
    qed
  qed
qed auto

declare find_cycles_loop.simps [simp del]

lemma cycle_from:
  assumes "is_cycle g c" "x \<in> set c"
  obtains d where "same_cycle d c" "is_cycle g d" "hd d = x" "set d = set c"
proof -
  obtain us vs where c: "c = us @ x # vs" using assms(2) by (meson split_list)
  let ?d = "(x # vs) @ us"
  have "same_cycle c ?d"
    unfolding same_cycle_def c by (metis rotate_append)
  moreover have "is_cycle g ?d"
  proof -
    have "distinct c" and suc: "successively (edge g) (us @ x # vs)" and close: "edge g (last c) (hd c)"
      using assms(1) by (auto simp: c is_cycle_def simple_path_def)
    then have parts: "successively (edge g) us" "successively (edge g) (x # vs)"
        "us = [] \<or> edge g (last us) x"
      unfolding successively_append_iff by auto
    have "us = [] \<or> edge g (last (x # vs)) (hd us)" using close by (cases us) (auto simp: c)
    then have "successively (edge g) ?d"
      unfolding successively_append_iff using parts by auto
    moreover have "edge g (last ?d) (hd ?d)" using parts(3) close by (cases "us = []") (auto simp: c)
    ultimately show ?thesis using \<open>distinct c\<close> by (auto simp: c is_cycle_def simple_path_def)
  qed
  ultimately show thesis using c by (intro that [of ?d]) (auto intro: same_cycle_sym)
qed

lemma reachable_cycle_found:
  assumes run: "find_cycles_loop g [[s]] cycles visited = (cycles', visited')"
    and p: "simple_path g p" "hd p = s" and c: "is_cycle g c" "last p \<in> set c"
  shows "found cycles' c"
proof -
  have "last p \<in> set p" using p(1) by (simp add: simple_path_def)
  with c(2) have "\<exists>x \<in> set p. x \<in> set c" by blast
  then obtain p1 x p2 where sp: "p = p1 @ x # p2" "x \<in> set c" "\<forall>y \<in> set p1. y \<notin> set c"
    using split_list_first_prop [of p "\<lambda>x. x \<in> set c"] by blast
  obtain d where d: "same_cycle d c" "is_cycle g d" "hd d = x" "set d = set c"
    using c(1) sp(2) by (rule cycle_from)
  let ?q = "p1 @ d"
  obtain ds where ds: "d = x # ds"
    using d(2,3) by (cases d) (auto simp: is_cycle_def simple_path_def)
  have q: "?q = [s] @ tl ?q" using p(2) sp(1) ds by (cases p1) auto
  have "simple_path g ?q"
    using p(1) sp d(2-4)
    by (auto simp: simple_path_def is_cycle_def successively_append_iff)
  moreover have "edge g (last ?q) x" "x \<in> set ?q" using d(2,3) by (auto simp: ds is_cycle_def)
  ultimately have "found cycles' (dropWhile (\<lambda>y. y \<noteq> x) ?q)"
    using find_cycles_loop_found [OF run, of "[s]" "tl ?q" x] unfolding q [symmetric] by simp
  moreover have "dropWhile (\<lambda>y. y \<noteq> x) ?q = d"
  proof -
    have "\<And>y. y \<in> set p1 \<Longrightarrow> y \<noteq> x" using sp(2,3) by auto
    then have "dropWhile (\<lambda>y. y \<noteq> x) ?q = dropWhile (\<lambda>y. y \<noteq> x) d" by (rule dropWhile_append2)
    then show ?thesis by (simp add: ds)
  qed
  ultimately show ?thesis using d(1) by (auto simp: found_def intro: same_cycle_trans)
qed

lemma find_cycles_from_mono: "set cycles \<subseteq> set (find_cycles_from g rest cycles visited)"
proof (induction g rest cycles visited rule: find_cycles_from.induct)
  case (2 g parent rest cycles visited)
  obtain c1 v1 where run: "find_cycles_loop g [[parent]] cycles visited = (c1, v1)" by fastforce
  show ?case
    using "2.IH"(1) "2.IH"(2) [OF _ run [symmetric] refl] find_cycles_loop_mono [OF run] run
    by (cases "parent \<in> set visited") auto
qed simp

lemma find_cycles_from_correct:
  assumes "cycles_ok g cycles" "\<forall>v \<in> set visited. \<forall>c. is_cycle g c \<and> v \<in> set c \<longrightarrow> found cycles c"
  shows "cycles_ok g (find_cycles_from g rest cycles visited) \<and>
    (\<forall>v \<in> set visited \<union> set rest. \<forall>c. is_cycle g c \<and> v \<in> set c \<longrightarrow>
       found (find_cycles_from g rest cycles visited) c)"
  using assms
proof (induction g rest cycles visited rule: find_cycles_from.induct)
  case (2 g parent rest cycles visited)
  show ?case
  proof (cases "parent \<in> set visited")
    case True
    with 2 show ?thesis by auto
  next
    case False
    obtain c1 v1 where run: "find_cycles_loop g [[parent]] cycles visited = (c1, v1)" by fastforce
    have start: "\<forall>p \<in> set [[parent]]. simple_path g p \<and> hd p = parent"
      by (simp add: simple_path_def)
    have ok: "cycles_ok g c1"
      and vis: "\<And>v. v \<in> set v1 \<Longrightarrow> v \<in> set visited \<or> (\<exists>p. simple_path g p \<and> hd p = parent \<and> last p = v)"
      using find_cycles_loop_ok [OF run "2.prems"(1) start] by auto
    have old: "found c1 c" if "found cycles c" for c
      using that find_cycles_loop_mono [OF run] by (auto intro: found_mono)
    have all: "found c1 c" if "is_cycle g c" "v \<in> set c" "v \<in> set v1 \<or> v = parent" for v c
    proof (cases "v \<in> set visited")
      case True
      with that(1,2) "2.prems"(2) old show ?thesis by blast
    next
      case False
      with that(3) vis [of v] obtain p where "simple_path g p" "hd p = parent" "last p = v"
        using start by auto
      with reachable_cycle_found [OF run this(1,2) that(1)] that(2) show ?thesis by simp
    qed
    have "cycles_ok g (find_cycles_from g rest c1 v1) \<and>
        (\<forall>v \<in> set v1 \<union> set rest. \<forall>c. is_cycle g c \<and> v \<in> set c \<longrightarrow> found (find_cycles_from g rest c1 v1) c)"
      using "2.IH"(2) [OF False run [symmetric] refl ok] all by blast
    moreover have "found (find_cycles_from g rest c1 v1) c" if "found c1 c" for c
      using that find_cycles_from_mono by (rule found_mono)
    ultimately show ?thesis
      using False run all find_cycles_loop_mono [OF run] by auto
  qed
qed simp

lemma cycle_starts_at_key: "is_cycle g c \<Longrightarrow> last c \<in> set (keys g)"
  unfolding is_cycle_def edge_def by (metis lookup_keys option.distinct(1))

section \<open>Properties\<close>

text \<open>C1: \<open>topsort\<close> never raises \<open>KeyError\<close>. If it returns, the graph has no cycle, and the
  answer lists every element once, each after all its parents; if it raises \<open>CycleError\<close>, the
  graph has a cycle, and the partial answer has the same order.\<close>

theorem topsort_correct:
  assumes "dict_order hord"
  shows "case topsort hord P of
      Inr ans \<Rightarrow> acyclic (set P) \<and> distinct ans \<and> set ans = elems P \<and> parents_first P ans
    | Inl TopsortKeyError \<Rightarrow> False
    | Inl (CycleError ans np ch) \<Rightarrow>
        \<not> acyclic (set P) \<and> distinct ans \<and> parents_first P ans \<and> set (keys np) = elems P - set ans"
proof -
  obtain ans np ch where inv: "topsort_inv P ans [] np ch"
    and res: "topsort hord P = (if elems P \<subseteq> set ans then Inr ans else Inl (CycleError ans np ch))"
    using assms by (rule topsort_result)
  from inv have i: "distinct ans" "set ans \<subseteq> elems P" "parents_first P ans" "ready P (set ans) = {}"
      "set (keys np) = elems P - set ans"
    by (auto simp: topsort_inv_def graph_state_def)
  show ?thesis
  proof (cases "elems P \<subseteq> set ans")
    case True
    with res i parents_first_acyclic [OF i(3) True] show ?thesis by auto
  next
    case False
    with res i not_ready_cyclic [OF i(4) False] show ?thesis by simp
  qed
qed

theorem topsort_correct_witness:
  "\<exists>ans. topsort (\<lambda>ks. ks) [(1::nat, 2), (3, 4), (5, 6), (1, 3), (1, 5), (1, 6), (2, 5)] = Inr ans \<and>
     distinct ans \<and> set ans = {1, 2, 3, 4, 5, 6}"
proof -
  let ?P = "[(1::nat, 2), (3, 4), (5, 6), (1, 3), (1, 5), (1, 6), (2, 5)]"
  have "topsort (\<lambda>ks. ks) ?P = Inr [1, 2, 3, 5, 4, 6]" by code_simp
  then show ?thesis using topsort_correct [OF dict_order_id, of ?P] by (auto simp: elems_def)
qed

text \<open>C2: the levels that \<open>topsort_levels\<close> yields are disjoint and non-empty, level \<open>k\<close> being
  exactly the elements whose parents all lie in earlier levels and that are not in one
  themselves; it ends normally exactly when the graph has no cycle and the levels then hold
  every element, and with \<open>CycleError\<close> otherwise.\<close>

theorem topsort_levels_correct:
  assumes "dict_order hord"
  shows "case topsort_levels hord P of (levels, out) \<Rightarrow> levels_ok P {} levels \<and>
    (case out of
       Inr _ \<Rightarrow> acyclic (set P) \<and> set (concat levels) = elems P
     | Inl e \<Rightarrow> \<not> acyclic (set P) \<and> e \<noteq> TopsortKeyError)"
proof -
  obtain np ch where b: "build_graph P = (np, ch)" by fastforce
  then have gs: "graph_state P {} np ch" using build_graph_state [of P] by simp
  obtain ls out where run: "topsort_levels hord P = (ls, out)" by fastforce
  with b have core: "topsort_levels_core hord np ch = (ls, out)" by (simp add: topsort_levels_def)
  have ok: "levels_ok P {} ls" and out: "if elems P \<subseteq> set (concat ls) then out = Inr ()
      else \<exists>np'. np' \<noteq> [] \<and> (\<exists>ch'. out = Inl (CycleError [] np' ch'))"
    using topsort_levels_core_correct [OF assms gs] unfolding core
    by (simp_all add: closed_under_def)
  show ?thesis
  proof (cases "elems P \<subseteq> set (concat ls)")
    case True
    moreover have "set (concat ls) \<subseteq> elems P" using ok by (rule levels_ok_elems)
    ultimately show ?thesis using levels_ok_acyclic [OF ok True] ok out run by (simp add: equalityI)
  next
    case False
    moreover have "ready P (set (concat ls)) = {}" using ok by (simp add: levels_ok_def)
    ultimately have "\<not> acyclic (set P)" by (intro not_ready_cyclic)
    with False ok out run show ?thesis by auto
  qed
qed

theorem topsort_levels_correct_witness:
  "\<exists>levels. topsort_levels rev [(1::nat, 2), (1, 3), (2, 4), (3, 4)] = (levels, Inr ()) \<and>
     levels_ok [(1::nat, 2), (1, 3), (2, 4), (3, 4)] {} levels"
proof -
  let ?P = "[(1::nat, 2), (1, 3), (2, 4), (3, 4)]"
  have "topsort_levels rev ?P = ([[1], [3, 2], [4]], Inr ())" by code_simp
  then show ?thesis using topsort_levels_correct [OF dict_order_rev, of ?P] by simp
qed

text \<open>C3: every list that \<open>find_cycles\<close> yields is a simple cycle of the graph, and no two of
  them are the same up to rotation.\<close>

theorem find_cycles_sound:
  "list_all (is_cycle g) (find_cycles hord g) \<and>
   sorted_wrt (\<lambda>a b. \<not> same_cycle a b) (find_cycles hord g)"
  using find_cycles_from_correct [of g "[]" "[]" "hord (keys g)"]
  by (simp add: find_cycles_def cycles_ok_def list_all_iff)

text \<open>C4: every simple cycle of the graph is a rotation of one that \<open>find_cycles\<close> yields.\<close>

theorem find_cycles_complete:
  assumes "dict_order hord" and "is_cycle g c"
  shows "\<exists>r \<in> set (find_cycles hord g). same_cycle r c"
proof -
  have "last c \<in> set (hord (keys g))"
    using cycle_starts_at_key [OF assms(2)] dict_order_set [OF assms(1)] by blast
  moreover have "last c \<in> set c" using assms(2) by (simp add: is_cycle_def simple_path_def)
  ultimately show ?thesis
    using find_cycles_from_correct [of g "[]" "[]" "hord (keys g)"] assms(2)
    unfolding find_cycles_def found_def cycles_ok_def by auto
qed

theorem find_cycles_complete_witness:
  "\<exists>r \<in> set (find_cycles rev [(1::nat, [2]), (2, [3, 1]), (3, [1])]). same_cycle r [2, 3, 1]"
proof (rule find_cycles_complete)
  show "dict_order rev" by (rule dict_order_rev)
  show "is_cycle [(1::nat, [2]), (2, [3, 1]), (3, [1])] [2, 3, 1]"
    by (simp add: is_cycle_def simple_path_def edge_def)
qed

end
