(* ===== verification/Scan_Modules.thy ===== *)
theory Scan_Modules
  imports Topsort "HOL-Library.List_Lexorder" "HOL-Library.Char_ord"
begin

text \<open>
  The scanners of the C++ headers, \<open>src/bindings/python/ns3modulescan.py\<close> (one file for all modules)
  and \<open>ns3modulescan-modular.py\<close> (a file for each module): the path of a header, the hook that
  annotates a declaration before pybindgen sees it, and the sections of the modules in the order of
  \<open>topsort\<close>. Declarations are records of what the hooks read; the template functions of pygccxml and
  its search for a declaration by name are parameters in \<open>gccxml\<close>. Parsing headers and writing the
  generated files is done by pybindgen and not modelled.
\<close>

section \<open>The path of a header\<close>

abbreviation slash :: char where "slash \<equiv> CHR ''/''"

definition path_split :: "string \<Rightarrow> string \<times> string" where
  \<comment> \<open>\<open>os.path.split\<close>: slashes at the end of the head are removed unless it has nothing else\<close>
  "path_split p =
     (let tail = basename p; head = take (length p - length tail) p
      in (if list_all (\<lambda>c. c = slash) head then head else rev (dropWhile (\<lambda>c. c = slash) (rev head)), tail))"

fun join_all :: "string list \<Rightarrow> string pyres" where
  \<comment> \<open>\<open>os.path.join(*l)\<close>\<close>
  "join_all [] = Inl TypeError"
| "join_all (p # ps) = Inr (fold (\<lambda>q a. path_join a q) ps p)"

partial_function (option) relative_path_loop :: "string \<Rightarrow> string list \<Rightarrow> string pyres option" where
  \<comment> \<open>the loop of \<open>ns3modulescan.py\<close>, which may not end\<close>
  "relative_path_loop head l =
     (if head = [] then Some (Inl AssertionError)
      else if snd (path_split head) = ''ns3'' then Some (join_all l)
      else relative_path_loop (fst (path_split head)) (snd (path_split head) # l))"

definition relative_path :: "string \<Rightarrow> string pyres option" where
  "relative_path path = relative_path_loop path []"

lemma path_split_length: "length (fst (path_split p)) \<le> length p"
proof -
  have "length (rev (dropWhile (\<lambda>c. c = slash) (rev (take n p)))) \<le> length p" for n
    by (metis length_dropWhile_le length_rev length_take min.bounded_iff le_trans)
  then show ?thesis by (simp add: path_split_def Let_def)
qed

lemma path_split_shorter:
  assumes "fst (path_split p) \<noteq> p"
  shows "length (fst (path_split p)) < length p"
proof (rule ccontr)
  let ?h = "take (length p - length (basename p)) p"
  let ?r = "rev (dropWhile (\<lambda>c. c = slash) (rev ?h))"
  assume "\<not> ?thesis"
  then have len: "length (fst (path_split p)) = length p" using path_split_length [of p] by simp
  have r: "length ?r \<le> length ?h" by (metis length_dropWhile_le length_rev)
  have h: "length ?h = length p"
  proof (cases "list_all (\<lambda>c. c = slash) ?h")
    case True
    with len show ?thesis by (simp add: path_split_def Let_def)
  next
    case False
    then have "fst (path_split p) = ?r" by (simp add: path_split_def Let_def)
    with len r show ?thesis by simp
  qed
  then have p: "?h = p" by simp
  have "?r = ?h" if "\<not> list_all (\<lambda>c. c = slash) ?h"
  proof -
    from that have "fst (path_split p) = ?r" by (simp add: path_split_def Let_def)
    with len h have "length (dropWhile (\<lambda>c. c = slash) (rev ?h)) = length (rev ?h)" by simp
    then have "dropWhile (\<lambda>c. c = slash) (rev ?h) = rev ?h"
      by (metis append_Nil length_0_conv length_append add_cancel_right_left takeWhile_dropWhile_id)
    then show ?thesis by simp
  qed
  with p have "fst (path_split p) = p" by (auto simp: path_split_def Let_def)
  with assms show False by simp
qed

function relative_path_modular_loop :: "string \<Rightarrow> string list \<Rightarrow> string pyres" where
  \<comment> \<open>the loop of \<open>ns3modulescan-modular.py\<close>\<close>
  "relative_path_modular_loop head l =
     (if head = [] then Inl AssertionError
      else if fst (path_split head) = head then Inl ValueError
      else if snd (path_split head) = ''ns3'' then join_all l
      else relative_path_modular_loop (fst (path_split head)) (snd (path_split head) # l))"
  by pat_completeness auto

termination
  by (relation "measure (\<lambda>(head, l). length head)") (auto dest: path_split_shorter)

declare relative_path_modular_loop.simps [simp del]

definition relative_path_modular :: "string \<Rightarrow> string option pyres" where
  \<comment> \<open>\<open>None\<close> for an empty path\<close>
  "relative_path_modular path =
     (if path = [] then Inr None else rbind (relative_path_modular_loop path []) (\<lambda>r. Inr (Some r)))"

section \<open>What the loops return\<close>

definition component :: "string \<Rightarrow> bool" where
  "component c \<longleftrightarrow> c \<noteq> [] \<and> slash \<notin> set c"

definition under :: "string list \<Rightarrow> string" where
  \<comment> \<open>components below a directory\<close>
  "under cs = concat (map (\<lambda>c. slash # c) cs)"

lemma basename_after: "slash \<notin> set c \<Longrightarrow> basename (p @ slash # c) = c"
  by (auto simp: basename_def takeWhile_append)

lemma path_split_fixed:
  assumes "fst (path_split p) = p"
  shows "snd (path_split p) = []"
proof -
  let ?h = "take (length p - length (basename p)) p"
  have "length (dropWhile (\<lambda>c. c = slash) (rev ?h)) \<le> length ?h" by (metis length_dropWhile_le length_rev)
  then have "length (fst (path_split p)) \<le> length ?h" by (simp add: path_split_def Let_def)
  with assms have "length p \<le> length p - length (basename p)" by (metis length_take min.bounded_iff)
  then have "p = [] \<or> basename p = []" by (metis diff_diff_cancel diff_is_0_eq length_0_conv nat_le_linear diff_self_eq_0)
  then show ?thesis by (auto simp: path_split_def Let_def basename_def)
qed

lemma path_split_below:
  assumes "component c" and "p \<noteq> []" and "last p \<noteq> slash"
  shows "path_split (p @ slash # c) = (p, c)"
proof -
  from assms have b: "basename (p @ slash # c) = c" by (simp add: component_def basename_after)
  have "\<not> list_all (\<lambda>c. c = slash) (p @ [slash])"
    using assms by (auto simp: list_all_iff dest: last_in_set)
  moreover have "dropWhile (\<lambda>c. c = slash) (rev p) = rev p"
    using assms by (cases p rule: rev_cases) auto
  ultimately show ?thesis by (simp add: path_split_def b Let_def)
qed

lemma path_split_ns3: "path_split (p @ ''/ns3'') \<noteq> (p @ ''/ns3'', t)" "snd (path_split (p @ ''/ns3'')) = ''ns3''"
proof -
  have b: "basename (p @ ''/ns3'') = ''ns3''" using basename_after [of "''ns3''" p] by simp
  then show s: "snd (path_split (p @ ''/ns3'')) = ''ns3''" by (simp add: path_split_def Let_def)
  then show "path_split (p @ ''/ns3'') \<noteq> (p @ ''/ns3'', t)" using path_split_fixed [of "p @ ''/ns3''"] by fastforce
qed

lemma relative_path_loop_stuck:
  assumes "fst (path_split head) = head" and "head \<noteq> []"
  shows "relative_path_loop head l = None"
proof (rule ccontr)
  assume "relative_path_loop head l \<noteq> None"
  then obtain r where r: "relative_path_loop head l = Some r" by auto
  have "fst (path_split head) = head \<longrightarrow> head = []"
  proof (rule relative_path_loop.raw_induct [where P = "\<lambda>head l r. fst (path_split head) = head \<longrightarrow> head = []", OF _ r])
    fix f :: "string \<Rightarrow> string list \<Rightarrow> string pyres option" and head l and r :: "string pyres"
    assume IH: "\<And>head l r. f head l = Some r \<Longrightarrow> fst (path_split head) = head \<longrightarrow> head = []"
      and eq: "(if head = [] then Some (Inl AssertionError)
        else if snd (path_split head) = ''ns3'' then Some (join_all l)
        else f (fst (path_split head)) (snd (path_split head) # l)) = Some r"
    show "fst (path_split head) = head \<longrightarrow> head = []"
    proof (intro impI, rule ccontr)
      assume "fst (path_split head) = head" "head \<noteq> []"
      moreover from this have "f head ([] # l) = Some r" using eq path_split_fixed [of head] by simp
      ultimately show False using IH by blast
    qed
  qed
  with assms show False by simp
qed

lemma join_all_not_ValueError: "join_all l \<noteq> Inl ValueError"
  by (cases l) simp_all

lemma relative_path_loops:
  "relative_path_loop head l =
    (if relative_path_modular_loop head l = Inl ValueError then None else Some (relative_path_modular_loop head l))"
proof (induction head l rule: relative_path_modular_loop.induct)
  case (1 head l)
  show ?case
  proof (cases "head \<noteq> [] \<and> fst (path_split head) \<noteq> head \<and> snd (path_split head) \<noteq> ''ns3''")
    case True
    with 1 show ?thesis by (simp add: relative_path_loop.simps [of head l] relative_path_modular_loop.simps [of head l])
  next
    case False
    then consider "head = []" | "head \<noteq> []" "fst (path_split head) = head"
      | "head \<noteq> []" "fst (path_split head) \<noteq> head" "snd (path_split head) = ''ns3''" by blast
    then show ?thesis
    proof cases
      case 1
      then show ?thesis by (simp add: relative_path_loop.simps [of "[]" l] relative_path_modular_loop.simps [of "[]" l])
    next
      case 2
      then show ?thesis by (simp add: relative_path_loop_stuck relative_path_modular_loop.simps [of head l])
    next
      case 3
      then show ?thesis by (simp add: relative_path_loop.simps [of head l] relative_path_modular_loop.simps [of head l]
          join_all_not_ValueError)
    qed
  qed
qed

lemma path_join_component: "p \<noteq> [] \<Longrightarrow> last p \<noteq> slash \<Longrightarrow> component c \<Longrightarrow> path_join p c = p @ slash # c"
  by (cases c) (auto simp: path_join_def component_def)

lemma component_last: "component c \<Longrightarrow> last (p @ slash # c) \<noteq> slash"
  by (auto simp: component_def dest: last_in_set)

lemma join_components:
  assumes "p \<noteq> []" and "last p \<noteq> slash" and "list_all component cs"
  shows "fold (\<lambda>q a. path_join a q) cs p = p @ under cs"
  using assms
proof (induction cs arbitrary: p)
  case (Cons c cs)
  then have "fold (\<lambda>q a. path_join a q) cs (p @ slash # c) = (p @ slash # c) @ under cs"
    using component_last by (intro Cons.IH) auto
  with Cons.prems show ?case by (simp add: path_join_component under_def)
qed (simp add: under_def)

lemma loop_below_ns3:
  assumes "list_all (\<lambda>c. component c \<and> c \<noteq> ''ns3'') cs"
  shows "relative_path_modular_loop (p @ ''/ns3'' @ under cs) l = join_all (cs @ l)"
  using assms
proof (induction cs arbitrary: l rule: rev_induct)
  case Nil
  have "fst (path_split (p @ ''/ns3'')) \<noteq> p @ ''/ns3''" using path_split_ns3(1) by (metis prod.collapse)
  then show ?case by (simp add: under_def relative_path_modular_loop.simps [of "p @ ''/ns3''"] path_split_ns3(2))
next
  case (snoc c cs)
  let ?q = "p @ ''/ns3'' @ under cs"
  have "last ?q \<noteq> slash"
  proof (cases cs rule: rev_cases)
    case (snoc ds d)
    with snoc.prems have "component d" by simp
    then have "last (slash # d) \<noteq> slash" using component_last [of d "[]"] by simp
    with snoc show ?thesis by (simp add: under_def)
  qed (simp add: under_def)
  then have s: "path_split (?q @ slash # c) = (?q, c)" using snoc.prems by (intro path_split_below) auto
  have "relative_path_modular_loop (?q @ slash # c) l = relative_path_modular_loop ?q (c # l)"
    unfolding relative_path_modular_loop.simps [of "?q @ slash # c" l] s using snoc.prems by simp
  with snoc show ?case by (simp add: under_def)
qed

section \<open>Annotations\<close>

datatype annotation =
    NoneA
  | TrueA
  | StrA string
  | ParamsA "(string \<times> (string \<times> string) list) list"  \<comment> \<open>only under \<open>params\<close>\<close>

type_synonym annotations = "(string \<times> annotation) list"

definition type_annotations :: "(string \<times> annotations) list" where
  "type_annotations =
  [
   (''::ns3::AttributeChecker'',
      [(''automatic_type_narrowing'', StrA ''true''), (''allow_subclassing'', StrA ''false'')]),
   (''::ns3::AttributeValue'',
      [(''automatic_type_narrowing'', StrA ''true''), (''allow_subclassing'', StrA ''false'')]),
   (''::ns3::CommandLine'',
      [(''allow_subclassing'', StrA ''true'')]),
   (''::ns3::NscTcpL4Protocol'',
      [(''ignore'', StrA ''true'')]),
   (''ns3::RandomVariable::RandomVariable(ns3::RandomVariableBase const & variable) [constructor]'',
      [(''ignore'', NoneA)]),
   (''ns3::RandomVariableBase * ns3::RandomVariable::Peek() const [member function]'',
      [(''ignore'', NoneA)]),
   (''void ns3::RandomVariable::GetSeed(uint32_t * seed) const [member function]'',
      [(''params'', ParamsA [(''seed'', [(''direction'', ''out''), (''array_length'', ''6'')])])]),
   (''bool ns3::TypeId::LookupAttributeByName(std::string name, ns3::TypeId::AttributeInformation * info) const [member function]'',
      [(''params'', ParamsA [(''info'', [(''transfer_ownership'', ''false'')])])]),
   (''static bool ns3::TypeId::LookupByNameFailSafe(std::string name, ns3::TypeId * tid) [member function]'',
      [(''ignore'', NoneA)]),
   (''bool ns3::TraceSourceAccessor::ConnectWithoutContext(ns3::ObjectBase * obj, ns3::CallbackBase const & cb) const [member function]'',
      [(''params'', ParamsA [(''obj'', [(''transfer_ownership'', ''false'')])])]),
   (''bool ns3::TraceSourceAccessor::Connect(ns3::ObjectBase * obj, std::string context, ns3::CallbackBase const & cb) const [member function]'',
      [(''params'', ParamsA [(''obj'', [(''transfer_ownership'', ''false'')])])]),
   (''bool ns3::TraceSourceAccessor::DisconnectWithoutContext(ns3::ObjectBase * obj, ns3::CallbackBase const & cb) const [member function]'',
      [(''params'', ParamsA [(''obj'', [(''transfer_ownership'', ''false'')])])]),
   (''bool ns3::TraceSourceAccessor::Disconnect(ns3::ObjectBase * obj, std::string context, ns3::CallbackBase const & cb) const [member function]'',
      [(''params'', ParamsA [(''obj'', [(''transfer_ownership'', ''false'')])])]),
   (''bool ns3::AttributeAccessor::Set(ns3::ObjectBase * object, ns3::AttributeValue const & value) const [member function]'',
      [(''params'', ParamsA [(''object'', [(''transfer_ownership'', ''false'')])])]),
   (''ns3::EmpiricalVariable::EmpiricalVariable(ns3::RandomVariableBase const & variable) [constructor]'',
      [(''ignore'', NoneA)]),
   (''static ns3::AttributeList * ns3::AttributeList::GetGlobal() [member function]'',
      [(''caller_owns_return'', StrA ''false'')]),
   (''void ns3::CommandLine::Parse(int argc, char * * argv) const [member function]'',
      [(''ignore'', NoneA)]),
   (''extern void ns3::PythonCompleteConstruct(ns3::Ptr<ns3::Object> object, ns3::TypeId typeId, ns3::AttributeList const & attributes) [free function]'',
      [(''ignore'', NoneA)]),
   (''ns3::Ptr<ns3::Ipv4RoutingProtocol> ns3::Ipv4ListRouting::GetRoutingProtocol(uint32_t index, int16_t & priority) const [member function]'',
      [(''params'', ParamsA [(''priority'', [(''direction'', ''out'')])])]),
   (''ns3::Ipv4RoutingTableEntry * ns3::GlobalRouter::GetInjectedRoute(uint32_t i) [member function]'',
      [(''params'', ParamsA [(''return'', [(''caller_owns_return'', ''false'')])])]),
   (''ns3::Ipv4RoutingTableEntry * ns3::Ipv4GlobalRouting::GetRoute(uint32_t i) const [member function]'',
      [(''params'', ParamsA [(''return'', [(''caller_owns_return'', ''false'')])])]),
   (''::ns3::TestCase'',
      [(''ignore'', StrA ''true'')]),
   (''::ns3::TestRunner'',
      [(''ignore'', StrA ''true'')]),
   (''::ns3::TestSuite'',
      [(''ignore'', StrA ''true'')])
  ]"

datatype decl_kind = ClassD | EnumD | FreeFunctionD | MemberFunctionD | ConstructorD | OtherCalldefD | OtherD

record decl =
  dc_kind :: decl_kind
  dc_name :: string
  dc_decl_string :: string
  dc_str :: string             \<comment> \<open>\<open>str(definition)\<close>\<close>
  dc_demangled :: string
  dc_parent :: string          \<comment> \<open>\<open>parent.name\<close>\<close>
  dc_file :: string            \<comment> \<open>\<open>location.file_name\<close>\<close>

record gccxml =
  gx_is_instantiation :: "string \<Rightarrow> bool"
  gx_split :: "string \<Rightarrow> string \<times> string list"
  gx_args :: "string \<Rightarrow> string list"
  gx_location :: "string \<Rightarrow> string option"  \<comment> \<open>file of the declaration of a name, where it has one\<close>

record scan_state =
  sc_table :: "(string \<times> annotations) list"            \<comment> \<open>\<open>type_annotations\<close>\<close>
  sc_global :: annotations
  sc_params :: "(string \<times> (string \<times> string) list) list"
  sc_defaults :: "string option list"                  \<comment> \<open>default values of the arguments\<close>

definition py_repr :: "string \<Rightarrow> string" where
  \<comment> \<open>of printable characters\<close>
  "py_repr s =
     (let q = (if CHR 0x27 \<in> set s \<and> dquote \<notin> set s then dquote else CHR 0x27)
      in [q] @ concat (map (\<lambda>c. if c = q \<or> c = CHR 0x5C then [CHR 0x5C, c] else [c]) s) @ [q])"

definition annotate :: "string \<Rightarrow> annotation \<Rightarrow> scan_state \<Rightarrow> scan_state" where
  "annotate k v st = st\<lparr>sc_global := AList.update k v (sc_global st)\<rparr>"

section \<open>The hook\<close>

definition is_calldef :: "decl_kind \<Rightarrow> bool" where
  "is_calldef k \<longleftrightarrow> k \<in> {FreeFunctionD, MemberFunctionD, ConstructorD, OtherCalldefD}"

definition annotate_method :: "string list \<Rightarrow> decl \<Rightarrow> scan_state \<Rightarrow> scan_state" where
  \<comment> \<open>the arguments of the template, and the three methods that are treated by name\<close>
  "annotate_method template_args d st =
     (let member = (dc_kind d = MemberFunctionD);
          st = (if member \<and> dc_parent d = ''Object'' \<and> dc_name d = ''GetObject'' \<and> template_args = [''ns3::Object'']
                then annotate ''template_instance_names'' (StrA ''ns3::Object=>GetObject'') st else st);
          st = (if member \<and> dc_parent d = ''Simulator'' \<and> prefix ''Schedule'' (dc_name d) then annotate ''ignore'' NoneA st else st)
      in if member \<and> dc_parent d = ''Simulator'' \<and> dc_name d = ''Run'' then annotate ''ignore'' TrueA st else st)"

definition fix_default :: "string \<Rightarrow> string" where
  "fix_default v = (if v = ''ns3::MilliSeconds( )'' then ''ns3::MilliSeconds(0)''
                    else if v = ''ns3::Seconds( )'' then ''ns3::Seconds(0)'' else v)"

definition fix_defaults :: "decl \<Rightarrow> scan_state \<Rightarrow> scan_state" where
  "fix_defaults d st =
     (if is_calldef (dc_kind d) then st\<lparr>sc_defaults := map (map_option fix_default) (sc_defaults st)\<rparr> else st)"

fun parameter_modules :: "(string \<times> string) list \<Rightarrow> string option list \<Rightarrow> string list pyres" where
  \<comment> \<open>the modules of the template arguments that have a location in ns-3\<close>
  "parameter_modules headers [] = Inr []"
| "parameter_modules headers (None # ls) = parameter_modules headers ls"
| "parameter_modules headers (Some file # ls) = (case relative_path_modular file of
     Inl ValueError \<Rightarrow> parameter_modules headers ls
   | Inl e \<Rightarrow> Inl e
   | Inr h \<Rightarrow> (case Option.bind h (map_of headers) of
       None \<Rightarrow> Inl KeyError
     | Some m \<Rightarrow> rbind (parameter_modules headers ls) (\<lambda>ms. Inr (m # ms))))"

definition class_module :: "gccxml \<Rightarrow> (string \<times> string) list \<Rightarrow> string \<Rightarrow> decl \<Rightarrow> string \<Rightarrow> string pyres" where
  \<comment> \<open>an instantiation with an argument of this module belongs to this module\<close>
  "class_module gx headers module_name d m =
     (if gx_is_instantiation gx (dc_decl_string d) then
        rbind (parameter_modules headers (map (gx_location gx) (snd (gx_split gx (dc_name d))))) (\<lambda>ms.
        Inr (if module_name \<in> set ms then module_name else m))
      else Inr m)"

definition underscored :: "string \<Rightarrow> string" where
  \<comment> \<open>\<open>replace('-', '_')\<close>\<close>
  "underscored s = map (\<lambda>c. if c = CHR ''-'' then CHR ''_'' else c) s"

definition table_class :: "decl \<Rightarrow> scan_state \<Rightarrow> scan_state" where
  \<comment> \<open>the prefixes of classes, then the table\<close>
  "table_class d st =
     (if prefix ''::ns3::SimpleRefCount<'' (dc_decl_string d) then
        annotate ''automatic_type_narrowing'' (StrA ''true'') (annotate ''peekref_method'' (StrA ''GetReferenceCount'')
          (annotate ''decref_method'' (StrA ''Unref'') (annotate ''incref_method'' (StrA ''Ref'') st)))
      else if list_ex (\<lambda>p. prefix p (dc_decl_string d)) [''::ns3::Callback<'', ''::ns3::TracedCallback<'', ''::ns3::Ptr<'']
      then annotate ''ignore'' NoneA st
      else case map_of (sc_table st) (dc_decl_string d) of
             None \<Rightarrow> st
           | Some as \<Rightarrow> fold (\<lambda>(k, v). annotate k v) as st)"

definition table_function :: "decl \<Rightarrow> scan_state \<Rightarrow> scan_state" where
  \<comment> \<open>the entry \<open>params\<close> is deleted from the table when it has been used\<close>
  "table_function d st = (case map_of (sc_table st) (dc_str d) of
     None \<Rightarrow> st
   | Some as \<Rightarrow>
       let rest = AList.delete ''params'' as;
           st = (case map_of as ''params'' of
                   Some (ParamsA ps) \<Rightarrow> st\<lparr>sc_params := fold (\<lambda>(k, v). AList.update k v) ps (sc_params st),
                                           sc_table := AList.update (dc_str d) rest (sc_table st)\<rparr>
                 | _ \<Rightarrow> st)
       in fold (\<lambda>(k, v). annotate k v) rest st)"

definition import_from :: "string \<Rightarrow> string \<Rightarrow> string \<Rightarrow> scan_state \<Rightarrow> scan_state" where
  "import_from module_name m package st =
     (if m \<noteq> module_name then annotate ''import_from_module'' (StrA (''ns.'' @ package)) st else st)"

definition pre_scan_in :: "gccxml \<Rightarrow> (string \<times> string) list \<Rightarrow> string \<Rightarrow> decl \<Rightarrow> string \<Rightarrow> scan_state \<Rightarrow> scan_state pyres" where
  \<comment> \<open>the rest of the hook for a declaration in module \<open>m\<close>\<close>
  "pre_scan_in gx headers module_name d m st =
     (let st = fix_defaults d (annotate_method (gx_args gx (dc_str d)) d st)
      in case dc_kind d of
           ClassD \<Rightarrow> rbind (class_module gx headers module_name d m) (\<lambda>m.
             Inr (table_class d (import_from module_name m (underscored m) st)))
         | EnumD \<Rightarrow> Inr (import_from module_name m m st)
         | FreeFunctionD \<Rightarrow>
             if m \<noteq> module_name \<or> dc_name d = ''PeekPointer'' then Inr (annotate ''ignore'' NoneA st)
             else Inr (table_function d st)
         | MemberFunctionD \<Rightarrow> Inr (table_function d st)
         | ConstructorD \<Rightarrow> Inr (table_function d st)
         | _ \<Rightarrow> Inr st)"

definition pre_scan :: "gccxml \<Rightarrow> (string \<times> string) list \<Rightarrow> string \<Rightarrow> decl \<Rightarrow> scan_state \<Rightarrow> scan_state pyres" where
  "pre_scan gx headers module_name d st = (case relative_path_modular (dc_file d) of
     Inl ValueError \<Rightarrow> Inr st
   | Inl e \<Rightarrow> Inl e
   | Inr None \<Rightarrow> Inr st
   | Inr (Some h) \<Rightarrow>
       if h = [] then Inr st
       else case map_of headers h of
              None \<Rightarrow> Inl KeyError
            | Some m \<Rightarrow>
                pre_scan_in gx headers module_name d m
                  (annotate ''pygen_comment'' (StrA (h @ '' (module '' @ py_repr m @ ''): '' @ dc_str d)) st))"

definition pre_scan_all :: "gccxml \<Rightarrow> decl \<Rightarrow> scan_state \<Rightarrow> scan_state pyres option" where
  \<comment> \<open>the hook of \<open>ns3modulescan.py\<close>\<close>
  "pre_scan_all gx d st = Option.bind (relative_path (dc_file d)) (\<lambda>r. Some (rbind r (\<lambda>h.
     let st = annotate ''pygen_comment'' (StrA (h @ '': '' @ dc_str d)) st;
         st = fix_defaults d (annotate_method (gx_args gx (dc_demangled d)) d st)
     in Inr (case dc_kind d of
          ClassD \<Rightarrow> table_class d st
        | FreeFunctionD \<Rightarrow> if dc_name d = ''PeekPointer'' then annotate ''ignore'' NoneA st else table_function d st
        | MemberFunctionD \<Rightarrow> table_function d st
        | ConstructorD \<Rightarrow> table_function d st
        | _ \<Rightarrow> st))))"

section \<open>Sections in the order of the dependencies\<close>

type_synonym modules = "(string \<times> (string list \<times> string list)) list"  \<comment> \<open>dependencies and headers\<close>

record scan_section =
  se_name :: string
  se_file :: string
  se_local :: "string option"

record scan_sections =
  sn_sections :: "scan_section list"
  sn_headers :: "(string \<times> string) list"
  sn_precedences :: "(string \<times> nat) list"

definition module_graph :: "modules \<Rightarrow> (string \<times> string) list" where
  "module_graph mods =
     concat (map (\<lambda>name. map (\<lambda>dep. (dep, name)) (sort (case map_of mods name of None \<Rightarrow> [] | Some e \<Rightarrow> fst e)))
       (sort (keys mods)))"

definition section_name :: "string \<Rightarrow> string" where
  "section_name m = ''ns3_module_'' @ underscored m"

definition add_section :: "modules \<Rightarrow> string \<Rightarrow> nat \<times> string \<Rightarrow> scan_sections \<Rightarrow> scan_sections pyres" where
  "add_section mods pygen_file pm sn = (case map_of mods (snd pm) of
     None \<Rightarrow> Inl KeyError
   | Some (_, headers) \<Rightarrow>
       let name = section_name (snd pm);
           file = path_join (fst (path_split pygen_file)) (name @ ''.py'')
       in Inr (sn\<lparr>sn_sections := sn_sections sn @ [\<lparr>se_name = name, se_file = file, se_local = Some (name @ ''__local'')\<rparr>],
                  sn_headers := fold (\<lambda>h. AList.update h name) headers (sn_headers sn),
                  sn_precedences := AList.update name (fst pm) (sn_precedences sn)\<rparr>))"

definition module_sections :: "(string list \<Rightarrow> string list) \<Rightarrow> modules \<Rightarrow> string \<Rightarrow> scan_sections pyres" where
  \<comment> \<open>\<open>ns3_module_scan\<close> up to the parser; \<open>CycleError\<close> is \<open>PyException\<close>\<close>
  "module_sections hord mods pygen_file = (case topsort hord (module_graph mods) of
     Inl TopsortKeyError \<Rightarrow> Inl KeyError
   | Inl _ \<Rightarrow> Inl PyException
   | Inr sorted_modules \<Rightarrow>
       rfold (add_section mods pygen_file) (enumerate 0 sorted_modules)
         \<lparr>sn_sections = [\<lparr>se_name = ''__main__'', se_file = pygen_file, se_local = None\<rparr>],
          sn_headers = [], sn_precedences = []\<rparr>)"

definition classify :: "(string \<times> string) list \<Rightarrow> string \<Rightarrow> string" where
  "classify headers_map file = (case map_of headers_map (basename file) of None \<Rightarrow> ''__main__'' | Some s \<Rightarrow> s)"

definition get_section_precedence :: "(string \<times> nat) list \<Rightarrow> string \<Rightarrow> int pyres" where
  "get_section_precedence precedences s =
     (if s = ''__main__'' then Inr (- 1)
      else case map_of precedences s of None \<Rightarrow> Inl KeyError | Some n \<Rightarrow> Inr (int n))"

fun scan_callback_classes :: "gccxml \<Rightarrow> decl list \<Rightarrow> string list list pyres" where
  \<comment> \<open>the lines of \<open>callback_classes\<close>, before they are printed\<close>
  "scan_callback_classes gx [] = Inr []"
| "scan_callback_classes gx (cls # ds) =
     (if \<not> prefix ''Callback<'' (dc_name cls) then scan_callback_classes gx ds
      else if \<not> gx_is_instantiation gx (dc_decl_string cls) then Inl AssertionError
      else rbind (scan_callback_classes gx ds) (\<lambda>ps. Inr (snd (gx_split gx (dc_decl_string cls)) # ps)))"

lemma set_module_graph: "distinct (keys mods) \<Longrightarrow>
    set (module_graph mods) = {(d, m). \<exists>ds hs. (m, (ds, hs)) \<in> set mods \<and> d \<in> set ds}"
proof (intro set_eqI iffI; clarify)
  fix d m
  assume "distinct (keys mods)" "(d, m) \<in> set (module_graph mods)"
  then show "\<exists>ds hs. (m, (ds, hs)) \<in> set mods \<and> d \<in> set ds"
    by (auto simp: module_graph_def split: option.splits dest!: map_of_SomeD)
next
  fix d m ds hs
  assume "distinct (keys mods)" "(m, (ds, hs)) \<in> set mods" "d \<in> set ds"
  moreover from this have "map_of mods m = Some (ds, hs)" by simp
  ultimately show "(d, m) \<in> set (module_graph mods)"
    by (force simp: module_graph_def)
qed

section \<open>What the sections are\<close>

definition number_sections :: "nat \<Rightarrow> string list \<Rightarrow> (string \<times> nat) list \<Rightarrow> (string \<times> nat) list" where
  "number_sections k ms = fold (\<lambda>(i, m). AList.update (section_name m) i) (enumerate k ms)"

definition headers_of :: "modules \<Rightarrow> string \<Rightarrow> string list" where
  "headers_of mods m = (case map_of mods m of None \<Rightarrow> [] | Some e \<Rightarrow> snd e)"

definition map_headers :: "modules \<Rightarrow> string list \<Rightarrow> (string \<times> string) list \<Rightarrow> (string \<times> string) list" where
  "map_headers mods ms = fold (\<lambda>m. fold (\<lambda>h. AList.update h (section_name m)) (headers_of mods m)) ms"

lemma add_section_Some:
  "map_of mods m = Some e \<Longrightarrow> add_section mods pygen_file (k, m) sn =
     Inr (sn\<lparr>sn_sections := sn_sections sn @ [\<lparr>se_name = section_name m,
            se_file = path_join (fst (path_split pygen_file)) (section_name m @ ''.py''),
            se_local = Some (section_name m @ ''__local'')\<rparr>],
          sn_headers := fold (\<lambda>h. AList.update h (section_name m)) (snd e) (sn_headers sn),
          sn_precedences := AList.update (section_name m) k (sn_precedences sn)\<rparr>)"
  by (cases e) (simp add: add_section_def Let_def)

lemma add_section_None: "map_of mods m = None \<Longrightarrow> add_section mods pygen_file (k, m) sn = Inl KeyError"
  by (simp add: add_section_def)

lemma add_sections:
  "rfold (add_section mods pygen_file) (enumerate k ms) sn = Inr sn' \<longleftrightarrow>
     set ms \<subseteq> set (keys mods) \<and> sn_precedences sn' = number_sections k ms (sn_precedences sn) \<and>
     sn_headers sn' = map_headers mods ms (sn_headers sn) \<and>
     sn_sections sn' = sn_sections sn @ map (\<lambda>m. \<lparr>se_name = section_name m,
       se_file = path_join (fst (path_split pygen_file)) (section_name m @ ''.py''),
       se_local = Some (section_name m @ ''__local'')\<rparr>) ms"
proof (induction ms arbitrary: k sn)
  case Nil
  have "sn = sn' \<longleftrightarrow> sn_precedences sn' = sn_precedences sn \<and> sn_headers sn' = sn_headers sn \<and>
      sn_sections sn' = sn_sections sn"
    by (cases sn, cases sn') auto
  then show ?case by (simp add: number_sections_def map_headers_def)
next
  case (Cons m ms)
  show ?case
  proof (cases "map_of mods m")
    case None
    then have "m \<notin> set (keys mods)" by (simp add: map_of_eq_None_iff)
    with None show ?thesis by (simp add: add_section_None)
  next
    case (Some e)
    then have "m \<in> set (keys mods)" by (metis map_of_eq_None_iff option.distinct(1) list.set_map)
    with Some show ?thesis
      by (simp add: add_section_Some Cons.IH number_sections_def map_headers_def headers_of_def)
  qed
qed

lemma add_sections_fail:
  "rfold (add_section mods pygen_file) (enumerate k ms) sn = Inl e \<longleftrightarrow> e = KeyError \<and> \<not> set ms \<subseteq> set (keys mods)"
proof (induction ms arbitrary: k sn)
  case (Cons m ms)
  show ?case
  proof (cases "map_of mods m")
    case None
    then have "m \<notin> set (keys mods)" by (simp add: map_of_eq_None_iff)
    with None show ?thesis by (auto simp: add_section_None)
  next
    case (Some e)
    then have "m \<in> set (keys mods)" by (metis map_of_eq_None_iff option.distinct(1) list.set_map)
    with Some Cons.IH show ?thesis by (simp add: add_section_Some)
  qed
qed simp

lemma number_sections_other: "x \<notin> section_name ` set ms \<Longrightarrow> map_of (number_sections k ms d) x = map_of d x"
  by (induction ms arbitrary: k d) (auto simp: number_sections_def update_conv')

lemma number_sections_nth:
  assumes "inj_on section_name (set ms)" and "distinct ms" and "i < length ms"
  shows "map_of (number_sections k ms d) (section_name (ms ! i)) = Some (k + i)"
  using assms
proof (induction ms arbitrary: i k d)
  case (Cons m ms)
  let ?d = "AList.update (section_name m) k d"
  have step: "number_sections k (m # ms) d = number_sections (Suc k) ms ?d" by (simp add: number_sections_def)
  show ?case
  proof (cases i)
    case 0
    have "section_name m \<notin> section_name ` set ms" using Cons.prems by (auto simp: inj_on_def)
    then have "map_of (number_sections (Suc k) ms ?d) (section_name m) = map_of ?d (section_name m)"
      by (rule number_sections_other)
    with 0 step show ?thesis by (simp add: update_conv')
  next
    case (Suc j)
    with Cons step show ?thesis by simp
  qed
qed simp

lemma map_header_list:
  "map_of (fold (\<lambda>h. AList.update h s) hs d) x = (if x \<in> set hs then Some s else map_of d x)"
  by (induction hs arbitrary: d) (auto simp: update_conv')

lemma map_headers_unlisted:
  "\<forall>m \<in> set ms. h \<notin> set (headers_of mods m) \<Longrightarrow> map_of (map_headers mods ms d) h = map_of d h"
  by (induction ms arbitrary: d) (simp_all add: map_headers_def map_header_list)

lemma map_headers_unique:
  assumes "m \<in> set ms" and "h \<in> set (headers_of mods m)"
    and "\<forall>m' \<in> set ms. h \<in> set (headers_of mods m') \<longrightarrow> m' = m"
  shows "map_of (map_headers mods ms d) h = Some (section_name m)"
  using assms
proof (induction ms arbitrary: d)
  case (Cons m' ms)
  let ?d = "fold (\<lambda>h. AList.update h (section_name m')) (headers_of mods m') d"
  have step: "map_headers mods (m' # ms) d = map_headers mods ms ?d" by (simp add: map_headers_def)
  show ?case
  proof (cases "m \<in> set ms")
    case True
    from Cons.prems have "\<forall>m' \<in> set ms. h \<in> set (headers_of mods m') \<longrightarrow> m' = m" by simp
    then show ?thesis unfolding step by (intro Cons.IH True Cons.prems(2))
  next
    case False
    with Cons.prems have "\<forall>n \<in> set ms. h \<notin> set (headers_of mods n)" "m' = m" by auto
    with step Cons.prems(2) show ?thesis by (simp add: map_headers_unlisted map_header_list)
  qed
qed simp

definition in_graph :: "modules \<Rightarrow> string \<Rightarrow> bool" where
  \<comment> \<open>a module that has a dependency or is one\<close>
  "in_graph mods m \<longleftrightarrow> m \<in> elems (module_graph mods)"

lemma module_sections_order:
  assumes "dict_order hord" and "module_sections hord mods pygen_file = Inr sn"
  obtains ms where "distinct ms" "set ms = elems (module_graph mods)" "parents_first (module_graph mods) ms"
    "rfold (add_section mods pygen_file) (enumerate 0 ms)
       \<lparr>sn_sections = [\<lparr>se_name = ''__main__'', se_file = pygen_file, se_local = None\<rparr>],
        sn_headers = [], sn_precedences = []\<rparr> = Inr sn"
proof -
  obtain ans np ch where inv: "topsort_inv (module_graph mods) ans [] np ch"
    and res: "topsort hord (module_graph mods) =
      (if elems (module_graph mods) \<subseteq> set ans then Inr ans else Inl (CycleError ans np ch))"
    using assms(1) by (rule topsort_result)
  from inv have "distinct ans" "set ans \<subseteq> elems (module_graph mods)" "parents_first (module_graph mods) ans"
    by (auto simp: topsort_inv_def graph_state_def)
  with res assms(2) show thesis
    by (intro that [of ans]) (auto simp: module_sections_def split: if_splits)
qed

lemma section_name_inj: "inj_on underscored S \<Longrightarrow> inj_on section_name S"
  by (auto simp: inj_on_def section_name_def)

lemma append_under: "c @ under cs = py_join ''/'' (c # cs)"
proof (induction cs arbitrary: c)
  case (Cons d ds)
  have "c @ under (d # ds) = c @ slash # (d @ under ds)" by (simp add: under_def)
  also have "\<dots> = py_join ''/'' (c # d # ds)" unfolding Cons.IH by simp
  finally show ?case .
qed (simp add: under_def)

lemma under_join: "under (c # cs) = slash # py_join ''/'' (c # cs)"
  using append_under [of c cs] by (simp add: under_def)

lemma under_last: "list_all component (c # cs) \<Longrightarrow> last (under (c # cs)) \<noteq> slash"
proof (cases "c # cs" rule: rev_cases)
  case (snoc ds d)
  moreover assume "list_all component (c # cs)"
  ultimately have "component d" by simp
  then have "last (slash # d) \<noteq> slash" using component_last [of d "[]"] by simp
  with snoc show ?thesis by (simp add: under_def)
qed simp

lemma path_split_root: "component c \<Longrightarrow> path_split (slash # c) = ([slash], c)"
  using basename_after [of c "[]"] by (simp add: component_def path_split_def)

lemma path_split_slash: "path_split [slash] = ([slash], [])"
  by code_simp

lemma loop_no_ns3:
  "list_all (\<lambda>c. component c \<and> c \<noteq> ''ns3'') cs \<Longrightarrow> cs \<noteq> [] \<Longrightarrow> relative_path_modular_loop (under cs) l = Inl ValueError"
proof (induction cs arbitrary: l rule: rev_induct)
  case (snoc c cs)
  show ?case
  proof (cases cs)
    case Nil
    with snoc.prems have s: "path_split (slash # c) = ([slash], c)" "c \<noteq> []" "c \<noteq> ''ns3''"
      by (simp_all add: path_split_root component_def)
    then have "relative_path_modular_loop (slash # c) l = relative_path_modular_loop [slash] (c # l)"
      by (simp add: relative_path_modular_loop.simps [of "slash # c" l])
    with Nil show ?thesis
      by (simp add: under_def relative_path_modular_loop.simps [of "[slash]"] path_split_slash)
  next
    case (Cons d ds)
    have "list_all component cs" using snoc.prems by (simp add: list_all_iff)
    with Cons have "last (under cs) \<noteq> slash" using under_last by blast
    with snoc.prems Cons have s: "path_split (under cs @ slash # c) = (under cs, c)"
      by (intro path_split_below) (auto simp: under_def)
    have "relative_path_modular_loop (under cs @ slash # c) l = relative_path_modular_loop (under cs) (c # l)"
      unfolding relative_path_modular_loop.simps [of "under cs @ slash # c" l] s using snoc.prems by simp
    with snoc Cons show ?thesis by (simp add: under_def)
  qed
qed simp

lemma edge_order:
  assumes "parents_first P ms" and "(d, m) \<in> set P" and "m \<in> set ms"
  obtains i j where "i < j" "j < length ms" "ms ! i = d" "ms ! j = m"
proof -
  obtain us vs where split: "ms = us @ m # vs" using assms(3) by (meson split_list)
  with assms(1,2) have "d \<in> set us" unfolding parents_first_def by blast
  then obtain i where "i < length us" "us ! i = d" by (auto simp: in_set_conv_nth)
  with split show thesis by (intro that [of i "length us"]) (simp_all add: nth_append)
qed

lemma precedence_nth:
  assumes "inj_on section_name (set ms)" and "distinct ms" and "i < length ms"
  shows "get_section_precedence (number_sections 0 ms []) (section_name (ms ! i)) = Inr (int i)"
  using number_sections_nth [OF assms, of 0 "[]"] by (simp add: get_section_precedence_def section_name_def)

lemma section_edge:
  assumes "inj_on section_name (set ms)" and "distinct ms" and "parents_first P ms"
    and "(d, m) \<in> set P" and "m \<in> set ms"
  shows "\<exists>i j. get_section_precedence (number_sections 0 ms []) (section_name d) = Inr i \<and>
    get_section_precedence (number_sections 0 ms []) (section_name m) = Inr j \<and> - 1 < i \<and> i < j"
proof -
  obtain i j where ij: "i < j" "j < length ms" "ms ! i = d" "ms ! j = m"
    using edge_order [OF assms(3-5)] by metis
  then show ?thesis using precedence_nth [OF assms(1,2), of i] precedence_nth [OF assms(1,2), of j]
    by (intro exI [of _ "int i"] exI [of _ "int j"]) simp
qed

lemma classify_header:
  assumes "set ms \<subseteq> set (keys mods)" and "basename file \<in> set (headers_of mods m)"
    and "\<forall>m' \<in> set (keys mods). basename file \<in> set (headers_of mods m') \<longrightarrow> m' = m"
  shows "classify (map_headers mods ms []) file = (if m \<in> set ms then section_name m else ''__main__'')"
proof (cases "m \<in> set ms")
  case True
  with assms have "map_of (map_headers mods ms []) (basename file) = Some (section_name m)"
    by (intro map_headers_unique) auto
  with True show ?thesis by (simp add: classify_def)
next
  case False
  with assms have "map_of (map_headers mods ms []) (basename file) = map_of [] (basename file)"
    by (intro map_headers_unlisted) blast
  with False show ?thesis by (simp add: classify_def)
qed

lemma module_sections_outcome:
  assumes "dict_order hord" and "distinct (keys mods)"
  shows "module_sections hord mods pygen_file = Inl PyException \<longleftrightarrow> \<not> acyclic (set (module_graph mods))"
    and "module_sections hord mods pygen_file = Inl KeyError \<longleftrightarrow>
      acyclic (set (module_graph mods)) \<and> \<not> elems (module_graph mods) \<subseteq> set (keys mods)"
proof -
  obtain ans np ch where inv: "topsort_inv (module_graph mods) ans [] np ch"
    and res: "topsort hord (module_graph mods) =
      (if elems (module_graph mods) \<subseteq> set ans then Inr ans else Inl (CycleError ans np ch))"
    using assms(1) by (rule topsort_result)
  from inv have i: "set ans \<subseteq> elems (module_graph mods)" "parents_first (module_graph mods) ans"
      "ready (module_graph mods) (set ans) = {}"
    by (auto simp: topsort_inv_def graph_state_def)
  have fails: "rfold (add_section mods pygen_file) (enumerate k ms) sn = Inl e \<longleftrightarrow>
      e = KeyError \<and> \<not> set ms \<subseteq> set (keys mods)" for k ms sn e
    by (rule add_sections_fail)
  have "acyclic (set (module_graph mods)) \<longleftrightarrow> elems (module_graph mods) \<subseteq> set ans"
    using parents_first_acyclic [OF i(2)] not_ready_cyclic [OF i(3)] by blast
  then show "module_sections hord mods pygen_file = Inl PyException \<longleftrightarrow> \<not> acyclic (set (module_graph mods))"
    and "module_sections hord mods pygen_file = Inl KeyError \<longleftrightarrow>
      acyclic (set (module_graph mods)) \<and> \<not> elems (module_graph mods) \<subseteq> set (keys mods)"
    using i(1) by (simp_all add: module_sections_def res fails)
qed

section \<open>What the hook annotates\<close>

lemma map_of_annotate [simp]:
  "map_of (sc_global (annotate k v st)) x = (if x = k then Some v else map_of (sc_global st) x)"
  by (simp add: annotate_def update_conv')

lemma annotate_keeps [simp]:
  "sc_table (annotate k v st) = sc_table st" "sc_params (annotate k v st) = sc_params st"
  by (simp_all add: annotate_def)

lemma annotate_fold_keeps [simp]:
  "sc_table (fold (\<lambda>(k, v). annotate k v) as st) = sc_table st"
  "sc_params (fold (\<lambda>(k, v). annotate k v) as st) = sc_params st"
  by (induction as arbitrary: st) auto

lemma annotate_fold_other:
  "x \<notin> set (keys as) \<Longrightarrow> map_of (sc_global (fold (\<lambda>(k, v). annotate k v) as st)) x = map_of (sc_global st) x"
  by (induction as arbitrary: st) auto

lemma table_function_params:
  assumes "map_of (sc_table st) (dc_str d) = Some as" and "map_of as ''params'' = Some (ParamsA ps)"
  shows "map_of (sc_table (table_function d st)) (dc_str d) = Some (AList.delete ''params'' as)"
    and "sc_params (table_function d st) = fold (\<lambda>(k, v). AList.update k v) ps (sc_params st)"
  using assms by (simp_all add: table_function_def Let_def update_conv')

lemma table_function_no_params:
  assumes "map_of (sc_table st) (dc_str d) = Some as" and "map_of as ''params'' = None"
  shows "sc_params (table_function d st) = sc_params st"
  using assms by (simp add: table_function_def Let_def)

lemma parameters_once:
  assumes "map_of (sc_table st) (dc_str d) = Some as" and "map_of as ''params'' = Some (ParamsA ps)"
    and "sc_table st' = sc_table (table_function d st)"
  shows "sc_params (table_function d st') = sc_params st'"
proof (rule table_function_no_params)
  show "map_of (sc_table st') (dc_str d) = Some (AList.delete ''params'' as)"
    using table_function_params(1) [OF assms(1,2)] assms(3) by simp
qed (simp add: delete_conv')

lemma parameter_modules_set:
  "parameter_modules headers ls = Inr ms \<Longrightarrow>
   set ms = {m. \<exists>file h. Some file \<in> set ls \<and> relative_path_modular file = Inr (Some h) \<and> map_of headers h = Some m}"
proof (induction headers ls arbitrary: ms rule: parameter_modules.induct)
  case (3 headers f ls)
  show ?case
  proof (cases "relative_path_modular f")
    case (Inl e)
    with 3 show ?thesis by (cases e) auto
  next
    case (Inr h)
    with "3.prems" obtain m ms' h' where m: "h = Some h'" "map_of headers h' = Some m" "ms = m # ms'"
      "parameter_modules headers ls = Inr ms'"
      by (cases h) (auto simp: rbind_Inr_iff split: option.splits)
    with Inr "3.IH"(2) [of h m] have "set ms' = {m. \<exists>file h. Some file \<in> set ls \<and>
        relative_path_modular file = Inr (Some h) \<and> map_of headers h = Some m}" by simp
    with m Inr show ?thesis by auto
  qed
qed auto

definition argument_here :: "gccxml \<Rightarrow> (string \<times> string) list \<Rightarrow> string \<Rightarrow> decl \<Rightarrow> bool" where
  \<comment> \<open>an instantiation with an argument that a header of the module declares\<close>
  "argument_here gx headers module_name d \<longleftrightarrow> gx_is_instantiation gx (dc_decl_string d) \<and>
     (\<exists>a \<in> set (snd (gx_split gx (dc_name d))). \<exists>file h. gx_location gx a = Some file \<and>
        relative_path_modular file = Inr (Some h) \<and> map_of headers h = Some module_name)"

lemma class_module_result:
  assumes "class_module gx headers module_name d m = Inr m'"
  shows "m' = (if argument_here gx headers module_name d then module_name else m)"
proof (cases "gx_is_instantiation gx (dc_decl_string d)")
  case True
  with assms obtain ms where ms: "parameter_modules headers (map (gx_location gx) (snd (gx_split gx (dc_name d)))) = Inr ms"
    "m' = (if module_name \<in> set ms then module_name else m)"
    by (auto simp: class_module_def rbind_Inr_iff)
  have "module_name \<in> set ms \<longleftrightarrow> argument_here gx headers module_name d"
    unfolding parameter_modules_set [OF ms(1)] argument_here_def using True
    by (simp add: image_iff) metis
  with ms(2) show ?thesis by simp
next
  case False
  with assms show ?thesis by (simp add: class_module_def argument_here_def)
qed

lemma class_import:
  assumes "dc_kind d = ClassD" and "pre_scan gx headers module_name d st = Inr st'"
    and "relative_path_modular (dc_file d) = Inr (Some h)" and "h \<noteq> []" and "map_of headers h = Some m"
    and "map_of (sc_global st) ''import_from_module'' = None"
    and "\<forall>(s, as) \<in> set (sc_table st). ''import_from_module'' \<notin> set (keys as)"
  shows "map_of (sc_global st') ''import_from_module'' =
    (if m = module_name \<or> argument_here gx headers module_name d then None
     else Some (StrA (''ns.'' @ underscored m)))"
proof -
  let ?s = "annotate ''pygen_comment'' (StrA (h @ '' (module '' @ py_repr m @ ''): '' @ dc_str d)) st"
  let ?t = "fix_defaults d (annotate_method (gx_args gx (dc_str d)) d ?s)"
  from assms obtain m' where m': "class_module gx headers module_name d m = Inr m'"
    "st' = table_class d (import_from module_name m' (underscored m') ?t)"
    by (auto simp: pre_scan_def pre_scan_in_def Let_def rbind_Inr_iff)
  have t: "?t = ?s" using assms(1) by (simp add: fix_defaults_def is_calldef_def annotate_method_def)
  have keep: "map_of (sc_global (table_class d u)) ''import_from_module'' = map_of (sc_global u) ''import_from_module''"
    if "sc_table u = sc_table st" for u
  proof (cases "map_of (sc_table st) (dc_decl_string d)")
    case None
    with that show ?thesis by (simp add: table_class_def)
  next
    case (Some as)
    then have "(dc_decl_string d, as) \<in> set (sc_table st)" by (rule map_of_SomeD)
    with assms(7) have "''import_from_module'' \<notin> set (keys as)" by fastforce
    with Some that show ?thesis
      by (simp add: table_class_def annotate_fold_other del: set_map list.set_map)
  qed
  have "sc_table (import_from module_name m' (underscored m') ?s) = sc_table st" by (simp add: import_from_def)
  from keep [OF this] have "map_of (sc_global st') ''import_from_module'' =
      map_of (sc_global (import_from module_name m' (underscored m') ?s)) ''import_from_module''"
    unfolding m'(2) t .
  also have "\<dots> = (if m' = module_name then None else Some (StrA (''ns.'' @ underscored m')))"
    using assms(6) by (simp add: import_from_def)
  finally show ?thesis unfolding class_module_result [OF m'(1)] by simp
qed

section \<open>Properties\<close>

text \<open>C6: for a header below a directory called \<open>ns3\<close> both scanners find its path in that
  directory; for an absolute path without such a directory the loop of \<open>ns3modulescan.py\<close> never ends,
  because the parent of the root is the root, where the modular scanner raises \<open>ValueError\<close>.\<close>

theorem header_path:
  assumes "list_all (\<lambda>c. component c \<and> c \<noteq> ''ns3'') (c # cs)"
  shows "relative_path (p @ ''/ns3'' @ under (c # cs)) = Some (Inr (py_join ''/'' (c # cs))) \<and>
    relative_path_modular (p @ ''/ns3'' @ under (c # cs)) = Inr (Some (py_join ''/'' (c # cs))) \<and>
    relative_path (under (c # cs)) = None \<and> relative_path_modular (under (c # cs)) = Inl ValueError"
proof -
  from assms have comps: "list_all component (c # cs)" by (simp add: list_all_iff)
  then have c: "c \<noteq> []" "last c \<noteq> slash" by (auto simp: component_def dest: last_in_set)
  then have "join_all (c # cs) = Inr (c @ under cs)" using join_components [of c cs] comps by simp
  then have "relative_path_modular_loop (p @ ''/ns3'' @ under (c # cs)) [] = Inr (py_join ''/'' (c # cs))"
    using loop_below_ns3 [OF assms, of p "[]"] by (simp only: append_Nil2 append_under)
  moreover have "relative_path_modular_loop (under (c # cs)) [] = Inl ValueError"
    using assms by (intro loop_no_ns3) simp_all
  ultimately show ?thesis
    by (simp add: relative_path_def relative_path_modular_def relative_path_loops under_join)
qed

theorem header_path_witness:
  "relative_path ''/build/ns3/core/ptr.h'' = Some (Inr ''core/ptr.h'') \<and> relative_path ''/core/ptr.h'' = None"
proof -
  have "list_all (\<lambda>c. component c \<and> c \<noteq> ''ns3'') [''core'', ''ptr.h'']" by code_simp
  from header_path [OF this, of "''/build''"] show ?thesis by (simp add: under_def)
qed

text \<open>C5: the sections of the scanner follow the dependencies: a module has a section exactly when it
  has a dependency or is one, the section of a dependency has a lower precedence than the sections
  of the modules that need it and a higher one than the main section, and a header that one module
  lists is classified into the section of that module, or into the main section if it has none.\<close>

theorem sections_follow_dependencies:
  assumes "dict_order hord" and "distinct (keys mods)" and "inj_on underscored (set (keys mods))"
    and "module_sections hord mods pygen_file = Inr sn"
  shows "(\<forall>m ds hs d. (m, (ds, hs)) \<in> set mods \<and> d \<in> set ds \<longrightarrow>
      (\<exists>i j. get_section_precedence (sn_precedences sn) (section_name d) = Inr i \<and>
        get_section_precedence (sn_precedences sn) (section_name m) = Inr j \<and> - 1 < i \<and> i < j)) \<and>
    (\<forall>m \<in> set (keys mods). section_name m \<in> se_name ` set (sn_sections sn) \<longleftrightarrow> in_graph mods m) \<and>
    (\<forall>file. \<forall>m \<in> set (keys mods). basename file \<in> set (headers_of mods m) \<and>
        (\<forall>m' \<in> set (keys mods). basename file \<in> set (headers_of mods m') \<longrightarrow> m' = m) \<longrightarrow>
      classify (sn_headers sn) file = (if in_graph mods m then section_name m else ''__main__''))"
proof -
  obtain ms where ms: "distinct ms" "set ms = elems (module_graph mods)" "parents_first (module_graph mods) ms"
    and run: "rfold (add_section mods pygen_file) (enumerate 0 ms)
       \<lparr>sn_sections = [\<lparr>se_name = ''__main__'', se_file = pygen_file, se_local = None\<rparr>],
        sn_headers = [], sn_precedences = []\<rparr> = Inr sn"
    using assms(1,4) by (rule module_sections_order)
  from run have sub: "set ms \<subseteq> set (keys mods)" and precs: "sn_precedences sn = number_sections 0 ms []"
    and heads: "sn_headers sn = map_headers mods ms []"
    and names: "map se_name (sn_sections sn) = ''__main__'' # map section_name ms"
    unfolding add_sections by simp_all
  have inj: "inj_on section_name (set (keys mods))" using assms(3) by (rule section_name_inj)
  have inj_ms: "inj_on section_name (set ms)" using inj sub by (rule inj_on_subset)
  have graph: "in_graph mods m \<longleftrightarrow> m \<in> set ms" for m by (simp add: in_graph_def ms(2))
  show ?thesis unfolding precs heads graph
  proof (intro conjI allI ballI impI)
    fix m ds hs d
    assume "(m, (ds, hs)) \<in> set mods \<and> d \<in> set ds"
    then have edge: "(d, m) \<in> set (module_graph mods)" using set_module_graph [OF assms(2)] by auto
    moreover from this have "m \<in> set ms" using ms(2) by (simp add: elemsI)
    ultimately show "\<exists>i j. get_section_precedence (number_sections 0 ms []) (section_name d) = Inr i \<and>
        get_section_precedence (number_sections 0 ms []) (section_name m) = Inr j \<and> - 1 < i \<and> i < j"
      using section_edge [OF inj_ms ms(1,3)] by blast
  next
    fix m
    assume m: "m \<in> set (keys mods)"
    have "se_name ` set (sn_sections sn) = insert ''__main__'' (section_name ` set ms)"
      using names by (metis list.set(2) list.set_map)
    then show "section_name m \<in> se_name ` set (sn_sections sn) \<longleftrightarrow> m \<in> set ms"
      using inj_on_image_mem_iff [OF inj m sub] by (simp add: section_name_def)
  next
    fix f m
    assume "m \<in> set (keys mods)" "basename f \<in> set (headers_of mods m) \<and>
      (\<forall>m' \<in> set (keys mods). basename f \<in> set (headers_of mods m') \<longrightarrow> m' = m)"
    then show "classify (map_headers mods ms []) f = (if m \<in> set ms then section_name m else ''__main__'')"
      by (intro classify_header sub) auto
  qed
qed

definition some_modules :: modules where
  "some_modules = [(''wifi'', ([''core'', ''network''], [''wifi.h''])), (''network'', ([''core''], [''node.h''])),
     (''netanim'', ([], [''anim.h''])), (''core'', ([], [''ptr.h'']))]"

theorem sections_follow_dependencies_witness:
  "\<exists>sn. module_sections (\<lambda>ks. ks) some_modules ''b/ns3.py'' = Inr sn \<and>
     (\<exists>i j. get_section_precedence (sn_precedences sn) ''ns3_module_core'' = Inr i \<and>
        get_section_precedence (sn_precedences sn) ''ns3_module_wifi'' = Inr j \<and> - 1 < i \<and> i < j)"
proof -
  have "case module_sections (\<lambda>ks. ks) some_modules ''b/ns3.py'' of Inl _ \<Rightarrow> False | Inr sn \<Rightarrow> True" by code_simp
  then obtain sn where sn: "module_sections (\<lambda>ks. ks) some_modules ''b/ns3.py'' = Inr sn" by (auto split: sum.splits)
  have "distinct (keys some_modules)" "map underscored (keys some_modules) = keys some_modules" by code_simp+
  moreover from this have "inj_on underscored (set (keys some_modules))" by (metis distinct_map)
  ultimately have order: "\<forall>m ds hs d. (m, (ds, hs)) \<in> set some_modules \<and> d \<in> set ds \<longrightarrow>
      (\<exists>i j. get_section_precedence (sn_precedences sn) (section_name d) = Inr i \<and>
        get_section_precedence (sn_precedences sn) (section_name m) = Inr j \<and> - 1 < i \<and> i < j)"
    using sections_follow_dependencies [OF dict_order_id _ _ sn] by blast
  have "(''wifi'', ([''core'', ''network''], [''wifi.h''])) \<in> set some_modules \<and> ''core'' \<in> set [''core'', ''network'']"
    by (simp add: some_modules_def)
  with order have "\<exists>i j. get_section_precedence (sn_precedences sn) (section_name ''core'') = Inr i \<and>
        get_section_precedence (sn_precedences sn) (section_name ''wifi'') = Inr j \<and> - 1 < i \<and> i < j" by blast
  moreover have "section_name ''core'' = ''ns3_module_core''" "section_name ''wifi'' = ''ns3_module_wifi''" by code_simp+
  ultimately show ?thesis using sn by (intro exI [of _ sn]) simp
qed

end
