(* ===== verification/Shell_Cmd.thy ===== *)
theory Shell_Cmd
  imports Py_Prelude "HOL-Library.Char_ord"
begin

text \<open>
  \<open>src/waf-tools/shellcmd.py\<close>, which runs the command lines of the build: \<open>shlex.split\<close> with its
  default arguments, the parser of \<open>Pipeline\<close> as a step function on its six states, and \<open>run\<close>.
  Starting a process gives its exit code or an exception, opening a file may fail; both are
  parameters in \<open>shell_world\<close>. The debug messages are not modelled.
\<close>

section \<open>shlex.split\<close>

datatype lex_state =
    Gap
  | Word
  | Quote char
  | Escape "char option"  \<comment> \<open>inside the given quote, or outside\<close>

definition lex_space :: "char \<Rightarrow> bool" where
  "lex_space c \<longleftrightarrow> c \<in> {CHR '' '', tab, CHR 0x0D, newline}"

abbreviation backslash :: char where "backslash \<equiv> CHR 0x5C"
abbreviation squote :: char where "squote \<equiv> CHR 0x27"

fun lex :: "lex_state \<Rightarrow> bool \<Rightarrow> string \<Rightarrow> string \<Rightarrow> string list pyres" where
  \<comment> \<open>state, whether the token was quoted, the token so far, the rest of the input\<close>
  "lex Gap quoted token [] = Inr []"
| "lex Gap quoted token (c # cs) =
     (if lex_space c then lex Gap False [] cs
      else if c = backslash then lex (Escape None) False [] cs
      else if c = squote \<or> c = dquote then lex (Quote c) False [] cs
      else lex Word False [c] cs)"
| "lex Word quoted token [] = Inr (if token = [] \<and> \<not> quoted then [] else [token])"
| "lex Word quoted token (c # cs) =
     (if lex_space c then
        (if token = [] \<and> \<not> quoted then lex Gap False [] cs
         else rbind (lex Gap False [] cs) (\<lambda>ts. Inr (token # ts)))
      else if c = squote \<or> c = dquote then lex (Quote c) quoted token cs
      else if c = backslash then lex (Escape None) quoted token cs
      else lex Word quoted (token @ [c]) cs)"
| "lex (Quote q) quoted token [] = Inl ValueError"
| "lex (Quote q) quoted token (c # cs) =
     (if c = q then lex Word True token cs
      else if c = backslash \<and> q = dquote then lex (Escape (Some q)) True token cs
      else lex (Quote q) True (token @ [c]) cs)"
| "lex (Escape e) quoted token [] = Inl ValueError"
| "lex (Escape e) quoted token (c # cs) =
     (case e of
        None \<Rightarrow> lex Word quoted (token @ [c]) cs
      | Some q \<Rightarrow> lex (Quote q) quoted (token @ (if c \<noteq> backslash \<and> c \<noteq> q then [backslash] else []) @ [c]) cs)"

definition shlex_split :: "string \<Rightarrow> string list pyres" where
  "shlex_split = lex Gap False []"

section \<open>Nodes\<close>

datatype redirect = ToPipe | ToStdout | ToFile string

record command =
  cm_name :: string
  cm_argv :: "string list"
  cm_stdin :: "string option"
  cm_stdout :: "redirect option"
  cm_stderr :: "redirect option"
  cm_env :: "(string \<times> string) list"  \<comment> \<open>empty for \<open>None\<close>\<close>

datatype node =
    CommandNode command
  | ChdirNode "string option"
  | PipeNode
  | AndNode
  | OrNode

definition new_command :: "string \<Rightarrow> command" where
  "new_command name = \<lparr>cm_name = name, cm_argv = [name], cm_stdin = None, cm_stdout = None, cm_stderr = None, cm_env = []\<rparr>"

fun abbreviate_node :: "node \<Rightarrow> string list" where
  \<comment> \<open>the test for \<open>Or\<close> is a second test for \<open>And\<close>\<close>
  "abbreviate_node (CommandNode c) = [cm_name c]"
| "abbreviate_node (ChdirNode d) = [''cd '' @ (case d of None \<Rightarrow> ''None'' | Some s \<Rightarrow> s)]"
| "abbreviate_node PipeNode = [''|'']"
| "abbreviate_node AndNode = [''&&'']"
| "abbreviate_node OrNode = []"

definition get_abbreviated_command :: "node list \<Rightarrow> string" where
  "get_abbreviated_command pipeline = py_join '' '' (concat (map abbreviate_node pipeline))"

section \<open>The parser\<close>

datatype mode = BEGIN | COMMAND | CHDIR | STDERR | STDOUT | STDIN

record parser =
  ps_mode :: mode
  ps_current :: "node option"
  ps_env :: "(string \<times> string) list"
  ps_pipeline :: "node list"

definition word_char :: "char \<Rightarrow> bool" where
  \<comment> \<open>\<open>[a-zA-Z0-9_]\<close>\<close>
  "word_char c \<longleftrightarrow> (let n = of_char c :: nat
     in n \<in> {97 .. 122} \<or> n \<in> {65 .. 90} \<or> n \<in> {48 .. 57} \<or> n = 95)"

definition re_space :: "char \<Rightarrow> bool" where
  \<comment> \<open>\<open>\s\<close> on the first 256 code points\<close>
  "re_space c \<longleftrightarrow> is_space c \<or> (28 \<le> (of_char c :: nat) \<and> (of_char c :: nat) \<le> 31) \<or>
     (of_char c :: nat) = 133 \<or> (of_char c :: nat) = 160"

definition env_var :: "string \<Rightarrow> (string \<times> string) option" where
  \<comment> \<open>\<open>^([a-zA-Z0-9_]+)=(\S+)$\<close>, where \<open>$\<close> also matches before a final newline\<close>
  "env_var token = (case py_split1 (CHR ''='') token of
     (_, None) \<Rightarrow> None
   | (k, Some r) \<Rightarrow>
       let v = (if r \<noteq> [] \<and> last r = newline then butlast r else r)
       in if k \<noteq> [] \<and> list_all word_char k \<and> v \<noteq> [] \<and> list_all (\<lambda>c. \<not> re_space c) v then Some (k, v) else None)"

definition commit_command :: "parser \<Rightarrow> parser pyres" where
  "commit_command st = (case ps_current st of
     None \<Rightarrow> Inl AssertionError
   | Some n \<Rightarrow> Inr (st\<lparr>ps_pipeline := ps_pipeline st @ [n], ps_current := None\<rparr>))"

definition on_command :: "(command \<Rightarrow> command pyres) \<Rightarrow> mode \<Rightarrow> parser \<Rightarrow> parser pyres" where
  \<comment> \<open>change the current command and the state\<close>
  "on_command f m st = (case ps_current st of
     Some (CommandNode c) \<Rightarrow> rbind (f c) (\<lambda>c. Inr (st\<lparr>ps_current := Some (CommandNode c), ps_mode := m\<rparr>))
   | _ \<Rightarrow> Inl AttributeError)"

definition end_command :: "node \<Rightarrow> parser \<Rightarrow> parser pyres" where
  "end_command operator st =
     rbind (commit_command st) (\<lambda>st. Inr (st\<lparr>ps_pipeline := ps_pipeline st @ [operator], ps_mode := BEGIN\<rparr>))"

definition py_assert :: "bool \<Rightarrow> 'a \<Rightarrow> 'a pyres" where
  "py_assert b x = (if b then Inr x else Inl AssertionError)"

definition begin_token :: "string \<Rightarrow> parser \<Rightarrow> parser pyres" where
  "begin_token token st = (case env_var token of
     Some (k, v) \<Rightarrow> Inr (st\<lparr>ps_env := AList.update k v (ps_env st)\<rparr>)
   | None \<Rightarrow>
       if ps_current st \<noteq> None then Inl AssertionError
       else if token = ''cd'' then
         py_assert (ps_env st = []) (st\<lparr>ps_current := Some (ChdirNode None), ps_mode := CHDIR\<rparr>)
       else Inr (st\<lparr>ps_current := Some (CommandNode ((new_command token)\<lparr>cm_env := ps_env st\<rparr>)), ps_env := [],
                   ps_mode := COMMAND\<rparr>))"

definition command_token :: "string \<Rightarrow> parser \<Rightarrow> parser pyres" where
  "command_token token st =
     (if token = ''>'' then Inr (st\<lparr>ps_mode := STDOUT\<rparr>)
      else if token = ''2>'' then Inr (st\<lparr>ps_mode := STDERR\<rparr>)
      else if token = ''2>&1'' then
        on_command (\<lambda>c. py_assert (cm_stderr c = None) (c\<lparr>cm_stderr := Some ToStdout\<rparr>)) COMMAND st
      else if token = ''<'' then Inr (st\<lparr>ps_mode := STDIN\<rparr>)
      else if token = ''|'' then
        rbind (on_command (\<lambda>c. py_assert (cm_stdout c = None) (c\<lparr>cm_stdout := Some ToPipe\<rparr>)) COMMAND st) (end_command PipeNode)
      else if token = ''&&'' then end_command AndNode st
      else if token = ''||'' then end_command OrNode st
      else on_command (\<lambda>c. Inr (c\<lparr>cm_argv := cm_argv c @ [token]\<rparr>)) COMMAND st)"

definition chdir_token :: "string \<Rightarrow> parser \<Rightarrow> parser pyres" where
  "chdir_token token st =
     (if token = ''&&'' then end_command AndNode st
      else case ps_current st of
             Some (ChdirNode d) \<Rightarrow> py_assert (d = None) (st\<lparr>ps_current := Some (ChdirNode (Some token))\<rparr>)
           | _ \<Rightarrow> Inl AttributeError)"

fun parse_token :: "string \<Rightarrow> parser \<Rightarrow> parser pyres" where
  "parse_token token st = (case ps_mode st of
     BEGIN \<Rightarrow> begin_token token st
   | COMMAND \<Rightarrow> command_token token st
   | CHDIR \<Rightarrow> chdir_token token st
   | STDOUT \<Rightarrow> on_command (\<lambda>c. py_assert (cm_stdout c = None) (c\<lparr>cm_stdout := Some (ToFile token)\<rparr>)) COMMAND st
   | STDERR \<Rightarrow> on_command (\<lambda>c. py_assert (cm_stderr c = None) (c\<lparr>cm_stderr := Some (ToFile token)\<rparr>)) COMMAND st
   | STDIN \<Rightarrow> on_command (\<lambda>c. py_assert (cm_stdin c = None) (c\<lparr>cm_stdin := Some token\<rparr>)) COMMAND st)"

declare parse_token.simps [simp del]

lemma parse_token_modes [simp]:
  "ps_mode st = BEGIN \<Longrightarrow> parse_token t st = begin_token t st"
  "ps_mode st = COMMAND \<Longrightarrow> parse_token t st = command_token t st"
  "ps_mode st = CHDIR \<Longrightarrow> parse_token t st = chdir_token t st"
  "ps_mode st = STDOUT \<Longrightarrow> parse_token t st =
     on_command (\<lambda>c. py_assert (cm_stdout c = None) (c\<lparr>cm_stdout := Some (ToFile t)\<rparr>)) COMMAND st"
  "ps_mode st = STDERR \<Longrightarrow> parse_token t st =
     on_command (\<lambda>c. py_assert (cm_stderr c = None) (c\<lparr>cm_stderr := Some (ToFile t)\<rparr>)) COMMAND st"
  "ps_mode st = STDIN \<Longrightarrow> parse_token t st =
     on_command (\<lambda>c. py_assert (cm_stdin c = None) (c\<lparr>cm_stdin := Some t\<rparr>)) COMMAND st"
  by (simp_all add: parse_token.simps)

definition parse_tokens :: "string list \<Rightarrow> node list pyres" where
  "parse_tokens tokens =
     rbind (rfold parse_token tokens \<lparr>ps_mode = BEGIN, ps_current = None, ps_env = [], ps_pipeline = []\<rparr>) (\<lambda>st.
     rbind (commit_command st) (\<lambda>st. Inr (ps_pipeline st)))"

definition parse_command :: "string \<Rightarrow> node list pyres" where
  "parse_command s = rbind (shlex_split s) parse_tokens"

section \<open>run\<close>

datatype input = Inherited | Piped | FromFile string

record spawn =
  sp_argv :: "string list"
  sp_stdin :: input
  sp_stdout :: "redirect option"
  sp_stderr :: "redirect option"
  sp_env :: "(string \<times> string) list option"  \<comment> \<open>\<open>None\<close>: inherited\<close>
  sp_cwd :: "string option"

record shell_world =
  sw_popen :: "spawn \<Rightarrow> int pyres"  \<comment> \<open>the exit code, or what \<open>Popen\<close> raises\<close>
  sw_readable :: "string \<Rightarrow> bool"
  sw_writable :: "string \<Rightarrow> bool"
  sw_environ :: "(string \<times> string) list"

record run_state =
  rs_pipe :: bool             \<comment> \<open>\<open>state == PIPE\<close>\<close>
  rs_cwd :: string
  rs_codes :: "int list"      \<comment> \<open>exit codes of \<open>piped_commands\<close>\<close>
  rs_display :: "string list"
  rs_spawned :: "spawn list"
  rs_printed :: "string list"

fun exec_piped_loop :: "int list \<Rightarrow> int \<Rightarrow> int" where
  "exec_piped_loop [] last_code = 0"
| "exec_piped_loop (r # rs) last_code = (if r \<noteq> 0 then last_code else exec_piped_loop rs last_code)"

definition exec_piped_commands :: "int list \<Rightarrow> int" where
  \<comment> \<open>called with at least one command\<close>
  "exec_piped_commands retvals = exec_piped_loop retvals (last retvals)"

definition out_ok :: "shell_world \<Rightarrow> redirect option \<Rightarrow> bool" where
  \<comment> \<open>\<open>_open_out_file\<close>: the null device is always there\<close>
  "out_ok w r = (case r of Some (ToFile f) \<Rightarrow> f \<in> set [''NUL:'', ''/dev/null''] \<or> sw_writable w f | _ \<Rightarrow> True)"

definition spawn_of :: "shell_world \<Rightarrow> bool \<Rightarrow> string \<Rightarrow> command \<Rightarrow> spawn" where
  "spawn_of w piped cwd c =
     \<lparr>sp_argv = cm_argv c,
      sp_stdin = (if piped then Piped else case cm_stdin c of None \<Rightarrow> Inherited | Some f \<Rightarrow> FromFile f),
      sp_stdout = cm_stdout c, sp_stderr = cm_stderr c,
      sp_env = (if cm_env c = [] then None
                else Some (fold (\<lambda>(k, v). AList.update k v) (cm_env c) (sw_environ w))),
      sp_cwd = (if cwd = ''.'' then None else Some cwd)\<rparr>"

definition show_command :: "bool \<Rightarrow> command \<Rightarrow> string list" where
  \<comment> \<open>what a command adds to \<open>piped_commands_display\<close>\<close>
  "show_command piped c =
     [(if cm_env c \<noteq> [] then py_join '' '' (map (\<lambda>(k, v). k @ ''='' @ v) (cm_env c)) @ '' '' else '''') @
      py_join '' '' (cm_argv c)] @
     (if piped then [] else case cm_stdin c of None \<Rightarrow> [] | Some f \<Rightarrow> [''< '' @ f]) @
     (case cm_stdout c of Some (ToFile f) \<Rightarrow> [''> '' @ f] | _ \<Rightarrow> []) @
     (case cm_stderr c of Some (ToFile f) \<Rightarrow> [''2> '' @ f] | Some ToStdout \<Rightarrow> [''2>&1''] | _ \<Rightarrow> [])"

definition start_command :: "shell_world \<Rightarrow> bool \<Rightarrow> command \<Rightarrow> run_state \<Rightarrow> run_state pyres" where
  "start_command w verbose c st =
     (if \<not> rs_pipe st \<and> (case cm_stdin c of None \<Rightarrow> False | Some f \<Rightarrow> \<not> sw_readable w f) then Inl OSError
      else if \<not> out_ok w (cm_stdout c) \<or> \<not> out_ok w (cm_stderr c) then Inl OSError
      else
        let s = spawn_of w (rs_pipe st) (rs_cwd st) c
        in rbind (sw_popen w s) (\<lambda>code.
           Inr (st\<lparr>rs_codes := rs_codes st @ [code], rs_spawned := rs_spawned st @ [s],
                   rs_display := (if verbose then rs_display st @ show_command (rs_pipe st) c else rs_display st)\<rparr>)))"

definition next_group :: "run_state \<Rightarrow> run_state" where
  "next_group st = st\<lparr>rs_pipe := False, rs_codes := [], rs_display := []\<rparr>"

fun run_loop :: "shell_world \<Rightarrow> bool \<Rightarrow> node list \<Rightarrow> run_state \<Rightarrow> (int option \<times> run_state) pyres" where
  "run_loop w verbose [] st = Inr (None, st)"
| "run_loop w verbose (ChdirNode d # rest) st = (case rest of
     [] \<Rightarrow> Inl IndexError
   | next_op # rest \<Rightarrow>
       if next_op \<noteq> AndNode then Inl AssertionError
       else case d of
              None \<Rightarrow> Inl TypeError
            | Some dir \<Rightarrow>
                run_loop w verbose rest (st\<lparr>rs_cwd := path_join (rs_cwd st) dir,
                  rs_display := (if verbose then rs_display st @ [''cd '' @ dir @ '' &&''] else rs_display st)\<rparr>))"
| "run_loop w verbose (CommandNode c # rest) st =
     rbind (start_command w verbose c st) (\<lambda>st.
     let retval = exec_piped_commands (rs_codes st)
     in case rest of
          [] \<Rightarrow>
            Inr (Some retval,
              if verbose
              then st\<lparr>rs_printed := rs_printed st @ [py_join '' '' (rs_display st) @ '': exit code '' @ str_int retval]\<rparr>
              else st)
        | PipeNode # rest \<Rightarrow> run_loop w verbose rest (st\<lparr>rs_pipe := True, rs_display := rs_display st @ [''|'']\<rparr>)
        | OrNode # rest \<Rightarrow>
            if verbose then Inl UnboundLocalError
            else if retval = 0 then Inr (Some retval, st) else run_loop w verbose rest (next_group st)
        | AndNode # rest \<Rightarrow>
            if verbose then Inl UnboundLocalError
            else if retval \<noteq> 0 then Inr (Some retval, st) else run_loop w verbose rest (next_group st)
        | n # rest \<Rightarrow> run_loop w verbose rest st)"
| "run_loop w verbose (n # rest) st = Inl AssertionError"

definition run_pipeline :: "shell_world \<Rightarrow> bool \<Rightarrow> node list \<Rightarrow> (int option \<times> run_state) pyres" where
  "run_pipeline w verbose pipeline =
     run_loop w verbose pipeline
       \<lparr>rs_pipe = False, rs_cwd = ''.'', rs_codes = [], rs_display = [], rs_spawned = [], rs_printed = []\<rparr>"

section \<open>Well-formed pipelines\<close>

definition operator_tokens :: "string list" where
  "operator_tokens = [''>'', ''2>'', ''2>&1'', ''<'', ''|'', ''&&'', ''||'']"

fun env_ok :: "string \<times> string \<Rightarrow> bool" where
  "env_ok (k, v) \<longleftrightarrow> k \<noteq> [] \<and> list_all word_char k \<and> v \<noteq> [] \<and> list_all (\<lambda>c. \<not> re_space c) v"

definition command_ok :: "command \<Rightarrow> bool" where
  "command_ok c \<longleftrightarrow> cm_argv c = cm_name c # tl (cm_argv c) \<and> list_all (\<lambda>t. t \<notin> set operator_tokens) (tl (cm_argv c)) \<and>
     cm_name c \<noteq> ''cd'' \<and> env_var (cm_name c) = None \<and> distinct (keys (cm_env c)) \<and> list_all env_ok (cm_env c) \<and>
     cm_stderr c \<noteq> Some ToPipe \<and> cm_stdout c \<noteq> Some ToStdout"

fun last_ok :: "node \<Rightarrow> bool" where
  "last_ok (CommandNode c) \<longleftrightarrow> command_ok c \<and> cm_stdout c \<noteq> Some ToPipe"
| "last_ok (ChdirNode d) \<longleftrightarrow> d \<noteq> Some ''&&''"
| "last_ok _ \<longleftrightarrow> False"

fun joined_ok :: "node \<Rightarrow> node \<Rightarrow> bool" where
  \<comment> \<open>a node and the operator after it\<close>
  "joined_ok (CommandNode c) PipeNode \<longleftrightarrow> command_ok c \<and> cm_stdout c = Some ToPipe"
| "joined_ok n AndNode \<longleftrightarrow> last_ok n"
| "joined_ok (CommandNode c) OrNode \<longleftrightarrow> last_ok (CommandNode c)"
| "joined_ok _ _ \<longleftrightarrow> False"

fun prefix_ok :: "node list \<Rightarrow> bool" where
  "prefix_ok [] \<longleftrightarrow> True"
| "prefix_ok [n] \<longleftrightarrow> False"
| "prefix_ok (n # p # ns) \<longleftrightarrow> joined_ok n p \<and> prefix_ok ns"

fun pipeline_ok :: "node list \<Rightarrow> bool" where
  \<comment> \<open>commands and changes of directory, joined by operators\<close>
  "pipeline_ok [] \<longleftrightarrow> False"
| "pipeline_ok [n] \<longleftrightarrow> last_ok n"
| "pipeline_ok (n # p # ns) \<longleftrightarrow> joined_ok n p \<and> pipeline_ok ns"

lemma prefix_ok_snoc: "prefix_ok ns \<Longrightarrow> joined_ok n p \<Longrightarrow> prefix_ok (ns @ [n, p])"
  by (induction ns rule: prefix_ok.induct) auto

lemma prefix_ok_last: "prefix_ok ns \<Longrightarrow> last_ok n \<Longrightarrow> pipeline_ok (ns @ [n])"
  by (induction ns rule: prefix_ok.induct) auto

section \<open>What the parser keeps\<close>

definition parser_ok :: "parser \<Rightarrow> bool" where
  "parser_ok st \<longleftrightarrow> prefix_ok (ps_pipeline st) \<and> distinct (keys (ps_env st)) \<and> list_all env_ok (ps_env st) \<and>
     (case ps_mode st of
        BEGIN \<Rightarrow> ps_current st = None
      | CHDIR \<Rightarrow> ps_env st = [] \<and> (\<exists>d. ps_current st = Some (ChdirNode d) \<and> last_ok (ChdirNode d))
      | _ \<Rightarrow> ps_env st = [] \<and> (\<exists>c. ps_current st = Some (CommandNode c) \<and> last_ok (CommandNode c)))"

lemma env_var_ok: "env_var t = Some (k, v) \<Longrightarrow> env_ok (k, v)"
  by (auto simp: env_var_def Let_def split: option.splits prod.splits if_splits)

lemma list_all_update_env:
  "list_all env_ok d \<Longrightarrow> env_ok (k, v) \<Longrightarrow> list_all env_ok (AList.update k v d)"
  by (induction d) auto

lemma on_command_Inr:
  "on_command f m st = Inr st' \<longleftrightarrow>
    (\<exists>c c'. ps_current st = Some (CommandNode c) \<and> f c = Inr c' \<and> st' = st\<lparr>ps_current := Some (CommandNode c'), ps_mode := m\<rparr>)"
  by (auto simp: on_command_def rbind_Inr_iff split: option.splits node.splits)

lemma py_assert_Inr [simp]: "py_assert b x = Inr y \<longleftrightarrow> b \<and> y = x"
  by (auto simp: py_assert_def)

lemma end_command_Inr:
  "end_command p st = Inr st' \<longleftrightarrow> (\<exists>n. ps_current st = Some n \<and>
     st' = st\<lparr>ps_pipeline := ps_pipeline st @ [n, p], ps_current := None, ps_mode := BEGIN\<rparr>)"
  by (auto simp: end_command_def commit_command_def rbind_Inr_iff split: option.splits)

lemma begin_token_ok:
  assumes "parser_ok st" and "ps_mode st = BEGIN" and "begin_token t st = Inr st'"
  shows "parser_ok st'"
proof (cases "env_var t")
  case None
  with assms show ?thesis
    by (auto simp: begin_token_def parser_ok_def command_ok_def new_command_def split: if_splits)
next
  case (Some kv)
  with assms show ?thesis
    by (cases kv) (auto simp: begin_token_def parser_ok_def distinct_update list_all_update_env dest: env_var_ok)
qed

lemma command_token_ok:
  assumes "parser_ok st" and "ps_mode st = COMMAND" and "command_token t st = Inr st'"
  shows "parser_ok st'"
proof -
  obtain c where c: "ps_current st = Some (CommandNode c)" "command_ok c" "cm_stdout c \<noteq> Some ToPipe"
    using assms(1,2) by (auto simp: parser_ok_def)
  have arg: "command_ok (c\<lparr>cm_argv := cm_argv c @ [t]\<rparr>)" if "t \<notin> set operator_tokens"
    using c(2) that by (cases "cm_argv c") (auto simp: command_ok_def)
  show ?thesis
    using assms c arg
    by (auto simp: command_token_def parser_ok_def on_command_Inr end_command_Inr rbind_Inr_iff operator_tokens_def
        command_ok_def prefix_ok_snoc split: if_splits)
qed

lemma parse_token_ok:
  assumes "parser_ok st" and "parse_token t st = Inr st'"
  shows "parser_ok st'"
proof (cases "ps_mode st")
  case BEGIN
  with assms show ?thesis by (simp add: begin_token_ok)
next
  case COMMAND
  with assms show ?thesis by (simp add: command_token_ok)
next
  case CHDIR
  with assms show ?thesis
    by (auto simp: chdir_token_def parser_ok_def end_command_Inr prefix_ok_snoc split: if_splits option.splits node.splits)
qed (use assms in \<open>auto simp: parser_ok_def on_command_Inr command_ok_def\<close>)

lemma parse_tokens_ok: "parse_tokens ts = Inr ns \<Longrightarrow> pipeline_ok ns"
proof -
  assume "parse_tokens ts = Inr ns"
  then obtain st n where st:
    "rfold parse_token ts \<lparr>ps_mode = BEGIN, ps_current = None, ps_env = [], ps_pipeline = []\<rparr> = Inr st"
    "ps_current st = Some n" "ns = ps_pipeline st @ [n]"
    by (auto simp: parse_tokens_def rbind_Inr_iff commit_command_def split: option.splits)
  have "parser_ok st"
    by (rule rfold_invariant [OF st(1)]) (simp add: parser_ok_def, erule parse_token_ok)
  then have "prefix_ok (ps_pipeline st)" "last_ok n"
    using st(2) by (auto simp: parser_ok_def split: mode.splits)
  then show "pipeline_ok ns" by (simp add: st(3) prefix_ok_last)
qed

section \<open>Printing a pipeline\<close>

definition redirections :: "command \<Rightarrow> string list" where
  "redirections c =
     (case cm_stdin c of Some f \<Rightarrow> [''<'', f] | None \<Rightarrow> []) @
     (case cm_stdout c of Some (ToFile f) \<Rightarrow> [''>'', f] | _ \<Rightarrow> []) @
     (case cm_stderr c of Some (ToFile f) \<Rightarrow> [''2>'', f] | Some ToStdout \<Rightarrow> [''2>&1''] | _ \<Rightarrow> [])"

fun node_tokens :: "node \<Rightarrow> string list" where
  "node_tokens (CommandNode c) = map (\<lambda>(k, v). k @ ''='' @ v) (cm_env c) @ cm_argv c @ redirections c"
| "node_tokens (ChdirNode d) = ''cd'' # (case d of None \<Rightarrow> [] | Some dir \<Rightarrow> [dir])"
| "node_tokens PipeNode = [''|'']"
| "node_tokens AndNode = [''&&'']"
| "node_tokens OrNode = [''||'']"

definition unparse :: "node list \<Rightarrow> string list" where
  "unparse ns = concat (map node_tokens ns)"

definition at_begin :: "node list \<Rightarrow> (string \<times> string) list \<Rightarrow> parser" where
  "at_begin pl env = \<lparr>ps_mode = BEGIN, ps_current = None, ps_env = env, ps_pipeline = pl\<rparr>"

definition in_command :: "node list \<Rightarrow> command \<Rightarrow> parser" where
  "in_command pl c = \<lparr>ps_mode = COMMAND, ps_current = Some (CommandNode c), ps_env = [], ps_pipeline = pl\<rparr>"

lemma equals_newline: "\<not> word_char (CHR ''='')" "re_space newline"
  by code_simp+

lemma env_var_print: "env_ok (k, v) \<Longrightarrow> env_var (k @ CHR ''='' # v) = Some (k, v)"
proof -
  assume ok: "env_ok (k, v)"
  then have "CHR ''='' \<notin> set k" using equals_newline(1) by (auto simp: list_all_iff)
  then have "py_split1 (CHR ''='') (k @ CHR ''='' # v) = (k, Some v)" by (simp add: py_split1_Some)
  moreover have "last v \<noteq> newline" using ok equals_newline(2) by (metis env_ok.simps last_in_set list_all_iff)
  ultimately show ?thesis using ok by (simp add: env_var_def Let_def)
qed

lemma update_new_key: "k \<notin> set (keys d) \<Longrightarrow> AList.update k v d = d @ [(k, v)]"
  by (induction d) auto

lemma read_env:
  "list_all env_ok kvs \<Longrightarrow> distinct (keys (env @ kvs)) \<Longrightarrow>
    rfold parse_token (map (\<lambda>(k, v). k @ ''='' @ v) kvs) (at_begin pl env) = Inr (at_begin pl (env @ kvs))"
proof (induction kvs arbitrary: env)
  case (Cons kv kvs)
  obtain k v where kv: "kv = (k, v)" by fastforce
  have "parse_token (k @ CHR ''='' # v) (at_begin pl env) = Inr (at_begin pl (env @ [kv]))"
    using Cons.prems by (simp add: at_begin_def begin_token_def env_var_print update_new_key kv)
  with Cons.IH [of "env @ [kv]"] Cons.prems show ?case by (simp add: kv)
qed simp

lemma read_args:
  "list_all (\<lambda>t. t \<notin> set operator_tokens) args \<Longrightarrow>
    rfold parse_token args (in_command pl c) = Inr (in_command pl (c\<lparr>cm_argv := cm_argv c @ args\<rparr>))"
  by (induction args arbitrary: c)
     (simp_all add: in_command_def command_token_def on_command_def operator_tokens_def)

lemma read_redirections:
  assumes "cm_stdin c = None" "cm_stdout c = None" "cm_stderr c = None"
    and "cm_stderr d \<noteq> Some ToPipe" "cm_stdout d \<noteq> Some ToStdout"
  shows "rfold parse_token (redirections d) (in_command pl c) = Inr (in_command pl
    (c\<lparr>cm_stdin := cm_stdin d, cm_stdout := (if cm_stdout d = Some ToPipe then None else cm_stdout d), cm_stderr := cm_stderr d\<rparr>))"
  using assms
  by (cases c) (auto simp: redirections_def in_command_def command_token_def on_command_def py_assert_def
      split: option.split redirect.split)

lemma read_command:
  assumes "command_ok c"
  shows "rfold parse_token (node_tokens (CommandNode c)) (at_begin pl []) =
    Inr (in_command pl (c\<lparr>cm_stdout := (if cm_stdout c = Some ToPipe then None else cm_stdout c)\<rparr>))"
proof -
  have ok: "cm_argv c = cm_name c # tl (cm_argv c)" "list_all (\<lambda>t. t \<notin> set operator_tokens) (tl (cm_argv c))"
    "cm_name c \<noteq> ''cd''" "env_var (cm_name c) = None" "distinct (keys (cm_env c))" "list_all env_ok (cm_env c)"
    "cm_stderr c \<noteq> Some ToPipe" "cm_stdout c \<noteq> Some ToStdout"
    using assms by (simp_all add: command_ok_def)
  let ?n = "(new_command (cm_name c))\<lparr>cm_env := cm_env c\<rparr>"
  have name: "parse_token (cm_name c) (at_begin pl (cm_env c)) = Inr (in_command pl ?n)"
    using ok(3,4) by (simp add: at_begin_def in_command_def begin_token_def)
  have args: "rfold parse_token (tl (cm_argv c)) (in_command pl ?n) =
    Inr (in_command pl (?n\<lparr>cm_argv := cm_argv c\<rparr>))"
    using read_args [OF ok(2), of pl ?n] ok(1) by (simp add: new_command_def)
  have argv: "rfold parse_token (cm_argv c) (at_begin pl (cm_env c)) = Inr (in_command pl (?n\<lparr>cm_argv := cm_argv c\<rparr>))"
    by (subst ok(1)) (simp add: name args)
  have redir: "rfold parse_token (redirections c) (in_command pl (?n\<lparr>cm_argv := cm_argv c\<rparr>)) =
    Inr (in_command pl (c\<lparr>cm_stdout := (if cm_stdout c = Some ToPipe then None else cm_stdout c)\<rparr>))"
    using read_redirections [of "?n\<lparr>cm_argv := cm_argv c\<rparr>" c pl] ok(7,8) by (cases c) (simp add: new_command_def)
  show ?thesis
    using read_env [OF ok(6), of "[]" pl] ok(5) by (simp add: rfold_append argv redir)
qed

definition finish_parse :: "parser \<Rightarrow> node list pyres" where
  "finish_parse st = rbind (commit_command st) (\<lambda>st. Inr (ps_pipeline st))"

lemma read_last:
  assumes "last_ok n"
  shows "rbind (rfold parse_token (node_tokens n) (at_begin pl [])) finish_parse = Inr (pl @ [n])"
proof (cases n)
  case (CommandNode c)
  with assms have "command_ok c" "cm_stdout c \<noteq> Some ToPipe" by simp_all
  then show ?thesis
    by (simp add: CommandNode read_command finish_parse_def commit_command_def in_command_def
        del: node_tokens.simps)
next
  case (ChdirNode d)
  have "env_var ''cd'' = None" by code_simp
  then show ?thesis using assms
    by (auto simp: ChdirNode at_begin_def begin_token_def chdir_token_def py_assert_def finish_parse_def
        commit_command_def split: option.split)
qed (use assms in simp_all)

lemma read_joined:
  assumes "joined_ok n p"
  shows "rfold parse_token (node_tokens n @ node_tokens p) (at_begin pl []) = Inr (at_begin (pl @ [n, p]) [])"
proof (cases n)
  case (CommandNode c)
  with assms have ok: "command_ok c" by (cases p) simp_all
  show ?thesis unfolding CommandNode rfold_append read_command [OF ok] rbind_simps
    using assms CommandNode
    by (cases p) (auto simp: in_command_def at_begin_def command_token_def on_command_def
        py_assert_def end_command_def commit_command_def)
next
  case (ChdirNode d)
  have "env_var ''cd'' = None" by code_simp
  then show ?thesis using assms
    by (cases p) (auto simp: ChdirNode at_begin_def begin_token_def chdir_token_def py_assert_def end_command_def
        commit_command_def split: option.split)
qed (use assms in \<open>(cases p; auto)+\<close>)

lemma parse_unparse:
  "pipeline_ok ns \<Longrightarrow> rbind (rfold parse_token (unparse ns) (at_begin pl [])) finish_parse = Inr (pl @ ns)"
proof (induction ns arbitrary: pl rule: pipeline_ok.induct)
  case (2 n)
  then show ?case by (simp add: unparse_def read_last)
next
  case (3 n p ns)
  then have "rfold parse_token (node_tokens n @ node_tokens p) (at_begin pl []) = Inr (at_begin (pl @ [n, p]) [])"
    by (intro read_joined) simp
  then have "rfold parse_token (unparse (n # p # ns)) (at_begin pl []) =
      rfold parse_token (unparse ns) (at_begin (pl @ [n, p]) [])"
    by (simp add: unparse_def rfold_append flip: append_assoc)
  with 3 show ?case by simp
qed simp

lemma parse_tokens_alt: "parse_tokens ts = rbind (rfold parse_token ts (at_begin [] [])) finish_parse"
  by (simp add: parse_tokens_def at_begin_def finish_parse_def [abs_def])

section \<open>Command lines without a cd inside a pipe\<close>

text \<open>A group changes to directories and runs a pipe of commands; groups are chained by the two
  conditional operators.\<close>

type_synonym group = "string list \<times> command list"

datatype chain = Single group | AndThen group chain | OrElse group chain

fun pipe_nodes :: "command list \<Rightarrow> node list" where
  "pipe_nodes [] = []"
| "pipe_nodes [c] = [CommandNode c]"
| "pipe_nodes (c # cs) = CommandNode c # PipeNode # pipe_nodes cs"

fun group_nodes :: "group \<Rightarrow> node list" where
  "group_nodes (dirs, cs) = concat (map (\<lambda>d. [ChdirNode (Some d), AndNode]) dirs) @ pipe_nodes cs"

fun chain_nodes :: "chain \<Rightarrow> node list" where
  "chain_nodes (Single g) = group_nodes g"
| "chain_nodes (AndThen g ch) = group_nodes g @ AndNode # chain_nodes ch"
| "chain_nodes (OrElse g ch) = group_nodes g @ OrNode # chain_nodes ch"

fun groups :: "chain \<Rightarrow> group list" where
  "groups (Single g) = [g]"
| "groups (AndThen g ch) = g # groups ch"
| "groups (OrElse g ch) = g # groups ch"

definition enter :: "string list \<Rightarrow> string \<Rightarrow> string" where
  "enter dirs cwd = fold (\<lambda>d cwd. path_join cwd d) dirs cwd"

fun pipe_spawns :: "shell_world \<Rightarrow> bool \<Rightarrow> string \<Rightarrow> command list \<Rightarrow> spawn list" where
  "pipe_spawns w piped cwd [] = []"
| "pipe_spawns w piped cwd (c # cs) = spawn_of w piped cwd c # pipe_spawns w True cwd cs"

fun group_result :: "shell_world \<Rightarrow> (spawn \<Rightarrow> int) \<Rightarrow> string \<Rightarrow> group \<Rightarrow> int \<times> spawn list \<times> string" where
  \<comment> \<open>code of the last command, processes started, directory\<close>
  "group_result w code cwd (dirs, cs) =
     (let cwd = enter dirs cwd; ss = pipe_spawns w False cwd cs in (code (last ss), ss, cwd))"

fun chain_result :: "shell_world \<Rightarrow> (spawn \<Rightarrow> int) \<Rightarrow> string \<Rightarrow> chain \<Rightarrow> int \<times> spawn list" where
  \<comment> \<open>an operator that does not go on ends the whole line\<close>
  "chain_result w code cwd (Single g) = (let (r, ss, _) = group_result w code cwd g in (r, ss))"
| "chain_result w code cwd (AndThen g ch) =
     (let (r, ss, cwd) = group_result w code cwd g
      in if r \<noteq> 0 then (r, ss) else let (r', ss') = chain_result w code cwd ch in (r', ss @ ss'))"
| "chain_result w code cwd (OrElse g ch) =
     (let (r, ss, cwd) = group_result w code cwd g
      in if r = 0 then (r, ss) else let (r', ss') = chain_result w code cwd ch in (r', ss @ ss'))"

lemma exec_piped_last: "rs \<noteq> [] \<Longrightarrow> exec_piped_commands rs = last rs"
proof -
  assume "rs \<noteq> []"
  have "exec_piped_loop xs l = (if \<forall>r \<in> set xs. r = 0 then 0 else l)" for xs and l :: int
    by (induction xs) auto
  with \<open>rs \<noteq> []\<close> show ?thesis by (simp add: exec_piped_commands_def)
qed

definition open_world :: "shell_world \<Rightarrow> (spawn \<Rightarrow> int) \<Rightarrow> bool" where
  \<comment> \<open>every program starts and every file opens\<close>
  "open_world w code \<longleftrightarrow> (\<forall>s. sw_popen w s = Inr (code s)) \<and> (\<forall>f. sw_readable w f \<and> sw_writable w f)"

lemma start_open:
  assumes "open_world w code"
  shows "start_command w False c st =
    (let s = spawn_of w (rs_pipe st) (rs_cwd st) c
     in Inr (st\<lparr>rs_codes := rs_codes st @ [code s], rs_spawned := rs_spawned st @ [s]\<rparr>))"
  using assms by (simp add: start_command_def open_world_def out_ok_def Let_def split: option.split redirect.split)

definition after_group :: "shell_world \<Rightarrow> node list \<Rightarrow> run_state \<Rightarrow> (int option \<times> run_state) pyres" where
  "after_group w rest st =
     (let r = exec_piped_commands (rs_codes st)
      in case rest of
           OrNode # rest \<Rightarrow> if r = 0 then Inr (Some r, st) else run_loop w False rest (next_group st)
         | AndNode # rest \<Rightarrow> if r \<noteq> 0 then Inr (Some r, st) else run_loop w False rest (next_group st)
         | _ \<Rightarrow> Inr (Some r, st))"

lemma run_pipe:
  assumes "open_world w code" and "cs \<noteq> []" and "rest = [] \<or> hd rest = AndNode \<or> hd rest = OrNode"
  shows "\<exists>st'. run_loop w False (pipe_nodes cs @ rest) st = after_group w rest st' \<and>
    rs_spawned st' = rs_spawned st @ pipe_spawns w (rs_pipe st) (rs_cwd st) cs \<and> rs_cwd st' = rs_cwd st \<and>
    exec_piped_commands (rs_codes st') = code (last (pipe_spawns w (rs_pipe st) (rs_cwd st) cs))"
  using assms(2)
proof (induction cs arbitrary: st rule: pipe_nodes.induct)
  case (2 c)
  let ?s = "spawn_of w (rs_pipe st) (rs_cwd st) c"
  let ?st = "st\<lparr>rs_codes := rs_codes st @ [code ?s], rs_spawned := rs_spawned st @ [?s]\<rparr>"
  have "run_loop w False (CommandNode c # rest) st = after_group w rest ?st"
    using assms(3) by (auto simp: start_open [OF assms(1)] Let_def after_group_def split: list.split node.split)
  then show ?case by (intro exI [of _ ?st]) (simp add: exec_piped_last)
next
  case (3 c c' cs)
  let ?s = "spawn_of w (rs_pipe st) (rs_cwd st) c"
  let ?st = "st\<lparr>rs_codes := rs_codes st @ [code ?s], rs_spawned := rs_spawned st @ [?s], rs_pipe := True,
    rs_display := rs_display st @ [''|'']\<rparr>"
  obtain st' where st': "run_loop w False (pipe_nodes (c' # cs) @ rest) ?st = after_group w rest st'"
    "rs_spawned st' = rs_spawned ?st @ pipe_spawns w (rs_pipe ?st) (rs_cwd ?st) (c' # cs)" "rs_cwd st' = rs_cwd ?st"
    "exec_piped_commands (rs_codes st') = code (last (pipe_spawns w (rs_pipe ?st) (rs_cwd ?st) (c' # cs)))"
    using "3.IH" [of ?st] by blast
  have "run_loop w False (pipe_nodes (c # c' # cs) @ rest) st = run_loop w False (pipe_nodes (c' # cs) @ rest) ?st"
    by (simp add: start_open [OF assms(1)] Let_def)
  with st' show ?case by (intro exI [of _ st']) simp
qed simp

lemma run_dirs:
  "run_loop w False (concat (map (\<lambda>d. [ChdirNode (Some d), AndNode]) dirs) @ rest) st =
    run_loop w False rest (st\<lparr>rs_cwd := enter dirs (rs_cwd st)\<rparr>)"
  by (induction dirs arbitrary: st) (simp_all add: enter_def)

lemma run_group:
  assumes "open_world w code" and "snd g \<noteq> []" and "rest = [] \<or> hd rest = AndNode \<or> hd rest = OrNode"
    and "group_result w code (rs_cwd st) g = (r, ss, cwd)" and "\<not> rs_pipe st"
  shows "\<exists>st'. run_loop w False (group_nodes g @ rest) st = after_group w rest st' \<and>
    rs_spawned st' = rs_spawned st @ ss \<and> rs_cwd st' = cwd \<and> exec_piped_commands (rs_codes st') = r"
proof -
  obtain dirs cs where g: "g = (dirs, cs)" by fastforce
  let ?st = "st\<lparr>rs_cwd := enter dirs (rs_cwd st)\<rparr>"
  have "run_loop w False (group_nodes g @ rest) st = run_loop w False (pipe_nodes cs @ rest) ?st"
    by (simp add: g run_dirs)
  with run_pipe [OF assms(1), of cs rest ?st] assms(2-) show ?thesis by (auto simp: g Let_def)
qed

lemma run_chain:
  assumes "open_world w code" and "list_all (\<lambda>g. snd g \<noteq> []) (groups ch)" and "\<not> rs_pipe st"
    and "chain_result w code (rs_cwd st) ch = (r, ss)"
  shows "\<exists>st'. run_loop w False (chain_nodes ch) st = Inr (Some r, st') \<and> rs_spawned st' = rs_spawned st @ ss"
  using assms(2-)
proof (induction ch arbitrary: st r ss)
  case (Single g)
  obtain r' ss' cwd where g: "group_result w code (rs_cwd st) g = (r', ss', cwd)" by (metis prod_cases3)
  from run_group [OF assms(1) _ _ g, of "[]"] Single g show ?case by (auto simp: after_group_def Let_def)
next
  case (AndThen g ch)
  obtain r1 ss1 cwd where g: "group_result w code (rs_cwd st) g = (r1, ss1, cwd)" by (metis prod_cases3)
  obtain r2 ss2 where c: "chain_result w code cwd ch = (r2, ss2)" by fastforce
  obtain st1 where st1: "run_loop w False (chain_nodes (AndThen g ch)) st = after_group w (AndNode # chain_nodes ch) st1"
    "rs_spawned st1 = rs_spawned st @ ss1" "rs_cwd st1 = cwd" "exec_piped_commands (rs_codes st1) = r1"
    using run_group [OF assms(1) _ _ g, of "AndNode # chain_nodes ch"] AndThen.prems by auto
  show ?case
  proof (cases "r1 = 0")
    case True
    then have "(r, ss) = (r2, ss1 @ ss2)" using AndThen.prems(3) g c by simp
    with True AndThen.IH [of "next_group st1" r2 ss2] AndThen.prems(1) c st1 show ?thesis
      by (auto simp: after_group_def next_group_def)
  next
    case False
    with AndThen.prems(3) g st1 show ?thesis by (simp add: after_group_def)
  qed
next
  case (OrElse g ch)
  obtain r1 ss1 cwd where g: "group_result w code (rs_cwd st) g = (r1, ss1, cwd)" by (metis prod_cases3)
  obtain r2 ss2 where c: "chain_result w code cwd ch = (r2, ss2)" by fastforce
  obtain st1 where st1: "run_loop w False (chain_nodes (OrElse g ch)) st = after_group w (OrNode # chain_nodes ch) st1"
    "rs_spawned st1 = rs_spawned st @ ss1" "rs_cwd st1 = cwd" "exec_piped_commands (rs_codes st1) = r1"
    using run_group [OF assms(1) _ _ g, of "OrNode # chain_nodes ch"] OrElse.prems by auto
  show ?case
  proof (cases "r1 = 0")
    case True
    with OrElse.prems(3) g st1 show ?thesis by (simp add: after_group_def)
  next
    case False
    then have "(r, ss) = (r2, ss1 @ ss2)" using OrElse.prems(3) g c by simp
    with False OrElse.IH [of "next_group st1" r2 ss2] OrElse.prems(1) c st1 show ?thesis
      by (auto simp: after_group_def next_group_def)
  qed
qed

lemma run_verbose_operator:
  assumes "start_command w True c st = Inr st'" and "p = AndNode \<or> p = OrNode"
  shows "run_loop w True (CommandNode c # p # rest) st = Inl UnboundLocalError"
  using assms by auto

section \<open>Properties\<close>

text \<open>C13: a command line that parses gives commands and changes of directory joined by operators,
  where exactly the commands before a pipe write into it, no command is called \<open>cd\<close>, no operator is
  an argument, and the variables of a command are different; printed as tokens and parsed again it
  gives the same pipeline.\<close>

theorem parse_well_formed:
  assumes "parse_tokens ts = Inr ns"
  shows "pipeline_ok ns \<and> parse_tokens (unparse ns) = Inr ns"
  using parse_unparse [OF parse_tokens_ok [OF assms], of "[]"] parse_tokens_ok [OF assms]
  by (simp add: parse_tokens_alt)

definition sample_line :: string where
  "sample_line = ''X=1 ./foo.py 2>&1 < xxx | cat && ls''"

theorem parse_well_formed_witness:
  "\<exists>ns. parse_command sample_line = Inr ns \<and> length ns = 5 \<and> pipeline_ok ns \<and> parse_tokens (unparse ns) = Inr ns"
proof -
  have ts: "shlex_split sample_line =
      Inr [''X=1'', ''./foo.py'', ''2>&1'', ''<'', ''xxx'', ''|'', ''cat'', ''&&'', ''ls'']" by code_simp
  have "case parse_tokens [''X=1'', ''./foo.py'', ''2>&1'', ''<'', ''xxx'', ''|'', ''cat'', ''&&'', ''ls''] of
      Inl _ \<Rightarrow> False | Inr ns \<Rightarrow> length ns = 5" by code_simp
  then obtain ns where "parse_tokens [''X=1'', ''./foo.py'', ''2>&1'', ''<'', ''xxx'', ''|'', ''cat'', ''&&'', ''ls''] = Inr ns"
      "length ns = 5" by (auto split: sum.splits)
  with parse_well_formed [of _ ns] ts show ?thesis by (auto simp: parse_command_def)
qed

text \<open>C14: running a chain of pipes starts the commands of one group after the other, each in the
  directory that the changes so far lead to, with the exit code of a group that of its last command;
  the first \<open>&&\<close> after a failure or \<open>||\<close> after a success ends the whole line with that code, so what
  follows a later operator is not run, which a shell would run.\<close>

theorem run_short_circuit:
  assumes "open_world w code" and "list_all (\<lambda>g. snd g \<noteq> []) (groups ch)"
  shows "\<exists>st. run_pipeline w False (chain_nodes ch) = Inr (Some (fst (chain_result w code ''.'' ch)), st) \<and>
    rs_spawned st = snd (chain_result w code ''.'' ch)"
proof -
  obtain r ss where c: "chain_result w code ''.'' ch = (r, ss)" by fastforce
  show ?thesis
    using run_chain [OF assms, of "\<lparr>rs_pipe = False, rs_cwd = ''.'', rs_codes = [], rs_display = [], rs_spawned = [], rs_printed = []\<rparr>" r ss] c
    by (auto simp: run_pipeline_def)
qed

theorem run_short_circuit_witness:
  "\<exists>w st. run_pipeline w False (chain_nodes (AndThen ([], [new_command ''false''])
      (OrElse ([], [new_command ''a'']) (Single ([], [new_command ''b'']))))) = Inr (Some 1, st) \<and>
    map sp_argv (rs_spawned st) = [[''false'']]"
proof -
  let ?code = "\<lambda>s. if sp_argv s = [''false''] then 1 else 0 :: int"
  let ?w = "\<lparr>sw_popen = \<lambda>s. Inr (?code s), sw_readable = \<lambda>_. True, sw_writable = \<lambda>_. True, sw_environ = []\<rparr>"
  let ?ch = "AndThen ([], [new_command ''false'']) (OrElse ([], [new_command ''a'']) (Single ([], [new_command ''b''])))"
  have "open_world ?w ?code" by (simp add: open_world_def)
  then obtain st where st: "run_pipeline ?w False (chain_nodes ?ch) = Inr (Some (fst (chain_result ?w ?code ''.'' ?ch)), st)"
    "rs_spawned st = snd (chain_result ?w ?code ''.'' ?ch)"
    using run_short_circuit [of ?w ?code ?ch] by auto
  then show ?thesis by (intro exI [of _ ?w] exI [of _ st]) (simp add: spawn_of_def new_command_def Let_def)
qed

end
