(* ===== verification/Ptr_Types.thy ===== *)
theory Ptr_Types
  imports Shell_Cmd
begin

text \<open>
  The treatment of smart pointers by the binding generator, \<open>SmartPointerTransformation\<close> of
  \<open>src/bindings/python/ns3modulegen_core_customizations.py\<close>: the type \<open>ns3::Ptr<T>\<close> is handled as \<open>T *\<close>. A
  type handler of pybindgen is its class and the type that it is made for; the regular expression
  of the source is a function on strings (\<open>re_space\<close> is its \<open>\s\<close>).
\<close>

section \<open>The transformation\<close>

definition strip_spaces :: "string \<Rightarrow> string" where
  \<comment> \<open>\<open>str.strip\<close>\<close>
  "strip_spaces s = rev (dropWhile re_space (rev (dropWhile re_space s)))"

definition ptr_argument :: "string \<Rightarrow> string option" where
  \<comment> \<open>group 2 of \<open>(ns3::|::ns3::|)Ptr<([^>]+)>\s*$\<close>\<close>
  "ptr_argument name =
     (let name = (if prefix ''ns3::'' name then drop 5 name else if prefix ''::ns3::'' name then drop 7 name else name);
          inner = takeWhile (\<lambda>c. c \<noteq> CHR ''>'') (drop 4 name); rest = dropWhile (\<lambda>c. c \<noteq> CHR ''>'') (drop 4 name)
      in if prefix ''Ptr<'' name \<and> inner \<noteq> [] \<and> rest \<noteq> [] \<and> list_all re_space (tl rest) then Some inner else None)"

definition drop_const :: "string \<Rightarrow> string \<times> bool" where
  \<comment> \<open>a \<open>const\<close> in front and one behind\<close>
  "drop_const name1 =
     (let front = prefix ''const '' name1;
          name1 = (if front then drop 6 name1 else name1);
          behind = suffix '' const'' name1;
          name1 = (if behind then take (length name1 - 6) name1 else name1)
      in (name1, front \<or> behind))"

definition type_traits :: "string \<Rightarrow> string option \<times> bool" where
  \<comment> \<open>\<open>_get_untransformed_type_traits\<close>\<close>
  "type_traits name = (case ptr_argument name of
     None \<Rightarrow> (None, False)
   | Some inner \<Rightarrow>
       let (name1, is_const) = drop_const (strip_spaces inner);
           new_name = name1 @ '' *''
       in (Some (if prefix ''::'' new_name then drop 2 new_name else new_name), is_const))"

definition get_untransformed_name :: "string \<Rightarrow> string option" where
  "get_untransformed_name name = fst (type_traits name)"

datatype handler_class = ParameterH | ReturnValueH | OtherH

record type_handler =
  th_class :: handler_class
  th_ctype :: string
  th_option :: "string \<times> bool"   \<comment> \<open>the keyword argument that is added\<close>
  th_untransformed :: string       \<comment> \<open>\<open>untransformed_ctype\<close>\<close>

definition correct_ctype :: "string \<Rightarrow> bool \<Rightarrow> string" where
  "correct_ctype orig is_const =
     ''ns3::Ptr< '' @ take (length orig - 2) orig @ (if is_const then '' const >'' else '' >'')"

definition create_type_handler :: "handler_class \<Rightarrow> string \<Rightarrow> type_handler pyres" where
  "create_type_handler cls ctype =
     (let opt = (case cls of ParameterH \<Rightarrow> Some ''transfer_ownership'' | ReturnValueH \<Rightarrow> Some ''caller_owns_return'' | OtherH \<Rightarrow> None)
      in case opt of
           None \<Rightarrow> Inl AssertionError
         | Some k \<Rightarrow> (case type_traits ctype of
             (None, _) \<Rightarrow> Inl TypeError
           | (Some orig, is_const) \<Rightarrow>
               Inr \<lparr>th_class = cls, th_ctype = correct_ctype orig is_const, th_option = (k, False), th_untransformed = orig\<rparr>))"

definition untransform :: "type_handler \<Rightarrow> string \<Rightarrow> string" where
  "untransform h expression = ''const_cast<'' @ th_untransformed h @ ''> (ns3::PeekPointer ('' @ expression @ ''))''"

definition transform :: "type_handler \<Rightarrow> string \<Rightarrow> string pyres" where
  "transform h expression =
     rbind (py_index (th_untransformed h) (- 1)) (\<lambda>c.
     py_assert (c = CHR ''*'')
       (''ns3::Ptr< '' @ butlast (th_untransformed h) @ '' > ('' @ expression @ '')''))"

section \<open>The spellings of a pointer type\<close>

definition proper :: "string \<Rightarrow> bool" where
  \<comment> \<open>the name of a type without outer spaces, \<open>const\<close> and leading colons\<close>
  "proper t \<longleftrightarrow> t \<noteq> [] \<and> CHR ''>'' \<notin> set t \<and> \<not> re_space (hd t) \<and> \<not> re_space (last t) \<and> t \<noteq> ''const'' \<and>
     \<not> prefix ''const '' t \<and> \<not> suffix '' const'' t \<and> \<not> prefix ''::'' t"

definition const_if :: "bool \<Rightarrow> string \<Rightarrow> string" where
  "const_if b s = (if b then s else [])"

definition type_inside :: "bool \<Rightarrow> string \<Rightarrow> string \<Rightarrow> bool \<Rightarrow> string" where
  "type_inside front colons t behind = const_if front ''const '' @ colons @ t @ const_if behind '' const''"

definition spelled :: "string \<Rightarrow> string \<Rightarrow> string \<Rightarrow> string \<Rightarrow> string" where
  \<comment> \<open>namespace, spaces, type, spaces\<close>
  "spelled ns u inside v = ns @ ''Ptr<'' @ u @ inside @ v @ ''>''"

lemma strip_proper:
  assumes "t \<noteq> []" and "\<not> re_space (hd t)" and "\<not> re_space (last t)" and "list_all re_space u" and "list_all re_space v"
  shows "strip_spaces (u @ t @ v) = t"
proof -
  have "dropWhile re_space (u @ t @ v) = t @ v"
    using assms by (cases t) (auto simp: list_all_iff dropWhile_append)
  moreover have "dropWhile re_space (rev v @ rev t) = rev t"
    using assms by (cases t rule: rev_cases) (auto simp: list_all_iff dropWhile_append)
  ultimately show ?thesis by (simp add: strip_spaces_def)
qed

lemma ptr_argument_spelled:
  assumes "ns \<in> set ['''', ''ns3::'', ''::ns3::'']" and "u @ inside @ v \<noteq> []" and "CHR ''>'' \<notin> set (u @ inside @ v)"
  shows "ptr_argument (spelled ns u inside v) = Some (u @ inside @ v)"
proof -
  let ?i = "u @ inside @ v"
  have "takeWhile (\<lambda>c. c \<noteq> CHR ''>'') (?i @ ''>'') = ?i"
    using assms(3) by (subst takeWhile_append2) auto
  moreover have "dropWhile (\<lambda>c. c \<noteq> CHR ''>'') (?i @ ''>'') = ''>''"
    using assms(3) by (subst dropWhile_append2) auto
  ultimately show ?thesis using assms(1,2) by (auto simp: ptr_argument_def spelled_def Let_def)
qed

lemma no_front_const:
  assumes "proper t" and "colons = [] \<or> colons = ''::''"
  shows "\<not> prefix ''const '' (colons @ t @ const_if behind '' const'')"
proof
  assume p: "prefix ''const '' (colons @ t @ const_if behind '' const'')"
  with assms(2) have "colons = []" by auto
  with p have "prefix ''const '' (t @ const_if behind '' const'')" by simp
  with assms(1) show False
    by (auto simp: prefix_append const_if_def proper_def Cons_eq_append_conv prefix_Cons split: if_splits)
qed

lemma no_back_const:
  assumes "proper t" and "colons = [] \<or> colons = ''::''"
  shows "\<not> suffix '' const'' (colons @ t)"
proof
  assume "suffix '' const'' (colons @ t)"
  then obtain w where w: "colons @ t = w @ '' const''" by (auto simp: suffix_def)
  with assms show False
    by (auto simp: proper_def suffix_def append_eq_append_conv2 Cons_eq_append_conv append_eq_Cons_conv)
qed

lemma drop_const_inside:
  assumes "proper t" and "colons = [] \<or> colons = ''::''"
  shows "drop_const (type_inside front colons t behind) = (colons @ t, front \<or> behind)"
proof -
  let ?rest = "colons @ t @ const_if behind '' const''"
  have front: "prefix ''const '' (type_inside front colons t behind) = front"
    using no_front_const [OF assms] by (cases front) (simp_all add: type_inside_def const_if_def)
  have rest: "(if front then drop 6 (type_inside front colons t behind) else type_inside front colons t behind) = ?rest"
    by (simp add: type_inside_def const_if_def)
  have behind: "suffix '' const'' ?rest = behind"
    using no_back_const [OF assms] by (cases behind) (simp_all add: const_if_def suffix_def)
  show ?thesis unfolding drop_const_def Let_def front rest behind by (simp add: const_if_def)
qed

lemma type_inside_ends:
  assumes "proper t" and "colons = [] \<or> colons = ''::''"
  shows "type_inside front colons t behind \<noteq> []" "\<not> re_space (hd (type_inside front colons t behind))"
    "\<not> re_space (last (type_inside front colons t behind))" "CHR ''>'' \<notin> set (type_inside front colons t behind)"
proof -
  have c: "\<not> re_space CHR ''c''" "\<not> re_space CHR '':''" "\<not> re_space CHR ''t''" by code_simp+
  show "type_inside front colons t behind \<noteq> []" using assms(1) by (simp add: type_inside_def proper_def)
  show "\<not> re_space (hd (type_inside front colons t behind))"
    using assms c by (auto simp: type_inside_def const_if_def proper_def)
  show "\<not> re_space (last (type_inside front colons t behind))"
    using assms c by (auto simp: type_inside_def const_if_def proper_def)
  show "CHR ''>'' \<notin> set (type_inside front colons t behind)"
    using assms by (auto simp: type_inside_def const_if_def proper_def)
qed

lemma space_no_bracket: "list_all re_space u \<Longrightarrow> CHR ''>'' \<notin> set u"
proof
  assume "list_all re_space u" "CHR ''>'' \<in> set u"
  then have "re_space CHR ''>''" by (simp add: list_all_iff)
  moreover have "\<not> re_space CHR ''>''" by code_simp
  ultimately show False by contradiction
qed

lemma traits_spelled:
  assumes "proper t" and "colons = [] \<or> colons = ''::''" and "ns \<in> set ['''', ''ns3::'', ''::ns3::'']"
    and "list_all re_space u" and "list_all re_space v"
  shows "type_traits (spelled ns u (type_inside front colons t behind) v) = (Some (t @ '' *''), front \<or> behind)"
proof -
  note ends = type_inside_ends [OF assms(1,2), of front behind]
  have arg: "ptr_argument (spelled ns u (type_inside front colons t behind) v) =
      Some (u @ type_inside front colons t behind @ v)"
    using assms(3) ends space_no_bracket [OF assms(4)] space_no_bracket [OF assms(5)]
    by (intro ptr_argument_spelled) auto
  have strip: "strip_spaces (u @ type_inside front colons t behind @ v) = type_inside front colons t behind"
    by (rule strip_proper) (use ends assms in auto)
  have "\<not> prefix ''::'' (t @ '' *'')"
    using assms(1) by (auto simp: proper_def prefix_append Cons_eq_append_conv)
  then show ?thesis
    using assms(2) by (auto simp: type_traits_def arg strip drop_const_inside [OF assms(1,2)] Let_def)
qed

lemma correct_ctype_spelled:
  "correct_ctype (t @ '' *'') is_const = spelled ''ns3::'' '' '' (type_inside False [] t is_const) '' ''"
  by (simp add: correct_ctype_def spelled_def type_inside_def const_if_def)

section \<open>Properties\<close>

text \<open>All spellings of a pointer type get the same handler: with either or no namespace, with
  spaces around the type, with \<open>const\<close> before or behind it and with colons in front of it; the type of
  this handler is again such a spelling, so making a handler of it changes nothing.\<close>

theorem handler_of_spellings:
  assumes "proper t" and "colons = [] \<or> colons = ''::''" and "ns \<in> set ['''', ''ns3::'', ''::ns3::'']"
    and "list_all re_space u" and "list_all re_space v" and "cls \<noteq> OtherH"
  shows "\<exists>h. create_type_handler cls (spelled ns u (type_inside front colons t behind) v) = Inr h \<and>
    th_ctype h = ''ns3::Ptr< '' @ t @ (if front \<or> behind then '' const >'' else '' >'') \<and>
    th_untransformed h = t @ '' *'' \<and> create_type_handler cls (th_ctype h) = Inr h"
proof -
  let ?c = "front \<or> behind"
  have space: "list_all re_space '' ''" by code_simp
  have "type_traits (spelled ns u (type_inside front colons t behind) v) = (Some (t @ '' *''), ?c)"
    using assms by (intro traits_spelled) auto
  moreover have "type_traits (correct_ctype (t @ '' *'') ?c) = (Some (t @ '' *''), ?c)"
    unfolding correct_ctype_spelled using traits_spelled [OF assms(1) _ _ space space, of "[]" "''ns3::''" False ?c] by simp
  moreover have "correct_ctype (t @ '' *'') ?c = ''ns3::Ptr< '' @ t @ (if ?c then '' const >'' else '' >'')"
    by (simp add: correct_ctype_def)
  ultimately show ?thesis using assms(6) by (cases cls) (auto simp: create_type_handler_def)
qed

theorem handler_of_spellings_witness:
  "\<exists>h. create_type_handler ParameterH ''::ns3::Ptr<const ::ns3::Node >'' = Inr h \<and>
     th_ctype h = ''ns3::Ptr< ns3::Node const >'' \<and> create_type_handler ParameterH ''ns3::Ptr< ns3::Node const >'' = Inr h"
proof -
  have "proper ''ns3::Node''" "list_all re_space '' ''" by code_simp+
  then show ?thesis
    using handler_of_spellings [of "''ns3::Node''" "''::''" "''::ns3::''" "[]" "'' ''" ParameterH True False]
    by (auto simp: spelled_def type_inside_def const_if_def)
qed

end
