(* ===== verification/Check_Style.thy ===== *)
theory Check_Style
  imports Py_Prelude
begin

text \<open>
  The style checker, \<open>utils/check-style.py\<close>: the unified-diff data model (\<open>PatchChunkLine\<close>,
  \<open>PatchChunk\<close>, \<open>Patch\<close>), its parser \<open>parse_patchset\<close> and printer \<open>write\<close>, the pass that
  takes trailing-blank changes out of a diff, the generated \<open>uncrustify\<close> configuration,
  and the drivers \<open>indent\<close>, \<open>indent_files\<close>, \<open>run_as_hg_hook\<close>, \<open>run_as_main\<close>.

  Objects that the code shares by reference are positions here: the lines that
  \<open>chunk.src()\<close> and \<open>chunk.dst()\<close> return are indices into the chunk, so that a context
  line is one object on both sides, and the parser's \<open>current_chunk\<close> is a pair of
  indices, which may be stale. The tools \<open>uncrustify\<close> and \<open>patch\<close>, and
  \<open>difflib.unified_diff\<close>, are parameters.
\<close>

section \<open>The patch objects\<close>

record patch_line =
  ltype :: nat
  ltext :: string

abbreviation SRC :: nat where "SRC \<equiv> 1"
abbreviation DST :: nat where "DST \<equiv> 2"
abbreviation BOTH :: nat where "BOTH \<equiv> 3"

definition new_line :: patch_line where
  "new_line = \<lparr>ltype = 0, ltext = []\<rparr>"

definition line_set_src :: "string \<Rightarrow> patch_line \<Rightarrow> patch_line" where
  "line_set_src line l = l\<lparr>ltype := SRC, ltext := line\<rparr>"

definition line_set_dst :: "string \<Rightarrow> patch_line \<Rightarrow> patch_line" where
  "line_set_dst line l = l\<lparr>ltype := DST, ltext := line\<rparr>"

definition line_set_both :: "string \<Rightarrow> patch_line \<Rightarrow> patch_line" where
  "line_set_both line l = l\<lparr>ltype := BOTH, ltext := line\<rparr>"

definition append_to_line :: "string \<Rightarrow> patch_line \<Rightarrow> patch_line" where
  "append_to_line s l = l\<lparr>ltext := ltext l @ s\<rparr>"

definition is_src :: "patch_line \<Rightarrow> bool" where
  "is_src l \<longleftrightarrow> ltype l = SRC \<or> ltype l = BOTH"

definition is_dst :: "patch_line \<Rightarrow> bool" where
  "is_dst l \<longleftrightarrow> ltype l = DST \<or> ltype l = BOTH"

definition line_write :: "patch_line \<Rightarrow> string pyres" where
  "line_write l =
     (if ltype l = SRC then Inr (CHR ''-'' # ltext l @ [newline])
      else if ltype l = DST then Inr (CHR ''+'' # ltext l @ [newline])
      else if ltype l = BOTH then Inr (CHR '' '' # ltext l @ [newline])
      else Inl PyException)"

record patch_chunk =
  clines :: "patch_line list"
  src_pos :: nat
  dst_pos :: nat

definition new_chunk :: "nat \<Rightarrow> nat \<Rightarrow> patch_chunk" where
  "new_chunk s d = \<lparr>clines = [], src_pos = s, dst_pos = d\<rparr>"

definition src_start :: "patch_chunk \<Rightarrow> nat" where
  "src_start c = src_pos c"

definition add_line :: "patch_line \<Rightarrow> patch_chunk \<Rightarrow> patch_chunk" where
  "add_line l c = c\<lparr>clines := clines c @ [l]\<rparr>"

definition chunk_src :: "patch_chunk \<Rightarrow> nat list" where
  "chunk_src c = filter (\<lambda>i. is_src (clines c ! i)) [0..<length (clines c)]"

definition chunk_dst :: "patch_chunk \<Rightarrow> nat list" where
  "chunk_dst c = filter (\<lambda>i. is_dst (clines c ! i)) [0..<length (clines c)]"

definition src_len :: "patch_chunk \<Rightarrow> nat" where
  "src_len c = length (chunk_src c)"

definition dst_len :: "patch_chunk \<Rightarrow> nat" where
  "dst_len c = length (chunk_dst c)"

definition chunk_header :: "nat \<Rightarrow> nat \<Rightarrow> nat \<Rightarrow> nat \<Rightarrow> string" where
  \<comment> \<open>\<open>'@@ -%d,%d +%d,%d @@\n'\<close>\<close>
  "chunk_header a b c d = ''@@ -'' @ to_base 10 a @ '','' @ to_base 10 b @ '' +'' @ to_base 10 c
     @ '','' @ to_base 10 d @ '' @@'' @ [newline]"

text \<open>A \<open>write\<close> method is the list of the strings it passes to \<open>f.write\<close>, one line each.\<close>

definition chunk_write :: "patch_chunk \<Rightarrow> string list pyres" where
  "chunk_write c =
     rbind (rmap line_write (clines c)) (\<lambda>ls.
       Inr (chunk_header (src_pos c) (src_len c) (dst_pos c) (dst_len c) # ls))"

record patch =
  psrc :: string
  pdst :: string
  pchunks :: "patch_chunk list"

definition new_patch :: patch where
  "new_patch = \<lparr>psrc = [], pdst = [], pchunks = []\<rparr>"

definition add_chunk :: "patch_chunk \<Rightarrow> patch \<Rightarrow> patch" where
  "add_chunk c p = p\<lparr>pchunks := pchunks p @ [c]\<rparr>"

definition patch_set_src :: "string \<Rightarrow> patch \<Rightarrow> patch" where
  "patch_set_src s p = p\<lparr>psrc := s\<rparr>"

definition patch_set_dst :: "string \<Rightarrow> patch \<Rightarrow> patch" where
  "patch_set_dst s p = p\<lparr>pdst := s\<rparr>"

definition patch_write :: "patch \<Rightarrow> string list pyres" where
  "patch_write p =
     rbind (rmap chunk_write (pchunks p)) (\<lambda>css.
       Inr ((''--- '' @ psrc p @ [newline]) # (''+++ '' @ pdst p @ [newline]) # concat css))"

section \<open>Parsing a unified diff\<close>

text \<open>
  \<open>(.*)$\<close>: the rest of the line, which may end in one newline that is not part of the group.
\<close>

definition re_rest :: "string \<Rightarrow> string option" where
  "re_rest s = (if dropWhile (\<lambda>c. c \<noteq> newline) s \<in> {[], [newline]}
                then Some (takeWhile (\<lambda>c. c \<noteq> newline) s) else None)"

definition eat :: "string \<Rightarrow> string \<Rightarrow> string option" where
  "eat p s = (if prefix p s then Some (drop (length p) s) else None)"

definition after :: "string \<Rightarrow> string \<Rightarrow> string option" where
  \<comment> \<open>\<open>^p(.*)$\<close>\<close>
  "after p s = Option.bind (eat p s) re_rest"

definition eat_num :: "string \<Rightarrow> (nat \<times> string) option" where
  \<comment> \<open>\<open>([0-9]+)\<close>\<close>
  "eat_num s = map_option (\<lambda>n. (n, dropWhile is_digit s)) (of_base 10 (takeWhile is_digit s))"

definition chunk_start :: "string \<Rightarrow> (nat \<times> nat) option" where
  \<comment> \<open>groups 1 and 3 of \<open>^@@ -([0-9]+),([0-9]+) \+([0-9]+),([0-9]+) @@\<close>\<close>
  "chunk_start s =
     Option.bind (eat ''@@ -'' s) (\<lambda>s. Option.bind (eat_num s) (\<lambda>(a, s).
     Option.bind (eat '','' s) (\<lambda>s. Option.bind (eat_num s) (\<lambda>(_, s).
     Option.bind (eat '' +'' s) (\<lambda>s. Option.bind (eat_num s) (\<lambda>(c, s).
     Option.bind (eat '','' s) (\<lambda>s. Option.bind (eat_num s) (\<lambda>(_, s).
     Option.bind (eat '' @@'' s) (\<lambda>_. Some (a, c))))))))))"

text \<open>
  The state of the loop of \<open>parse_patchset\<close>. \<open>cur_patch\<close> is \<open>None\<close> before the first header;
  \<open>cur_chunk\<close> is unbound (\<open>None\<close>) before the first chunk and then names a chunk by the
  positions of its patch and of itself: a new header does not reset it.
\<close>

record parse_state =
  patchset :: "patch list"
  cur_patch :: "nat option"
  cur_chunk :: "(nat \<times> nat) option"

definition parse_init :: parse_state where
  "parse_init = \<lparr>patchset = [], cur_patch = None, cur_chunk = None\<rparr>"

definition update_patch :: "(patch \<Rightarrow> patch) \<Rightarrow> parse_state \<Rightarrow> parse_state pyres" where
  \<comment> \<open>a method call on \<open>current_patch\<close>\<close>
  "update_patch f st =
     (case cur_patch st of
        None \<Rightarrow> Inl AttributeError
      | Some p \<Rightarrow> Inr (st\<lparr>patchset := (patchset st)[p := f (patchset st ! p)]\<rparr>))"

definition on_chunk :: "nat \<Rightarrow> (patch_chunk \<Rightarrow> patch_chunk) \<Rightarrow> patch \<Rightarrow> patch" where
  "on_chunk k f p = p\<lparr>pchunks := (pchunks p)[k := f (pchunks p ! k)]\<rparr>"

definition update_chunk :: "(patch_chunk \<Rightarrow> patch_chunk) \<Rightarrow> parse_state \<Rightarrow> parse_state pyres" where
  \<comment> \<open>a method call on \<open>current_chunk\<close>\<close>
  "update_chunk f st =
     (case cur_chunk st of
        None \<Rightarrow> Inl UnboundLocalError
      | Some (p, k) \<Rightarrow> Inr (st\<lparr>patchset := (patchset st)[p := on_chunk k f (patchset st ! p)]\<rparr>))"

definition start_patch :: "string \<Rightarrow> parse_state \<Rightarrow> parse_state" where
  "start_patch name st =
     st\<lparr>patchset := patchset st @ [patch_set_src name new_patch],
        cur_patch := Some (length (patchset st))\<rparr>"

definition start_chunk :: "nat \<Rightarrow> nat \<Rightarrow> parse_state \<Rightarrow> parse_state pyres" where
  "start_chunk a c st =
     (case cur_patch st of
        None \<Rightarrow> Inl AttributeError
      | Some p \<Rightarrow>
          rbind (update_patch (add_chunk (new_chunk a c)) st) (\<lambda>st'.
            Inr (st'\<lparr>cur_chunk := Some (p, length (pchunks (patchset st ! p)))\<rparr>)))"

definition parse_line :: "string \<Rightarrow> parse_state \<Rightarrow> parse_state pyres" where
  "parse_line line st =
     (case after ''--- '' line of Some name \<Rightarrow> Inr (start_patch name st) | None \<Rightarrow>
      case after ''+++ '' line of Some name \<Rightarrow> update_patch (patch_set_dst name) st | None \<Rightarrow>
      case chunk_start line of Some (a, c) \<Rightarrow> start_chunk a c st | None \<Rightarrow>
      case after ''-'' line of Some t \<Rightarrow> update_chunk (add_line (line_set_src t new_line)) st | None \<Rightarrow>
      case after ''+'' line of Some t \<Rightarrow> update_chunk (add_line (line_set_dst t new_line)) st | None \<Rightarrow>
      case after '' '' line of Some t \<Rightarrow> update_chunk (add_line (line_set_both t new_line)) st | None \<Rightarrow>
      Inl PyException)"

definition parse_patchset :: "string list \<Rightarrow> patch list pyres" where
  "parse_patchset lines = rbind (rfold parse_line lines parse_init) (\<lambda>st. Inr (patchset st))"

definition patchset_write :: "patch list \<Rightarrow> string list pyres" where
  \<comment> \<open>every patch written to one file\<close>
  "patchset_write ps = rbind (rmap patch_write ps) (\<lambda>ls. Inr (concat ls))"

section \<open>Undoing trailing-blank changes\<close>

definition ws_match :: "string \<Rightarrow> (string \<times> string) option" where
  \<comment> \<open>\<open>^(.*)([ \t]+)$\<close>: the first group is greedy, so the second one is a single blank\<close>
  "ws_match s = Option.bind (re_rest s) (\<lambda>t.
     if t \<noteq> [] \<and> last t \<in> {CHR '' '', tab} then Some (butlast t, [last t]) else None)"

fun ws_lines :: "nat list \<Rightarrow> nat list \<Rightarrow> patch_line list \<Rightarrow> patch_line list \<times> bool" where
  \<comment> \<open>the loop over \<open>src\<close> and \<open>dst\<close>; the second component is \<open>False\<close> after the \<open>IndexError\<close>
    of \<open>dst[i]\<close>, which the bare \<open>except\<close> turns into the end of the function\<close>
  "ws_lines [] dst ls = (ls, True)"
| "ws_lines (s # src) [] ls = (ls, False)"
| "ws_lines (s # src) (d # dst) ls =
     ws_lines src dst
       (case ws_match (ltext (ls ! s)) of
          None \<Rightarrow> ls
        | Some (g1, g2) \<Rightarrow>
            if g1 = ltext (ls ! d) then ls[d := append_to_line g2 (ls ! d)] else ls)"

definition ws_chunk :: "patch_chunk \<Rightarrow> patch_chunk \<times> bool" where
  "ws_chunk c = (let (ls, completed) = ws_lines (chunk_src c) (chunk_dst c) (clines c)
                 in (c\<lparr>clines := ls\<rparr>, completed))"

fun ws_chunks :: "patch_chunk list \<Rightarrow> patch_chunk list \<times> bool" where
  "ws_chunks [] = ([], True)"
| "ws_chunks (c # cs) =
     (let (c', completed) = ws_chunk c
      in if completed then (let (cs', completed') = ws_chunks cs in (c' # cs', completed'))
         else (c' # cs, False))"

fun ws_patches :: "patch list \<Rightarrow> patch list" where
  "ws_patches [] = []"
| "ws_patches (p # ps) =
     (let (cs, completed) = ws_chunks (pchunks p)
      in p\<lparr>pchunks := cs\<rparr> # (if completed then ws_patches ps else ps))"

definition remove_trailing_whitespace_changes :: "string list \<Rightarrow> patch list pyres" where
  "remove_trailing_whitespace_changes lines =
     rbind (parse_patchset lines) (\<lambda>ps. Inr (ws_patches ps))"

section \<open>The configuration file\<close>

definition config_level2 :: "string list" where
  "config_level2 =
    [''nl_collapse_empty_body=False'',
     ''nl_if_brace=Add'',
     ''nl_brace_else=Add'',
     ''nl_elseif_brace=Add'',
     ''nl_else_brace=Add'',
     ''nl_while_brace=Add'',
     ''nl_do_brace=Add'',
     ''nl_for_brace=Add'',
     ''nl_brace_while=Add'',
     ''nl_switch_brace=Add'',
     ''nl_after_case=True'',
     ''nl_namespace_brace=Remove'',
     ''nl_after_brace_open=True'',
     ''nl_class_leave_one_liners=False'',
     ''nl_enum_leave_one_liners=False'',
     ''nl_func_leave_one_liners=False'',
     ''nl_if_leave_one_liners=False'',
     ''nl_class_colon=Ignore'',
     ''nl_after_access_spec=1'',
     ''nl_after_semicolon=True'',
     ''pos_class_colon=Lead'',
     ''pos_class_comma=Trail'',
     ''pos_bool=Lead'',
     ''nl_class_init_args=Add'',
     ''nl_template_class=Add'',
     ''nl_class_brace=Add'',
     ''# does not work very well'',
     ''nl_func_type_name=Ignore'',
     ''nl_func_scope_name=Ignore'',
     ''nl_func_type_name_class=Ignore'',
     ''nl_func_proto_type_name=Ignore'',
     ''# function'' @ CHR 0x5C # ''n('',
     ''nl_func_paren=Remove'',
     ''nl_fdef_brace=Add'',
     ''nl_struct_brace=Add'',
     ''nl_enum_brace=Add'',
     ''nl_union_brace=Add'',
     ''mod_full_brace_do=Add'',
     ''mod_full_brace_for=Add'',
     ''mod_full_brace_if=Add'',
     ''mod_full_brace_while=Add'',
     ''mod_full_brace_for=Add'',
     ''mod_remove_extra_semicolon=True'',
     ''# max code width'',
     ''#code_width=128'',
     ''#ls_for_split_full=True'',
     ''#ls_func_split_full=True'']"

definition config_level1 :: "string list" where
  "config_level1 =
    [''# extra spaces here and there'',
     ''sp_brace_typedef=Add'',
     ''sp_enum_assign=Add'',
     ''sp_before_sparen=Add'',
     ''sp_after_semi_for=Add'',
     ''sp_arith=Add'',
     ''sp_assign=Add'',
     ''sp_compare=Add'',
     ''sp_func_class_paren=Add'',
     ''sp_after_type=Add'',
     ''sp_type_func=Add'',
     ''sp_angle_paren=Add'']"

definition config_level0 :: "string list" where
  "config_level0 =
    [''sp_func_proto_paren=Add'',
     ''sp_func_def_paren=Add'',
     ''sp_func_call_paren=Add'',
     ''sp_after_semi_for=Ignore'',
     ''sp_before_sparen=Ignore'',
     ''sp_type_func=Ignore'',
     ''sp_after_type=Ignore'',
     ''nl_class_leave_one_liners=True'',
     ''nl_enum_leave_one_liners=True'',
     ''nl_func_leave_one_liners=True'',
     ''nl_assign_leave_one_liners=True'',
     ''#nl_collapse_empty_body=False'',
     ''nl_getset_leave_one_liners=True'',
     ''nl_if_leave_one_liners=True'',
     ''nl_fdef_brace=Ignore'',
     ''# finally, indentation configuration'',
     ''indent_with_tabs=0'',
     ''indent_namespace=false'',
     ''indent_columns=2'',
     ''indent_brace=2'',
     ''indent_case_brace=2'',
     ''indent_class=true'',
     ''indent_class_colon=True'',
     ''# alignment'',
     ''indent_align_assign=False'',
     ''align_left_shift=True'',
     ''# comment reformating disabled'',
     ''cmt_reflow_mode=1 # do not touch comments at all'',
     ''cmt_indent_multi=False # really, do not touch them'']"

definition config_text :: "string list \<Rightarrow> string" where
  \<comment> \<open>a triple-quoted string that starts with a line break\<close>
  "config_text ls = newline # concat (map (\<lambda>l. l @ [newline]) ls)"

definition uncrustify_config_file :: "int \<Rightarrow> string" where
  \<comment> \<open>the text of the file\<close>
  "uncrustify_config_file level =
     config_text config_level0
     @ (if level \<ge> 1 then config_text config_level1 else [])
     @ (if level \<ge> 2 then config_text config_level2 else [])"

section \<open>Indenting files\<close>

text \<open>
  The programs and the library function that the code calls. \<open>uncrustify\<close> gets the
  configuration and the source file, if it exists, and leaves its output file;
  \<open>patch_tool\<close> gets a diff and a file and leaves the patched file; \<open>None\<close> means that the
  program cannot be started. \<open>unified_diff\<close> gets the lines and the names of two files.
\<close>

record tools =
  uncrustify :: "string \<Rightarrow> string option \<Rightarrow> string option"
  unified_diff :: "string list \<Rightarrow> string list \<Rightarrow> string \<Rightarrow> string \<Rightarrow> string list"
  patch_tool :: "string \<Rightarrow> string \<Rightarrow> string option"
  temp_name :: string

type_synonym files = "string \<Rightarrow> string option"

fun readlines :: "string \<Rightarrow> string list" where
  "readlines [] = []"
| "readlines (c # s) =
     (if c = newline then [c] # readlines s
      else case readlines s of [] \<Rightarrow> [[c]] | l # ls \<Rightarrow> (c # l) # ls)"

definition indent :: "tools \<Rightarrow> files \<Rightarrow> bool \<Rightarrow> int \<Rightarrow> string \<Rightarrow> string pyres" where
  \<comment> \<open>the content of the file whose name \<open>indent\<close> returns; with \<open>debug\<close>, \<open>sys.stderr.write\<close>
    gets the \<open>bytes\<close> of a pipe\<close>
  "indent t fs debug level source =
     (case uncrustify t (uncrustify_config_file level) (fs source) of
        None \<Rightarrow> Inl PyException
      | Some output \<Rightarrow>
          if debug then Inl TypeError
          else case fs source of
            None \<Rightarrow> Inl OSError
          | Some text \<Rightarrow>
              let diff = unified_diff t (readlines text) (readlines output) source (temp_name t)
              in rbind (if level < 3
                        then rbind (remove_trailing_whitespace_changes diff) (\<lambda>ps.
                               case ps of [] \<Rightarrow> Inr [] | p # _ \<Rightarrow> patch_write p)
                        else Inr diff) (\<lambda>final_diff.
                   case patch_tool t (concat final_diff) text of
                     None \<Rightarrow> Inl OSError
                   | Some result \<Rightarrow> Inr result))"

definition indent_files :: "tools \<Rightarrow> files \<Rightarrow> string list \<Rightarrow> bool \<Rightarrow> bool \<Rightarrow> int \<Rightarrow> bool
    \<Rightarrow> (bool \<times> string list \<times> files) pyres" where
  \<comment> \<open>the result, the printed lines and the files; \<open>filecmp.cmp\<close> compares the contents\<close>
  "indent_files t fs names diff debug level inplace =
     rbind (rmap (\<lambda>f. rbind (indent t fs debug level f) (\<lambda>dst. Inr (f, dst))) names) (\<lambda>output.
       if inplace then Inr (True, [], fold (\<lambda>(src, dst) fs. fs(src \<mapsto> dst)) output fs)
       else
         let failed = filter (\<lambda>(src, dst). fs src \<noteq> Some dst) output
         in if length failed > 0 then
              Inr (False,
                   (if \<not> diff
                    then (''Found '' @ to_base 10 (length failed) @ '' badly indented files:'')
                         # map (\<lambda>(src, dst). ''  '' @ src) failed
                    else concat (map (\<lambda>(src, dst). unified_diff t
                           (readlines (case fs src of None \<Rightarrow> [] | Some x \<Rightarrow> x)) (readlines dst)
                           src (temp_name t)) failed)),
                   fs)
            else Inr (True, [], fs))"

definition hg_modified_files :: "string list \<Rightarrow> string list" where
  \<comment> \<open>from the lines that \<open>hg st -nma\<close> prints\<close>
  "hg_modified_files lines = map py_strip lines"

definition run_as_hg_hook :: "tools \<Rightarrow> files \<Rightarrow> string list \<Rightarrow> (bool \<times> string list \<times> files) pyres" where
  "run_as_hg_hook t fs hg =
     rbind (indent_files t fs (hg_modified_files hg) False False 0 False) (\<lambda>(ok, out, fs').
       Inr (\<not> ok, out, fs'))"

record style_options =
  opt_debug :: bool
  opt_level :: int
  opt_hg_hook :: bool
  opt_hg :: bool
  opt_file :: string
  opt_diff :: bool
  opt_in_place :: bool

definition run_as_main :: "tools \<Rightarrow> files \<Rightarrow> string list \<Rightarrow> style_options
    \<Rightarrow> (int \<times> string list \<times> files) pyres" where
  \<comment> \<open>the exit status, the printed lines and the files\<close>
  "run_as_main t fs hg opts =
     (if opt_hg_hook opts then
        rbind (indent_files t fs (hg_modified_files hg) False (opt_debug opts) (opt_level opts) False)
          (\<lambda>(ok, out, fs'). Inr (if ok then 0 else 1, out, fs'))
      else if opt_hg opts then
        rbind (indent_files t fs (hg_modified_files hg) (opt_diff opts) (opt_debug opts)
                 (opt_level opts) (opt_in_place opts))
          (\<lambda>(ok, out, fs'). Inr (0, out, fs'))
      else if opt_file opts \<noteq> [] then
        (if fs (opt_file opts) = None
         then Inr (1, [''file '' @ opt_file opts @ '' does not exist''], fs)
         else rbind (indent_files t fs [opt_file opts] (opt_diff opts) (opt_debug opts)
                       (opt_level opts) (opt_in_place opts))
                (\<lambda>(ok, out, fs'). Inr (0, out, fs')))
      else Inr (0, [], fs))"

section \<open>Printing and parsing\<close>

subsection \<open>The regular expressions on printed lines\<close>

lemma re_rest_line [simp]: "newline \<notin> set t \<Longrightarrow> re_rest (t @ [newline]) = Some t"
proof -
  assume "newline \<notin> set t"
  then have "\<And>x. x \<in> set t \<Longrightarrow> x \<noteq> newline" by auto
  then show ?thesis by (simp add: re_rest_def takeWhile_append2 dropWhile_append2)
qed

lemma re_rest_Some:
  "re_rest s = Some t \<longleftrightarrow> newline \<notin> set t \<and> (s = t \<or> s = t @ [newline])"
proof
  assume "re_rest s = Some t"
  then have t: "t = takeWhile (\<lambda>c. c \<noteq> newline) s" and
      d: "dropWhile (\<lambda>c. c \<noteq> newline) s = [] \<or> dropWhile (\<lambda>c. c \<noteq> newline) s = [newline]"
    by (auto simp: re_rest_def split: if_splits)
  have "newline \<notin> set t" unfolding t by (auto dest: set_takeWhileD)
  moreover have "s = t @ dropWhile (\<lambda>c. c \<noteq> newline) s" unfolding t by simp
  ultimately show "newline \<notin> set t \<and> (s = t \<or> s = t @ [newline])" using d by (metis append_Nil2)
next
  assume "newline \<notin> set t \<and> (s = t \<or> s = t @ [newline])"
  then have t: "newline \<notin> set t" "s = t \<or> s = t @ [newline]" by auto
  have "dropWhile (\<lambda>c. c \<noteq> newline) t = []" "takeWhile (\<lambda>c. c \<noteq> newline) t = t"
    using t(1) by (auto simp: takeWhile_eq_all_conv)
  then have "re_rest t = Some t" by (simp add: re_rest_def)
  with t show "re_rest s = Some t" by auto
qed

lemma eat_append [simp]: "eat p (p @ s) = Some s"
  by (simp add: eat_def)

lemma eat_Cons [simp]:
  "eat (c # p) (d # s) = (if c = d then eat p s else None)"
  "eat [] s = Some s"
  "eat (c # p) [] = None"
  by (simp_all add: eat_def)

lemma eat_num_print [simp]:
  assumes "s = [] \<or> \<not> is_digit (hd s)"
  shows "eat_num (to_base 10 n @ s) = Some (n, s)"
proof -
  have d: "\<And>c. c \<in> set (to_base 10 n) \<Longrightarrow> is_digit c" by (rule to_base_10_digits)
  have "takeWhile is_digit s = []" "dropWhile is_digit s = s"
    using assms by (cases s; simp)+
  then have "takeWhile is_digit (to_base 10 n @ s) = to_base 10 n"
    "dropWhile is_digit (to_base 10 n @ s) = s"
    using d by (simp_all add: takeWhile_append2 dropWhile_append2)
  then show ?thesis by (simp add: eat_num_def of_base_to_base)
qed

lemma chunk_start_header: "chunk_start (chunk_header a b c d) = Some (a, c)"
  by (simp add: chunk_start_def chunk_header_def is_digit_def)

lemma after_header [simp]:
  "after ''--- '' (chunk_header a b c d) = None"
  "after ''+++ '' (chunk_header a b c d) = None"
  by (simp_all add: after_def chunk_header_def)

lemma chunk_start_other: "s = [] \<or> hd s \<noteq> CHR ''@'' \<Longrightarrow> chunk_start s = None"
  by (cases s) (auto simp: chunk_start_def)

subsection \<open>Printable patches\<close>

definition line_ok :: "patch_line \<Rightarrow> bool" where
  \<comment> \<open>a line that does not read back as a file header\<close>
  "line_ok l \<longleftrightarrow> ltype l \<in> {SRC, DST, BOTH} \<and> newline \<notin> set (ltext l) \<and>
     (ltype l = SRC \<longrightarrow> \<not> prefix ''-- '' (ltext l)) \<and>
     (ltype l = DST \<longrightarrow> \<not> prefix ''++ '' (ltext l))"

definition chunk_ok :: "patch_chunk \<Rightarrow> bool" where
  "chunk_ok c \<longleftrightarrow> list_all line_ok (clines c)"

definition patch_ok :: "patch \<Rightarrow> bool" where
  "patch_ok p \<longleftrightarrow> newline \<notin> set (psrc p) \<and> newline \<notin> set (pdst p) \<and> list_all chunk_ok (pchunks p)"

definition line_text :: "patch_line \<Rightarrow> string" where
  "line_text l = (if ltype l = SRC then CHR ''-'' else if ltype l = DST then CHR ''+'' else CHR '' '')
     # ltext l @ [newline]"

definition chunk_text :: "patch_chunk \<Rightarrow> string list" where
  "chunk_text c = chunk_header (src_pos c) (src_len c) (dst_pos c) (dst_len c)
     # map line_text (clines c)"

definition patch_text :: "patch \<Rightarrow> string list" where
  "patch_text p = (''--- '' @ psrc p @ [newline]) # (''+++ '' @ pdst p @ [newline])
     # concat (map chunk_text (pchunks p))"

lemma line_write_text: "line_ok l \<Longrightarrow> line_write l = Inr (line_text l)"
  by (auto simp: line_ok_def line_write_def line_text_def)

lemma chunk_write_text: "chunk_ok c \<Longrightarrow> chunk_write c = Inr (chunk_text c)"
  using rmap_total [of "clines c" line_write line_text]
  by (simp add: chunk_ok_def chunk_write_def chunk_text_def list_all_iff line_write_text)

lemma patch_write_text: "patch_ok p \<Longrightarrow> patch_write p = Inr (patch_text p)"
  using rmap_total [of "pchunks p" chunk_write chunk_text]
  by (simp add: patch_ok_def patch_write_def patch_text_def list_all_iff chunk_write_text)

lemma patchset_write_text:
  "list_all patch_ok ps \<Longrightarrow> patchset_write ps = Inr (concat (map patch_text ps))"
  using rmap_total [of ps patch_write patch_text]
  by (simp add: patchset_write_def list_all_iff patch_write_text)

subsection \<open>Reading back lines, chunks and patches\<close>

definition put_line :: "patch_line \<Rightarrow> parse_state \<Rightarrow> parse_state" where
  "put_line l st = (case cur_chunk st of None \<Rightarrow> st | Some (p, k) \<Rightarrow>
     st\<lparr>patchset := (patchset st)[p := on_chunk k (add_line l) (patchset st ! p)]\<rparr>)"

definition has_chunk :: "parse_state \<Rightarrow> bool" where
  "has_chunk st \<longleftrightarrow> (\<exists>p k. cur_chunk st = Some (p, k) \<and> p < length (patchset st) \<and>
     k < length (pchunks (patchset st ! p)))"

definition put_chunk :: "patch_chunk \<Rightarrow> parse_state \<Rightarrow> parse_state" where
  "put_chunk c st = (case cur_patch st of None \<Rightarrow> st | Some p \<Rightarrow>
     st\<lparr>patchset := (patchset st)[p := add_chunk c (patchset st ! p)],
        cur_chunk := Some (p, length (pchunks (patchset st ! p)))\<rparr>)"

definition has_patch :: "parse_state \<Rightarrow> bool" where
  "has_patch st \<longleftrightarrow> (\<exists>p. cur_patch st = Some p \<and> p < length (patchset st))"

definition put_patch :: "patch \<Rightarrow> parse_state \<Rightarrow> parse_state" where
  "put_patch p st =
     st\<lparr>patchset := patchset st @ [p], cur_patch := Some (length (patchset st)),
        cur_chunk := (if pchunks p = [] then cur_chunk st
                      else Some (length (patchset st), length (pchunks p) - 1))\<rparr>"

lemma parse_line_text:
  assumes "line_ok l"
  shows "parse_line (line_text l) st = update_chunk (add_line l) st"
proof -
  let ?t = "ltext l"
  have nl: "newline \<notin> set ?t" and ty: "ltype l = SRC \<or> ltype l = DST \<or> ltype l = BOTH"
    and amb: "ltype l = SRC \<longrightarrow> eat ''-- '' (?t @ [newline]) = None"
             "ltype l = DST \<longrightarrow> eat ''++ '' (?t @ [newline]) = None"
    using assms by (auto simp: line_ok_def eat_def prefix_append prefix_Cons)
  have cs: "chunk_start (line_text l) = None"
    by (rule chunk_start_other) (simp add: line_text_def)
  from ty show ?thesis
  proof (elim disjE)
    assume "ltype l = SRC"
    moreover from this have "line_set_src ?t new_line = l" by (simp add: line_set_src_def new_line_def)
    ultimately show ?thesis using nl amb cs
      by (simp add: parse_line_def line_text_def after_def)
  next
    assume "ltype l = DST"
    moreover from this have "line_set_dst ?t new_line = l" by (simp add: line_set_dst_def new_line_def)
    ultimately show ?thesis using nl amb cs
      by (simp add: parse_line_def line_text_def after_def)
  next
    assume "ltype l = BOTH"
    moreover from this have "line_set_both ?t new_line = l" by (simp add: line_set_both_def new_line_def)
    ultimately show ?thesis using nl amb cs
      by (simp add: parse_line_def line_text_def after_def)
  qed
qed

interpretation line_codec: stream_codec "\<lambda>l. [line_text l]" parse_line put_line line_ok has_chunk
proof
  fix l st assume "line_ok l" "has_chunk st"
  then obtain p k where pk: "cur_chunk st = Some (p, k)" "p < length (patchset st)"
    "k < length (pchunks (patchset st ! p))"
    by (auto simp: has_chunk_def)
  with \<open>line_ok l\<close> show "rfold parse_line [line_text l] st = Inr (put_line l st)"
    by (simp add: parse_line_text update_chunk_def put_line_def)
  from pk show "has_chunk (put_line l st)"
    by (simp add: has_chunk_def put_line_def on_chunk_def)
qed

lemma put_lines:
  assumes "cur_chunk st = Some (p, k)" "p < length (patchset st)" "k < length (pchunks (patchset st ! p))"
  shows "fold put_line ls st =
    st\<lparr>patchset := (patchset st)[p := on_chunk k (\<lambda>c. c\<lparr>clines := clines c @ ls\<rparr>) (patchset st ! p)]\<rparr>"
  using assms
proof (induction ls arbitrary: st)
  case Nil
  then show ?case by (simp add: on_chunk_def)
next
  case (Cons l ls)
  have "fold put_line (l # ls) st = fold put_line ls (put_line l st)" by simp
  also have "\<dots> = st\<lparr>patchset :=
      (patchset st)[p := on_chunk k (\<lambda>c. c\<lparr>clines := clines c @ (l # ls)\<rparr>) (patchset st ! p)]\<rparr>"
    using Cons.prems
    by (subst Cons.IH) (simp_all add: put_line_def on_chunk_def add_line_def)
  finally show ?case .
qed

lemma chunk_eta: "\<lparr>clines = clines c, src_pos = src_pos c, dst_pos = dst_pos c\<rparr> = (c :: patch_chunk)"
  by simp

interpretation chunk_codec: stream_codec chunk_text parse_line put_chunk chunk_ok has_patch
proof
  fix c :: patch_chunk and st :: parse_state
  assume ok: "chunk_ok c" and "has_patch st"
  then obtain p where p: "cur_patch st = Some p" "p < length (patchset st)"
    by (auto simp: has_patch_def)
  let ?P = "patchset st ! p" and ?k = "length (pchunks (patchset st ! p))"
  let ?st = "st\<lparr>patchset := (patchset st)[p := add_chunk (new_chunk (src_pos c) (dst_pos c)) ?P],
    cur_chunk := Some (p, ?k)\<rparr>"
  have "parse_line (chunk_header (src_pos c) (src_len c) (dst_pos c) (dst_len c)) st = Inr ?st"
    using p by (simp add: parse_line_def chunk_start_header start_chunk_def update_patch_def)
  moreover have hc: "cur_chunk ?st = Some (p, ?k)" "p < length (patchset ?st)"
    "?k < length (pchunks (patchset ?st ! p))"
    using p by (simp_all add: add_chunk_def)
  then have "has_chunk ?st" unfolding has_chunk_def by blast
  then have "rfold parse_line (concat (map (\<lambda>l. [line_text l]) (clines c))) ?st
      = Inr (fold put_line (clines c) ?st)"
    using ok by (intro line_codec.read_all) (simp_all add: chunk_ok_def)
  moreover have "fold put_line (clines c) ?st = put_chunk c st"
    unfolding put_lines [OF hc] using p
    by (simp add: put_chunk_def on_chunk_def add_chunk_def new_chunk_def chunk_eta)
  ultimately show "rfold parse_line (chunk_text c) st = Inr (put_chunk c st)"
    by (simp add: chunk_text_def concat_map_singleton)
  from p show "has_patch (put_chunk c st)"
    by (simp add: has_patch_def put_chunk_def)
qed

lemma put_chunks:
  assumes "cur_patch st = Some p" "p < length (patchset st)"
  shows "fold put_chunk cs st =
    (if cs = [] then st else
     st\<lparr>patchset := (patchset st)[p := (patchset st ! p)\<lparr>pchunks := pchunks (patchset st ! p) @ cs\<rparr>],
        cur_chunk := Some (p, length (pchunks (patchset st ! p) @ cs) - 1)\<rparr>)"
  using assms
proof (induction cs arbitrary: st)
  case Nil
  then show ?case by simp
next
  case (Cons c cs)
  have "fold put_chunk (c # cs) st = fold put_chunk cs (put_chunk c st)" by simp
  also have "\<dots> = st\<lparr>patchset := (patchset st)[p := (patchset st ! p)
        \<lparr>pchunks := pchunks (patchset st ! p) @ c # cs\<rparr>],
      cur_chunk := Some (p, length (pchunks (patchset st ! p) @ c # cs) - 1)\<rparr>"
    using Cons.prems
    by (subst Cons.IH) (simp_all add: put_chunk_def add_chunk_def)
  finally show ?case by simp
qed

interpretation patch_codec: stream_codec patch_text parse_line put_patch patch_ok "\<lambda>_. True"
proof
  fix P :: patch and st :: parse_state
  assume ok: "patch_ok P"
  let ?st = "st\<lparr>patchset := patchset st @ [\<lparr>psrc = psrc P, pdst = pdst P, pchunks = []\<rparr>],
    cur_patch := Some (length (patchset st))\<rparr>"
  have heads: "rfold parse_line [''--- '' @ psrc P @ [newline], ''+++ '' @ pdst P @ [newline]] st = Inr ?st"
    using ok by (simp add: patch_ok_def parse_line_def after_def start_patch_def update_patch_def
        patch_set_src_def patch_set_dst_def new_patch_def)
  have "has_patch ?st" by (simp add: has_patch_def)
  then have body: "rfold parse_line (concat (map chunk_text (pchunks P))) ?st = Inr (fold put_chunk (pchunks P) ?st)"
    using ok by (intro chunk_codec.read_all) (simp_all add: patch_ok_def)
  have "fold put_chunk (pchunks P) ?st = put_patch P st"
    by (subst put_chunks) (auto simp: put_patch_def)
  moreover have "patch_text P = [''--- '' @ psrc P @ [newline], ''+++ '' @ pdst P @ [newline]]
      @ concat (map chunk_text (pchunks P))"
    by (simp add: patch_text_def)
  ultimately show "rfold parse_line (patch_text P) st = Inr (put_patch P st)"
    using heads body by (simp only: rfold_append rbind_simps)
qed simp

lemma patchset_put_patches: "patchset (fold put_patch ps st) = patchset st @ ps"
  by (induction ps arbitrary: st) (simp_all add: put_patch_def)

lemma parse_patch_texts:
  "list_all patch_ok ps \<Longrightarrow> parse_patchset (concat (map patch_text ps)) = Inr ps"
  by (simp add: parse_patchset_def patch_codec.read_all patchset_put_patches parse_init_def)

section \<open>What the parser accepts\<close>

definition parse_ok :: "parse_state \<Rightarrow> bool" where
  "parse_ok st \<longleftrightarrow> list_all patch_ok (patchset st) \<and>
     (\<forall>p. cur_patch st = Some p \<longrightarrow> p < length (patchset st)) \<and>
     (\<forall>p k. cur_chunk st = Some (p, k) \<longrightarrow>
        p < length (patchset st) \<and> k < length (pchunks (patchset st ! p)))"

lemma after_no_newline: "after p s = Some t \<Longrightarrow> newline \<notin> set t"
  by (auto simp: after_def re_rest_Some split: Option.bind_splits)

lemma after_line:
  "after [c] line = Some t \<longleftrightarrow> newline \<notin> set t \<and> (line = c # t \<or> line = c # t @ [newline])"
  by (auto simp: after_def eat_def re_rest_Some prefix_def bind_eq_Some_conv)

lemma after_None_prefix:
  assumes "after p line = None" and "line = q @ t \<or> line = q @ t @ [newline]" and "newline \<notin> set t"
    and "p = q @ r"
  shows "\<not> prefix r t"
proof
  assume "prefix r t"
  then obtain u where t: "t = r @ u" by (auto simp: prefix_def)
  with assms(3) have "re_rest u = Some u \<and> re_rest (u @ [newline]) = Some u"
    by (simp add: re_rest_Some)
  with assms(1,2,4) t show False by (auto simp: after_def eat_def)
qed

lemma update_chunk_ok:
  assumes "parse_ok st" and "line_ok l" and "update_chunk (add_line l) st = Inr st'"
  shows "parse_ok st'"
proof -
  obtain p k where pk: "cur_chunk st = Some (p, k)" "p < length (patchset st)"
    "k < length (pchunks (patchset st ! p))"
    and st': "st' = st\<lparr>patchset := (patchset st)[p := on_chunk k (add_line l) (patchset st ! p)]\<rparr>"
    using assms(1,3) by (auto simp: update_chunk_def parse_ok_def split: option.splits)
  have "patch_ok (patchset st ! p)" using assms(1) pk(2) by (simp add: parse_ok_def list_all_length)
  moreover from this have "chunk_ok (pchunks (patchset st ! p) ! k)"
    using pk(3) by (simp add: patch_ok_def list_all_length)
  ultimately have "patch_ok (on_chunk k (add_line l) (patchset st ! p))"
    using assms(2) by (auto simp: patch_ok_def on_chunk_def chunk_ok_def add_line_def
        intro!: list_all_update)
  moreover have "length (pchunks (on_chunk k (add_line l) q)) = length (pchunks q)" for q
    by (simp add: on_chunk_def)
  ultimately show ?thesis
    using assms(1) unfolding parse_ok_def st'
    by (auto simp: list_all_update nth_update_if)
qed

lemma update_patch_ok:
  assumes "parse_ok st" and "update_patch (patch_set_dst name) st = Inr st'" and "newline \<notin> set name"
  shows "parse_ok st'"
proof -
  obtain p where p: "p < length (patchset st)"
    and st': "st' = st\<lparr>patchset := (patchset st)[p := patch_set_dst name (patchset st ! p)]\<rparr>"
    using assms(1,2) by (auto simp: update_patch_def parse_ok_def split: option.splits)
  have "patch_ok (patch_set_dst name (patchset st ! p))"
    using assms(1,3) p by (auto simp: parse_ok_def list_all_length patch_ok_def patch_set_dst_def)
  moreover have "pchunks (patch_set_dst name q) = pchunks q" for q
    by (simp add: patch_set_dst_def)
  ultimately show ?thesis
    using assms(1) unfolding parse_ok_def st' by (auto simp: list_all_update nth_update_if)
qed

lemma start_chunk_ok:
  assumes "parse_ok st" and "start_chunk a c st = Inr st'"
  shows "parse_ok st'"
proof -
  obtain p where p: "cur_patch st = Some p" "p < length (patchset st)"
    and st': "st' = st\<lparr>patchset := (patchset st)[p := add_chunk (new_chunk a c) (patchset st ! p)],
        cur_chunk := Some (p, length (pchunks (patchset st ! p)))\<rparr>"
    using assms by (auto simp: start_chunk_def update_patch_def parse_ok_def split: option.splits)
  have "patch_ok (add_chunk (new_chunk a c) (patchset st ! p))"
    using assms(1) p(2)
    by (auto simp: parse_ok_def list_all_length patch_ok_def add_chunk_def new_chunk_def chunk_ok_def
        nth_append)
  then show ?thesis
    using assms(1) p unfolding parse_ok_def st'
    by (auto simp: list_all_update nth_update_if add_chunk_def)
qed

lemma start_patch_ok: "parse_ok st \<Longrightarrow> newline \<notin> set name \<Longrightarrow> parse_ok (start_patch name st)"
  by (auto simp: parse_ok_def start_patch_def patch_ok_def patch_set_src_def new_patch_def nth_append
      split: if_splits)

lemma parse_line_ok:
  assumes "parse_ok st" and "parse_line line st = Inr st'"
  shows "parse_ok st'"
proof (cases "after ''--- '' line")
  case (Some name)
  with assms show ?thesis using after_no_newline start_patch_ok by (auto simp: parse_line_def)
next
  case src: None
  show ?thesis
  proof (cases "after ''+++ '' line")
    case (Some name)
    with assms src show ?thesis using after_no_newline update_patch_ok by (auto simp: parse_line_def)
  next
    case dst: None
    show ?thesis
    proof (cases "chunk_start line")
      case (Some ac)
      with assms src dst show ?thesis by (cases ac, auto simp: parse_line_def intro: start_chunk_ok)
    next
      case None
      with assms(2) src dst consider
          t where "after ''-'' line = Some t" "update_chunk (add_line (line_set_src t new_line)) st = Inr st'"
        | t where "after ''+'' line = Some t" "update_chunk (add_line (line_set_dst t new_line)) st = Inr st'"
        | t where "after '' '' line = Some t" "update_chunk (add_line (line_set_both t new_line)) st = Inr st'"
        by (auto simp: parse_line_def split: option.splits)
      then show ?thesis
      proof cases
        case 1
        then have "line_ok (line_set_src t new_line)"
          using after_None_prefix [OF src, of "''-''" t "''-- ''"]
          by (auto simp: after_line line_ok_def line_set_src_def)
        then show ?thesis using 1(2) update_chunk_ok assms(1) by blast
      next
        case 2
        then have "line_ok (line_set_dst t new_line)"
          using after_None_prefix [OF dst, of "''+''" t "''++ ''"]
          by (auto simp: after_line line_ok_def line_set_dst_def)
        then show ?thesis using 2(2) update_chunk_ok assms(1) by blast
      next
        case 3
        then have "line_ok (line_set_both t new_line)"
          by (auto simp: after_line line_ok_def line_set_both_def)
        then show ?thesis using 3(2) update_chunk_ok assms(1) by blast
      qed
    qed
  qed
qed

lemma parse_patchset_ok:
  assumes "parse_patchset lines = Inr ps"
  shows "list_all patch_ok ps"
proof -
  obtain st where st: "rfold parse_line lines parse_init = Inr st" "ps = patchset st"
    using assms by (auto simp: parse_patchset_def rbind_Inr_iff)
  have "parse_ok parse_init" by (simp add: parse_ok_def parse_init_def)
  then have "parse_ok st"
    using rfold_invariant [OF st(1), of parse_ok] parse_line_ok by blast
  with st(2) show ?thesis by (simp add: parse_ok_def)
qed

section \<open>The trailing-blank pass\<close>

lemma ws_match_Some:
  assumes "ws_match s = Some (g1, g2)"
  shows "\<exists>b \<in> {CHR '' '', tab}. g2 = [b] \<and> (s = g1 @ [b] \<or> s = g1 @ [b, newline])"
proof -
  obtain t where t: "re_rest s = Some t" "t \<noteq> []" "last t \<in> {CHR '' '', tab}" "g1 = butlast t" "g2 = [last t]"
    using assms by (auto simp: ws_match_def bind_eq_Some_conv split: if_splits)
  define b where "b = last t"
  have tb: "t = g1 @ [b]" using t(2,4) by (simp add: b_def)
  have "s = t \<or> s = t @ [newline]" using t(1) by (simp add: re_rest_Some)
  then have "s = g1 @ [b] \<or> s = g1 @ [b, newline]" unfolding tb by simp
  moreover have "b \<in> {CHR '' '', tab}" "g2 = [b]" using t(3,5) by (simp_all only: b_def)
  ultimately show ?thesis by blast
qed

lemma ws_match_line:
  assumes "newline \<notin> set s"
  shows "ws_match s = Some (g1, g2) \<longleftrightarrow> (\<exists>b \<in> {CHR '' '', tab}. g2 = [b] \<and> s = g1 @ [b])"
proof -
  have "re_rest s = Some s" using assms by (simp add: re_rest_Some)
  moreover have "s \<noteq> [] \<and> last s = b \<and> butlast s = g1 \<longleftrightarrow> s = g1 @ [b]" for b
    by (metis append_butlast_last_id butlast_snoc last_snoc snoc_eq_iff_butlast)
  ultimately show ?thesis by (auto simp: ws_match_def)
qed

text \<open>One line before and after the pass: at most one blank more at the end.\<close>

definition blank_added :: "patch_line \<Rightarrow> patch_line \<Rightarrow> bool" where
  "blank_added l l' \<longleftrightarrow> ltype l' = ltype l \<and>
     ltext l' \<in> {ltext l, ltext l @ '' '', ltext l @ [tab]} \<and> (\<not> is_dst l \<longrightarrow> ltext l' = ltext l)"

lemma ws_lines_length: "length (fst (ws_lines src dst ls)) = length ls"
  by (induction src dst ls rule: ws_lines.induct) (auto split: option.splits)

lemma ws_lines_frame: "j \<notin> set dst \<Longrightarrow> fst (ws_lines src dst ls) ! j = ls ! j"
  by (induction src dst ls rule: ws_lines.induct) (auto split: option.splits)

definition ws_update :: "nat \<Rightarrow> nat \<Rightarrow> patch_line list \<Rightarrow> patch_line list" where
  \<comment> \<open>one iteration of the loop\<close>
  "ws_update s d ls = (case ws_match (ltext (ls ! s)) of
          None \<Rightarrow> ls
        | Some (g1, g2) \<Rightarrow>
            if g1 = ltext (ls ! d) then ls[d := append_to_line g2 (ls ! d)] else ls)"

lemma ws_lines_step: "ws_lines (s # src) (d # dst) ls = ws_lines src dst (ws_update s d ls)"
  by (simp add: ws_update_def)

lemma ws_update_props:
  "length (ws_update s d ls) = length ls" "j \<noteq> d \<Longrightarrow> ws_update s d ls ! j = ls ! j"
  by (auto simp: ws_update_def split: option.split)

lemma ws_update_newline:
  "\<forall>i < length ls. newline \<notin> set (ltext (ls ! i)) \<Longrightarrow>
   i < length ls \<Longrightarrow> newline \<notin> set (ltext (ws_update s d ls ! i))"
  by (auto simp: ws_update_def append_to_line_def nth_update_if dest!: ws_match_Some split: option.split)

lemma ws_update_blank:
  assumes "is_dst (ls ! d)"
  shows "blank_added (ls ! d) (ws_update s d ls ! d)"
proof (cases "ws_update s d ls = ls")
  case True
  then show ?thesis by (simp add: blank_added_def)
next
  case False
  then obtain g1 g2 where m: "ws_match (ltext (ls ! s)) = Some (g1, g2)"
    and u: "ws_update s d ls = ls[d := append_to_line g2 (ls ! d)]"
    by (auto simp: ws_update_def split: option.splits if_splits)
  from m have "g2 \<in> {'' '', [tab]}" by (auto dest: ws_match_Some)
  with assms show ?thesis by (auto simp: u nth_update_if blank_added_def append_to_line_def)
qed

lemma ws_lines_blank:
  assumes "distinct dst" "\<forall>d \<in> set dst. is_dst (ls ! d)"
  shows "blank_added (ls ! j) (fst (ws_lines src dst ls) ! j)"
  using assms
proof (induction src dst ls rule: ws_lines.induct)
  case (3 s src d dst ls)
  note step = ws_lines_step [of s src d dst ls]
  show ?case
  proof (cases "j = d")
    case True
    then have "fst (ws_lines (s # src) (d # dst) ls) ! j = ws_update s d ls ! d"
      unfolding step using 3(2) by (simp add: ws_lines_frame)
    with True 3(3) show ?thesis by (simp add: ws_update_blank)
  next
    case False
    have "\<forall>e \<in> set dst. is_dst (ws_update s d ls ! e)"
    proof
      fix e assume "e \<in> set dst"
      moreover from this 3(2) have "e \<noteq> d" by auto
      ultimately show "is_dst (ws_update s d ls ! e)" using 3(3) by (simp add: ws_update_props)
    qed
    then have "blank_added (ws_update s d ls ! j) (fst (ws_lines src dst (ws_update s d ls)) ! j)"
      using 3(1,2) unfolding ws_update_def by simp
    with False show ?thesis unfolding step by (simp add: ws_update_props)
  qed
qed (simp_all add: blank_added_def)

text \<open>
  Aligned sides: the i-th source and the i-th target line are one context line, or the
  source line is not on the target side at all.
\<close>

lemma ws_lines_aligned:
  assumes "distinct dst" "length src \<le> length dst"
    "\<forall>i < length src. src ! i = dst ! i \<or> src ! i \<notin> set dst"
    "\<forall>i < length ls. newline \<notin> set (ltext (ls ! i))" "set src \<union> set dst \<subseteq> {..<length ls}"
  shows "snd (ws_lines src dst ls) \<and>
    (\<forall>i < length src. fst (ws_lines src dst ls) ! (src ! i) = ls ! (src ! i) \<and>
       ltext (fst (ws_lines src dst ls) ! (dst ! i)) =
         (let s = ltext (ls ! (src ! i)); d = ltext (ls ! (dst ! i))
          in if s = d @ '' '' \<or> s = d @ [tab] then s else d))"
  using assms
proof (induction src dst ls rule: ws_lines.induct)
  case (3 s src d dst ls)
  let ?u = "ws_update s d ls"
  note step = ws_lines_step [of s src d dst ls]
  have sd: "s = d \<or> s \<notin> set (d # dst)" using 3(4) by force
  have len: "s < length ls" "d < length ls" using 3(6) by auto
  have nl: "newline \<notin> set (ltext (ls ! s))" using 3(5) len by simp
  have upd: "ltext (?u ! d) = (let s = ltext (ls ! s); d = ltext (ls ! d)
      in if s = d @ '' '' \<or> s = d @ [tab] then s else d)"
  proof (cases "ws_match (ltext (ls ! s))")
    case None
    then have "\<And>g1 b. b \<in> {CHR '' '', tab} \<Longrightarrow> ltext (ls ! s) \<noteq> g1 @ [b]"
      using ws_match_line [OF nl] by (metis option.distinct(1))
    with None show ?thesis by (simp add: ws_update_def Let_def)
  next
    case (Some g)
    then obtain g1 b where g: "g = (g1, [b])" "b \<in> {CHR '' '', tab}" "ltext (ls ! s) = g1 @ [b]"
      using ws_match_line [OF nl] by (cases g) auto
    then show ?thesis using Some len by (auto simp: ws_update_def Let_def append_to_line_def)
  qed
  have same: "?u ! s = ls ! s"
  proof (cases "s = d")
    case True
    have "\<not> (ws_match (ltext (ls ! s)) = Some (ltext (ls ! s), g2))" for g2
      using ws_match_line [OF nl, of "ltext (ls ! s)"] by auto
    with True show ?thesis by (auto simp: ws_update_def split: option.split)
  next
    case False
    then show ?thesis by (simp add: ws_update_props)
  qed
  have later: "src ! i \<noteq> d \<or> ?u = ls" "dst ! i \<noteq> d" if i: "i < length src" for i
  proof -
    have "dst ! i \<in> set dst" using i 3(3) by simp
    then show "dst ! i \<noteq> d" using 3(2) by auto
    have "src ! i = dst ! i \<or> src ! i \<notin> set (d # dst)"
      using 3(4) i by force
    with \<open>dst ! i \<noteq> d\<close> show "src ! i \<noteq> d \<or> ?u = ls" by auto
  qed
  have IH: "snd (ws_lines src dst ?u) \<and>
    (\<forall>i < length src. fst (ws_lines src dst ?u) ! (src ! i) = ?u ! (src ! i) \<and>
       ltext (fst (ws_lines src dst ?u) ! (dst ! i)) =
         (let s = ltext (?u ! (src ! i)); d = ltext (?u ! (dst ! i))
          in if s = d @ '' '' \<or> s = d @ [tab] then s else d))"
    unfolding ws_update_def
  proof (rule 3(1))
    show "\<forall>i < length src. src ! i = dst ! i \<or> src ! i \<notin> set dst" using 3(4) by force
  qed (use 3(2,3,5,6) in \<open>auto simp: ws_update_newline [unfolded ws_update_def] ws_update_props(1) [unfolded ws_update_def]\<close>)
  show ?case
  proof (intro conjI allI impI)
    show "snd (ws_lines (s # src) (d # dst) ls)" unfolding step using IH by simp
  next
    fix i assume i: "i < length (s # src)"
    show "fst (ws_lines (s # src) (d # dst) ls) ! ((s # src) ! i) = ls ! ((s # src) ! i)"
    proof (cases i)
      case 0
      have "fst (ws_lines src dst ?u) ! s = ?u ! s"
      proof (cases "s = d")
        case True
        then show ?thesis using 3(2) by (simp add: ws_lines_frame)
      next
        case False
        with sd show ?thesis by (simp add: ws_lines_frame)
      qed
      with 0 same step show ?thesis by simp
    next
      case (Suc k)
      with i have k: "k < length src" by simp
      with IH have "fst (ws_lines src dst ?u) ! (src ! k) = ?u ! (src ! k)" by blast
      with later(1) [OF k] Suc step show ?thesis by (auto simp: ws_update_props)
    qed
    show "ltext (fst (ws_lines (s # src) (d # dst) ls) ! ((d # dst) ! i)) =
         (let s = ltext (ls ! ((s # src) ! i)); d = ltext (ls ! ((d # dst) ! i))
          in if s = d @ '' '' \<or> s = d @ [tab] then s else d)"
    proof (cases i)
      case 0
      have "fst (ws_lines src dst ?u) ! d = ?u ! d" using 3(2) by (simp add: ws_lines_frame)
      with 0 upd step show ?thesis by simp
    next
      case (Suc k)
      with i have k: "k < length src" by simp
      have "?u ! (src ! k) = ls ! (src ! k)" "?u ! (dst ! k) = ls ! (dst ! k)"
        using later [OF k] by (auto simp: ws_update_props)
      with IH k Suc step show ?thesis by simp
    qed
  qed
qed simp_all

definition src_texts :: "patch_chunk \<Rightarrow> string list" where
  "src_texts c = map (\<lambda>i. ltext (clines c ! i)) (chunk_src c)"

definition dst_texts :: "patch_chunk \<Rightarrow> string list" where
  "dst_texts c = map (\<lambda>i. ltext (clines c ! i)) (chunk_dst c)"

definition aligned :: "patch_chunk \<Rightarrow> bool" where
  \<comment> \<open>as many target as source lines, and a context line has the same position on both sides\<close>
  "aligned c \<longleftrightarrow> length (chunk_src c) = length (chunk_dst c) \<and>
     (\<forall>i < length (chunk_src c). ltype (clines c ! (chunk_src c ! i)) = BOTH \<longrightarrow>
        chunk_src c ! i = chunk_dst c ! i)"

lemma chunk_sides:
  "distinct (chunk_dst c)" "set (chunk_dst c) = {i. i < length (clines c) \<and> is_dst (clines c ! i)}"
  "set (chunk_src c) = {i. i < length (clines c) \<and> is_src (clines c ! i)}"
  by (auto simp: chunk_dst_def chunk_src_def)

lemma chunk_sides_types:
  assumes "length ls = length (clines c)" "\<And>j. ltype (ls ! j) = ltype (clines c ! j)"
  shows "chunk_src (c\<lparr>clines := ls\<rparr>) = chunk_src c" "chunk_dst (c\<lparr>clines := ls\<rparr>) = chunk_dst c"
  using assms by (simp_all add: chunk_src_def chunk_dst_def is_src_def is_dst_def)

lemma ws_chunk_blank:
  "fst (ws_chunk c) = c\<lparr>clines := clines (fst (ws_chunk c))\<rparr> \<and>
   list_all2 blank_added (clines c) (clines (fst (ws_chunk c)))"
proof -
  let ?l = "fst (ws_lines (chunk_src c) (chunk_dst c) (clines c))"
  have "fst (ws_chunk c) = c\<lparr>clines := ?l\<rparr>" by (simp add: ws_chunk_def case_prod_beta)
  moreover have "blank_added (clines c ! j) (?l ! j)" for j
    by (rule ws_lines_blank) (simp_all add: chunk_sides)
  ultimately show ?thesis by (simp add: list_all2_conv_all_nth ws_lines_length)
qed

definition blanks_added :: "patch_chunk \<Rightarrow> patch_chunk \<Rightarrow> bool" where
  "blanks_added c c' \<longleftrightarrow> src_pos c' = src_pos c \<and> dst_pos c' = dst_pos c \<and>
     list_all2 blank_added (clines c) (clines c')"

lemma blank_added_refl: "blank_added l l"
  by (simp add: blank_added_def)

lemma blanks_added_refl: "blanks_added c c"
  by (simp add: blanks_added_def list_all2_refl blank_added_refl)

lemma ws_chunks_blank: "list_all2 blanks_added cs (fst (ws_chunks cs))"
proof (induction cs)
  case (Cons c cs)
  have "blanks_added c (fst (ws_chunk c))"
    using ws_chunk_blank [of c] unfolding blanks_added_def
    by (metis patch_chunk.select_convs(2,3) patch_chunk.surjective patch_chunk.update_convs(1))
  with Cons show ?case
    by (auto simp: case_prod_beta list_all2_refl blanks_added_refl)
qed simp

definition patch_blanks_added :: "patch \<Rightarrow> patch \<Rightarrow> bool" where
  "patch_blanks_added p p' \<longleftrightarrow> psrc p' = psrc p \<and> pdst p' = pdst p \<and>
     list_all2 blanks_added (pchunks p) (pchunks p')"

lemma ws_patches_blank: "list_all2 patch_blanks_added ps (ws_patches ps)"
proof (induction ps)
  case (Cons p ps)
  have "patch_blanks_added q q" for q
    by (simp add: patch_blanks_added_def list_all2_refl blanks_added_refl)
  with Cons show ?case
    by (auto simp: case_prod_beta list_all2_refl patch_blanks_added_def ws_chunks_blank)
qed simp

section \<open>Properties\<close>

text \<open>C18: a patch set that \<open>parse_patchset\<close> returns can be written, every line of it with one of
  the three types, and parsing the written lines gives the same patch set again.\<close>

theorem parse_write_parse:
  assumes "parse_patchset lines = Inr ps"
  shows "list_all patch_ok ps \<and> (\<exists>out. patchset_write ps = Inr out \<and> parse_patchset out = Inr ps)"
  using parse_patchset_ok [OF assms] by (simp add: patchset_write_text parse_patch_texts)

definition sample_diff :: "string list" where
  "sample_diff = [''--- a.cc'' @ [newline], ''+++ /tmp/x'' @ [newline], ''@@ -3,2 +3,2 @@'' @ [newline],
     '' int a;'' @ [newline], ''-  f(x); '' @ [newline], ''+  f(x);'' @ [newline]]"

definition sample_patch :: patch where
  "sample_patch = \<lparr>psrc = ''a.cc'', pdst = ''/tmp/x'', pchunks =
     [\<lparr>clines = [\<lparr>ltype = 3, ltext = ''int a;''\<rparr>, \<lparr>ltype = 1, ltext = ''  f(x); ''\<rparr>,
         \<lparr>ltype = 2, ltext = ''  f(x);''\<rparr>], src_pos = 3, dst_pos = 3\<rparr>]\<rparr>"

lemma sample_parse: "parse_patchset sample_diff = Inr [sample_patch]"
  by code_simp

theorem parse_write_parse_witness:
  "\<exists>out. patchset_write [sample_patch] = Inr out \<and> parse_patchset out = Inr [sample_patch]"
  using parse_write_parse [OF sample_parse] by blast

text \<open>C20: \<open>remove_trailing_whitespace_changes\<close> fails exactly when the parser does, and changes
  nothing of the parsed patch set but the text of target and context lines, each by at most
  one blank or tab at its end.\<close>

theorem whitespace_pass_frame:
  "case parse_patchset lines of
     Inl e \<Rightarrow> remove_trailing_whitespace_changes lines = Inl e
   | Inr ps \<Rightarrow> \<exists>ps'. remove_trailing_whitespace_changes lines = Inr ps' \<and>
       list_all2 patch_blanks_added ps ps'"
  by (cases "parse_patchset lines")
     (simp_all add: remove_trailing_whitespace_changes_def ws_patches_blank)

text \<open>C19: in a chunk whose two sides are aligned, the pass takes back exactly the removals of
  one trailing blank: such a target line becomes its source line again, the other target lines
  and all source lines keep their text.\<close>

theorem whitespace_pass_undoes:
  assumes "chunk_ok c" and "aligned c"
  shows "case ws_chunk c of (c', completed) \<Rightarrow> completed \<and> src_texts c' = src_texts c \<and>
    dst_texts c' = map2 (\<lambda>s d. if s = d @ '' '' \<or> s = d @ [tab] then s else d) (src_texts c) (dst_texts c)"
proof -
  let ?w = "ws_lines (chunk_src c) (chunk_dst c) (clines c)"
  let ?c = "c\<lparr>clines := fst ?w\<rparr>"
  have al: "\<forall>i < length (chunk_src c). chunk_src c ! i = chunk_dst c ! i \<or> chunk_src c ! i \<notin> set (chunk_dst c)"
  proof (intro allI impI)
    fix i assume i: "i < length (chunk_src c)"
    then have "is_src (clines c ! (chunk_src c ! i))" using chunk_sides(3) [of c] nth_mem by blast
    moreover have "ltype (clines c ! (chunk_src c ! i)) = BOTH \<longrightarrow> chunk_src c ! i = chunk_dst c ! i"
      using assms(2) i by (simp add: aligned_def)
    ultimately show "chunk_src c ! i = chunk_dst c ! i \<or> chunk_src c ! i \<notin> set (chunk_dst c)"
      by (auto simp: chunk_sides(2) is_src_def is_dst_def)
  qed
  have len: "length (chunk_src c) = length (chunk_dst c)" using assms(2) by (simp add: aligned_def)
  have w: "snd ?w \<and> (\<forall>i < length (chunk_src c). fst ?w ! (chunk_src c ! i) = clines c ! (chunk_src c ! i) \<and>
       ltext (fst ?w ! (chunk_dst c ! i)) =
         (let s = ltext (clines c ! (chunk_src c ! i)); d = ltext (clines c ! (chunk_dst c ! i))
          in if s = d @ '' '' \<or> s = d @ [tab] then s else d))"
    by (rule ws_lines_aligned)
       (use assms(1) al len in \<open>auto simp: chunk_sides chunk_ok_def line_ok_def list_all_length\<close>)
  have ty: "ltype (fst ?w ! j) = ltype (clines c ! j)" for j
    using ws_lines_blank [of "chunk_dst c" "clines c" j "chunk_src c"]
    by (simp add: chunk_sides blank_added_def)
  have sides: "chunk_src ?c = chunk_src c" "chunk_dst ?c = chunk_dst c"
    by (rule chunk_sides_types; simp add: ws_lines_length ty)+
  have "src_texts ?c = src_texts c"
    unfolding src_texts_def sides by (rule nth_equalityI) (use w in simp_all)
  moreover have "dst_texts ?c = map2 (\<lambda>s d. if s = d @ '' '' \<or> s = d @ [tab] then s else d) (src_texts c) (dst_texts c)"
    unfolding dst_texts_def src_texts_def sides
    by (rule nth_equalityI) (use w len in \<open>simp_all add: Let_def\<close>)
  ultimately show ?thesis using w by (simp add: ws_chunk_def case_prod_beta)
qed

definition sample_chunk :: patch_chunk where
  "sample_chunk = \<lparr>clines = [\<lparr>ltype = 3, ltext = ''int a;''\<rparr>, \<lparr>ltype = 1, ltext = ''f(x); ''\<rparr>,
     \<lparr>ltype = 2, ltext = ''f(x);''\<rparr>], src_pos = 3, dst_pos = 3\<rparr>"

theorem whitespace_pass_undoes_witness:
  "dst_texts (fst (ws_chunk sample_chunk)) = [''int a;'', ''f(x); '']"
proof -
  have "chunk_ok sample_chunk" by code_simp
  moreover have "chunk_src sample_chunk = [0, 1]" "chunk_dst sample_chunk = [0, 2]" by code_simp+
  then have "aligned sample_chunk"
    by (auto simp: aligned_def sample_chunk_def less_Suc_eq numeral_2_eq_2)
  ultimately have "dst_texts (fst (ws_chunk sample_chunk)) =
      map2 (\<lambda>s d. if s = d @ '' '' \<or> s = d @ [tab] then s else d) (src_texts sample_chunk) (dst_texts sample_chunk)"
    using whitespace_pass_undoes [of sample_chunk] by (simp add: case_prod_beta)
  also have "\<dots> = [''int a;'', ''f(x); '']" by code_simp
  finally show ?thesis .
qed

text \<open>C21: when every file can be indented, checking reports success exactly when indentation
  leaves every file as it is, and changes no file; indenting in place succeeds, gives every
  listed file its indented text and leaves the other files alone.\<close>

theorem indent_files_verdict:
  assumes "\<forall>f \<in> set names. indent t fs debug level f = Inr (res f)"
  shows "indent_files t fs names diff debug level True =
      Inr (True, [], \<lambda>f. if f \<in> set names then Some (res f) else fs f) \<and>
    (\<exists>out. indent_files t fs names diff debug level False =
      Inr (\<forall>f \<in> set names. fs f = Some (res f), out, fs))"
proof -
  have run: "rmap (\<lambda>f. rbind (indent t fs debug level f) (\<lambda>dst. Inr (f, dst))) names
      = Inr (map (\<lambda>f. (f, res f)) names)"
    by (rule rmap_total) (use assms in simp)
  have "fold (\<lambda>(src, dst) fs. fs(src \<mapsto> dst)) (map (\<lambda>f. (f, res f)) names) fs' =
      (\<lambda>f. if f \<in> set names then Some (res f) else fs' f)" for fs'
    by (induction names arbitrary: fs') auto
  moreover have "filter (\<lambda>(src, dst). fs src \<noteq> Some dst) (map (\<lambda>f. (f, res f)) names) = [] \<longleftrightarrow>
      (\<forall>f \<in> set names. fs f = Some (res f))"
    by (auto simp: filter_empty_conv)
  ultimately show ?thesis unfolding indent_files_def run by (auto simp: Let_def)
qed

definition sample_tools :: tools where
  \<comment> \<open>a diff is the new text, and patching replaces the file by it\<close>
  "sample_tools = \<lparr>uncrustify = \<lambda>_ _. Some ''b;'', unified_diff = \<lambda>_ new _ _. new,
     patch_tool = \<lambda>d _. Some d, temp_name = ''/tmp/y''\<rparr>"

theorem indent_files_verdict_witness:
  "indent_files sample_tools [''f.cc'' \<mapsto> ''a;'', ''g.cc'' \<mapsto> ''c;''] [''f.cc''] False False 3 True =
     Inr (True, [], [''f.cc'' \<mapsto> ''b;'', ''g.cc'' \<mapsto> ''c;''])"
proof -
  have "\<forall>f \<in> set [''f.cc'']. indent sample_tools [''f.cc'' \<mapsto> ''a;'', ''g.cc'' \<mapsto> ''c;''] False 3 f = Inr ''b;''"
    by (simp add: indent_def sample_tools_def)
  from indent_files_verdict [OF this, of False] show ?thesis by (auto simp: fun_eq_iff)
qed

text \<open>C22: the exit status is 1 exactly when the mercurial hook finds a badly indented file or
  the single file to check is missing (so \<open>--check-hg\<close> and \<open>--check-file\<close> exit with 0 on badly
  indented files), and 0 otherwise; without \<open>--in-place\<close>, and always for the hook, no file is
  changed.\<close>

theorem run_as_main_status:
  assumes "run_as_main t fs hg opts = Inr (code, out, fs')"
  shows "code = (if (opt_hg_hook opts \<and> (\<exists>out. indent_files t fs (hg_modified_files hg) False (opt_debug opts)
                        (opt_level opts) False = Inr (False, out, fs))) \<or>
                   (\<not> opt_hg_hook opts \<and> \<not> opt_hg opts \<and> opt_file opts \<noteq> [] \<and> fs (opt_file opts) = None)
                 then 1 else 0) \<and>
    (opt_hg_hook opts \<or> \<not> opt_in_place opts \<longrightarrow> fs' = fs)"
proof -
  have frame: "f' = fs" if "indent_files t fs names diff debug level False = Inr (ok, out, f')"
    for names diff debug level ok out f'
    using that by (auto simp: indent_files_def rbind_Inr_iff Let_def split: if_splits)
  show ?thesis
  proof (cases "opt_hg_hook opts")
    case True
    with assms obtain ok where "indent_files t fs (hg_modified_files hg) False (opt_debug opts)
        (opt_level opts) False = Inr (ok, out, fs')" "code = (if ok then 0 else 1)"
      by (auto simp: run_as_main_def rbind_Inr_iff split: if_splits)
    with True frame show ?thesis by (cases ok) auto
  next
    case False
    have np: "fs' = fs" if "\<not> opt_in_place opts"
      using assms False that
      by (auto simp: run_as_main_def rbind_Inr_iff split: if_splits dest: frame)
    show ?thesis using assms False np
      by (auto simp: run_as_main_def rbind_Inr_iff split: if_splits)
  qed
qed

theorem run_as_main_status_witness:
  "\<exists>out. run_as_main sample_tools Map.empty [] \<lparr>opt_debug = False, opt_level = 0, opt_hg_hook = False,
      opt_hg = False, opt_file = ''f.cc'', opt_diff = False, opt_in_place = True\<rparr> = Inr (1, out, Map.empty)"
proof -
  let ?o = "\<lparr>opt_debug = False, opt_level = 0, opt_hg_hook = False,
      opt_hg = False, opt_file = ''f.cc'', opt_diff = False, opt_in_place = True\<rparr>"
  obtain code out where run: "run_as_main sample_tools Map.empty [] ?o = Inr (code, out, Map.empty)"
    by (simp add: run_as_main_def)
  from run_as_main_status [OF this] have "code = 1" by simp
  with run show ?thesis by blast
qed

end
