(* ===== verification/Timeline.thy ===== *)
theory Timeline
  imports Py_Prelude
begin

text \<open>
  The data of the timeline viewer, \<open>utils/grid.py\<close>: ranges and events with their binary
  searches (\<open>TimelineDataRange\<close>, \<open>TimelineEvent\<close>), the named registries \<open>Timeline\<close> and
  \<open>Timelines\<close>, the colour table \<open>Colors\<close>, and the trace reader \<open>read_data\<close>.

  The code is Python 2 (\<open>sort(cmp)\<close>, \<open>has_key\<close>, integer \<open>/\<close>). An object that a registry
  returns and the caller then changes is the position of the object in the registry's list.
  The ends of a window are rational numbers, since the viewer computes them as floats.
\<close>

section \<open>Ranges and events\<close>

record data_range =
  r_start :: int
  r_end :: int
  r_value :: string

record 'v event =
  ev_at :: int
  ev_value :: 'v

definition ranges_cmp :: "data_range \<Rightarrow> data_range \<Rightarrow> int" where
  "ranges_cmp a b = (let diff = r_start a - r_start b
                     in if diff < 0 then - 1 else if diff > 0 then 1 else 0)"

definition events_cmp :: "'v event \<Rightarrow> 'v event \<Rightarrow> int" where
  "events_cmp a b = (let diff = ev_at a - ev_at b
                     in if diff < 0 then - 1 else if diff > 0 then 1 else 0)"

text \<open>\<open>list.sort(cmp)\<close>: the stable sort.\<close>

fun insort_cmp :: "('a \<Rightarrow> 'a \<Rightarrow> int) \<Rightarrow> 'a \<Rightarrow> 'a list \<Rightarrow> 'a list" where
  "insort_cmp cmp x [] = [x]"
| "insort_cmp cmp x (y # ys) = (if cmp x y \<le> 0 then x # y # ys else y # insort_cmp cmp x ys)"

definition sort_cmp :: "('a \<Rightarrow> 'a \<Rightarrow> int) \<Rightarrow> 'a list \<Rightarrow> 'a list" where
  "sort_cmp cmp xs = foldr (insort_cmp cmp) xs []"

subsection \<open>TimelineDataRange\<close>

record timeline_range =
  tr_name :: string
  tr_ranges :: "data_range list"

definition new_timeline_range :: "string \<Rightarrow> timeline_range" where
  "new_timeline_range name = \<lparr>tr_name = name, tr_ranges = []\<rparr>"

function range_search_loop :: "data_range list \<Rightarrow> rat \<Rightarrow> int \<Rightarrow> int \<Rightarrow> int" where
  "range_search_loop rs key l u =
     (if l \<le> u then
        let i = (l + u) div 2; r = rs ! nat i
        in if key \<ge> of_int (r_start r) \<and> key \<le> of_int (r_end r) then i
           else if key < of_int (r_start r) then range_search_loop rs key l (i - 1)
           else range_search_loop rs key (i + 1) u
      else - 1)"
  by pat_completeness auto
termination
  by (relation "measure (\<lambda>(_, _, l, u). nat (u + 1 - l))") auto

declare range_search_loop.simps [simp del]

definition range_search :: "timeline_range \<Rightarrow> rat \<Rightarrow> int" where
  "range_search t key = range_search_loop (tr_ranges t) key 0 (int (length (tr_ranges t)) - 1)"

definition add_range :: "data_range \<Rightarrow> timeline_range \<Rightarrow> timeline_range" where
  "add_range r t = t\<lparr>tr_ranges := tr_ranges t @ [r]\<rparr>"

definition get_ranges :: "timeline_range \<Rightarrow> rat \<Rightarrow> rat \<Rightarrow> data_range list" where
  "get_ranges t start end =
     (let s = range_search t start; e = range_search t end; rs = tr_ranges t
      in if s = - 1 \<and> e = - 1 then []
         else if s = - 1 then py_slice rs 0 (e + 1)
         else if e = - 1 then py_slice rs s (int (length rs))
         else py_slice rs s (e + 1))"

definition get_ranges_bounds :: "timeline_range \<Rightarrow> rat \<Rightarrow> rat \<Rightarrow> int \<times> int" where
  "get_ranges_bounds t start end =
     (let s = range_search t start; e = range_search t end
      in if s = - 1 \<and> e = - 1 then (0, 0)
         else if s = - 1 then (0, e + 1)
         else if e = - 1 then (s, int (length (tr_ranges t)))
         else (s, e + 1))"

definition range_sort :: "timeline_range \<Rightarrow> timeline_range" where
  "range_sort t = t\<lparr>tr_ranges := sort_cmp ranges_cmp (tr_ranges t)\<rparr>"

definition range_get_bounds :: "timeline_range \<Rightarrow> int \<times> int" where
  "range_get_bounds t =
     (let rs = tr_ranges t
      in if length rs > 0 then (r_start (rs ! 0), r_end (rs ! (length rs - 1))) else (0, 0))"

subsection \<open>TimelineEvent\<close>

record 'v timeline_event =
  te_name :: string
  te_events :: "'v event list"

definition new_timeline_event :: "string \<Rightarrow> 'v timeline_event" where
  "new_timeline_event name = \<lparr>te_name = name, te_events = []\<rparr>"

function event_search_loop :: "'v event list \<Rightarrow> rat \<Rightarrow> int \<Rightarrow> int \<Rightarrow> int" where
  "event_search_loop es key l u =
     (if l \<le> u then
        let i = (l + u) div 2; a = of_int (ev_at (es ! nat i))
        in if key = a then i
           else if key < a then event_search_loop es key l (i - 1)
           else event_search_loop es key (i + 1) u
      else l)"
  by pat_completeness auto
termination
  by (relation "measure (\<lambda>(_, _, l, u). nat (u + 1 - l))") auto

declare event_search_loop.simps [simp del]

definition event_search :: "'v timeline_event \<Rightarrow> rat \<Rightarrow> int" where
  "event_search t key = event_search_loop (te_events t) key 0 (int (length (te_events t)) - 1)"

definition add_event :: "'v event \<Rightarrow> 'v timeline_event \<Rightarrow> 'v timeline_event" where
  "add_event e t = t\<lparr>te_events := te_events t @ [e]\<rparr>"

definition get_events :: "'v timeline_event \<Rightarrow> rat \<Rightarrow> rat \<Rightarrow> 'v event list" where
  "get_events t start end =
     (let s = event_search t start; e = event_search t end
      in py_slice (te_events t) s (e + 1))"

definition get_events_bounds :: "'v timeline_event \<Rightarrow> rat \<Rightarrow> rat \<Rightarrow> int \<times> int" where
  "get_events_bounds t start end = (event_search t start, event_search t end + 1)"

definition event_sort :: "'v timeline_event \<Rightarrow> 'v timeline_event" where
  "event_sort t = t\<lparr>te_events := sort_cmp events_cmp (te_events t)\<rparr>"

definition event_get_bounds :: "'v timeline_event \<Rightarrow> int \<times> int" where
  "event_get_bounds t =
     (let es = te_events t
      in if length es > 0 then (ev_at (es ! 0), ev_at (last es)) else (0, 0))"

section \<open>Registries\<close>

text \<open>The loop of the four \<open>get\<close> methods: the first object of the name, or a new one at the end.\<close>

fun find_or_add :: "('o \<Rightarrow> string) \<Rightarrow> (string \<Rightarrow> 'o) \<Rightarrow> string \<Rightarrow> 'o list \<Rightarrow> nat \<times> 'o list" where
  "find_or_add name_of create name [] = (0, [create name])"
| "find_or_add name_of create name (x # xs) =
     (if name_of x = name then (0, x # xs)
      else let (i, xs') = find_or_add name_of create name xs in (Suc i, x # xs'))"

record timeline =
  tl_name :: string
  tl_ranges :: "timeline_range list"
  tl_event_str :: "string timeline_event list"
  tl_event_int :: "int timeline_event list"

definition new_timeline :: "string \<Rightarrow> timeline" where
  "new_timeline name = \<lparr>tl_name = name, tl_ranges = [], tl_event_str = [], tl_event_int = []\<rparr>"

definition get_range :: "string \<Rightarrow> timeline_range list \<Rightarrow> nat \<times> timeline_range list" where
  "get_range = find_or_add tr_name new_timeline_range"

definition get_event_str :: "string \<Rightarrow> string timeline_event list \<Rightarrow> nat \<times> string timeline_event list" where
  "get_event_str = find_or_add te_name new_timeline_event"

definition get_event_int :: "string \<Rightarrow> int timeline_event list \<Rightarrow> nat \<times> int timeline_event list" where
  "get_event_int = find_or_add te_name new_timeline_event"

definition timeline_sort :: "timeline \<Rightarrow> timeline" where
  "timeline_sort t = t\<lparr>tl_ranges := map range_sort (tl_ranges t),
     tl_event_int := map event_sort (tl_event_int t),
     tl_event_str := map event_sort (tl_event_str t)\<rparr>"

definition widen :: "int \<times> int \<Rightarrow> int \<times> int \<Rightarrow> int \<times> int" where
  \<comment> \<open>the body of the bounds loops\<close>
  "widen b acc = (let (range_lo, range_hi) = b; (lo, hi) = acc
     in (if range_lo < lo then range_lo else lo, if range_hi > hi then range_hi else hi))"

definition timeline_get_bounds :: "timeline \<Rightarrow> int \<times> int" where
  "timeline_get_bounds t =
     (let acc = fold widen (map range_get_bounds (tl_ranges t)) (0, 0);
          acc = fold widen (map event_get_bounds (tl_event_str t)) acc
      in fold widen (map event_get_bounds (tl_event_int t)) acc)"

type_synonym timelines = "timeline list"

definition timelines_get :: "string \<Rightarrow> timelines \<Rightarrow> nat \<times> timelines" where
  "timelines_get = find_or_add tl_name new_timeline"

definition timelines_sort :: "timelines \<Rightarrow> timelines" where
  "timelines_sort ts = map timeline_sort ts"

definition timelines_get_bounds :: "timelines \<Rightarrow> int \<times> int" where
  "timelines_get_bounds ts = fold widen (map timeline_get_bounds ts) (0, 0)"

definition get_all_range_values :: "(string list \<Rightarrow> string list) \<Rightarrow> timelines \<Rightarrow> string list" where
  \<comment> \<open>\<open>hord\<close> is the order in which the dictionary lists its keys\<close>
  "get_all_range_values hord ts =
     hord (keys (fold (\<lambda>v d. AList.update v (1::int) d)
       (concat (map (\<lambda>t. concat (map (\<lambda>r. map r_value (tr_ranges r)) (tl_ranges t))) ts)) []))"

section \<open>Colours\<close>

record color =
  red :: int
  green :: int
  blue :: int

definition mk_color :: "int \<Rightarrow> int \<Rightarrow> int \<Rightarrow> color" where
  "mk_color r g b = \<lparr>red = r, green = g, blue = b\<rparr>"

text \<open>\<open>default_colors\<close> is a class attribute: \<open>pop\<close> takes its last item away for good.\<close>

record colors =
  color_table :: "(string \<times> color) list"
  default_colors :: "color list"

definition new_colors :: colors where
  "new_colors = \<lparr>color_table = [], default_colors =
     [mk_color 1 0 0, mk_color 0 1 0, mk_color 0 0 1, mk_color 1 1 0, mk_color 1 0 1, mk_color 0 1 1]\<rparr>"

definition color_add :: "string \<Rightarrow> color \<Rightarrow> colors \<Rightarrow> colors" where
  "color_add name c cs = cs\<lparr>color_table := AList.update name c (color_table cs)\<rparr>"

definition color_lookup :: "string \<Rightarrow> colors \<Rightarrow> (color \<times> colors) pyres" where
  "color_lookup name cs =
     rbind (if map_of (color_table cs) name = None
            then (if default_colors cs = [] then Inl IndexError
                  else Inr (color_add name (last (default_colors cs))
                              (cs\<lparr>default_colors := butlast (default_colors cs)\<rparr>)))
            else Inr cs) (\<lambda>cs'.
       Inr (the (map_of (color_table cs') name), cs'))"

fun lookup_all :: "string list \<Rightarrow> colors \<Rightarrow> (color list \<times> colors) pyres" where
  \<comment> \<open>the colours of the legend, as \<open>main\<close> collects them\<close>
  "lookup_all [] cs = Inr ([], cs)"
| "lookup_all (name # names) cs =
     rbind (color_lookup name cs) (\<lambda>(c, cs').
       rbind (lookup_all names cs') (\<lambda>(rest, cs''). Inr (c # rest, cs'')))"

section \<open>Reading a trace\<close>

text \<open>The groups \<open>([^ ]+)\<close>, \<open>([0-9]+)\<close> and two hexadecimal digits, and literal text.\<close>

definition tok_lit :: "string \<Rightarrow> string \<Rightarrow> string option" where
  "tok_lit p s = (if prefix p s then Some (drop (length p) s) else None)"

definition tok_word :: "string \<Rightarrow> (string \<times> string) option" where
  "tok_word s = (let w = takeWhile (\<lambda>c. c \<noteq> CHR '' '') s
                 in if w = [] then None else Some (w, dropWhile (\<lambda>c. c \<noteq> CHR '' '') s))"

definition tok_num :: "string \<Rightarrow> (nat \<times> string) option" where
  "tok_num s = map_option (\<lambda>n. (n, dropWhile is_digit s)) (of_base 10 (takeWhile is_digit s))"

definition hex_digit :: "char \<Rightarrow> nat option" where
  "hex_digit c = (case map_of (zip ''ABCDEF'' ''abcdef'') c of
     Some d \<Rightarrow> digit_val d | None \<Rightarrow> digit_val c)"

fun tok_hex2 :: "string \<Rightarrow> (nat \<times> string) option" where
  "tok_hex2 (a # b # s) =
     (case (hex_digit a, hex_digit b) of (Some x, Some y) \<Rightarrow> Some (16 * x + y, s) | _ \<Rightarrow> None)"
| "tok_hex2 _ = None"

definition match_range :: "string \<Rightarrow> (string \<times> string \<times> string \<times> nat \<times> nat) option" where
  "match_range s =
     Option.bind (tok_lit ''range '' s) (\<lambda>s. Option.bind (tok_word s) (\<lambda>(a, s).
     Option.bind (tok_lit '' '' s) (\<lambda>s. Option.bind (tok_word s) (\<lambda>(b, s).
     Option.bind (tok_lit '' '' s) (\<lambda>s. Option.bind (tok_word s) (\<lambda>(c, s).
     Option.bind (tok_lit '' '' s) (\<lambda>s. Option.bind (tok_num s) (\<lambda>(d, s).
     Option.bind (tok_lit '' '' s) (\<lambda>s. Option.bind (tok_num s) (\<lambda>(e, _).
     Some (a, b, c, d, e)))))))))))"

definition match_event_str :: "string \<Rightarrow> (string \<times> string \<times> string \<times> nat) option" where
  "match_event_str s =
     Option.bind (tok_lit ''event-str '' s) (\<lambda>s. Option.bind (tok_word s) (\<lambda>(a, s).
     Option.bind (tok_lit '' '' s) (\<lambda>s. Option.bind (tok_word s) (\<lambda>(b, s).
     Option.bind (tok_lit '' '' s) (\<lambda>s. Option.bind (tok_word s) (\<lambda>(c, s).
     Option.bind (tok_lit '' '' s) (\<lambda>s. Option.bind (tok_num s) (\<lambda>(d, _).
     Some (a, b, c, d)))))))))"

definition match_event_int :: "string \<Rightarrow> (string \<times> string \<times> nat \<times> nat) option" where
  "match_event_int s =
     Option.bind (tok_lit ''event-int '' s) (\<lambda>s. Option.bind (tok_word s) (\<lambda>(a, s).
     Option.bind (tok_lit '' '' s) (\<lambda>s. Option.bind (tok_word s) (\<lambda>(b, s).
     Option.bind (tok_lit '' '' s) (\<lambda>s. Option.bind (tok_num s) (\<lambda>(c, s).
     Option.bind (tok_lit '' '' s) (\<lambda>s. Option.bind (tok_num s) (\<lambda>(d, _).
     Some (a, b, c, d)))))))))"

definition match_color :: "string \<Rightarrow> (string \<times> nat \<times> nat \<times> nat) option" where
  "match_color s =
     Option.bind (tok_lit ''color '' s) (\<lambda>s. Option.bind (tok_word s) (\<lambda>(a, s).
     Option.bind (tok_lit '' #'' s) (\<lambda>s. Option.bind (tok_hex2 s) (\<lambda>(r, s).
     Option.bind (tok_hex2 s) (\<lambda>(g, s). Option.bind (tok_hex2 s) (\<lambda>(b, _).
     Some (a, r, g, b)))))))"

definition on_timeline :: "string \<Rightarrow> (timeline \<Rightarrow> timeline) \<Rightarrow> timelines \<Rightarrow> timelines" where
  \<comment> \<open>\<open>timelines.get(name)\<close> and then a change of the object\<close>
  "on_timeline name f ts = (let (i, ts') = timelines_get name ts in ts'[i := f (ts' ! i)])"

definition record_range :: "string \<Rightarrow> string \<Rightarrow> data_range \<Rightarrow> timelines \<Rightarrow> timelines" where
  "record_range tn rn r = on_timeline tn (\<lambda>t.
     let (i, rs) = get_range rn (tl_ranges t) in t\<lparr>tl_ranges := rs[i := add_range r (rs ! i)]\<rparr>)"

definition record_event_str :: "string \<Rightarrow> string \<Rightarrow> string event \<Rightarrow> timelines \<Rightarrow> timelines" where
  "record_event_str tn en e = on_timeline tn (\<lambda>t.
     let (i, es) = get_event_str en (tl_event_str t) in t\<lparr>tl_event_str := es[i := add_event e (es ! i)]\<rparr>)"

definition record_event_int :: "string \<Rightarrow> string \<Rightarrow> int event \<Rightarrow> timelines \<Rightarrow> timelines" where
  "record_event_int tn en e = on_timeline tn (\<lambda>t.
     let (i, es) = get_event_int en (tl_event_int t) in t\<lparr>tl_event_int := es[i := add_event e (es ! i)]\<rparr>)"

definition read_line :: "string \<Rightarrow> colors \<times> timelines \<Rightarrow> colors \<times> timelines" where
  \<comment> \<open>the channels are divided by 255 as integers\<close>
  "read_line line st = (case st of (cs, ts) \<Rightarrow>
     case match_range line of
       Some (tn, rn, v, a, b) \<Rightarrow>
         (cs, record_range tn rn \<lparr>r_start = int a, r_end = int b, r_value = v\<rparr> ts)
     | None \<Rightarrow>
     case match_event_str line of
       Some (tn, en, v, a) \<Rightarrow> (cs, record_event_str tn en \<lparr>ev_at = int a, ev_value = v\<rparr> ts)
     | None \<Rightarrow>
     case match_event_int line of
       Some (tn, en, v, a) \<Rightarrow> (cs, record_event_int tn en \<lparr>ev_at = int a, ev_value = int v\<rparr> ts)
     | None \<Rightarrow>
     case match_color line of
       Some (name, r, g, b) \<Rightarrow>
         (color_add name (mk_color (int r div 255) (int g div 255) (int b div 255)) cs, ts)
     | None \<Rightarrow> (cs, ts))"

definition read_data :: "string list \<Rightarrow> colors \<times> timelines" where
  "read_data lines = (let (cs, ts) = fold read_line lines (new_colors, []) in (cs, timelines_sort ts))"

section \<open>Sorting\<close>

lemma insort_cmp_key:
  assumes "\<And>a b. cmp a b \<le> 0 \<longleftrightarrow> key a \<le> (key b :: int)"
  shows "insort_cmp cmp x xs = insort_key key x xs"
  using assms by (induction xs) auto

lemma sort_cmp_key:
  assumes "\<And>a b. cmp a b \<le> 0 \<longleftrightarrow> key a \<le> (key b :: int)"
  shows "sort_cmp cmp xs = sort_key key xs"
proof -
  have "insort_cmp cmp = insort_key key"
    by (intro ext) (rule insort_cmp_key, rule assms)
  then show ?thesis by (simp add: sort_cmp_def sort_key_def)
qed

lemma sort_ranges [simp]: "sort_cmp ranges_cmp rs = sort_key r_start rs"
  by (rule sort_cmp_key) (simp add: ranges_cmp_def Let_def)

lemma sort_events [simp]: "sort_cmp events_cmp es = sort_key ev_at es"
  by (rule sort_cmp_key) (simp add: events_cmp_def Let_def)

section \<open>Binary search\<close>

text \<open>
  The interface of a binary search loop over positions: \<open>hit i\<close> and \<open>below i\<close> compare the key
  with the item at \<open>i\<close>; the loop ends with \<open>found\<close> or \<open>miss\<close>. It is what the searches of
  \<open>TimelineDataRange\<close> and \<open>TimelineEvent\<close> have in common.
\<close>

definition search_outcome :: "(int \<Rightarrow> bool) \<Rightarrow> (int \<Rightarrow> bool) \<Rightarrow> (int \<Rightarrow> int)
    \<Rightarrow> int \<Rightarrow> int \<Rightarrow> int \<Rightarrow> int \<Rightarrow> int \<Rightarrow> bool" where
  \<comment> \<open>a hit between \<open>l\<close> and \<open>u\<close>, or the border in \<open>lo..<hi\<close> between the items before and
    after the key\<close>
  "search_outcome hit below miss lo hi l u r \<longleftrightarrow>
     (\<exists>i. l \<le> i \<and> i \<le> u \<and> hit i \<and> r = i) \<or>
     (\<exists>p. l \<le> p \<and> p \<le> u + 1 \<and> r = miss p \<and>
        (\<forall>j. lo \<le> j \<longrightarrow> j < p \<longrightarrow> \<not> hit j \<and> \<not> below j) \<and> (\<forall>j. p \<le> j \<longrightarrow> j < hi \<longrightarrow> below j \<and> \<not> hit j))"

lemma search_outcome_mono:
  assumes "search_outcome hit below miss lo hi l' u' r" and "l \<le> l'" and "u' \<le> u"
  shows "search_outcome hit below miss lo hi l u r"
proof -
  consider (hit) i where "l' \<le> i" "i \<le> u'" "hit i" "r = i"
    | (miss) p where "l' \<le> p" "p \<le> u' + 1" "r = miss p" "\<forall>j. lo \<le> j \<longrightarrow> j < p \<longrightarrow> \<not> hit j \<and> \<not> below j"
        "\<forall>j. p \<le> j \<longrightarrow> j < hi \<longrightarrow> below j \<and> \<not> hit j"
    using assms(1) unfolding search_outcome_def by blast
  then show ?thesis
  proof cases
    case hit
    moreover have "l \<le> i" "i \<le> u" using hit(1,2) assms(2,3) by linarith+
    ultimately show ?thesis unfolding search_outcome_def by blast
  next
    case miss
    moreover have "l \<le> p" "p \<le> u + 1" using miss(1,2) assms(2,3) by linarith+
    ultimately show ?thesis unfolding search_outcome_def by blast
  qed
qed

locale bisection =
  fixes srch :: "int \<Rightarrow> int \<Rightarrow> int"
    and hit :: "int \<Rightarrow> bool"
    and below :: "int \<Rightarrow> bool"
    and miss :: "int \<Rightarrow> int"
  assumes loop: "srch l u = (if l \<le> u then
      if hit ((l + u) div 2) then (l + u) div 2
      else if below ((l + u) div 2) then srch l ((l + u) div 2 - 1) else srch ((l + u) div 2 + 1) u
    else miss l)"
begin

lemma search_between:
  assumes "l \<le> u + 1" "lo \<le> l" "u < hi"
    and down: "\<And>i j. lo \<le> i \<Longrightarrow> i \<le> j \<Longrightarrow> j < hi \<Longrightarrow> below i \<Longrightarrow> \<not> hit i \<Longrightarrow> below j \<and> \<not> hit j"
    and up: "\<And>i j. lo \<le> i \<Longrightarrow> i \<le> j \<Longrightarrow> j < hi \<Longrightarrow> \<not> hit j \<Longrightarrow> \<not> below j \<Longrightarrow> \<not> hit i \<and> \<not> below i"
    and "\<And>j. lo \<le> j \<Longrightarrow> j < l \<Longrightarrow> \<not> hit j \<and> \<not> below j"
    and "\<And>j. u < j \<Longrightarrow> j < hi \<Longrightarrow> below j \<and> \<not> hit j"
  shows "search_outcome hit below miss lo hi l u (srch l u)"
  using assms(1-3,6,7)
proof (induction "nat (u + 1 - l)" arbitrary: l u rule: less_induct)
  case less
  define i where "i = (l + u) div 2"
  consider "u < l" | "l \<le> u" "hit i" | "l \<le> u" "\<not> hit i" "below i" | "l \<le> u" "\<not> hit i" "\<not> below i"
    by linarith
  then show ?case
  proof cases
    case 1
    with less.prems(1) have l: "l = u + 1" by simp
    have "srch l u = miss l" using 1 by (subst loop) simp
    with l less.prems(4,5) show ?thesis unfolding search_outcome_def
      by (intro disjI2 exI [of _ l]) auto
  next
    case 2
    then have "srch l u = i" "l \<le> i" "i \<le> u" by (simp_all add: loop [of l u] i_def)
    with 2 show ?thesis unfolding search_outcome_def by blast
  next
    case 3
    then have i: "l \<le> i" "i \<le> u" and eq: "srch l u = srch l (i - 1)"
      by (simp_all add: loop [of l u] i_def)
    have "search_outcome hit below miss lo hi l (i - 1) (srch l (i - 1))"
    proof (rule less.hyps)
      show "below j \<and> \<not> hit j" if "i - 1 < j" "j < hi" for j
        using down [of i j] that 3 i less.prems(2) by auto
    qed (use i less.prems in auto)
    then show ?thesis unfolding eq by (rule search_outcome_mono) (use i in simp_all)
  next
    case 4
    then have i: "l \<le> i" "i \<le> u" and eq: "srch l u = srch (i + 1) u"
      by (simp_all add: loop [of l u] i_def)
    have "search_outcome hit below miss lo hi (i + 1) u (srch (i + 1) u)"
    proof (rule less.hyps)
      show "\<not> hit j \<and> \<not> below j" if "lo \<le> j" "j < i + 1" for j
        using up [of j i] that 4 i less.prems(3) by auto
    qed (use i less.prems in auto)
    then show ?thesis unfolding eq by (rule search_outcome_mono) (use i in simp_all)
  qed
qed

lemma search_all:
  assumes "0 \<le> n"
    and "\<And>i j. 0 \<le> i \<Longrightarrow> i \<le> j \<Longrightarrow> j < n \<Longrightarrow> below i \<Longrightarrow> \<not> hit i \<Longrightarrow> below j \<and> \<not> hit j"
    and "\<And>i j. 0 \<le> i \<Longrightarrow> i \<le> j \<Longrightarrow> j < n \<Longrightarrow> \<not> hit j \<Longrightarrow> \<not> below j \<Longrightarrow> \<not> hit i \<and> \<not> below i"
  shows "search_outcome hit below miss 0 n 0 (n - 1) (srch 0 (n - 1))"
proof (rule search_between)
  show "0 \<le> n - 1 + 1" "(0::int) \<le> 0" "n - 1 < n" using assms(1) by simp_all
  show "below j \<and> \<not> hit j" if "0 \<le> i" "i \<le> j" "j < n" "below i" "\<not> hit i" for i j
    using that by (rule assms(2))
  show "\<not> hit i \<and> \<not> below i" if "0 \<le> i" "i \<le> j" "j < n" "\<not> hit j" "\<not> below j" for i j
    using that by (rule assms(3))
  show "\<not> hit j \<and> \<not> below j" if "0 \<le> j" "j < 0" for j using that by linarith
  show "below j \<and> \<not> hit j" if "n - 1 < j" "j < n" for j using that by linarith
qed

end

interpretation range_bisection: bisection
    "range_search_loop rs key"
    "\<lambda>i. key \<ge> of_int (r_start (rs ! nat i)) \<and> key \<le> of_int (r_end (rs ! nat i))"
    "\<lambda>i. key < of_int (r_start (rs ! nat i))" "\<lambda>_. - 1" for rs key
  by unfold_locales (rule trans [OF range_search_loop.simps], simp only: Let_def)

interpretation event_bisection: bisection
    "event_search_loop es key" "\<lambda>i. key = of_int (ev_at (es ! nat i))"
    "\<lambda>i. key < of_int (ev_at (es ! nat i))" "\<lambda>p. p" for es key
  by unfold_locales (rule trans [OF event_search_loop.simps], simp only: Let_def)

section \<open>Named registries\<close>

text \<open>
  The interface of the \<open>get\<close> methods of \<open>Timeline\<close> and \<open>Timelines\<close>: the result names the first
  object of the name, and the list grows by a new object exactly when there was none.
\<close>

locale registry =
  fixes name_of :: "'o \<Rightarrow> string"
    and create :: "string \<Rightarrow> 'o"
    and get :: "string \<Rightarrow> 'o list \<Rightarrow> nat \<times> 'o list"
  assumes get_hit: "get n xs = (i, xs') \<Longrightarrow>
      i < length xs' \<and> name_of (xs' ! i) = n \<and> (\<forall>j < i. name_of (xs' ! j) \<noteq> n)"
    and get_frame: "get n xs = (i, xs') \<Longrightarrow>
      xs' = xs \<or> xs' = xs @ [create n] \<and> (\<forall>x \<in> set xs. name_of x \<noteq> n)"
begin

abbreviation look :: "string \<Rightarrow> 'o list \<Rightarrow> 'o option" where
  "look n xs \<equiv> find (\<lambda>x. name_of x = n) xs"

lemma look_get:
  assumes "get n xs = (i, xs')"
  shows "xs' ! i = (case look n xs of None \<Rightarrow> create n | Some x \<Rightarrow> x)"
proof (cases "xs' = xs")
  case True
  with get_hit [OF assms] have "look n xs = Some (xs ! i)"
    unfolding find_Some_iff by blast
  with True show ?thesis by simp
next
  case False
  with get_frame [OF assms] have new: "xs' = xs @ [create n]" "\<forall>x \<in> set xs. name_of x \<noteq> n" by auto
  then have "look n xs = None" by (simp add: find_None_iff)
  moreover have "\<not> i < length xs"
  proof
    assume "i < length xs"
    with new have "name_of (xs' ! i) \<noteq> n" by (simp add: nth_append)
    with get_hit [OF assms] show False by simp
  qed
  then have "i = length xs" using get_hit [OF assms] new(1) by simp
  ultimately show ?thesis using new(1) by simp
qed

lemma look_modify:
  assumes "get n xs = (i, xs')" and "name_of y = n"
  shows "look m (xs'[i := y]) = (if m = n then Some y else look m xs)"
proof (cases "m = n")
  case True
  have "look n (xs'[i := y]) = Some y"
    unfolding find_Some_iff using get_hit [OF assms(1)] assms(2)
    by (intro exI [of _ i]) auto
  with True show ?thesis by simp
next
  case False
  have upd: "look m (zs[k := y]) = look m zs" if "name_of (zs ! k) = n" for zs k
    using that False assms(2) by (induction zs arbitrary: k) (auto split: nat.split)
  have "look m xs' = look m xs"
  proof (cases "xs' = xs")
    case diff: False
    with get_frame [OF assms(1)] have new: "xs' = xs @ [create n]" "\<forall>x \<in> set xs. name_of x \<noteq> n" by auto
    have "look n xs = None" using new(2) by (simp add: find_None_iff)
    then have "name_of (create n) = n" using look_get [OF assms(1)] get_hit [OF assms(1)] by simp
    with new(1) False show ?thesis by (induction xs arbitrary: xs') auto
  qed simp
  with upd [of xs' i] get_hit [OF assms(1)] False show ?thesis by simp
qed

lemma names_modify:
  assumes "get n xs = (i, xs')" and "name_of y = n" and "distinct (map name_of xs)"
  shows "distinct (map name_of (xs'[i := y]))" "set (map name_of (xs'[i := y])) = insert n (set (map name_of xs))"
proof -
  have "map name_of (xs'[i := y]) = map name_of xs'"
    using get_hit [OF assms(1)] assms(2) by (metis list_update_id map_update)
  moreover have "name_of (create n) = n" if "xs' = xs @ [create n]" "\<forall>x \<in> set xs. name_of x \<noteq> n"
  proof -
    have "look n xs = None" using that(2) by (simp add: find_None_iff)
    then show ?thesis using look_get [OF assms(1)] get_hit [OF assms(1)] by simp
  qed
  moreover have "n \<in> set (map name_of xs')" using get_hit [OF assms(1)] by force
  ultimately show "distinct (map name_of (xs'[i := y]))"
      "set (map name_of (xs'[i := y])) = insert n (set (map name_of xs))"
    using get_frame [OF assms(1)] assms(3) by (force simp del: list_update_append)+
qed

end

lemma find_or_add_hit:
  assumes "\<And>n. name_of (create n) = n" and "find_or_add name_of create n xs = (i, xs')"
  shows "i < length xs' \<and> name_of (xs' ! i) = n \<and> (\<forall>j < i. name_of (xs' ! j) \<noteq> n)"
  using assms(2)
proof (induction xs arbitrary: i xs')
  case Nil
  with assms(1) show ?case by auto
next
  case (Cons x xs)
  show ?case
  proof (cases "name_of x = n")
    case True
    with Cons.prems show ?thesis by auto
  next
    case False
    with Cons.prems obtain k ys where k: "find_or_add name_of create n xs = (k, ys)" "i = Suc k" "xs' = x # ys"
      by (auto split: prod.splits)
    with Cons.IH [OF k(1)] False show ?thesis by (auto simp: less_Suc_eq_0_disj)
  qed
qed

lemma find_or_add_frame:
  "find_or_add name_of create n xs = (i, xs') \<Longrightarrow>
     xs' = xs \<or> xs' = xs @ [create n] \<and> (\<forall>x \<in> set xs. name_of x \<noteq> n)"
  by (induction xs arbitrary: i xs') (fastforce split: if_splits prod.splits)+

interpretation range_registry: registry tr_name new_timeline_range get_range
  unfolding get_range_def
  by unfold_locales (auto intro!: find_or_add_hit dest: find_or_add_frame simp: new_timeline_range_def)

interpretation event_str_registry: registry te_name new_timeline_event get_event_str
  unfolding get_event_str_def
  by unfold_locales (auto intro!: find_or_add_hit dest: find_or_add_frame simp: new_timeline_event_def)

interpretation event_int_registry: registry te_name new_timeline_event get_event_int
  unfolding get_event_int_def
  by unfold_locales (auto intro!: find_or_add_hit dest: find_or_add_frame simp: new_timeline_event_def)

interpretation timeline_registry: registry tl_name new_timeline timelines_get
  unfolding timelines_get_def
  by unfold_locales (auto intro!: find_or_add_hit dest: find_or_add_frame simp: new_timeline_def)

section \<open>Window queries\<close>

definition separate :: "data_range list \<Rightarrow> bool" where
  \<comment> \<open>in order and without overlap\<close>
  "separate rs \<longleftrightarrow> sorted_wrt (\<lambda>a b. r_end a < r_start b) rs \<and> (\<forall>r \<in> set rs. r_start r \<le> r_end r)"

definition inside :: "data_range list \<Rightarrow> rat \<Rightarrow> bool" where
  "inside rs key \<longleftrightarrow> (\<exists>r \<in> set rs. of_int (r_start r) \<le> key \<and> key \<le> of_int (r_end r))"

lemma separate_nth:
  assumes "separate rs" "i < length rs" "j < length rs"
  shows "i < j \<Longrightarrow> r_end (rs ! i) < r_start (rs ! j)" "r_start (rs ! i) \<le> r_end (rs ! i)"
  using assms by (auto simp: separate_def sorted_wrt_iff_nth_less)

lemma separate_mono:
  assumes "separate rs" "i \<le> j" "j < length rs"
  shows "r_start (rs ! i) \<le> r_start (rs ! j)" "r_end (rs ! i) \<le> r_end (rs ! j)"
  using separate_nth [OF assms(1), of i j] separate_nth(2) [OF assms(1), of j j] assms(2,3)
  by (cases "i = j"; force)+

lemma range_search_spec:
  assumes "separate (tr_ranges t)"
  shows "(\<exists>i < length (tr_ranges t). range_search t key = int i \<and>
           of_int (r_start (tr_ranges t ! i)) \<le> key \<and> key \<le> of_int (r_end (tr_ranges t ! i))) \<or>
    (range_search t key = - 1 \<and> \<not> inside (tr_ranges t) key)"
proof -
  let ?rs = "tr_ranges t" and ?n = "int (length (tr_ranges t))"
  let ?hit = "\<lambda>i. key \<ge> of_int (r_start (?rs ! nat i)) \<and> key \<le> of_int (r_end (?rs ! nat i))"
  let ?below = "\<lambda>i. key < of_int (r_start (?rs ! nat i))"
  have pos: "nat i \<le> nat j" "nat j < length ?rs" if "i \<le> j" "0 \<le> i" "j < ?n" for i j
    using that by linarith+
  have starts: "(of_int (r_start (?rs ! nat i)) :: rat) \<le> of_int (r_start (?rs ! nat j))"
    if "0 \<le> i" "i \<le> j" "j < ?n" for i j
    using separate_mono(1) [OF assms pos [of i j]] that by simp
  have ends: "(of_int (r_end (?rs ! nat i)) :: rat) \<le> of_int (r_end (?rs ! nat j))"
    if "0 \<le> i" "i \<le> j" "j < ?n" for i j
    using separate_mono(2) [OF assms pos [of i j]] that by simp
  have se: "(of_int (r_start (?rs ! nat i)) :: rat) \<le> of_int (r_end (?rs ! nat i))" if "0 \<le> i" "i < ?n" for i
    using separate_nth(2) [OF assms, of "nat i" "nat i"] that by (simp add: nat_less_iff)
  have "search_outcome ?hit ?below (\<lambda>_. - 1) 0 ?n 0 (?n - 1) (range_search t key)"
    unfolding range_search_def
  proof (rule range_bisection.search_all)
    show "?below j \<and> \<not> ?hit j" if "0 \<le> i" "i \<le> j" "j < ?n" "?below i" "\<not> ?hit i" for i j
      using starts [of i j] that by simp
    show "\<not> ?hit i \<and> \<not> ?below i" if "0 \<le> i" "i \<le> j" "j < ?n" "\<not> ?hit j" "\<not> ?below j" for i j
    proof -
      have "of_int (r_end (?rs ! nat j)) < key" using that(4,5) by simp
      then have e: "of_int (r_end (?rs ! nat i)) < key" using ends [of i j] that(1-3) by simp
      then have "of_int (r_start (?rs ! nat i)) < key" using se [of i] that(1-3) by simp
      with e show ?thesis by simp
    qed
  qed simp
  then consider (hit) i where "0 \<le> i" "i \<le> ?n - 1" "?hit i" "range_search t key = i"
    | (miss) p where "0 \<le> p" "range_search t key = - 1" "\<And>j. 0 \<le> j \<Longrightarrow> j < p \<Longrightarrow> \<not> ?hit j"
        "\<And>j. p \<le> j \<Longrightarrow> j < ?n \<Longrightarrow> \<not> ?hit j"
    unfolding search_outcome_def by blast
  then show ?thesis
  proof cases
    case hit
    then show ?thesis by (intro disjI1 exI [of _ "nat i"]) auto
  next
    case miss
    have "\<not> ?hit (int k)" if "k < length ?rs" for k
      using miss(3) [of "int k"] miss(4) [of "int k"] that by (cases "int k < p") auto
    then show ?thesis using miss(2) by (auto simp: inside_def in_set_conv_nth)
  qed
qed

lemma range_index_unique:
  assumes "separate rs" "i < length rs" "of_int (r_start (rs ! i)) \<le> key" "key \<le> of_int (r_end (rs ! i))"
    "j < length rs"
  shows "key \<le> (of_int (r_end (rs ! j)) :: rat) \<longleftrightarrow> i \<le> j" "of_int (r_start (rs ! j)) \<le> key \<longleftrightarrow> j \<le> i"
proof -
  have a: "(of_int (r_end (rs ! k)) :: rat) < of_int (r_start (rs ! m))" if "k < m" "m < length rs" for k m
    using separate_nth(1) [OF assms(1), of k m] that by simp
  have b: "(of_int (r_start (rs ! k)) :: rat) \<le> of_int (r_end (rs ! k))" if "k < length rs" for k
    using separate_nth(2) [OF assms(1), of k k] that by simp
  have e: "key \<le> (of_int (r_end (rs ! j)) :: rat)" if "i \<le> j"
    using a [of i j] b [of j] assms(4,5) that by (cases "i = j") auto
  have e': "(of_int (r_end (rs ! j)) :: rat) < key" if "j < i"
    using a [of j i] assms(2,3) that by auto
  have s: "of_int (r_start (rs ! j)) \<le> key" if "j \<le> i"
    using a [of j i] b [of j] assms(2,3,5) that by (cases "i = j") auto
  have s': "key < of_int (r_start (rs ! j))" if "i < j"
    using a [of i j] assms(4,5) that by auto
  show "key \<le> (of_int (r_end (rs ! j)) :: rat) \<longleftrightarrow> i \<le> j" using e e' by (metis not_le)
  show "of_int (r_start (rs ! j)) \<le> key \<longleftrightarrow> j \<le> i" using s s' by (metis not_le)
qed

lemma event_search_spec:
  assumes "sorted_wrt (<) (map ev_at (te_events t))"
  shows "\<exists>p \<le> length (te_events t). event_search t key = int p \<and>
    (\<forall>j < length (te_events t). (of_int (ev_at (te_events t ! j)) < key \<longleftrightarrow> j < p) \<and>
       (of_int (ev_at (te_events t ! j)) = key \<longrightarrow> j = p))"
proof -
  let ?es = "te_events t" and ?n = "int (length (te_events t))"
  let ?a = "\<lambda>i. of_int (ev_at (?es ! nat i)) :: rat"
  have mono: "?a i < ?a j" if "0 \<le> i" "i < j" "j < ?n" for i j
    using assms that by (simp add: sorted_wrt_map sorted_wrt_iff_nth_less nat_less_iff)
  have "search_outcome (\<lambda>i. key = ?a i) (\<lambda>i. key < ?a i) (\<lambda>p. p) 0 ?n 0 (?n - 1) (event_search t key)"
    unfolding event_search_def
  proof (rule event_bisection.search_all)
    show "key < ?a j \<and> key \<noteq> ?a j" if "0 \<le> i" "i \<le> j" "j < ?n" "key < ?a i" "key \<noteq> ?a i" for i j
      using mono [of i j] that by (cases "i = j") auto
    show "key \<noteq> ?a i \<and> \<not> key < ?a i" if "0 \<le> i" "i \<le> j" "j < ?n" "key \<noteq> ?a j" "\<not> key < ?a j" for i j
      using mono [of i j] that by (cases "i = j") auto
  qed simp
  then consider (hit) i where "0 \<le> i" "i \<le> ?n - 1" "key = ?a i" "event_search t key = i"
    | (miss) p where "0 \<le> p" "p \<le> ?n" "event_search t key = p" "\<And>j. 0 \<le> j \<Longrightarrow> j < p \<Longrightarrow> key \<noteq> ?a j \<and> \<not> key < ?a j"
        "\<And>j. p \<le> j \<Longrightarrow> j < ?n \<Longrightarrow> key < ?a j \<and> key \<noteq> ?a j"
    unfolding search_outcome_def by force
  then show ?thesis
  proof cases
    case hit
    have "(?a (int j) < key \<longleftrightarrow> j < nat i) \<and> (?a (int j) = key \<longrightarrow> j = nat i)" if "j < length ?es" for j
    proof -
      consider "int j < i" | "int j = i" | "i < int j" by linarith
      then show ?thesis
        using mono [of "int j" i] mono [of i "int j"] hit that by cases auto
    qed
    with hit show ?thesis by (intro exI [of _ "nat i"]) auto
  next
    case miss
    have "(?a (int j) < key \<longleftrightarrow> j < nat p) \<and> (?a (int j) = key \<longrightarrow> j = nat p)" if "j < length ?es" for j
      using miss(4) [of "int j"] miss(5) [of "int j"] that miss(1) by (cases "int j < p") auto
    with miss(1-3) show ?thesis by (intro exI [of _ "nat p"]) auto
  qed
qed

section \<open>The contents of a trace\<close>

definition ranges_of :: "string \<Rightarrow> string \<Rightarrow> timelines \<Rightarrow> data_range list" where
  "ranges_of tn rn ts = (case timeline_registry.look tn ts of None \<Rightarrow> []
     | Some t \<Rightarrow> (case range_registry.look rn (tl_ranges t) of None \<Rightarrow> [] | Some r \<Rightarrow> tr_ranges r))"

definition events_str_of :: "string \<Rightarrow> string \<Rightarrow> timelines \<Rightarrow> string event list" where
  "events_str_of tn en ts = (case timeline_registry.look tn ts of None \<Rightarrow> []
     | Some t \<Rightarrow> (case event_str_registry.look en (tl_event_str t) of None \<Rightarrow> [] | Some r \<Rightarrow> te_events r))"

definition events_int_of :: "string \<Rightarrow> string \<Rightarrow> timelines \<Rightarrow> int event list" where
  "events_int_of tn en ts = (case timeline_registry.look tn ts of None \<Rightarrow> []
     | Some t \<Rightarrow> (case event_int_registry.look en (tl_event_int t) of None \<Rightarrow> [] | Some r \<Rightarrow> te_events r))"

text \<open>What one line of the file contributes.\<close>

definition line_ranges :: "string \<Rightarrow> string \<Rightarrow> string \<Rightarrow> data_range list" where
  "line_ranges tn rn line = (case match_range line of None \<Rightarrow> [] | Some (a, b, v, s, e) \<Rightarrow>
     if a = tn \<and> b = rn then [\<lparr>r_start = int s, r_end = int e, r_value = v\<rparr>] else [])"

definition line_events_str :: "string \<Rightarrow> string \<Rightarrow> string \<Rightarrow> string event list" where
  "line_events_str tn en line = (case match_event_str line of None \<Rightarrow> [] | Some (a, b, v, s) \<Rightarrow>
     if a = tn \<and> b = en then [\<lparr>ev_at = int s, ev_value = v\<rparr>] else [])"

definition line_events_int :: "string \<Rightarrow> string \<Rightarrow> string \<Rightarrow> int event list" where
  "line_events_int tn en line = (case match_event_int line of None \<Rightarrow> [] | Some (a, b, v, s) \<Rightarrow>
     if a = tn \<and> b = en then [\<lparr>ev_at = int s, ev_value = int v\<rparr>] else [])"

lemma match_exclusive:
  "match_range line = Some x \<Longrightarrow> match_event_str line = None"
  "match_range line = Some x \<Longrightarrow> match_event_int line = None"
  "match_event_str line = Some y \<Longrightarrow> match_event_int line = None"
  by (auto simp: match_range_def match_event_str_def match_event_int_def tok_lit_def bind_eq_Some_conv
      prefix_def split: if_splits)

lemma tl_name_simps [simp]:
  "tl_name (new_timeline n) = n" "tl_ranges (new_timeline n) = []"
  "tl_event_str (new_timeline n) = []" "tl_event_int (new_timeline n) = []"
  "tr_name (new_timeline_range n) = n" "tr_ranges (new_timeline_range n) = []"
  "te_name (new_timeline_event n) = n" "te_events (new_timeline_event n) = []"
  by (simp_all add: new_timeline_def new_timeline_range_def new_timeline_event_def)

lemma on_timeline_look:
  assumes "\<And>t. tl_name (f t) = tl_name t"
  shows "timeline_registry.look m (on_timeline n f ts) =
    (if m = n then Some (f (case timeline_registry.look n ts of None \<Rightarrow> new_timeline n | Some t \<Rightarrow> t))
     else timeline_registry.look m ts)"
proof -
  obtain i ts' where g: "timelines_get n ts = (i, ts')" by fastforce
  then have "tl_name (f (ts' ! i)) = n" using timeline_registry.get_hit [OF g] assms by simp
  from timeline_registry.look_modify [OF g this, of m] show ?thesis
    using g timeline_registry.look_get [OF g] by (simp add: on_timeline_def)
qed

text \<open>The three kinds of record go through the same two registries.\<close>

lemma ranges_of_on_timeline:
  assumes "\<And>t. tl_name (f t) = tl_name t"
  shows "ranges_of a b (on_timeline n f ts) =
    (if a = n then (case range_registry.look b (tl_ranges (f (case timeline_registry.look n ts of
         None \<Rightarrow> new_timeline n | Some t \<Rightarrow> t))) of None \<Rightarrow> [] | Some r \<Rightarrow> tr_ranges r)
     else ranges_of a b ts)"
  by (simp add: ranges_of_def on_timeline_look [OF assms])

lemma events_str_of_on_timeline:
  assumes "\<And>t. tl_name (f t) = tl_name t"
  shows "events_str_of a b (on_timeline n f ts) =
    (if a = n then (case event_str_registry.look b (tl_event_str (f (case timeline_registry.look n ts of
         None \<Rightarrow> new_timeline n | Some t \<Rightarrow> t))) of None \<Rightarrow> [] | Some r \<Rightarrow> te_events r)
     else events_str_of a b ts)"
  by (simp add: events_str_of_def on_timeline_look [OF assms])

lemma events_int_of_on_timeline:
  assumes "\<And>t. tl_name (f t) = tl_name t"
  shows "events_int_of a b (on_timeline n f ts) =
    (if a = n then (case event_int_registry.look b (tl_event_int (f (case timeline_registry.look n ts of
         None \<Rightarrow> new_timeline n | Some t \<Rightarrow> t))) of None \<Rightarrow> [] | Some r \<Rightarrow> te_events r)
     else events_int_of a b ts)"
  by (simp add: events_int_of_def on_timeline_look [OF assms])

definition add_to_ranges :: "string \<Rightarrow> data_range \<Rightarrow> timeline \<Rightarrow> timeline" where
  "add_to_ranges rn r t =
     (let (i, rs) = get_range rn (tl_ranges t) in t\<lparr>tl_ranges := rs[i := add_range r (rs ! i)]\<rparr>)"

definition add_to_event_str :: "string \<Rightarrow> string event \<Rightarrow> timeline \<Rightarrow> timeline" where
  "add_to_event_str en e t =
     (let (i, es) = get_event_str en (tl_event_str t) in t\<lparr>tl_event_str := es[i := add_event e (es ! i)]\<rparr>)"

definition add_to_event_int :: "string \<Rightarrow> int event \<Rightarrow> timeline \<Rightarrow> timeline" where
  "add_to_event_int en e t =
     (let (i, es) = get_event_int en (tl_event_int t) in t\<lparr>tl_event_int := es[i := add_event e (es ! i)]\<rparr>)"

lemma record_folds:
  "record_range tn rn r = on_timeline tn (add_to_ranges rn r)"
  "record_event_str tn en e = on_timeline tn (add_to_event_str en e)"
  "record_event_int tn en e' = on_timeline tn (add_to_event_int en e')"
  by (simp_all add: record_range_def record_event_str_def record_event_int_def
      add_to_ranges_def [abs_def] add_to_event_str_def [abs_def] add_to_event_int_def [abs_def])

lemma add_to_frame [simp]:
  "tl_name (add_to_ranges rn r t) = tl_name t" "tl_event_str (add_to_ranges rn r t) = tl_event_str t"
  "tl_event_int (add_to_ranges rn r t) = tl_event_int t"
  "tl_name (add_to_event_str en e t) = tl_name t" "tl_ranges (add_to_event_str en e t) = tl_ranges t"
  "tl_event_int (add_to_event_str en e t) = tl_event_int t"
  "tl_name (add_to_event_int en e' t) = tl_name t" "tl_ranges (add_to_event_int en e' t) = tl_ranges t"
  "tl_event_str (add_to_event_int en e' t) = tl_event_str t"
  by (simp_all add: add_to_ranges_def add_to_event_str_def add_to_event_int_def case_prod_beta)

lemma add_to_ranges_look:
  "range_registry.look b (tl_ranges (add_to_ranges rn r t)) =
    (if b = rn then Some (add_range r (case range_registry.look rn (tl_ranges t) of
       None \<Rightarrow> new_timeline_range rn | Some x \<Rightarrow> x))
     else range_registry.look b (tl_ranges t))"
proof -
  obtain i rs where g: "get_range rn (tl_ranges t) = (i, rs)" by fastforce
  then have "tr_name (add_range r (rs ! i)) = rn"
    using range_registry.get_hit [OF g] by (simp add: add_range_def)
  from range_registry.look_modify [OF g this, of b] show ?thesis
    using range_registry.look_get [OF g] by (simp add: add_to_ranges_def g)
qed

lemma add_to_event_str_look:
  "event_str_registry.look b (tl_event_str (add_to_event_str en e t)) =
    (if b = en then Some (add_event e (case event_str_registry.look en (tl_event_str t) of
       None \<Rightarrow> new_timeline_event en | Some x \<Rightarrow> x))
     else event_str_registry.look b (tl_event_str t))"
proof -
  obtain i es where g: "get_event_str en (tl_event_str t) = (i, es)" by fastforce
  then have "te_name (add_event e (es ! i)) = en"
    using event_str_registry.get_hit [OF g] by (simp add: add_event_def)
  from event_str_registry.look_modify [OF g this, of b] show ?thesis
    using event_str_registry.look_get [OF g] by (simp add: add_to_event_str_def g)
qed

lemma add_to_event_int_look:
  "event_int_registry.look b (tl_event_int (add_to_event_int en e t)) =
    (if b = en then Some (add_event e (case event_int_registry.look en (tl_event_int t) of
       None \<Rightarrow> new_timeline_event en | Some x \<Rightarrow> x))
     else event_int_registry.look b (tl_event_int t))"
proof -
  obtain i es where g: "get_event_int en (tl_event_int t) = (i, es)" by fastforce
  then have "te_name (add_event e (es ! i)) = en"
    using event_int_registry.get_hit [OF g] by (simp add: add_event_def)
  from event_int_registry.look_modify [OF g this, of b] show ?thesis
    using event_int_registry.look_get [OF g] by (simp add: add_to_event_int_def g)
qed

lemma record_range_contents:
  "ranges_of a b (record_range tn rn r ts) = ranges_of a b ts @ (if a = tn \<and> b = rn then [r] else [])"
  "events_str_of a b (record_range tn rn r ts) = events_str_of a b ts"
  "events_int_of a b (record_range tn rn r ts) = events_int_of a b ts"
  unfolding record_folds
  by (subst ranges_of_on_timeline events_str_of_on_timeline events_int_of_on_timeline,
      simp, simp add: add_to_ranges_look ranges_of_def events_str_of_def events_int_of_def add_range_def
        split: option.split)+

lemma record_event_str_contents:
  "ranges_of a b (record_event_str tn en e ts) = ranges_of a b ts"
  "events_str_of a b (record_event_str tn en e ts) = events_str_of a b ts @ (if a = tn \<and> b = en then [e] else [])"
  "events_int_of a b (record_event_str tn en e ts) = events_int_of a b ts"
  unfolding record_folds
  by (subst ranges_of_on_timeline events_str_of_on_timeline events_int_of_on_timeline,
      simp, simp add: add_to_event_str_look ranges_of_def events_str_of_def events_int_of_def add_event_def
        split: option.split)+

lemma record_event_int_contents:
  "ranges_of a b (record_event_int tn en e ts) = ranges_of a b ts"
  "events_str_of a b (record_event_int tn en e ts) = events_str_of a b ts"
  "events_int_of a b (record_event_int tn en e ts) = events_int_of a b ts @ (if a = tn \<and> b = en then [e] else [])"
  unfolding record_folds
  by (subst ranges_of_on_timeline events_str_of_on_timeline events_int_of_on_timeline,
      simp, simp add: add_to_event_int_look ranges_of_def events_str_of_def events_int_of_def add_event_def
        split: option.split)+

lemma read_line_contents:
  "ranges_of a b (snd (read_line line st)) = ranges_of a b (snd st) @ line_ranges a b line"
  "events_str_of a b (snd (read_line line st)) = events_str_of a b (snd st) @ line_events_str a b line"
  "events_int_of a b (snd (read_line line st)) = events_int_of a b (snd st) @ line_events_int a b line"
proof -
  obtain cs ts where st: "st = (cs, ts)" by fastforce
  consider (range) tn rn v x y where "match_range line = Some (tn, rn, v, x, y)"
    | (str) tn en v x where "match_range line = None" "match_event_str line = Some (tn, en, v, x)"
    | (int) tn en v x where "match_range line = None" "match_event_str line = None"
        "match_event_int line = Some (tn, en, v, x)"
    | (other) "match_range line = None" "match_event_str line = None" "match_event_int line = None"
    by (metis prod_cases5 prod_cases4 option.exhaust)
  then have "ranges_of a b (snd (read_line line st)) = ranges_of a b (snd st) @ line_ranges a b line \<and>
    events_str_of a b (snd (read_line line st)) = events_str_of a b (snd st) @ line_events_str a b line \<and>
    events_int_of a b (snd (read_line line st)) = events_int_of a b (snd st) @ line_events_int a b line"
  proof cases
    case range
    with match_exclusive [of line] show ?thesis
      by (auto simp: st read_line_def line_ranges_def line_events_str_def line_events_int_def
          record_range_contents)
  next
    case str
    with match_exclusive(3) [of line] show ?thesis
      by (auto simp: st read_line_def line_ranges_def line_events_str_def line_events_int_def
          record_event_str_contents)
  next
    case int
    then show ?thesis
      by (auto simp: st read_line_def line_ranges_def line_events_str_def line_events_int_def
          record_event_int_contents)
  next
    case other
    then show ?thesis
      by (auto simp: st read_line_def line_ranges_def line_events_str_def line_events_int_def
          split: option.split)
  qed
  then show "ranges_of a b (snd (read_line line st)) = ranges_of a b (snd st) @ line_ranges a b line"
    "events_str_of a b (snd (read_line line st)) = events_str_of a b (snd st) @ line_events_str a b line"
    "events_int_of a b (snd (read_line line st)) = events_int_of a b (snd st) @ line_events_int a b line"
    by blast+
qed

lemma read_lines_contents:
  "ranges_of a b (snd (fold read_line lines st)) = ranges_of a b (snd st) @ concat (map (line_ranges a b) lines)"
  "events_str_of a b (snd (fold read_line lines st)) = events_str_of a b (snd st) @ concat (map (line_events_str a b) lines)"
  "events_int_of a b (snd (fold read_line lines st)) = events_int_of a b (snd st) @ concat (map (line_events_int a b) lines)"
  by (induction lines arbitrary: st) (simp_all add: read_line_contents)

lemma find_map_same: "(\<And>x. P (f x) = P x) \<Longrightarrow> find P (map f xs) = map_option f (find P xs)"
  by (induction xs) auto

lemma sort_names [simp]:
  "tl_name (timeline_sort t) = tl_name t" "tr_name (range_sort r) = tr_name r"
  "te_name (event_sort e) = te_name e"
  by (simp_all add: timeline_sort_def range_sort_def event_sort_def)

lemma sort_contents:
  "ranges_of a b (timelines_sort ts) = sort_key r_start (ranges_of a b ts)"
  "events_str_of a b (timelines_sort ts) = sort_key ev_at (events_str_of a b ts)"
  "events_int_of a b (timelines_sort ts) = sort_key ev_at (events_int_of a b ts)"
proof -
  have "timeline_registry.look a (timelines_sort ts) = map_option timeline_sort (timeline_registry.look a ts)"
    unfolding timelines_sort_def by (rule find_map_same) simp
  moreover have "range_registry.look b (tl_ranges (timeline_sort t)) = map_option range_sort (range_registry.look b (tl_ranges t))"
    "event_str_registry.look b (tl_event_str (timeline_sort t)) = map_option event_sort (event_str_registry.look b (tl_event_str t))"
    "event_int_registry.look b (tl_event_int (timeline_sort t)) = map_option event_sort (event_int_registry.look b (tl_event_int t))" for t
    by (simp_all add: timeline_sort_def find_map_same)
  ultimately show "ranges_of a b (timelines_sort ts) = sort_key r_start (ranges_of a b ts)"
    "events_str_of a b (timelines_sort ts) = sort_key ev_at (events_str_of a b ts)"
    "events_int_of a b (timelines_sort ts) = sort_key ev_at (events_int_of a b ts)"
    by (simp_all add: ranges_of_def events_str_of_def events_int_of_def range_sort_def event_sort_def
        split: option.split)
qed

section \<open>Bounds and colours\<close>

lemma widen_bounds:
  "fst (fold widen bs acc) \<le> fst acc \<and> snd acc \<le> snd (fold widen bs acc) \<and>
   (\<forall>b \<in> set bs. fst (fold widen bs acc) \<le> fst b \<and> snd b \<le> snd (fold widen bs acc))"
proof (induction bs arbitrary: acc)
  case Nil
  then show ?case by simp
next
  case (Cons b bs)
  have w: "fst (widen b acc) \<le> fst acc" "fst (widen b acc) \<le> fst b" "snd acc \<le> snd (widen b acc)"
    "snd b \<le> snd (widen b acc)"
    by (auto simp: widen_def case_prod_beta Let_def)
  from Cons [of "widen b acc"] w show ?case by fastforce
qed

definition inside_of :: "int \<times> int \<Rightarrow> int \<times> int \<Rightarrow> bool" where
  \<comment> \<open>the bounds \<open>b\<close> lie inside \<open>acc\<close>\<close>
  "inside_of b acc \<longleftrightarrow> fst acc \<le> fst b \<and> snd b \<le> snd acc"

lemma inside_of_trans: "inside_of a b \<Longrightarrow> inside_of b c \<Longrightarrow> inside_of a c"
  by (auto simp: inside_of_def)

lemma inside_of_fold: "b \<in> set bs \<Longrightarrow> inside_of b (fold widen bs acc)" "inside_of acc (fold widen bs acc)"
  using widen_bounds [of bs acc] by (auto simp: inside_of_def)

lemma inside_of_timeline:
  "r \<in> set (tl_ranges t) \<Longrightarrow> inside_of (range_get_bounds r) (timeline_get_bounds t)"
  "e \<in> set (tl_event_str t) \<Longrightarrow> inside_of (event_get_bounds e) (timeline_get_bounds t)"
  "e' \<in> set (tl_event_int t) \<Longrightarrow> inside_of (event_get_bounds e') (timeline_get_bounds t)"
  unfolding timeline_get_bounds_def Let_def
proof -
  let ?a = "fold widen (map range_get_bounds (tl_ranges t)) (0, 0)"
  let ?b = "fold widen (map event_get_bounds (tl_event_str t)) ?a"
  let ?c = "fold widen (map event_get_bounds (tl_event_int t)) ?b"
  have ab: "inside_of ?a ?b" and bc: "inside_of ?b ?c" by (rule inside_of_fold(2))+
  show "inside_of (range_get_bounds r) ?c" if "r \<in> set (tl_ranges t)"
    by (rule inside_of_trans [OF inside_of_trans [OF inside_of_fold(1) ab] bc]) (use that in simp)
  show "inside_of (event_get_bounds e) ?c" if "e \<in> set (tl_event_str t)"
    by (rule inside_of_trans [OF inside_of_fold(1) bc]) (use that in simp)
  show "inside_of (event_get_bounds e') ?c" if "e' \<in> set (tl_event_int t)"
    by (rule inside_of_fold(1)) (use that in simp)
qed

lemma inside_of_timelines:
  "t \<in> set ts \<Longrightarrow> inside_of (timeline_get_bounds t) (timelines_get_bounds ts)"
  unfolding timelines_get_bounds_def by (rule inside_of_fold(1)) simp

lemma range_bounds_cover:
  assumes "sorted (map r_start rs)" "r \<in> set rs"
  shows "fst (range_get_bounds \<lparr>tr_name = n, tr_ranges = rs\<rparr>) \<le> r_start r"
    "separate rs \<Longrightarrow> r_end r \<le> snd (range_get_bounds \<lparr>tr_name = n, tr_ranges = rs\<rparr>)"
    "r_end (last rs) = snd (range_get_bounds \<lparr>tr_name = n, tr_ranges = rs\<rparr>)"
proof -
  obtain i where i: "i < length rs" "r = rs ! i" using assms(2) by (auto simp: in_set_conv_nth)
  show "fst (range_get_bounds \<lparr>tr_name = n, tr_ranges = rs\<rparr>) \<le> r_start r"
    using assms(1) i sorted_nth_mono [of "map r_start rs" 0 i]
    by (auto simp: range_get_bounds_def Let_def)
  show "r_end r \<le> snd (range_get_bounds \<lparr>tr_name = n, tr_ranges = rs\<rparr>)" if "separate rs"
    using separate_mono(2) [OF that, of i "length rs - 1"] i
    by (auto simp: range_get_bounds_def Let_def)
  show "r_end (last rs) = snd (range_get_bounds \<lparr>tr_name = n, tr_ranges = rs\<rparr>)"
    using assms(2) by (auto simp: range_get_bounds_def Let_def last_conv_nth)
qed

lemma event_bounds_cover:
  assumes "sorted (map ev_at es)" "e \<in> set es"
  shows "fst (event_get_bounds \<lparr>te_name = n, te_events = es\<rparr>) \<le> ev_at e \<and>
    ev_at e \<le> snd (event_get_bounds \<lparr>te_name = n, te_events = es\<rparr>)"
proof -
  obtain i where i: "i < length es" "e = es ! i" using assms(2) by (auto simp: in_set_conv_nth)
  then have "es \<noteq> []" by auto
  then have "last es = es ! (length es - 1)" by (rule last_conv_nth)
  with i assms(1) sorted_nth_mono [of "map ev_at es" 0 i] sorted_nth_mono [of "map ev_at es" i "length es - 1"]
  show ?thesis by (auto simp: event_get_bounds_def Let_def)
qed

lemma event_bounds_in_timelines:
  assumes "sorted (map ev_at es)" "e \<in> set es"
    and "inside_of (event_get_bounds \<lparr>te_name = n, te_events = es\<rparr>) (lo, hi)"
  shows "lo \<le> ev_at e \<and> ev_at e \<le> hi"
  using event_bounds_cover [OF assms(1,2), of n] assms(3) by (auto simp: inside_of_def)

lemma find_or_add_all:
  "list_all P xs \<Longrightarrow> P (create n) \<Longrightarrow> (\<And>x. P x \<Longrightarrow> P (f x)) \<Longrightarrow>
    (case find_or_add name_of create n xs of (i, ys) \<Rightarrow> list_all P (ys[i := f (ys ! i)]))"
  by (induction name_of create n xs rule: find_or_add.induct) (auto split: prod.splits)

definition from_zero :: "timeline \<Rightarrow> bool" where
  \<comment> \<open>no time is negative\<close>
  "from_zero t \<longleftrightarrow> list_all (\<lambda>r. list_all (\<lambda>x. 0 \<le> r_start x) (tr_ranges r)) (tl_ranges t) \<and>
     list_all (\<lambda>e. list_all (\<lambda>x. 0 \<le> ev_at x) (te_events e)) (tl_event_str t) \<and>
     list_all (\<lambda>e. list_all (\<lambda>x. 0 \<le> ev_at x) (te_events e)) (tl_event_int t)"

lemma from_zero_on_timeline:
  "list_all from_zero ts \<Longrightarrow> (\<And>t. from_zero t \<Longrightarrow> from_zero (f t)) \<Longrightarrow> list_all from_zero (on_timeline n f ts)"
  using find_or_add_all [of from_zero ts new_timeline n f tl_name]
  by (simp add: on_timeline_def timelines_get_def from_zero_def new_timeline_def case_prod_beta Let_def)

lemma from_zero_record:
  assumes "list_all from_zero ts"
  shows "0 \<le> r_start r \<Longrightarrow> list_all from_zero (record_range tn n r ts)"
    "0 \<le> ev_at e \<Longrightarrow> list_all from_zero (record_event_str tn n e ts)"
    "0 \<le> ev_at e' \<Longrightarrow> list_all from_zero (record_event_int tn n e' ts)"
proof -
  show "list_all from_zero (record_range tn n r ts)" if "0 \<le> r_start r" unfolding record_range_def
  proof (rule from_zero_on_timeline [OF assms])
    fix t assume "from_zero t"
    then show "from_zero (let (i, rs) = get_range n (tl_ranges t) in t\<lparr>tl_ranges := rs[i := add_range r (rs ! i)]\<rparr>)"
      using that find_or_add_all [of "\<lambda>r. list_all (\<lambda>x. 0 \<le> r_start x) (tr_ranges r)" "tl_ranges t" new_timeline_range n "add_range r" tr_name]
      by (simp add: from_zero_def get_range_def new_timeline_range_def add_range_def case_prod_beta Let_def)
  qed
  show "list_all from_zero (record_event_str tn n e ts)" if "0 \<le> ev_at e" unfolding record_event_str_def
  proof (rule from_zero_on_timeline [OF assms])
    fix t assume "from_zero t"
    then show "from_zero (let (i, es) = get_event_str n (tl_event_str t) in t\<lparr>tl_event_str := es[i := add_event e (es ! i)]\<rparr>)"
      using that find_or_add_all [of "\<lambda>e. list_all (\<lambda>x. 0 \<le> ev_at x) (te_events e)" "tl_event_str t" new_timeline_event n "add_event e" te_name]
      by (simp add: from_zero_def get_event_str_def new_timeline_event_def add_event_def case_prod_beta Let_def)
  qed
  show "list_all from_zero (record_event_int tn n e' ts)" if "0 \<le> ev_at e'" unfolding record_event_int_def
  proof (rule from_zero_on_timeline [OF assms])
    fix t assume "from_zero t"
    then show "from_zero (let (i, es) = get_event_int n (tl_event_int t) in t\<lparr>tl_event_int := es[i := add_event e' (es ! i)]\<rparr>)"
      using that find_or_add_all [of "\<lambda>e. list_all (\<lambda>x. 0 \<le> ev_at x) (te_events e)" "tl_event_int t" new_timeline_event n "add_event e'" te_name]
      by (simp add: from_zero_def get_event_int_def new_timeline_event_def add_event_def case_prod_beta Let_def)
  qed
qed

lemma from_zero_read_line: "list_all from_zero (snd st) \<Longrightarrow> list_all from_zero (snd (read_line line st))"
  by (auto simp: read_line_def from_zero_record split: prod.split option.split)

lemma from_zero_read: "list_all from_zero (snd (read_data lines))"
proof -
  have "list_all from_zero (snd (fold read_line lines st))" if "list_all from_zero (snd st)" for st
    using that by (induction lines arbitrary: st) (simp_all add: from_zero_read_line)
  then have "list_all from_zero (snd (fold read_line lines (new_colors, [])))" by simp
  moreover have "from_zero (timeline_sort t)" if "from_zero t" for t
    using that by (simp add: from_zero_def timeline_sort_def range_sort_def event_sort_def list_all_iff
        sort_cmp_key [of ranges_cmp r_start] sort_cmp_key [of events_cmp ev_at] ranges_cmp_def events_cmp_def)
  ultimately show ?thesis by (simp add: read_data_def case_prod_beta timelines_sort_def list_all_iff)
qed

lemma widen_from_zero: "list_all (\<lambda>b. 0 \<le> fst b) bs \<Longrightarrow> 0 \<le> fst acc \<Longrightarrow> 0 \<le> fst (fold widen bs acc)"
  by (induction bs arbitrary: acc) (auto simp: widen_def case_prod_beta Let_def)

lemma event_from_zero: "list_all (\<lambda>x. 0 \<le> ev_at x) (te_events e) \<Longrightarrow> 0 \<le> fst (event_get_bounds e)"
  by (auto simp: event_get_bounds_def Let_def list_all_length)

lemma bounds_from_zero:
  assumes "list_all from_zero ts"
  shows "0 \<le> fst (timelines_get_bounds ts)"
proof -
  have "list_all (\<lambda>x. 0 \<le> r_start x) (tr_ranges r) \<Longrightarrow> 0 \<le> fst (range_get_bounds r)" for r
    by (auto simp: range_get_bounds_def Let_def list_all_length)
  then have "0 \<le> fst (timeline_get_bounds t)" if "from_zero t" for t
    using that unfolding timeline_get_bounds_def Let_def from_zero_def
    by (intro widen_from_zero) (auto simp: list_all_iff intro: event_from_zero [unfolded list_all_iff])
  with assms show ?thesis unfolding timelines_get_bounds_def by (intro widen_from_zero) (auto simp: list_all_iff)
qed

lemma record_eta:
  "\<lparr>tr_name = tr_name r, tr_ranges = tr_ranges r\<rparr> = (r :: timeline_range)"
  "\<lparr>te_name = te_name e, te_events = te_events e\<rparr> = (e :: 'v timeline_event)"
  by simp_all

lemma contents_bounds:
  assumes "timelines_get_bounds ts = (lo, hi)"
  shows "\<exists>n. ranges_of a b ts = [] \<or> inside_of (range_get_bounds \<lparr>tr_name = n, tr_ranges = ranges_of a b ts\<rparr>) (lo, hi)"
    and "\<exists>n. events_str_of a b ts = [] \<or> inside_of (event_get_bounds \<lparr>te_name = n, te_events = events_str_of a b ts\<rparr>) (lo, hi)"
    and "\<exists>n. events_int_of a b ts = [] \<or> inside_of (event_get_bounds \<lparr>te_name = n, te_events = events_int_of a b ts\<rparr>) (lo, hi)"
proof -
  have t: "t \<in> set ts" if "timeline_registry.look a ts = Some t" for t
    using that by (auto simp: find_Some_iff)
  note in_ts = inside_of_trans [OF inside_of_timeline(1) inside_of_timelines [of _ ts], unfolded assms]
    inside_of_trans [OF inside_of_timeline(2) inside_of_timelines [of _ ts], unfolded assms]
    inside_of_trans [OF inside_of_timeline(3) inside_of_timelines [of _ ts], unfolded assms]
  show "\<exists>n. ranges_of a b ts = [] \<or> inside_of (range_get_bounds \<lparr>tr_name = n, tr_ranges = ranges_of a b ts\<rparr>) (lo, hi)"
  proof (cases "timeline_registry.look a ts")
    case (Some x)
    show ?thesis
    proof (cases "range_registry.look b (tl_ranges x)")
      case (Some r)
      then have "r \<in> set (tl_ranges x)" by (auto simp: find_Some_iff)
      with \<open>timeline_registry.look a ts = Some x\<close> Some in_ts(1) [of r x] t show ?thesis
        by (intro exI [of _ "tr_name r"] disjI2) (simp add: ranges_of_def record_eta)
    qed (simp add: ranges_of_def Some)
  qed (simp add: ranges_of_def)
  show "\<exists>n. events_str_of a b ts = [] \<or> inside_of (event_get_bounds \<lparr>te_name = n, te_events = events_str_of a b ts\<rparr>) (lo, hi)"
  proof (cases "timeline_registry.look a ts")
    case (Some x)
    show ?thesis
    proof (cases "event_str_registry.look b (tl_event_str x)")
      case (Some r)
      then have "r \<in> set (tl_event_str x)" by (auto simp: find_Some_iff)
      with \<open>timeline_registry.look a ts = Some x\<close> Some in_ts(2) [of r x] t show ?thesis
        by (intro exI [of _ "te_name r"] disjI2) (simp add: events_str_of_def record_eta)
    qed (simp add: events_str_of_def Some)
  qed (simp add: events_str_of_def)
  show "\<exists>n. events_int_of a b ts = [] \<or> inside_of (event_get_bounds \<lparr>te_name = n, te_events = events_int_of a b ts\<rparr>) (lo, hi)"
  proof (cases "timeline_registry.look a ts")
    case (Some x)
    show ?thesis
    proof (cases "event_int_registry.look b (tl_event_int x)")
      case (Some r)
      then have "r \<in> set (tl_event_int x)" by (auto simp: find_Some_iff)
      with \<open>timeline_registry.look a ts = Some x\<close> Some in_ts(3) [of r x] t show ?thesis
        by (intro exI [of _ "te_name r"] disjI2) (simp add: events_int_of_def record_eta)
    qed (simp add: events_int_of_def Some)
  qed (simp add: events_int_of_def)
qed

definition unseen :: "string set \<Rightarrow> colors \<Rightarrow> string set" where
  \<comment> \<open>the names without a colour\<close>
  "unseen N cs = {n \<in> N. map_of (color_table cs) n = None}"

lemma color_lookup_Some:
  "map_of (color_table cs) n = Some c \<Longrightarrow> color_lookup n cs = Inr (c, cs)"
  by (simp add: color_lookup_def)

lemma color_lookup_new:
  assumes "map_of (color_table cs) n = None" and "default_colors cs \<noteq> []"
  shows "color_lookup n cs = Inr (last (default_colors cs),
    \<lparr>color_table = AList.update n (last (default_colors cs)) (color_table cs),
     default_colors = butlast (default_colors cs)\<rparr>)"
  using assms by (simp add: color_lookup_def color_add_def lookup_update)

section \<open>Properties\<close>

text \<open>C35: after reading a trace, the ranges (events) under a timeline and a name are those of the
  matching lines of the file, in stable order of their start (time); nothing else is recorded.\<close>

theorem read_data_contents:
  "ranges_of tn n (snd (read_data lines)) = sort_key r_start (concat (map (line_ranges tn n) lines)) \<and>
   events_str_of tn n (snd (read_data lines)) = sort_key ev_at (concat (map (line_events_str tn n) lines)) \<and>
   events_int_of tn n (snd (read_data lines)) = sort_key ev_at (concat (map (line_events_int tn n) lines))"
  using read_lines_contents [of tn n lines "(new_colors, [])"]
  by (simp add: read_data_def case_prod_beta sort_contents)
     (simp add: ranges_of_def events_str_of_def events_int_of_def)

lemma range_search_inside:
  assumes "separate (tr_ranges t)" "inside (tr_ranges t) k"
  obtains i where "i < length (tr_ranges t)" "range_search t k = int i"
    "\<And>j. j < length (tr_ranges t) \<Longrightarrow> k \<le> of_int (r_end (tr_ranges t ! j)) \<longleftrightarrow> i \<le> j"
    "\<And>j. j < length (tr_ranges t) \<Longrightarrow> of_int (r_start (tr_ranges t ! j)) \<le> k \<longleftrightarrow> j \<le> i"
proof -
  obtain i where i: "i < length (tr_ranges t)" "range_search t k = int i" "of_int (r_start (tr_ranges t ! i)) \<le> k"
      "k \<le> of_int (r_end (tr_ranges t ! i))"
    using range_search_spec [OF assms(1), of k] assms(2) by blast
  with range_index_unique [OF assms(1) i(1,3,4)] show thesis by (blast intro: that)
qed

lemma range_search_outside:
  assumes "separate (tr_ranges t)" "\<not> inside (tr_ranges t) k"
  shows "range_search t k = - 1"
  using range_search_spec [OF assms(1), of k] assms(2) nth_mem by (fastforce simp: inside_def)

text \<open>C36: on ranges in order and without overlap, \<open>get_ranges\<close> answers by which ends of the window
  lie in a range: both, the ranges that meet the window; one, all ranges from there on or up to
  there; none, the empty list, even when ranges lie inside the window.\<close>

theorem get_ranges_window:
  assumes "separate (tr_ranges t)"
  shows "get_ranges t a b =
    (if inside (tr_ranges t) a
     then if inside (tr_ranges t) b
          then filter (\<lambda>r. a \<le> of_int (r_end r) \<and> of_int (r_start r) \<le> b) (tr_ranges t)
          else filter (\<lambda>r. a \<le> of_int (r_end r)) (tr_ranges t)
     else if inside (tr_ranges t) b then filter (\<lambda>r. of_int (r_start r) \<le> b) (tr_ranges t) else [])"
proof -
  let ?rs = "tr_ranges t"
  show ?thesis
  proof (cases "inside ?rs a")
    case a: True
    then obtain i where i: "i < length ?rs" "range_search t a = int i"
      "\<And>j. j < length ?rs \<Longrightarrow> a \<le> of_int (r_end (?rs ! j)) \<longleftrightarrow> i \<le> j"
      using range_search_inside [OF assms] by metis
    show ?thesis
    proof (cases "inside ?rs b")
      case b: True
      then obtain k where k: "k < length ?rs" "range_search t b = int k"
        "\<And>j. j < length ?rs \<Longrightarrow> of_int (r_start (?rs ! j)) \<le> b \<longleftrightarrow> j \<le> k"
        using range_search_inside [OF assms] by metis
      have "get_ranges t a b = py_slice ?rs (int i) (int (Suc k))"
        using i(2) k(2) by (simp add: get_ranges_def Let_def add.commute)
      moreover have "filter (\<lambda>r. a \<le> of_int (r_end r) \<and> of_int (r_start r) \<le> b) ?rs = take (Suc k - i) (drop i ?rs)"
        by (rule filter_slice) (use i(3) k(3) in auto)
      ultimately show ?thesis using a b unfolding py_slice_nat by simp
    next
      case b: False
      have "get_ranges t a b = py_slice ?rs (int i) (int (length ?rs))"
        using i(2) range_search_outside [OF assms b] by (simp add: get_ranges_def Let_def)
      moreover have "filter (\<lambda>r. a \<le> of_int (r_end r)) ?rs = take (length ?rs - i) (drop i ?rs)"
        by (rule filter_slice) (use i(3) in auto)
      ultimately show ?thesis using a b unfolding py_slice_nat by simp
    qed
  next
    case a: False
    show ?thesis
    proof (cases "inside ?rs b")
      case b: True
      then obtain k where k: "k < length ?rs" "range_search t b = int k"
        "\<And>j. j < length ?rs \<Longrightarrow> of_int (r_start (?rs ! j)) \<le> b \<longleftrightarrow> j \<le> k"
        using range_search_inside [OF assms] by metis
      have "get_ranges t a b = py_slice ?rs (int 0) (int (Suc k))"
        using k(2) range_search_outside [OF assms a] by (simp add: get_ranges_def Let_def add.commute)
      moreover have "filter (\<lambda>r. of_int (r_start r) \<le> b) ?rs = take (Suc k - 0) (drop 0 ?rs)"
        by (rule filter_slice) (use k(3) in auto)
      ultimately show ?thesis using a b unfolding py_slice_nat by simp
    next
      case b: False
      with a show ?thesis by (simp add: get_ranges_def Let_def range_search_outside [OF assms])
    qed
  qed
qed

definition sample_ranges :: timeline_range where
  "sample_ranges = \<lparr>tr_name = ''idle'', tr_ranges = [\<lparr>r_start = 0, r_end = 4, r_value = ''a''\<rparr>,
     \<lparr>r_start = 10, r_end = 14, r_value = ''b''\<rparr>, \<lparr>r_start = 20, r_end = 24, r_value = ''c''\<rparr>]\<rparr>"

theorem get_ranges_window_witness:
  "map r_value (get_ranges sample_ranges 2 11) = [''a'', ''b''] \<and> get_ranges sample_ranges 6 16 = []"
proof -
  have s: "separate (tr_ranges sample_ranges)" by (simp add: separate_def sample_ranges_def)
  show ?thesis
    by (simp add: get_ranges_window [OF s]) (simp add: inside_def sample_ranges_def)
qed

lemma events_slice:
  fixes a b :: rat
  assumes "\<And>j. j < length es \<Longrightarrow> of_int (ev_at (es ! j)) < a \<longleftrightarrow> j < p"
    and "\<And>j. j < length es \<Longrightarrow> of_int (ev_at (es ! j)) \<le> b \<longleftrightarrow> j < q"
  shows "filter (\<lambda>e. a \<le> of_int (ev_at e) \<and> of_int (ev_at e) \<le> b) es = take (q - p) (drop p es)"
proof (rule filter_slice)
  fix j assume "j < length es"
  from assms [OF this] show "(a \<le> of_int (ev_at (es ! j)) \<and> of_int (ev_at (es ! j)) \<le> b) = (p \<le> j \<and> j < q)"
    by (metis not_le)
qed

text \<open>C37: on events with increasing times, \<open>get_events\<close> returns the events of the window and,
  when no event is at its end, the first event after it.\<close>

theorem get_events_window:
  assumes "sorted_wrt (<) (map ev_at (te_events t))" and "a \<le> b"
  shows "get_events t a b =
    filter (\<lambda>e. a \<le> of_int (ev_at e) \<and> of_int (ev_at e) \<le> b) (te_events t) @
    (if \<exists>e \<in> set (te_events t). of_int (ev_at e) = b then []
     else take 1 (filter (\<lambda>e. b < of_int (ev_at e)) (te_events t)))"
proof -
  let ?es = "te_events t"
  obtain p where p: "p \<le> length ?es" "event_search t a = int p"
    "\<And>j. j < length ?es \<Longrightarrow> of_int (ev_at (?es ! j)) < a \<longleftrightarrow> j < p"
    using event_search_spec [OF assms(1), of a] by blast
  obtain q where q: "q \<le> length ?es" "event_search t b = int q"
    "\<And>j. j < length ?es \<Longrightarrow> of_int (ev_at (?es ! j)) < b \<longleftrightarrow> j < q"
    "\<And>j. j < length ?es \<Longrightarrow> of_int (ev_at (?es ! j)) = b \<Longrightarrow> j = q"
    using event_search_spec [OF assms(1), of b] by blast
  have pq: "p \<le> q"
  proof (rule ccontr)
    assume n: "\<not> p \<le> q"
    with p(1) have "q < length ?es" by simp
    with p(3) [of q] q(3) [of q] n assms(2) show False by auto
  qed
  have "get_events t a b = py_slice ?es (int p) (int (Suc q))"
    using p(2) q(2) by (simp add: get_events_def Let_def add.commute)
  then have slice: "get_events t a b = take (Suc q - p) (drop p ?es)" by (simp only: py_slice_nat)
  show ?thesis
  proof (cases "\<exists>e \<in> set ?es. of_int (ev_at e) = b")
    case True
    then obtain j where j: "j < length ?es" "of_int (ev_at (?es ! j)) = b" by (auto simp: in_set_conv_nth)
    with q(4) have jq: "j = q" by blast
    have "of_int (ev_at (?es ! i)) \<le> b \<longleftrightarrow> i < Suc q" if "i < length ?es" for i
      using q(3,4) [OF that] j jq by (metis le_less less_Suc_eq)
    from events_slice [OF p(3) this] slice True show ?thesis by simp
  next
    case False
    have le: "of_int (ev_at (?es ! i)) \<le> b \<longleftrightarrow> i < q" if "i < length ?es" for i
      using q(3) [OF that] False that nth_mem by (metis le_less)
    have "filter (\<lambda>e. a \<le> of_int (ev_at e) \<and> of_int (ev_at e) \<le> b) ?es = take (q - p) (drop p ?es)"
      by (rule events_slice [OF p(3) le])
    moreover have "filter (\<lambda>e. b < of_int (ev_at e)) ?es = take (length ?es - q) (drop q ?es)"
      by (rule filter_slice) (use le in \<open>metis not_le\<close>)
    moreover have "take (Suc q - p) (drop p ?es) = take (q - p) (drop p ?es) @ take 1 (drop q ?es)"
      using pq take_add [of "q - p" 1 "drop p ?es"] by (simp add: Suc_diff_le)
    ultimately show ?thesis using slice False by simp
  qed
qed

definition sample_events :: "string timeline_event" where
  "sample_events = \<lparr>te_name = ''tx'', te_events = [\<lparr>ev_at = 1, ev_value = ''a''\<rparr>,
     \<lparr>ev_at = 5, ev_value = ''b''\<rparr>, \<lparr>ev_at = 9, ev_value = ''c''\<rparr>]\<rparr>"

theorem get_events_window_witness:
  "map ev_value (get_events sample_events 2 6) = [''b'', ''c'']"
proof -
  have "sorted_wrt (<) (map ev_at (te_events sample_events))" by (simp add: sample_events_def)
  from get_events_window [OF this, of 2 6] show ?thesis by (simp add: sample_events_def)
qed

text \<open>C38: the bounds of a trace that was read begin at 0, however late it starts, and no event is outside
  of them. No range starts before them, and they do not end before the last range of a name, in the
  order of the starts, does; where the ranges of a name do not overlap and end after they start, none
  starts or ends after them.\<close>

theorem bounds_cover_trace:
  assumes "snd (read_data lines) = ts" and "timelines_get_bounds ts = (lo, hi)"
  shows "lo = 0 \<and> 0 \<le> hi \<and>
    (\<forall>e \<in> set (events_str_of tn n ts). lo \<le> ev_at e \<and> ev_at e \<le> hi) \<and>
    (\<forall>e \<in> set (events_int_of tn n ts). lo \<le> ev_at e \<and> ev_at e \<le> hi) \<and>
    (\<forall>r \<in> set (ranges_of tn n ts). lo \<le> r_start r \<and> r_end (last (ranges_of tn n ts)) \<le> hi \<and>
       (separate (ranges_of tn n ts) \<longrightarrow> r_start r \<le> hi \<and> r_end r \<le> hi))"
proof -
  have "ts = timelines_sort (snd (fold read_line lines (new_colors, [])))"
    using assms(1) by (simp add: read_data_def case_prod_beta)
  then have srt: "sorted (map r_start (ranges_of tn n ts))" "sorted (map ev_at (events_str_of tn n ts))"
    "sorted (map ev_at (events_int_of tn n ts))"
    by (simp_all add: sort_contents)
  have "lo \<le> 0 \<and> 0 \<le> hi"
    using inside_of_fold(2) [of "(0, 0)" "map timeline_get_bounds ts"] assms(2)
    by (simp add: timelines_get_bounds_def inside_of_def)
  moreover have "0 \<le> lo" using bounds_from_zero [OF from_zero_read [of lines]] assms by simp
  moreover have "lo \<le> r_start r \<and> r_end (last (ranges_of tn n ts)) \<le> hi \<and>
      (separate (ranges_of tn n ts) \<longrightarrow> r_start r \<le> hi \<and> r_end r \<le> hi)"
    if r: "r \<in> set (ranges_of tn n ts)" for r
  proof -
    from r contents_bounds(1) [OF assms(2), of tn n] obtain m where
      "inside_of (range_get_bounds \<lparr>tr_name = m, tr_ranges = ranges_of tn n ts\<rparr>) (lo, hi)"
      by auto
    with range_bounds_cover [OF srt(1) r, of m] r show ?thesis by (fastforce simp: inside_of_def separate_def)
  qed
  ultimately show ?thesis
    using contents_bounds(2,3) [OF assms(2), of tn n] event_bounds_in_timelines srt
    by (metis emptyE empty_set order_antisym)
qed

definition sample_trace :: "string list" where
  "sample_trace = [''range n0 q a 4 9'', ''event-int n0 len 3 7'', ''range n0 q b 12 20'', ''color a #ff0080'']"

lemma sample_trace_read:
  "ranges_of ''n0'' ''q'' (snd (read_data sample_trace)) =
     [\<lparr>r_start = 4, r_end = 9, r_value = ''a''\<rparr>, \<lparr>r_start = 12, r_end = 20, r_value = ''b''\<rparr>]"
  by code_simp

text \<open>A range that ends before it starts is not covered: its start is left out.\<close>

theorem bounds_cover_trace_witness:
  "20 \<le> snd (timelines_get_bounds (snd (read_data sample_trace))) \<and>
    timelines_get_bounds (snd (read_data [''range n q a 9 4''])) = (0, 4)"
proof -
  obtain lo hi where b: "timelines_get_bounds (snd (read_data sample_trace)) = (lo, hi)" by fastforce
  have "separate (ranges_of ''n0'' ''q'' (snd (read_data sample_trace)))"
    by (simp add: sample_trace_read separate_def)
  with bounds_cover_trace [OF refl b, of "''n0''" "''q''"] b
  have "20 \<le> snd (timelines_get_bounds (snd (read_data sample_trace)))" by (simp add: sample_trace_read)
  moreover have "timelines_get_bounds (snd (read_data [''range n q a 9 4''])) = (0, 4)" by code_simp
  ultimately show ?thesis ..
qed

text \<open>Colouring a list of names succeeds exactly when the default colours suffice for the
  different names that have no colour, and raises \<open>IndexError\<close> otherwise; every name then keeps
  the colour it was given.\<close>

theorem lookup_all_colors:
  "case lookup_all names cs of
     Inl e \<Rightarrow> e = IndexError \<and> length (default_colors cs) < card (unseen (set names) cs)
   | Inr (given, cs') \<Rightarrow> card (unseen (set names) cs) \<le> length (default_colors cs) \<and>
       map (map_of (color_table cs')) names = map Some given \<and>
       map_of (color_table cs) \<subseteq>\<^sub>m map_of (color_table cs')"
proof (induction names arbitrary: cs)
  case Nil
  then show ?case by (simp add: unseen_def)
next
  case (Cons n names)
  show ?case
  proof (cases "map_of (color_table cs) n")
    case (Some c)
    then have u: "unseen (set (n # names)) cs = unseen (set names) cs" by (auto simp: unseen_def)
    show ?thesis
    proof (cases "lookup_all names cs")
      case (Inl e)
      with Cons [of cs] Some u show ?thesis by (simp add: color_lookup_Some)
    next
      case (Inr r)
      obtain given cs' where r: "r = (given, cs')" by fastforce
      from Cons [of cs] Inr r have keep: "map_of (color_table cs) \<subseteq>\<^sub>m map_of (color_table cs')" by simp
      then have "map_of (color_table cs') n = Some c" using Some by (metis domI map_le_def)
      with Cons [of cs] Inr r Some u show ?thesis by (simp add: color_lookup_Some)
    qed
  next
    case None
    then have u: "unseen (set (n # names)) cs = insert n (unseen (set names - {n}) cs)"
      by (auto simp: unseen_def)
    have fin: "finite (unseen (set names - {n}) cs)" by (simp add: unseen_def)
    then have cu: "card (unseen (set (n # names)) cs) = Suc (card (unseen (set names - {n}) cs))"
      unfolding u by (rule card_insert_disjoint) (simp add: unseen_def)
    show ?thesis
    proof (cases "default_colors cs = []")
      case True
      with None cu show ?thesis by (simp add: color_lookup_def)
    next
      case False
      define c where "c = last (default_colors cs)"
      define cs1 where "cs1 = \<lparr>color_table = AList.update n c (color_table cs), default_colors = butlast (default_colors cs)\<rparr>"
      have look: "color_lookup n cs = Inr (c, cs1)"
        unfolding cs1_def c_def using None False by (rule color_lookup_new)
      have t1: "map_of (color_table cs1) = (map_of (color_table cs))(n \<mapsto> c)"
        by (simp add: cs1_def lookup_update)
      have u1: "unseen (set names) cs1 = unseen (set names - {n}) cs"
        by (auto simp: unseen_def t1)
      have len: "length (default_colors cs) = Suc (length (default_colors cs1))"
        using False by (simp add: cs1_def)
      note IH = Cons.IH [of cs1, unfolded u1]
      show ?thesis
      proof (cases "lookup_all names cs1")
        case (Inl e)
        then have "lookup_all (n # names) cs = Inl e" by (simp add: look)
        with IH Inl cu len show ?thesis by simp
      next
        case (Inr r)
        obtain given cs' where r: "r = (given, cs')" by fastforce
        have all: "lookup_all (n # names) cs = Inr (c # given, cs')" by (simp add: look Inr r)
        from IH Inr r have IH': "card (unseen (set names - {n}) cs) \<le> length (default_colors cs1)"
          "map (map_of (color_table cs')) names = map Some given"
          "map_of (color_table cs1) \<subseteq>\<^sub>m map_of (color_table cs')" by simp_all
        have n: "map_of (color_table cs') n = Some c" using IH'(3) by (simp add: t1 map_le_def)
        have "map_of (color_table cs) \<subseteq>\<^sub>m map_of (color_table cs')"
        proof (unfold map_le_def, intro ballI)
          fix a assume a: "a \<in> dom (map_of (color_table cs))"
          with None have "a \<noteq> n" by auto
          with a have "map_of (color_table cs1) a = map_of (color_table cs) a" "a \<in> dom (map_of (color_table cs1))"
            by (simp_all add: t1)
          with IH'(3) show "map_of (color_table cs) a = map_of (color_table cs') a"
            by (simp add: map_le_def)
        qed
        with IH' n cu len show ?thesis unfolding all by simp
      qed
    qed
  qed
qed

end
