(* ===== verification/Py_Num.thy ===== *)
theory Py_Num
  imports Py_Prelude
begin

text \<open>
  Arithmetic and comparison of Python 2 numbers under their usual names: the instances of
  \<open>plus\<close>, \<open>minus\<close>, \<open>times\<close>, \<open>divide\<close>, \<open>modulo\<close> and \<open>numeral\<close> for \<open>pynum\<close>, its order by value
  (a preorder: \<open>1\<close> and \<open>1.0\<close> are different but equal in value), and the functions \<open>max\<close>,
  \<open>min\<close>, \<open>abs\<close> and \<open>range\<close>. A numeral is a Python \<open>int\<close>. \<open>div\<close> is the Python 2 \<open>/\<close> for a
  divisor that is not zero; \<open>num_div\<close> is the one that raises.
\<close>

instantiation pynum :: "{zero, one, plus, minus, times, uminus, divide, modulo}"
begin

definition "0 = PyInt 0"
definition "1 = PyInt 1"
definition "x + y = num_add x y"
definition "x - y = num_sub x y"
definition "x * y = num_mul x y"
definition "- x = num_sub (PyInt 0) (x :: pynum)"
definition "x div y = (case (x, y) of (PyInt a, PyInt b) \<Rightarrow> PyInt (a div b)
  | _ \<Rightarrow> PyFloat (num_val x / num_val y))"
definition "x mod y = (case (x, y) of (PyInt a, PyInt b) \<Rightarrow> PyInt (a mod b)
  | _ \<Rightarrow> PyFloat (num_val x - num_val y * of_int \<lfloor>num_val x / num_val y\<rfloor>))"

instance ..

end

instance pynum :: semigroup_add
proof
  fix a b c :: pynum
  show "a + b + c = a + (b + c)"
    by (cases a; cases b; cases c) (simp_all add: plus_pynum_def)
qed

instance pynum :: numeral ..

instantiation pynum :: preorder
begin

definition "x \<le> y \<longleftrightarrow> num_val x \<le> num_val (y :: pynum)"
definition "x < y \<longleftrightarrow> num_val x < num_val (y :: pynum)"

instance by standard (auto simp: less_eq_pynum_def less_pynum_def)

end

lemma numeral_pynum: "(numeral k :: pynum) = PyInt (numeral k)"
proof (induction k)
  case (Bit0 k)
  then show ?case unfolding numeral_Bit0 plus_pynum_def by (simp only: num_add.simps)
next
  case (Bit1 k)
  then show ?case unfolding numeral_Bit1 plus_pynum_def one_pynum_def by (simp only: num_add.simps)
qed (simp add: one_pynum_def)

lemma num_val_simps [simp]:
  "num_val 0 = 0" "num_val 1 = 1" "num_val (numeral k) = numeral k"
  "num_val (x + y) = num_val x + num_val y" "num_val (x - y) = num_val x - num_val y"
  "num_val (x * y) = num_val x * num_val y" "num_val (- x) = - num_val x"
  by (simp_all add: zero_pynum_def one_pynum_def numeral_pynum plus_pynum_def minus_pynum_def
      times_pynum_def uminus_pynum_def)

lemma num_le_val: "x \<le> y \<longleftrightarrow> num_val x \<le> num_val y" for x y :: pynum
  by (simp add: less_eq_pynum_def)

lemma num_less_val: "x < y \<longleftrightarrow> num_val x < num_val y" for x y :: pynum
  by (simp add: less_pynum_def)

lemma num_div_cases:
  "num_div x y = (if num_val y = 0 then Inl ZeroDivisionError else Inr (x div y))"
  by (cases x; cases y) (simp_all add: divide_pynum_def)

lemma num_mod_cases:
  "num_mod x y = (if num_val y = 0 then Inl ZeroDivisionError else Inr (x mod y))"
  by (cases x; cases y) (simp_all add: modulo_pynum_def)

fun is_float :: "pynum \<Rightarrow> bool" where
  "is_float (PyInt _) = False"
| "is_float (PyFloat _) = True"

lemma is_float_ops [simp]:
  "is_float (x + y) \<longleftrightarrow> is_float x \<or> is_float y" "is_float (x - y) \<longleftrightarrow> is_float x \<or> is_float y"
  "is_float (x * y) \<longleftrightarrow> is_float x \<or> is_float y" "is_float (x div y) \<longleftrightarrow> is_float x \<or> is_float y"
  "\<not> is_float 0" "\<not> is_float 1" "\<not> is_float (numeral k)"
  by (cases x; cases y; simp add: plus_pynum_def minus_pynum_def times_pynum_def divide_pynum_def)+
     (simp_all add: zero_pynum_def one_pynum_def numeral_pynum)

lemma num_val_div_float:
  "is_float x \<or> is_float y \<Longrightarrow> num_val (x div y) = num_val x / num_val y"
  by (cases x; cases y) (simp_all add: divide_pynum_def)

lemma num_val_div_bounds:
  "num_val y \<noteq> 0 \<Longrightarrow> num_val (x div y) \<le> num_val x / num_val y \<and> num_val x / num_val y < num_val (x div y) + 1"
  using num_div_bounds [of x y "x div y"] by (simp add: num_div_cases)

lemma float_eqI: "is_float x \<Longrightarrow> is_float y \<Longrightarrow> num_val x = num_val y \<Longrightarrow> x = y"
  by (cases x; cases y) auto

definition py_max :: "pynum \<Rightarrow> pynum \<Rightarrow> pynum" where
  \<comment> \<open>\<open>max(a, b)\<close>: the first one when the values are equal\<close>
  "py_max a b = (if b > a then b else a)"

definition py_min :: "pynum \<Rightarrow> pynum \<Rightarrow> pynum" where
  "py_min a b = (if b < a then b else a)"

lemma num_val_max [simp]: "num_val (py_max a b) = max (num_val a) (num_val b)"
  by (auto simp: py_max_def num_less_val max_def)

lemma num_val_min [simp]: "num_val (py_min a b) = min (num_val a) (num_val b)"
  by (auto simp: py_min_def num_less_val min_def)

lemma is_float_max_min:
  "is_float a \<Longrightarrow> is_float b \<Longrightarrow> is_float (py_max a b) \<and> is_float (py_min a b)"
  by (simp add: py_max_def py_min_def)

definition num_abs :: "pynum \<Rightarrow> pynum" where
  "num_abs x = (if x < 0 then - x else x)"

definition num_eq :: "pynum \<Rightarrow> pynum \<Rightarrow> bool" where
  \<comment> \<open>\<open>==\<close> compares the values\<close>
  "num_eq x y \<longleftrightarrow> num_val x = num_val y"

definition py_range :: "int \<Rightarrow> int \<Rightarrow> int \<Rightarrow> int list pyres" where
  \<comment> \<open>\<open>range(a, b, step)\<close>\<close>
  "py_range a b step =
     (if step = 0 then Inl ValueError
      else if step > 0 then Inr (map (\<lambda>k. a + int k * step) [0..<nat ((b - a + step - 1) div step)])
      else Inr (map (\<lambda>k. a + int k * step) [0..<nat ((a - b - step - 1) div (- step))]))"

lemma py_range_bounds:
  assumes "0 < step" "py_range a b step = Inr xs" "x \<in> set xs"
  shows "a \<le> x \<and> x < b"
proof -
  obtain k where k: "x = a + int k * step" "k < nat ((b - a + step - 1) div step)"
    using assms by (auto simp: py_range_def)
  then have "int k + 1 \<le> (b - a + step - 1) div step" by linarith
  then have "(int k + 1) * step \<le> (b - a + step - 1) div step * step"
    using assms(1) by (intro mult_right_mono) simp_all
  also have "\<dots> \<le> b - a + step - 1"
    using assms(1) div_mult_mod_eq [of "b - a + step - 1" step] pos_mod_sign [of step "b - a + step - 1"]
    by linarith
  finally have "(int k + 1) * step \<le> b - a + step - 1" .
  moreover have "(int k + 1) * step = int k * step + step" by (simp add: algebra_simps)
  ultimately have "int k * step < b - a" by linarith
  moreover have "0 \<le> int k * step" using assms(1) by simp
  ultimately show ?thesis using k(1) by linarith
qed

end
