(* ===== verification/Grid_Render.thy ===== *)
theory Grid_Render
  imports Timeline Py_Num
begin

text \<open>
  The renderers of the timeline viewer, \<open>utils/grid.py\<close>: \<open>TopLegendRenderer\<close>,
  \<open>TimelinesRenderer\<close>, \<open>ScaleRenderer\<close> and \<open>GraphicRenderer\<close>. A renderer object is a record
  of the attributes its methods assign; drawing is the list of the calls on the cairo
  context. The extents of a text, which cairo computes, are the argument \<open>ext\<close>.
  \<open>layout\<close> and \<open>set_range\<close> of the graphic return the object as the statements before an
  exception left it.
\<close>

section \<open>Drawing\<close>

record extents =
  e_y_bearing :: pynum
  e_width :: pynum
  e_height :: pynum

datatype draw_cmd =
    MoveTo pynum pynum
  | LineTo pynum pynum
  | RelLineTo pynum pynum
  | ClosePath
  | Rectangle pynum pynum pynum pynum
  | SetRGB pynum pynum pynum
  | SetLineWidth pynum
  | SetDash "pynum list" pynum
  | SetOperatorSource
  | Stroke
  | StrokePreserve
  | Fill
  | ShowText string
  | Save
  | Restore
  | Translate pynum pynum

abbreviation light_grey :: draw_cmd where
  "light_grey \<equiv> SetRGB (PyFloat (9 / 10)) (PyFloat (9 / 10)) (PyFloat (9 / 10))"

abbreviation black :: draw_cmd where
  "black \<equiv> SetRGB 0 0 0"

definition color_rgb :: "color \<Rightarrow> draw_cmd" where
  "color_rgb c = SetRGB (PyInt (red c)) (PyInt (green c)) (PyInt (blue c))"

definition all_letters :: string where
  "all_letters = ''ABCDEFGHIJKLMNOPQRSTUVWXYZabcedefghijklmnopqrstuvwxyz0123456789''"

section \<open>TopLegendRenderer\<close>

record legend =
  lg_padding :: pynum
  lg_legends :: "string list"
  lg_colors :: "color list"
  lg_width :: pynum
  lg_height :: pynum

definition new_legend :: legend where
  "new_legend = \<lparr>lg_padding = 10, lg_legends = [], lg_colors = [], lg_width = 0, lg_height = 0\<rparr>"

definition legend_set_padding :: "pynum \<Rightarrow> legend \<Rightarrow> legend" where
  "legend_set_padding padding l = l\<lparr>lg_padding := padding\<rparr>"

definition legend_set_legends :: "string list \<Rightarrow> color list \<Rightarrow> legend \<Rightarrow> legend" where
  "legend_set_legends legends cs l = l\<lparr>lg_legends := legends, lg_colors := cs\<rparr>"

text \<open>
  The body that the loops of \<open>layout\<close> and \<open>draw\<close> share: the state is
  \<open>(line_height, total_height, line_used)\<close>.
\<close>

definition place_item :: "pynum \<Rightarrow> pynum \<Rightarrow> extents \<Rightarrow> pynum \<times> pynum \<times> pynum \<Rightarrow> pynum \<times> pynum \<times> pynum" where
  "place_item padding width e st =
     (let (line_height, total_height, line_used) = st;
          item_width = padding + padding + e_width e + padding;
          item_height = e_height e + padding;
          line_height = (if item_height > line_height then item_height else line_height)
      in if line_used + item_width > width
         then (line_height, total_height + line_height, padding + item_width)
         else (line_height, total_height, line_used + item_width))"

definition legend_layout :: "(string \<Rightarrow> extents) \<Rightarrow> pynum \<Rightarrow> legend \<Rightarrow> legend" where
  "legend_layout ext width l =
     (let (line_height, total_height, line_used) =
        fold (\<lambda>t. place_item (lg_padding l) width (ext t)) (lg_legends l) (0, lg_padding l, lg_padding l)
      in l\<lparr>lg_width := width, lg_height := total_height + line_height\<rparr>)"

fun legend_draw_loop :: "(string \<Rightarrow> extents) \<Rightarrow> legend \<Rightarrow> string list \<Rightarrow> int \<Rightarrow> pynum \<times> pynum \<times> pynum
    \<Rightarrow> draw_cmd list pyres" where
  "legend_draw_loop ext l [] i st = Inr []"
| "legend_draw_loop ext l (t # ts) i st =
     (let p = lg_padding l;
          st' = place_item p (lg_width l) (ext t) st;
          (line_height, total_height, line_used) = st';
          x = line_used - (p + p + e_width (ext t) + p)
      in rbind (py_index (lg_colors l) i) (\<lambda>c.
         rbind (legend_draw_loop ext l ts (i + 1) st') (\<lambda>rest.
           Inr ([Rectangle x total_height p p, black, SetLineWidth 2, StrokePreserve, color_rgb c, Fill,
                 MoveTo (x + p * 2) (total_height + e_height (ext t)), black, ShowText t] @ rest))))"

definition legend_draw :: "(string \<Rightarrow> extents) \<Rightarrow> legend \<Rightarrow> draw_cmd list pyres" where
  "legend_draw ext l = legend_draw_loop ext l (lg_legends l) 0 (0, lg_padding l, lg_padding l)"

section \<open>TimelinesRenderer\<close>

record data_renderer =
  dr_padding :: pynum
  dr_timelines :: timelines
  dr_start :: pynum
  dr_end :: pynum
  dr_left_width :: pynum
  dr_right_width :: pynum
  dr_text_height :: pynum
  dr_width :: pynum
  dr_height :: pynum

definition new_data_renderer :: data_renderer where
  "new_data_renderer = \<lparr>dr_padding = 10, dr_timelines = [], dr_start = 0, dr_end = 0,
     dr_left_width = 0, dr_right_width = 0, dr_text_height = 0, dr_width = 0, dr_height = 0\<rparr>"

definition set_timelines :: "timelines \<Rightarrow> data_renderer \<Rightarrow> data_renderer" where
  "set_timelines ts d = d\<lparr>dr_timelines := ts\<rparr>"

definition set_render_range :: "pynum \<Rightarrow> pynum \<Rightarrow> data_renderer \<Rightarrow> data_renderer" where
  "set_render_range start end d = d\<lparr>dr_start := start, dr_end := end\<rparr>"

definition get_data_x_start :: "data_renderer \<Rightarrow> pynum" where
  "get_data_x_start d = dr_padding d div 2 + dr_left_width d + dr_padding d + dr_right_width d + dr_padding d div 2"

definition data_layout :: "(string \<Rightarrow> extents) \<Rightarrow> pynum \<Rightarrow> data_renderer \<Rightarrow> data_renderer" where
  "data_layout ext width d =
     (let ts = dr_timelines d; p = dr_padding d;
          max_text_height = e_height (ext all_letters);
          widest = \<lambda>names w. fold (\<lambda>n w. py_max w (e_width (ext n))) names w;
          left_width = widest (map tl_name ts) 0;
          right_width = widest (concat (map (\<lambda>t. map tr_name (tl_ranges t) @ map te_name (tl_event_int t)
                                             @ map te_name (tl_event_str t)) ts)) 0;
          left_n_lines = PyInt (int (length ts));
          range_n = PyInt (int (sum_list (map (\<lambda>t. length (tl_ranges t)) ts)));
          eventint_n = PyInt (int (sum_list (map (\<lambda>t. length (tl_event_int t)) ts)));
          eventstr_n = PyInt (int (sum_list (map (\<lambda>t. length (tl_event_str t)) ts)));
          left_height = left_n_lines * max_text_height + (left_n_lines - 1) * p;
          right_n_lines = range_n + eventint_n + eventstr_n;
          right_height = (right_n_lines - 1) * p + right_n_lines * max_text_height;
          right_data_height = (eventint_n + eventstr_n) * (max_text_height + 5) + range_n * 10;
          right_data_height = right_data_height + (right_n_lines - 1) * p;
          height = py_max (py_max left_height right_height) right_data_height
      in d\<lparr>dr_left_width := left_width, dr_right_width := right_width, dr_text_height := max_text_height,
           dr_width := width, dr_height := height + p\<rparr>)"

definition draw_line :: "pynum \<Rightarrow> pynum \<Rightarrow> pynum \<Rightarrow> pynum \<Rightarrow> draw_cmd list" where
  "draw_line x y width height =
     [MoveTo x y, RelLineTo width height, ClosePath, SetOperatorSource, SetLineWidth (PyFloat 1), black, Stroke]"

text \<open>
  What a drawing loop changes: the calls so far, \<open>grey_background\<close>, the colour table, and the
  vertical position \<open>cur_y\<close>.
\<close>

record pen =
  pen_cmds :: "draw_cmd list"
  pen_grey :: int
  pen_colors :: colors
  pen_y :: pynum

definition emit :: "draw_cmd list \<Rightarrow> pen \<Rightarrow> pen" where
  "emit cs pen = pen\<lparr>pen_cmds := pen_cmds pen @ cs\<rparr>"

definition background :: "data_renderer \<Rightarrow> pynum \<Rightarrow> pynum \<Rightarrow> pynum \<Rightarrow> pynum \<Rightarrow> pen \<Rightarrow> pen" where
  "background d x y width height pen =
     (if pen_grey pen mod 2 = 0
      then emit [Rectangle x (y - dr_padding d div 2) width (height + dr_padding d), light_grey, Fill] pen
      else pen)"

definition scale_x :: "data_renderer \<Rightarrow> pynum \<Rightarrow> pynum \<Rightarrow> pynum \<Rightarrow> int pyres" where
  \<comment> \<open>\<open>int(x + (at - self.start) * width / (self.end - self.start))\<close>\<close>
  "scale_x d x width t =
     rbind (num_div ((t - dr_start d) * width) (dr_end d - dr_start d)) (\<lambda>q. Inr (num_int (x + q)))"

fun draw_event_loop :: "data_renderer \<Rightarrow> ('v \<Rightarrow> string) \<Rightarrow> pynum \<Rightarrow> pynum \<Rightarrow> pynum \<Rightarrow> int \<Rightarrow> 'v event list
    \<Rightarrow> draw_cmd list pyres" where
  "draw_event_loop d to_s x y width last_x [] = Inr []"
| "draw_event_loop d to_s x y width last_x (e # es) =
     rbind (scale_x d x width (PyInt (ev_at e))) (\<lambda>real_x.
       if real_x > last_x + 2 then
         rbind (draw_event_loop d to_s x y width real_x es) (\<lambda>rest.
           Inr ([Rectangle (PyInt real_x) y 1 1, SetRGB 1 0 0, Stroke,
                 MoveTo (PyInt real_x) (y + dr_text_height d), black, ShowText (to_s (ev_value e))] @ rest))
       else draw_event_loop d to_s x y width last_x es)"

definition draw_events :: "data_renderer \<Rightarrow> ('v \<Rightarrow> string) \<Rightarrow> 'v timeline_event
    \<Rightarrow> pynum \<Rightarrow> pynum \<Rightarrow> pynum \<Rightarrow> pynum \<Rightarrow> pen \<Rightarrow> pen pyres" where
  "draw_events d to_s events x y width height pen =
     (let pen = background d x y width height pen;
          (lo, hi) = get_events_bounds events (num_val (dr_start d)) (num_val (dr_end d))
      in rbind (draw_event_loop d to_s x y width (num_int x) (py_slice (te_events events) lo hi)) (\<lambda>cs.
           Inr ((emit cs pen)\<lparr>pen_grey := pen_grey pen + 1\<rparr>)))"

fun draw_range_loop :: "data_renderer \<Rightarrow> pynum \<Rightarrow> pynum \<Rightarrow> pynum \<Rightarrow> int \<Rightarrow> data_range list \<Rightarrow> pen \<Rightarrow> pen pyres" where
  "draw_range_loop d x y width last_x [] pen = Inr pen"
| "draw_range_loop d x y width last_x (r # rs) pen =
     (let s = py_max (PyInt (r_start r)) (dr_start d); e = py_min (PyInt (r_end r)) (dr_end d)
      in rbind (scale_x d x width s) (\<lambda>x_start.
         rbind (scale_x d x width e) (\<lambda>x_end.
           if x_end > last_x then
             rbind (color_lookup (r_value r) (pen_colors pen)) (\<lambda>(c, cs).
               draw_range_loop d x y width x_end rs
                 ((emit [Rectangle (PyInt x_start) y (PyInt (x_end - x_start)) 10, black, StrokePreserve,
                         color_rgb c, Fill] pen)\<lparr>pen_colors := cs\<rparr>))
           else draw_range_loop d x y width last_x rs pen)))"

definition draw_ranges :: "data_renderer \<Rightarrow> timeline_range \<Rightarrow> pynum \<Rightarrow> pynum \<Rightarrow> pynum \<Rightarrow> pynum \<Rightarrow> pen \<Rightarrow> pen pyres" where
  "draw_ranges d ranges x y width height pen =
     (let pen = background d x y width height pen;
          (lo, hi) = get_ranges_bounds ranges (num_val (dr_start d)) (num_val (dr_end d))
      in rbind (draw_range_loop d x y width (num_int (x - 1)) (py_slice (tr_ranges ranges) lo hi) pen) (\<lambda>pen.
           Inr (pen\<lparr>pen_grey := pen_grey pen + 1\<rparr>)))"

text \<open>The label of a row, and one row of each kind.\<close>

definition draw_label :: "(string \<Rightarrow> extents) \<Rightarrow> data_renderer \<Rightarrow> pynum \<Rightarrow> string \<Rightarrow> pen \<Rightarrow> pen" where
  "draw_label ext d x name pen =
     emit [MoveTo x (pen_y pen + dr_text_height d - (e_height (ext name) + e_y_bearing (ext name))),
           ShowText name] pen"

definition row_end :: "data_renderer \<Rightarrow> pynum \<Rightarrow> pynum \<Rightarrow> pen \<Rightarrow> pen" where
  \<comment> \<open>advance \<open>cur_y\<close> and draw the line below the row\<close>
  "row_end d right_x_start dy pen =
     (let p = dr_padding d; y = pen_y pen + dy
      in (emit (draw_line (right_x_start - p div 2) (y - p div 2) (dr_right_width d + p) 0) pen)\<lparr>pen_y := y\<rparr>)"

definition draw_event_row :: "(string \<Rightarrow> extents) \<Rightarrow> data_renderer \<Rightarrow> ('v \<Rightarrow> string) \<Rightarrow> pynum \<Rightarrow> pynum \<Rightarrow> pynum
    \<Rightarrow> 'v timeline_event \<Rightarrow> pen \<Rightarrow> pen pyres" where
  "draw_event_row ext d to_s right_x_start data_x_start data_width ev pen =
     rbind (draw_events d to_s ev data_x_start (pen_y pen) data_width (dr_text_height d + 5)
              (draw_label ext d right_x_start (te_name ev) pen)) (\<lambda>pen.
       Inr (row_end d right_x_start (dr_text_height d + 5 + dr_padding d) pen))"

definition draw_range_row :: "(string \<Rightarrow> extents) \<Rightarrow> data_renderer \<Rightarrow> pynum \<Rightarrow> pynum \<Rightarrow> pynum
    \<Rightarrow> timeline_range \<Rightarrow> pen \<Rightarrow> pen pyres" where
  "draw_range_row ext d right_x_start data_x_start data_width r pen =
     rbind (draw_ranges d r data_x_start (pen_y pen) data_width 10
              (draw_label ext d right_x_start (tr_name r) pen)) (\<lambda>pen.
       Inr (row_end d right_x_start (dr_text_height d + dr_padding d) pen))"

definition draw_timeline :: "(string \<Rightarrow> extents) \<Rightarrow> data_renderer \<Rightarrow> pynum \<Rightarrow> pynum \<Rightarrow> pynum \<Rightarrow> pynum
    \<Rightarrow> timeline \<Rightarrow> pen \<Rightarrow> pen pyres" where
  "draw_timeline ext d left_x_start right_x_start data_x_start data_width t pen =
     rbind (rfold (draw_event_row ext d str_int right_x_start data_x_start data_width) (tl_event_int t)
              (draw_label ext d left_x_start (tl_name t) pen)) (\<lambda>pen.
     rbind (rfold (draw_event_row ext d (\<lambda>s. s) right_x_start data_x_start data_width) (tl_event_str t) pen) (\<lambda>pen.
     rbind (rfold (draw_range_row ext d right_x_start data_x_start data_width) (tl_ranges t) pen) (\<lambda>pen.
       Inr (emit (draw_line 0 (pen_y pen - dr_padding d div 2) (dr_width d) 0) pen))))"

definition data_draw :: "(string \<Rightarrow> extents) \<Rightarrow> colors \<Rightarrow> data_renderer \<Rightarrow> (draw_cmd list \<times> colors) pyres" where
  "data_draw ext cs d =
     (let p = dr_padding d;
          left_x_start = p div 2;
          left_x_end = left_x_start + dr_left_width d;
          right_x_start = left_x_end + p;
          right_x_end = right_x_start + dr_right_width d;
          data_x_start = right_x_end + p div 2;
          data_width = dr_width d - data_x_start
      in rbind (rfold (draw_timeline ext d left_x_start right_x_start data_x_start data_width) (dr_timelines d)
                  \<lparr>pen_cmds = draw_line 0 0 (dr_width d) 0, pen_grey = 1, pen_colors = cs, pen_y = p div 2\<rparr>) (\<lambda>pen.
         let bot_y = pen_y pen - p div 2
         in Inr (pen_cmds pen @ draw_line (left_x_end + p div 2) 0 0 bot_y
                   @ draw_line (right_x_end + p div 2) 0 0 bot_y, pen_colors pen)))"

section \<open>ScaleRenderer\<close>

record scale =
  sc_top :: bool
  sc_lo :: pynum
  sc_hi :: pynum
  sc_delta :: pynum
  sc_width :: pynum
  sc_height :: pynum

definition new_scale :: scale where
  "new_scale = \<lparr>sc_top = False, sc_lo = 0, sc_hi = 0, sc_delta = 0, sc_width = 0, sc_height = 0\<rparr>"

definition set_bounds :: "pynum \<Rightarrow> pynum \<Rightarrow> scale \<Rightarrow> scale" where
  "set_bounds lo hi s = s\<lparr>sc_lo := lo, sc_hi := hi\<rparr>"

definition set_top :: "scale \<Rightarrow> scale" where
  "set_top s = s\<lparr>sc_top := True\<rparr>"

definition set_bot :: "scale \<Rightarrow> scale" where
  "set_bot s = s\<lparr>sc_top := False\<rparr>"

definition get_position :: "scale \<Rightarrow> pynum \<Rightarrow> pynum pyres" where
  "get_position s x = num_div ((x - sc_lo s) * sc_width s) (sc_hi s - sc_lo s)"

text \<open>
  The loop that finds the power of ten below the width of the scale. \<open>closest\<close> starts at 1
  and only grows, so the guard \<open>0 < closest\<close>, which the code does not have, always holds.
\<close>

function closest_loop :: "rat \<Rightarrow> int \<Rightarrow> int" where
  "closest_loop data_delta closest =
     (if 0 < closest \<and> of_int (closest * 10) < data_delta
      then closest_loop data_delta (closest * 10) else closest)"
  by pat_completeness auto
termination
proof (relation "measure (\<lambda>(d, c). nat (\<lceil>d\<rceil> - c))", goal_cases)
  case (2 d c)
  then have "c * 10 < \<lceil>d\<rceil>" by (simp add: less_ceiling_iff)
  with 2 show ?case by simp
qed simp

declare closest_loop.simps [simp del]

definition scale_delta :: "pynum \<Rightarrow> pynum pyres" where
  "scale_delta data_delta =
     (let closest = PyInt (closest_loop (num_val data_delta) 1)
      in rbind (num_div data_delta closest) (\<lambda>q.
           if num_eq q 0 then Inr closest
           else if num_eq q 1 then num_div closest 10
           else Inr closest))"

definition scale_layout :: "(string \<Rightarrow> extents) \<Rightarrow> pynum \<Rightarrow> scale \<Rightarrow> scale pyres" where
  "scale_layout ext width s =
     rbind (scale_delta (sc_hi s - sc_lo s)) (\<lambda>delta.
     rbind (num_mod (sc_lo s) delta) (\<lambda>_.
     rbind (num_mod (sc_hi s) delta) (\<lambda>_.
       Inr (s\<lparr>sc_delta := delta, sc_width := width, sc_height := e_height (ext all_letters) + 10\<rparr>))))"

definition ticks :: "scale \<Rightarrow> pynum \<Rightarrow> int list pyres" where
  \<comment> \<open>\<open>range(int(start), int(end + delta), int(delta))\<close>\<close>
  "ticks s delta =
     rbind (num_mod (sc_lo s) delta) (\<lambda>m.
     rbind (num_mod (sc_hi s) delta) (\<lambda>m'.
       py_range (num_int (sc_lo s - m + delta)) (num_int (sc_hi s - m' + delta)) (num_int delta)))"

definition draw_tick :: "(string \<Rightarrow> extents) \<Rightarrow> scale \<Rightarrow> int \<Rightarrow> draw_cmd list pyres" where
  "draw_tick ext s x =
     rbind (get_position s (PyInt x)) (\<lambda>real_x.
       let sg = (if sc_top s then - 1 else 1);
           e = ext (str_int x);
           text_delta = (if sc_top s then e_height e + e_y_bearing e else - e_y_bearing e)
       in Inr [MoveTo real_x 0, LineTo real_x (5 * sg), ClosePath, Stroke,
               MoveTo (real_x - e_width e div 2) ((5 + 5 + text_delta) * sg), ShowText (str_int x)])"

definition draw_subtick :: "scale \<Rightarrow> int \<Rightarrow> draw_cmd list pyres" where
  "draw_subtick s x =
     rbind (get_position s (PyInt x)) (\<lambda>real_x.
       Inr [MoveTo real_x 0, LineTo real_x (3 * (if sc_top s then - 1 else 1)), ClosePath, Stroke])"

definition scale_draw :: "(string \<Rightarrow> extents) \<Rightarrow> scale \<Rightarrow> draw_cmd list pyres" where
  "scale_draw ext s =
     rbind (ticks s (sc_delta s)) (\<lambda>xs.
     rbind (rmap (draw_tick ext s) xs) (\<lambda>main.
       let delta = sc_delta s div 10
       in rbind (if delta > 0 then rbind (ticks s delta) (rmap (draw_subtick s)) else Inr []) (\<lambda>sub.
            Inr ([black, SetLineWidth (PyFloat 1)] @ concat main @ concat sub))))"

section \<open>GraphicRenderer\<close>

record graphic =
  gr_start :: pynum
  gr_end :: pynum
  gr_mid :: scale
  gr_bot :: scale
  gr_width :: pynum
  gr_height :: pynum
  gr_legend :: legend
  gr_data :: data_renderer
  gr_r_start :: pynum
  gr_r_end :: pynum

definition new_graphic :: "pynum \<Rightarrow> pynum \<Rightarrow> graphic" where
  "new_graphic start end = \<lparr>gr_start = PyFloat (num_val start), gr_end = PyFloat (num_val end),
     gr_mid = set_top new_scale, gr_bot = set_bot (set_bounds start end new_scale),
     gr_width = 1, gr_height = 1, gr_legend = new_legend, gr_data = new_data_renderer,
     gr_r_start = 0, gr_r_end = 0\<rparr>"

definition get_data_rectangle :: "graphic \<Rightarrow> pynum \<times> pynum \<times> pynum \<times> pynum" where
  "get_data_rectangle g =
     (let y_start = lg_height (gr_legend g); x_start = get_data_x_start (gr_data g)
      in (x_start, y_start, gr_width g - x_start, dr_height (gr_data g)))"

definition scale_data :: "graphic \<Rightarrow> pynum \<Rightarrow> pynum pyres" where
  "scale_data g x =
     rbind (num_div x (gr_width g - get_data_x_start (gr_data g))) (\<lambda>q. Inr (q * (gr_r_end g - gr_r_start g)))"

definition get_selection_rectangle :: "graphic \<Rightarrow> (pynum \<times> pynum \<times> pynum \<times> pynum) pyres" where
  "get_selection_rectangle g =
     (let y_start = lg_height (gr_legend g) + dr_height (gr_data g) + sc_height (gr_mid g) + 20;
          y_height = sc_height (gr_bot g) + 20
      in rbind (get_position (gr_bot g) (gr_r_start g)) (\<lambda>x_start.
         rbind (get_position (gr_bot g) (gr_r_end g)) (\<lambda>x_end.
           Inr (x_start, y_start, x_end - x_start, y_height))))"

definition scale_selection :: "graphic \<Rightarrow> pynum \<Rightarrow> pynum pyres" where
  "scale_selection g x = rbind (num_div x (gr_width g)) (\<lambda>q. Inr (q * (gr_end g - gr_start g)))"

definition graphic_layout :: "(string \<Rightarrow> extents) \<Rightarrow> pynum \<Rightarrow> pynum \<Rightarrow> graphic \<Rightarrow> graphic \<times> unit pyres" where
  "graphic_layout ext width height g =
     (let g = g\<lparr>gr_width := width, gr_height := height, gr_legend := legend_layout ext width (gr_legend g),
                gr_data := data_layout ext width (gr_data g)\<rparr>
      in case scale_layout ext (width - get_data_x_start (gr_data g)) (gr_mid g) of
           Inl e \<Rightarrow> (g, Inl e)
         | Inr mid \<Rightarrow>
             let g = g\<lparr>gr_mid := mid\<rparr>
             in case scale_layout ext width (gr_bot g) of
                  Inl e \<Rightarrow> (g, Inl e)
                | Inr sb \<Rightarrow> (g\<lparr>gr_bot := sb\<rparr>, Inr ()))"

definition set_range :: "(string \<Rightarrow> extents) \<Rightarrow> pynum \<Rightarrow> pynum \<Rightarrow> graphic \<Rightarrow> graphic \<times> unit pyres" where
  "set_range ext start end g =
     (let s = py_min start end;
          e = py_max start end;
          start = py_max (gr_start g) s;
          end = py_min (gr_end g) e
      in graphic_layout ext (gr_width g) (gr_height g)
           (g\<lparr>gr_r_start := start, gr_r_end := end, gr_data := set_render_range start end (gr_data g),
              gr_mid := set_bounds start end (gr_mid g)\<rparr>))"

definition graphic_get_range :: "graphic \<Rightarrow> pynum \<times> pynum" where
  "graphic_get_range g = (gr_r_start g, gr_r_end g)"

definition set_data :: "data_renderer \<Rightarrow> graphic \<Rightarrow> graphic" where
  "set_data d g = g\<lparr>gr_data := d\<rparr>"

definition set_top_legend :: "legend \<Rightarrow> graphic \<Rightarrow> graphic" where
  "set_top_legend l g = g\<lparr>gr_legend := l\<rparr>"

text \<open>
  \<open>draw\<close>, in the sections that its comments name; \<open>h\<close> is \<open>height_used\<close> at the section and
  \<open>us\<close>, \<open>ue\<close> are the positions of the selection on the bottom scale.
\<close>

definition draw_separation :: "graphic \<Rightarrow> pynum \<Rightarrow> draw_cmd list" where
  "draw_separation g h = [MoveTo 0 h, LineTo (gr_width g) h, ClosePath, SetLineWidth 2, black, Stroke]"

definition draw_pane_border :: "graphic \<Rightarrow> pynum \<Rightarrow> draw_cmd list" where
  "draw_pane_border g h =
     [MoveTo (get_data_x_start (gr_data g)) h, RelLineTo 0 (- sc_height (gr_mid g)), ClosePath, black,
      SetLineWidth 2, Stroke]"

definition draw_connections :: "graphic \<Rightarrow> pynum \<Rightarrow> pynum \<Rightarrow> pynum \<Rightarrow> draw_cmd list" where
  "draw_connections g h us ue =
     [MoveTo 0 h, LineTo (get_data_x_start (gr_data g)) h, LineTo us (h + 20), LineTo 0 (h + 20), LineTo 0 h,
      black, SetLineWidth 1, StrokePreserve, light_grey, Fill,
      MoveTo (gr_width g) h, LineTo (gr_width g) (h + 20), LineTo ue (h + 20), LineTo (gr_width g) h,
      black, SetLineWidth 1, StrokePreserve, light_grey, Fill]"

definition draw_unused :: "graphic \<Rightarrow> pynum \<Rightarrow> pynum \<Rightarrow> pynum \<Rightarrow> draw_cmd list" where
  "draw_unused g h us ue =
     (let uh = sc_height (gr_bot g) + 20; w = gr_width g
      in [Rectangle 0 h us uh, Rectangle ue h (w - ue) uh, light_grey, Fill,
          MoveTo ue h, LineTo w h, LineTo w (h + uh), LineTo 0 (h + uh), LineTo 0 h, LineTo us h, ClosePath,
          SetLineWidth 2, black, Stroke,
          MoveTo us h, LineTo ue h, ClosePath, SetLineWidth 1, light_grey, Stroke,
          Save, MoveTo (py_max us 2) h, RelLineTo 0 uh, MoveTo (py_min ue (w - 2)) h, RelLineTo 0 uh,
          SetDash [5] 0, black, SetLineWidth 1, Stroke, Restore])"

definition graphic_draw :: "(string \<Rightarrow> extents) \<Rightarrow> colors \<Rightarrow> graphic \<Rightarrow> (draw_cmd list \<times> colors) pyres" where
  "graphic_draw ext cs g =
     rbind (legend_draw ext (gr_legend g)) (\<lambda>lg.
     rbind (data_draw ext cs (gr_data g)) (\<lambda>(data, cs).
     rbind (scale_draw ext (gr_mid g)) (\<lambda>mid.
     rbind (get_position (gr_bot g) (gr_r_start g)) (\<lambda>us.
     rbind (get_position (gr_bot g) (gr_r_end g)) (\<lambda>ue.
     rbind (scale_draw ext (gr_bot g)) (\<lambda>low.
       let leg_h = lg_height (gr_legend g);
           h = leg_h + dr_height (gr_data g) + sc_height (gr_mid g)
       in Inr ([Save, SetRGB 1 1 1, SetOperatorSource, Rectangle 0 0 (gr_width g) (gr_height g), Fill]
               @ [Save] @ lg @ [Restore]
               @ draw_separation g leg_h
               @ [Save, Translate 0 leg_h] @ data @ [Restore]
               @ [Save, Translate (get_data_x_start (gr_data g)) h] @ mid @ [Restore]
               @ draw_pane_border g h @ draw_separation g h
               @ draw_connections g h us ue @ draw_unused g (h + 20) us ue
               @ [Save, Translate 0 (h + 20)] @ low @ [Restore], cs)))))))"

section \<open>Legend layout\<close>

text \<open>
  The boxes of the legend, as \<open>draw\<close> places them: for every item its position and the
  running state after it.
\<close>

fun placements :: "(string \<Rightarrow> extents) \<Rightarrow> pynum \<Rightarrow> pynum \<Rightarrow> string list \<Rightarrow> pynum \<times> pynum \<times> pynum
    \<Rightarrow> (pynum \<times> pynum) list" where
  "placements ext p w [] st = []"
| "placements ext p w (t # ts) st =
     (let (lh, th, used) = place_item p w (ext t) st
      in (used - (p + p + e_width (ext t) + p), th) # placements ext p w ts (lh, th, used))"

definition item_fits :: "(string \<Rightarrow> extents) \<Rightarrow> pynum \<Rightarrow> pynum \<Rightarrow> string \<Rightarrow> bool" where
  "item_fits ext p w t \<longleftrightarrow> 0 \<le> num_val (e_width (ext t)) \<and> 0 \<le> num_val (e_height (ext t)) \<and>
     num_val (p + (p + p + e_width (ext t) + p)) \<le> num_val w"

lemma place_item_step:
  assumes "place_item p w e (lh, th, used) = (lh', th', used')"
  shows "num_val lh \<le> num_val lh'" "num_val (e_height e + p) \<le> num_val lh'"
    "th' = th + lh' \<and> used' = p + (p + p + e_width e + p) \<or>
     th' = th \<and> used' = used + (p + p + e_width e + p) \<and> num_val used' \<le> num_val w"
  using assms by (auto simp: place_item_def Let_def num_less_val not_less split: if_splits)

lemma fold_place_mono:
  "fold (\<lambda>t. place_item p w (ext t)) ts (lh, th, used) = (lh', th', used') \<Longrightarrow>
   0 \<le> num_val lh \<Longrightarrow> num_val (th + lh) \<le> num_val (th' + lh')"
proof (induction ts arbitrary: lh th used)
  case (Cons t ts)
  obtain l1 h1 u1 where p1: "place_item p w (ext t) (lh, th, used) = (l1, h1, u1)" by (metis prod_cases3)
  note step = place_item_step [OF p1]
  have "fold (\<lambda>t. place_item p w (ext t)) ts (l1, h1, u1) = (lh', th', used')"
    using Cons.prems(1) p1 by simp
  moreover have "0 \<le> num_val l1" using step(1) Cons.prems(2) by linarith
  ultimately have "num_val (h1 + l1) \<le> num_val (th' + lh')" by (rule Cons.IH)
  with step Cons.prems(2) show ?case by auto
qed simp

lemma placements_inside:
  assumes "list_all (item_fits ext p w) ts" "0 \<le> num_val p" "0 \<le> num_val lh" "num_val p \<le> num_val used"
    "num_val used \<le> num_val w"
    and "fold (\<lambda>t. place_item p w (ext t)) ts (lh, th, used) = (lh', th', used')"
    and "(x, y) \<in> set (placements ext p w ts (lh, th, used))"
  shows "num_val p \<le> num_val x \<and> (\<exists>t \<in> set ts. num_val (x + (p + p + e_width (ext t) + p)) \<le> num_val w \<and>
      num_val (y + (e_height (ext t) + p)) \<le> num_val (th' + lh')) \<and> num_val th \<le> num_val y"
  using assms
proof (induction ts arbitrary: lh th used)
  case Nil
  then show ?case by simp
next
  case (Cons t ts)
  obtain l1 h1 u1 where p1: "place_item p w (ext t) (lh, th, used) = (l1, h1, u1)" by (metis prod_cases3)
  note step = place_item_step [OF p1]
  have fit: "item_fits ext p w t" "list_all (item_fits ext p w) ts" using Cons.prems(1) by simp_all
  have l1: "0 \<le> num_val l1" using step(1) Cons.prems(3) by linarith
  have u1: "num_val p \<le> num_val u1" "num_val u1 \<le> num_val w" "num_val th \<le> num_val h1"
    using step(3) fit(1) Cons.prems(2,4,5) l1 by (auto simp: item_fits_def)
  have rest: "fold (\<lambda>t. place_item p w (ext t)) ts (l1, h1, u1) = (lh', th', used')"
    using Cons.prems(6) p1 by simp
  show ?case
  proof (cases "(x, y) \<in> set (placements ext p w ts (l1, h1, u1))")
    case True
    from Cons.IH [OF fit(2) Cons.prems(2) l1 u1(1,2) rest True] u1(3) show ?thesis by auto
  next
    case False
    then have xy: "x = u1 - (p + p + e_width (ext t) + p)" "y = h1" using Cons.prems(7) p1 by auto
    have "num_val (h1 + l1) \<le> num_val (th' + lh')"
      using rest l1 by (rule fold_place_mono)
    with xy u1 step(2,3) fit(1) Cons.prems(4) show ?thesis
      by (auto simp: item_fits_def)
  qed
qed

lemma legend_draw_rectangles:
  "legend_draw_loop ext l ts i st = Inr cmds \<Longrightarrow> Rectangle x y a b \<in> set cmds \<Longrightarrow>
     (x, y) \<in> set (placements ext (lg_padding l) (lg_width l) ts st) \<and> a = lg_padding l \<and> b = lg_padding l"
proof (induction ts arbitrary: i st cmds)
  case (Cons t ts)
  obtain lh th used where p1: "place_item (lg_padding l) (lg_width l) (ext t) st = (lh, th, used)"
    by (metis prod_cases3)
  with Cons.prems(1) obtain c rest where rest: "legend_draw_loop ext l ts (i + 1) (lh, th, used) = Inr rest"
    and cmds: "cmds = [Rectangle (used - (lg_padding l + lg_padding l + e_width (ext t) + lg_padding l)) th
        (lg_padding l) (lg_padding l), black, SetLineWidth 2, StrokePreserve, color_rgb c, Fill,
        MoveTo (used - (lg_padding l + lg_padding l + e_width (ext t) + lg_padding l) + lg_padding l * 2)
          (th + e_height (ext t)), black, ShowText t] @ rest"
    by (auto simp: Let_def rbind_Inr_iff)
  show ?case
  proof (cases "Rectangle x y a b \<in> set rest")
    case True
    with Cons.IH [OF rest] p1 show ?thesis by simp
  next
    case False
    with Cons.prems(2) p1 show ?thesis by (auto simp: cmds color_rgb_def)
  qed
qed simp

section \<open>Scales\<close>

lemma closest_loop_power:
  assumes "0 < c"
  shows "\<exists>k. closest_loop d c = c * 10 ^ k \<and> d \<le> of_int (c * 10 ^ k * 10) \<and>
    (k = 0 \<or> of_int (c * 10 ^ k) < d)"
  using assms
proof (induction d c rule: closest_loop.induct)
  case (1 d c)
  show ?case
  proof (cases "of_int (c * 10) < d")
    case True
    with 1 obtain k where k: "closest_loop d (c * 10) = c * 10 * 10 ^ k" "d \<le> of_int (c * 10 * 10 ^ k * 10)"
      "k = 0 \<or> of_int (c * 10 * 10 ^ k) < d" by auto
    have "closest_loop d c = closest_loop d (c * 10)"
      using True 1(2) by (simp add: closest_loop.simps [of d c])
    with k True show ?thesis by (intro exI [of _ "Suc k"]) (auto simp: mult.assoc)
  next
    case False
    then show ?thesis by (intro exI [of _ 0]) (auto simp: closest_loop.simps [of d c])
  qed
qed

lemma PyInt_ops [simp]:
  "PyInt a + PyInt b = PyInt (a + b)" "PyInt a - PyInt b = PyInt (a - b)" "PyInt a * PyInt b = PyInt (a * b)"
  "PyInt a div PyInt b = PyInt (a div b)" "PyInt a mod PyInt b = PyInt (a mod b)"
  by (simp_all add: plus_pynum_def minus_pynum_def times_pynum_def divide_pynum_def modulo_pynum_def)

lemma scale_delta_int:
  assumes "0 < n"
  shows "scale_delta (PyInt n) = (if n = 1 then Inr (PyInt 0) else scale_delta (PyInt n)) \<and>
    (n \<noteq> 1 \<longrightarrow> (\<exists>k. scale_delta (PyInt n) = Inr (PyInt (10 ^ k)) \<and> 10 ^ k \<le> n \<and> n < 20 * 10 ^ k))"
proof -
  obtain k where k: "closest_loop (of_int n) 1 = 10 ^ k" "n \<le> 10 ^ k * 10" "k = 0 \<or> 10 ^ k < n"
    using closest_loop_power [of 1 "of_int n"]
    by (metis less_numeral_extra(1) mult_1 of_int_le_iff of_int_less_iff)
  have d: "scale_delta (PyInt n) =
    (if n div 10 ^ k = 0 then Inr (PyInt (10 ^ k)) else if n div 10 ^ k = 1 then Inr (PyInt (10 ^ k div 10))
     else Inr (PyInt (10 ^ k)))"
    using k(1) by (simp add: scale_delta_def num_eq_def numeral_pynum)
  have le: "10 ^ k \<le> n" using k(3) assms by auto
  have "0 < n div 10 ^ k" using le by (simp add: pos_imp_zdiv_pos_iff)
  then have q: "n div 10 ^ k \<noteq> 0" by simp
  show ?thesis
  proof (cases "n div 10 ^ k = 1")
    case False
    have "n \<noteq> 1"
    proof
      assume "n = 1"
      with le have "(10::int) ^ k = 1" by (metis order_antisym zero_less_numeral zero_less_power int_one_le_iff_zero_less)
      with \<open>n = 1\<close> False show False by simp
    qed
    moreover have "n < 20 * 10 ^ k" using k(2) zero_less_power [of "10::int" k] by linarith
    ultimately show ?thesis using d q False le by auto
  next
    case True
    have lt: "n < 2 * 10 ^ k"
    proof -
    have "n = 10 ^ k + n mod 10 ^ k" using True div_mult_mod_eq [of n "10 ^ k"] by simp
    moreover have "n mod 10 ^ k < 10 ^ k" by (rule pos_mod_bound) simp
    ultimately show ?thesis by linarith
  qed
    show ?thesis
    proof (cases k)
      case 0
      with lt le have "n = 1" by simp
      with 0 d True show ?thesis by simp
    next
      case (Suc j)
      have "(1::int) \<le> 10 ^ j" by (rule one_le_power) simp
      moreover have "10 * 10 ^ j \<le> n" using le Suc by simp
      ultimately have "n \<noteq> 1" by linarith
      moreover have "scale_delta (PyInt n) = Inr (PyInt (10 ^ j))" using d True Suc by simp
      ultimately show ?thesis using le lt Suc by (intro conjI impI exI [of _ j]) auto
    qed
  qed
qed

text \<open>The tick positions of integer bounds: the multiples of the spacing above \<open>a\<close> and up to \<open>b\<close>.\<close>

lemma ticks_int:
  assumes "sc_lo s = PyInt a" "sc_hi s = PyInt b" "0 < d"
  shows "\<exists>xs. ticks s (PyInt d) = Inr xs \<and> set xs = {x. a < x \<and> x \<le> b \<and> d dvd x}"
proof -
  let ?st = "a - a mod d + d" and ?en = "b - b mod d + d"
  let ?xs = "map (\<lambda>k. ?st + int k * d) [0..<nat ((?en - ?st + d - 1) div d)]"
  have eq: "ticks s (PyInt d) = Inr ?xs"
    using assms by (simp add: ticks_def py_range_def algebra_simps)
  have st: "?st = (a div d + 1) * d" and en: "?en = (b div d + 1) * d"
    using div_mult_mod_eq [of a d] div_mult_mod_eq [of b d] by (simp_all add: algebra_simps)
  have n: "(?en - ?st + d - 1) div d = b div d - a div d"
  proof -
    have e: "?en - ?st + d - 1 = (d - 1) + (b div d - a div d) * d"
      unfolding st en by (simp add: algebra_simps)
    have "((d - 1) + (b div d - a div d) * d) div d = (b div d - a div d) + (d - 1) div d"
      using assms(3) by (intro div_mult_self1) simp
    also have "(d - 1) div d = 0" using assms(3) by (intro div_pos_pos_trivial) simp_all
    finally show ?thesis unfolding e by simp
  qed
  have "x \<in> set ?xs \<longleftrightarrow> a < x \<and> x \<le> b \<and> d dvd x" for x
  proof -
    have "x \<in> set ?xs \<longleftrightarrow> (\<exists>k. int k < b div d - a div d \<and> x = (a div d + 1 + int k) * d)"
    proof -
      have "x \<in> set ?xs \<longleftrightarrow> (\<exists>k < nat (b div d - a div d). x = ?st + int k * d)"
        unfolding n set_map by (auto simp: image_iff)
      moreover have "?st + int k * d = (a div d + 1 + int k) * d" for k
        unfolding st by (simp add: algebra_simps)
      ultimately show ?thesis by (simp add: zless_nat_eq_int_zless)
    qed
    also have "\<dots> \<longleftrightarrow> (\<exists>m. a div d < m \<and> m \<le> b div d \<and> x = m * d)"
    proof
      assume "\<exists>k. int k < b div d - a div d \<and> x = (a div d + 1 + int k) * d"
      then obtain k where "int k < b div d - a div d" "x = (a div d + 1 + int k) * d" by blast
      then show "\<exists>m. a div d < m \<and> m \<le> b div d \<and> x = m * d"
        by (intro exI [of _ "a div d + 1 + int k"]) auto
    next
      assume "\<exists>m. a div d < m \<and> m \<le> b div d \<and> x = m * d"
      then obtain m where "a div d < m" "m \<le> b div d" "x = m * d" by blast
      then show "\<exists>k. int k < b div d - a div d \<and> x = (a div d + 1 + int k) * d"
        by (intro exI [of _ "nat (m - a div d - 1)"]) auto
    qed
    also have "\<dots> \<longleftrightarrow> a < x \<and> x \<le> b \<and> d dvd x"
    proof -
      have le: "m \<le> c div d \<longleftrightarrow> m * d \<le> c" for m c
      proof
        assume "m \<le> c div d"
        then have "m * d \<le> c div d * d" using assms(3) by (intro mult_right_mono) simp_all
        also have "\<dots> \<le> c"
          using div_mult_mod_eq [of c d] pos_mod_sign [OF assms(3), of c] by linarith
        finally show "m * d \<le> c" .
      next
        assume "m * d \<le> c"
        then have "m * d div d \<le> c div d" using assms(3) by (rule zdiv_mono1)
        with assms(3) show "m \<le> c div d" by simp
      qed
      have "a div d < m \<longleftrightarrow> a < m * d" "m \<le> b div d \<longleftrightarrow> m * d \<le> b" for m
        using le [of m a] le [of m b] by linarith+
      then show ?thesis by (auto simp: dvd_def mult.commute)
    qed
    finally show ?thesis .
  qed
  with eq show ?thesis by blast
qed

section \<open>The range shown\<close>

lemma legend_layout_frame [simp]:
  "lg_legends (legend_layout ext w l) = lg_legends l" "lg_padding (legend_layout ext w l) = lg_padding l"
  "lg_width (legend_layout ext w l) = w" "lg_colors (legend_layout ext w l) = lg_colors l"
  by (simp_all add: legend_layout_def case_prod_beta Let_def)

lemma data_layout_frame [simp]:
  "dr_start (data_layout ext w d) = dr_start d" "dr_end (data_layout ext w d) = dr_end d"
  "dr_timelines (data_layout ext w d) = dr_timelines d" "dr_padding (data_layout ext w d) = dr_padding d"
  by (simp_all add: data_layout_def Let_def)

lemma scale_layout_frame:
  "scale_layout ext w s = Inr s' \<Longrightarrow> sc_lo s' = sc_lo s \<and> sc_hi s' = sc_hi s \<and> sc_top s' = sc_top s \<and> sc_width s' = w"
  by (auto simp: scale_layout_def rbind_Inr_iff)

text \<open>What every operation keeps: the range lies in the bounds, and the renderers show it.\<close>

definition graphic_ok :: "graphic \<Rightarrow> bool" where
  \<comment> \<open>a range that has been pushed out of the bounds is empty and has an end at one of them\<close>
  "graphic_ok g \<longleftrightarrow> gr_start g \<le> gr_r_start g \<and> gr_r_end g \<le> gr_end g \<and>
     (gr_r_start g \<le> gr_r_end g \<or> gr_r_start g \<le> gr_start g \<or> gr_end g \<le> gr_r_end g) \<and>
     dr_start (gr_data g) = gr_r_start g \<and> dr_end (gr_data g) = gr_r_end g \<and>
     sc_lo (gr_mid g) = gr_r_start g \<and> sc_hi (gr_mid g) = gr_r_end g"

lemma graphic_layout_frame:
  assumes "graphic_layout ext w h g = (g', r)"
  shows "gr_start g' = gr_start g" "gr_end g' = gr_end g" "gr_r_start g' = gr_r_start g" "gr_r_end g' = gr_r_end g"
    "dr_start (gr_data g') = dr_start (gr_data g)" "dr_end (gr_data g') = dr_end (gr_data g)"
    "sc_lo (gr_mid g') = sc_lo (gr_mid g)" "sc_hi (gr_mid g') = sc_hi (gr_mid g)"
    "sc_lo (gr_bot g') = sc_lo (gr_bot g)" "sc_hi (gr_bot g') = sc_hi (gr_bot g)"
    "gr_width g' = w" "gr_height g' = h"
  using assms
  by (auto simp: graphic_layout_def Let_def dest: scale_layout_frame split: sum.splits)

lemma graphic_layout_ok: "graphic_ok g \<Longrightarrow> graphic_ok (fst (graphic_layout ext w h g))"
  using graphic_layout_frame [of ext w h g "fst (graphic_layout ext w h g)" "snd (graphic_layout ext w h g)"]
  by (simp add: graphic_ok_def)

lemma set_range_fields:
  assumes "set_range ext a b g = (g', r)"
  shows "gr_start g' = gr_start g" "gr_end g' = gr_end g"
    "gr_r_start g' = py_max (gr_start g) (py_min a b)" "gr_r_end g' = py_min (gr_end g) (py_max a b)"
    "gr_width g' = gr_width g" "gr_height g' = gr_height g"
    "sc_lo (gr_bot g') = sc_lo (gr_bot g)" "sc_hi (gr_bot g') = sc_hi (gr_bot g)"
  using graphic_layout_frame [OF assms [unfolded set_range_def Let_def]] by simp_all

lemma set_range_ok: "graphic_ok (fst (set_range ext a b g))"
proof -
  have "graphic_ok (g\<lparr>gr_r_start := py_max (gr_start g) (py_min a b), gr_r_end := py_min (gr_end g) (py_max a b),
      gr_data := set_render_range (py_max (gr_start g) (py_min a b)) (py_min (gr_end g) (py_max a b)) (gr_data g),
      gr_mid := set_bounds (py_max (gr_start g) (py_min a b)) (py_min (gr_end g) (py_max a b)) (gr_mid g)\<rparr>)"
    by (simp add: graphic_ok_def set_render_range_def set_bounds_def num_le_val) linarith
  then show ?thesis unfolding set_range_def Let_def by (rule graphic_layout_ok)
qed

section \<open>Drawing the ranges\<close>

lemma py_trunc_mono: "p \<le> q \<Longrightarrow> py_trunc p \<le> py_trunc q"
proof -
  assume "p \<le> q"
  consider "q < 0" | "p < 0" "0 \<le> q" | "0 \<le> p" using \<open>p \<le> q\<close> by linarith
  then show ?thesis
  proof cases
    case 1
    then have "\<lfloor>- q\<rfloor> \<le> \<lfloor>- p\<rfloor>" using \<open>p \<le> q\<close> by (intro floor_mono) simp
    with 1 \<open>p \<le> q\<close> show ?thesis by (simp add: py_trunc_def)
  next
    case 2
    then have "0 \<le> \<lfloor>- p\<rfloor>" "0 \<le> \<lfloor>q\<rfloor>" unfolding zero_le_floor by simp_all
    then have "- \<lfloor>- p\<rfloor> \<le> \<lfloor>q\<rfloor>" by linarith
    with 2 show ?thesis by (simp add: py_trunc_def)
  next
    case 3
    with \<open>p \<le> q\<close> show ?thesis by (simp add: py_trunc_def floor_mono)
  qed
qed

lemma num_int_trunc: "num_int x = py_trunc (num_val x)"
  by (cases x) simp_all

lemma scale_x_float:
  assumes "is_float width" "num_val (dr_start d) < num_val (dr_end d)"
  shows "scale_x d x width t = Inr (py_trunc (num_val x +
    (num_val t - num_val (dr_start d)) * num_val width / (num_val (dr_end d) - num_val (dr_start d))))"
  using assms by (simp add: scale_x_def num_div_cases num_int_trunc num_val_div_float)

lemma draw_range_loop_inside:
  assumes "is_float width" "0 \<le> num_val width" "num_val (dr_start d) < num_val (dr_end d)"
    and "\<forall>r \<in> set rs. r_start r \<le> r_end r \<and> num_val (dr_start d) \<le> of_int (r_end r) \<and>
       of_int (r_start r) \<le> num_val (dr_end d)"
    and "draw_range_loop d x y width last_x rs pen = Inr pen'"
  shows "\<exists>cs. pen_cmds pen' = pen_cmds pen @ cs \<and>
    (\<forall>u v w h. Rectangle u v w h \<in> set cs \<longrightarrow>
       v = y \<and> h = 10 \<and> PyInt (num_int x) \<le> u \<and> 0 \<le> w \<and> u + w \<le> PyInt (num_int (x + width)))"
  using assms(4,5)
proof (induction rs arbitrary: last_x pen)
  case Nil
  then show ?case by simp
next
  case (Cons r rs)
  let ?S = "num_val (dr_start d)" and ?E = "num_val (dr_end d)" and ?W = "num_val width"
  let ?s = "py_max (PyInt (r_start r)) (dr_start d)" and ?e = "py_min (PyInt (r_end r)) (dr_end d)"
  let ?pos = "\<lambda>t. py_trunc (num_val x + (t - ?S) * ?W / (?E - ?S))"
  have mono: "?pos t \<le> ?pos t'" if "t \<le> t'" for t t'
    using that assms(2,3) by (intro py_trunc_mono add_left_mono divide_right_mono mult_right_mono) auto
  have se: "?S \<le> num_val ?s" "num_val ?s \<le> num_val ?e" "num_val ?e \<le> ?E"
    using Cons.prems(1) assms(3) by auto
  have xs: "scale_x d x width ?s = Inr (?pos (num_val ?s))" "scale_x d x width ?e = Inr (?pos (num_val ?e))"
    by (rule scale_x_float [OF assms(1,3)])+
  have ends: "?pos ?S = num_int x" "?pos ?E = num_int (x + width)"
    using assms(3) by (simp_all add: num_int_trunc)
  have rect: "num_int x \<le> ?pos (num_val ?s)" "?pos (num_val ?s) \<le> ?pos (num_val ?e)"
      "?pos (num_val ?e) \<le> num_int (x + width)"
    using mono [OF se(1)] mono [OF se(2)] mono [OF se(3)] unfolding ends by simp_all
  have rs: "\<forall>r \<in> set rs. r_start r \<le> r_end r \<and> ?S \<le> of_int (r_end r) \<and> of_int (r_start r) \<le> ?E"
    using Cons.prems(1) by simp
  show ?case
  proof (cases "?pos (num_val ?e) > last_x")
    case False
    with Cons.prems(2) xs have "draw_range_loop d x y width last_x rs pen = Inr pen'"
      by (simp add: Let_def)
    with Cons.IH [OF rs] show ?thesis by blast
  next
    case True
    with Cons.prems(2) xs obtain c cs where
      run: "draw_range_loop d x y width (?pos (num_val ?e)) rs
        ((emit [Rectangle (PyInt (?pos (num_val ?s))) y (PyInt (?pos (num_val ?e) - ?pos (num_val ?s))) 10, black,
           StrokePreserve, color_rgb c, Fill] pen)\<lparr>pen_colors := cs\<rparr>) = Inr pen'"
      by (auto simp: Let_def rbind_Inr_iff)
    from Cons.IH [OF rs run] obtain more where more:
      "pen_cmds pen' = pen_cmds pen @ [Rectangle (PyInt (?pos (num_val ?s))) y (PyInt (?pos (num_val ?e) - ?pos (num_val ?s))) 10,
         black, StrokePreserve, color_rgb c, Fill] @ more"
      "\<forall>u v w h. Rectangle u v w h \<in> set more \<longrightarrow>
       v = y \<and> h = 10 \<and> PyInt (num_int x) \<le> u \<and> 0 \<le> w \<and> u + w \<le> PyInt (num_int (x + width))"
      by (auto simp: emit_def)
    show ?thesis
    proof (intro exI [of _ "[Rectangle (PyInt (?pos (num_val ?s))) y (PyInt (?pos (num_val ?e) - ?pos (num_val ?s))) 10,
         black, StrokePreserve, color_rgb c, Fill] @ more"] conjI allI impI)
      show "pen_cmds pen' = pen_cmds pen @ [Rectangle (PyInt (?pos (num_val ?s))) y (PyInt (?pos (num_val ?e) - ?pos (num_val ?s))) 10,
         black, StrokePreserve, color_rgb c, Fill] @ more" by (rule more(1))
      fix u v w h
      assume "Rectangle u v w h \<in> set ([Rectangle (PyInt (?pos (num_val ?s))) y (PyInt (?pos (num_val ?e) - ?pos (num_val ?s))) 10,
         black, StrokePreserve, color_rgb c, Fill] @ more)"
      then consider "u = PyInt (?pos (num_val ?s))" "v = y" "w = PyInt (?pos (num_val ?e) - ?pos (num_val ?s))" "h = 10"
        | "Rectangle u v w h \<in> set more"
        by (auto simp: color_rgb_def)
      then show "v = y" "h = 10" "PyInt (num_int x) \<le> u" "0 \<le> w" "u + w \<le> PyInt (num_int (x + width))"
        using more(2) rect by (cases; simp add: num_le_val)+
    qed
  qed
qed

section \<open>Properties\<close>

text \<open>When every legend item fits into the width on its own, each box that \<open>draw\<close> draws
  lies between the left padding and the width and inside the height that \<open>layout\<close> reserved.\<close>

theorem legend_boxes_inside:
  assumes "list_all (item_fits ext (lg_padding l) width) (lg_legends l)" and "0 \<le> lg_padding l"
    and "lg_padding l \<le> width"
    and "legend_draw ext (legend_layout ext width l) = Inr cmds" and "Rectangle x y w h \<in> set cmds"
  shows "lg_padding l \<le> x \<and> x + w \<le> width \<and> lg_padding l \<le> y \<and> y + h \<le> lg_height (legend_layout ext width l)"
proof -
  let ?p = "lg_padding l"
  obtain lh th used where f: "fold (\<lambda>t. place_item ?p width (ext t)) (lg_legends l) (0, ?p, ?p) = (lh, th, used)"
    by (metis prod_cases3)
  have r: "(x, y) \<in> set (placements ext ?p width (lg_legends l) (0, ?p, ?p)) \<and> w = ?p \<and> h = ?p"
    using legend_draw_rectangles [OF assms(4) [unfolded legend_draw_def] assms(5)] by simp
  obtain t where t: "num_val ?p \<le> num_val x" "t \<in> set (lg_legends l)"
    "num_val (x + (?p + ?p + e_width (ext t) + ?p)) \<le> num_val width"
    "num_val (y + (e_height (ext t) + ?p)) \<le> num_val (th + lh)" "num_val ?p \<le> num_val y"
    using placements_inside [OF assms(1) _ _ _ _ f, of x y] r assms(2,3) by (auto simp: num_le_val)
  have "item_fits ext ?p width t" using assms(1) t(2) by (simp add: list_all_iff)
  with t r assms(2) f show ?thesis
    by (auto simp: item_fits_def num_le_val legend_layout_def case_prod_beta)
qed

definition sample_ext :: "string \<Rightarrow> extents" where
  \<comment> \<open>ten units per character\<close>
  "sample_ext t = \<lparr>e_y_bearing = - 8, e_width = PyInt (int (length t)) * 10, e_height = 8\<rparr>"

definition sample_legend :: legend where
  "sample_legend = \<lparr>lg_padding = 10, lg_legends = [''ab'', ''c''], lg_colors = [mk_color 1 0 0, mk_color 0 1 0],
     lg_width = 0, lg_height = 0\<rparr>"

theorem legend_boxes_inside_witness:
  "\<exists>cmds x y w h. legend_draw sample_ext (legend_layout sample_ext 70 sample_legend) = Inr cmds \<and>
     Rectangle x y w h \<in> set cmds \<and> x + w \<le> 70"
proof -
  have fits: "list_all (item_fits sample_ext (lg_padding sample_legend) 70) (lg_legends sample_legend)"
    "0 \<le> lg_padding sample_legend" "lg_padding sample_legend \<le> 70"
    by (simp_all add: sample_legend_def item_fits_def sample_ext_def num_le_val)
  obtain cmds x y w h where d: "legend_draw sample_ext (legend_layout sample_ext 70 sample_legend) = Inr cmds"
    "Rectangle x y w h \<in> set cmds"
    by (fastforce simp: legend_draw_def legend_layout_def sample_legend_def case_prod_beta py_index_def
        py_pos_def Let_def)
  from legend_boxes_inside [OF fits d] d show ?thesis by blast
qed

text \<open>On integer bounds \<open>a < b\<close> the scale cannot be laid out exactly when \<open>b - a = 1\<close>
  (\<open>ZeroDivisionError\<close>); otherwise the spacing is a power of ten that divides the bounds into
  less than 20 parts, and the ticks are its multiples above \<open>a\<close> and up to \<open>b\<close>, at positions
  between 0 and the width.\<close>

theorem scale_ticks:
  assumes "sc_lo s = PyInt a" and "sc_hi s = PyInt b" and "a < b" and "0 \<le> w"
  shows "case scale_layout ext (PyInt w) s of
      Inl e \<Rightarrow> b - a = 1 \<and> e = ZeroDivisionError
    | Inr s' \<Rightarrow> b - a \<noteq> 1 \<and> (\<exists>k xs. sc_delta s' = PyInt (10 ^ k) \<and> 10 ^ k \<le> b - a \<and> b - a < 20 * 10 ^ k \<and>
        ticks s' (sc_delta s') = Inr xs \<and> set xs = {x. a < x \<and> x \<le> b \<and> 10 ^ k dvd x} \<and>
        (\<forall>x \<in> set xs. \<exists>q. get_position s' (PyInt x) = Inr (PyInt q) \<and> 0 \<le> q \<and> q \<le> w))"
proof (cases "b - a = 1")
  case True
  have "scale_delta (PyInt 1) = Inr (PyInt 0)" using scale_delta_int [of 1] by (metis zero_less_one)
  with True assms(1,2) show ?thesis by (simp add: scale_layout_def)
next
  case False
  with assms(3) obtain k where k: "scale_delta (PyInt (b - a)) = Inr (PyInt (10 ^ k))" "10 ^ k \<le> b - a"
    "b - a < 20 * 10 ^ k"
    using scale_delta_int [of "b - a"] by auto
  let ?s = "s\<lparr>sc_delta := PyInt (10 ^ k), sc_width := PyInt w, sc_height := e_height (ext all_letters) + 10\<rparr>"
  have lay: "scale_layout ext (PyInt w) s = Inr ?s"
    using assms(1,2) k(1) by (simp add: scale_layout_def)
  obtain xs where xs: "ticks ?s (PyInt (10 ^ k)) = Inr xs" "set xs = {x. a < x \<and> x \<le> b \<and> 10 ^ k dvd x}"
    using ticks_int [of ?s a b "10 ^ k"] assms(1,2) by auto
  have "\<exists>q. get_position ?s (PyInt x) = Inr (PyInt q) \<and> 0 \<le> q \<and> q \<le> w" if "x \<in> set xs" for x
  proof -
    have x: "a < x" "x \<le> b" using that xs(2) by auto
    have "(x - a) * w div (b - a) \<le> (b - a) * w div (b - a)"
      using x assms(3,4) by (intro zdiv_mono1 mult_right_mono) simp_all
    moreover have "0 \<le> (x - a) * w div (b - a)"
      using x assms(3,4) by (intro pos_imp_zdiv_nonneg_iff [THEN iffD2]) simp_all
    ultimately show ?thesis using assms(1-3) by (simp add: get_position_def)
  qed
  with lay False k xs show ?thesis by (simp only: sum.case) auto
qed

theorem scale_ticks_witness:
  "\<exists>s' xs. scale_layout sample_ext (PyInt 300) (set_bounds (PyInt 7) (PyInt 52) new_scale) = Inr s' \<and>
     ticks s' (sc_delta s') = Inr xs \<and> set xs \<subseteq> {7<..52}"
proof -
  let ?s = "set_bounds (PyInt 7) (PyInt 52) new_scale"
  have "sc_lo ?s = PyInt 7" "sc_hi ?s = PyInt 52" by (simp_all add: set_bounds_def)
  from scale_ticks [OF this, of 300 sample_ext] show ?thesis
    by (cases "scale_layout sample_ext (PyInt 300) ?s") auto
qed

text \<open>\<open>set_range\<close> shows the part of the given window, its ends in either order, that lies in
  the bounds of the trace, and the data and the scale above it show the same range, even when the
  layout raises; the ends are in order exactly when the window and the bounds meet.\<close>

theorem set_range_clips:
  assumes "gr_start g \<le> gr_end g"
  shows "case set_range ext a b g of (g', outcome) \<Rightarrow> graphic_ok g' \<and>
    num_val (gr_r_start g') = max (num_val (gr_start g)) (min (num_val a) (num_val b)) \<and>
    num_val (gr_r_end g') = min (num_val (gr_end g)) (max (num_val a) (num_val b)) \<and>
    (gr_r_start g' \<le> gr_r_end g' \<longleftrightarrow> py_min a b \<le> gr_end g \<and> gr_start g \<le> py_max a b)"
proof -
  obtain g' r where run: "set_range ext a b g = (g', r)" by fastforce
  have "graphic_ok g'" using set_range_ok [of ext a b g] run by simp
  with run set_range_fields [OF run] assms show ?thesis by (auto simp: num_le_val)
qed

theorem set_range_clips_witness:
  "num_val (gr_r_start (fst (set_range sample_ext 30 (- 5) (new_graphic 0 100)))) = 0 \<and>
   num_val (gr_r_end (fst (set_range sample_ext 30 (- 5) (new_graphic 0 100)))) = 30"
proof -
  have "gr_start (new_graphic 0 100) \<le> gr_end (new_graphic 0 100)"
    by (simp add: new_graphic_def num_le_val)
  from set_range_clips [OF this, where ext = sample_ext and a = 30 and b = "- 5"] show ?thesis
    by (simp add: case_prod_beta new_graphic_def)
qed

text \<open>For ranges that meet the window, \<open>draw_ranges\<close> draws boxes of height 10 only inside
  the data area, from left to right.\<close>

theorem draw_ranges_inside:
  assumes "is_float width" and "0 \<le> width" and "dr_start d < dr_end d"
    and "\<forall>r \<in> set rs. r_start r \<le> r_end r \<and> dr_start d \<le> PyInt (r_end r) \<and> PyInt (r_start r) \<le> dr_end d"
    and "draw_range_loop d x y width last_x rs pen = Inr pen'"
  shows "\<exists>cs. pen_cmds pen' = pen_cmds pen @ cs \<and>
    (\<forall>u v w h. Rectangle u v w h \<in> set cs \<longrightarrow>
       v = y \<and> h = 10 \<and> PyInt (num_int x) \<le> u \<and> 0 \<le> w \<and> u + w \<le> PyInt (num_int (x + width)))"
  using draw_range_loop_inside [OF assms(1) _ _ _ assms(5)] assms(2-4)
  by (simp add: num_le_val num_less_val)

definition sample_pen :: pen where
  "sample_pen = \<lparr>pen_cmds = [], pen_grey = 1, pen_colors = new_colors, pen_y = 0\<rparr>"

theorem draw_ranges_inside_witness:
  "\<exists>pen'. draw_range_loop (set_render_range 0 100 new_data_renderer) 20 5 (PyFloat 50) 19
      [\<lparr>r_start = - 10, r_end = 40, r_value = ''a''\<rparr>] sample_pen = Inr pen' \<and>
    (\<forall>u v w h. Rectangle u v w h \<in> set (pen_cmds pen') \<longrightarrow> u + w \<le> 70)"
proof -
  let ?d = "set_render_range 0 100 new_data_renderer" and ?rs = "[\<lparr>r_start = - 10, r_end = 40, r_value = ''a''\<rparr>]"
  have d: "num_val (dr_start ?d) = 0" "num_val (dr_end ?d) = 100" by (simp_all add: set_render_range_def)
  then obtain pen' where run: "draw_range_loop ?d 20 5 (PyFloat 50) 19 ?rs sample_pen = Inr pen'"
    by (auto simp: Let_def scale_x_float sample_pen_def color_lookup_def new_colors_def color_add_def
        py_trunc_def split: if_splits)
  have "\<exists>cs. pen_cmds pen' = pen_cmds sample_pen @ cs \<and> (\<forall>u v w h. Rectangle u v w h \<in> set cs \<longrightarrow>
       v = 5 \<and> h = 10 \<and> PyInt (num_int 20) \<le> u \<and> 0 \<le> w \<and> u + w \<le> PyInt (num_int (20 + PyFloat 50)))"
    by (rule draw_ranges_inside [OF _ _ _ _ run]) (simp_all add: d num_le_val num_less_val)
  moreover have "PyInt (num_int (20 + PyFloat 50)) \<le> 70"
    by (simp add: num_le_val num_int_trunc py_trunc_def)
  moreover have "pen_cmds sample_pen = []" by (simp add: sample_pen_def)
  ultimately have "\<forall>u v w h. Rectangle u v w h \<in> set (pen_cmds pen') \<longrightarrow> u + w \<le> 70"
    using order_trans by (metis append_Nil)
  with run show ?thesis by blast
qed

end
