(* ===== verification/Grid_Gtk.thy ===== *)
theory Grid_Gtk
  imports Grid_Render
begin

text \<open>
  The window of the timeline viewer, \<open>utils/grid.py\<close>: the event handlers of
  \<open>GtkGraphicRenderer\<close>, the callbacks of \<open>MainWindow\<close>, and \<open>main\<close>. A handler maps the view to
  the view after it, the calls it makes on the toolkit, and its result or the exception that
  stopped it; the view is the one that the statements before the exception left. An
  attribute that \<open>__init__\<close> does not assign is an option, \<open>None\<close> before its first assignment.
\<close>

section \<open>The view\<close>

datatype cursor = DoubleArrow | Fleur

datatype ui_cmd =
    QueueDraw
  | QueueDrawArea int int int int
  | SetCursor "cursor option"
  | Paint "draw_cmd list"
  | WritePng string "draw_cmd list"
  | HideDialog

record view =
  vw_data :: graphic
  vw_moving_left :: bool
  vw_moving_right :: bool
  vw_moving_both :: bool
  vw_moving_top :: bool
  vw_full_redraw :: bool
  vw_left_cur :: "pynum option"
  vw_right_cur :: "pynum option"
  vw_both_start :: "pynum option"
  vw_both_cur :: "pynum option"
  vw_top_start :: "pynum option"
  vw_top_cur :: "pynum option"
  vw_width :: "pynum option"
  vw_height :: "pynum option"
  vw_buffer :: "draw_cmd list option"
  vw_colors :: colors

definition new_view :: "colors \<Rightarrow> graphic \<Rightarrow> view" where
  "new_view cs g = \<lparr>vw_data = g, vw_moving_left = False, vw_moving_right = False, vw_moving_both = False,
     vw_moving_top = False, vw_full_redraw = True, vw_left_cur = None, vw_right_cur = None,
     vw_both_start = None, vw_both_cur = None, vw_top_start = None, vw_top_cur = None, vw_width = None,
     vw_height = None, vw_buffer = None, vw_colors = cs\<rparr>"

type_synonym 'a handled = "view \<times> ui_cmd list \<times> 'a pyres"

definition attr :: "'a option \<Rightarrow> 'a pyres" where
  "attr a = (case a of None \<Rightarrow> Inl AttributeError | Some x \<Rightarrow> Inr x)"

definition change_range :: "(string \<Rightarrow> extents) \<Rightarrow> (pynum \<times> pynum) pyres \<Rightarrow> view \<Rightarrow> bool handled" where
  \<comment> \<open>\<open>set_range\<close> with a computed range, then the request for a full redraw\<close>
  "change_range ext r v =
     (case r of
        Inl e \<Rightarrow> (v, [], Inl e)
      | Inr (left, right) \<Rightarrow>
          (case set_range ext left right (vw_data v) of
             (g, Inl e) \<Rightarrow> (v\<lparr>vw_data := g\<rparr>, [], Inl e)
           | (g, Inr _) \<Rightarrow> (v\<lparr>vw_data := g, vw_full_redraw := True\<rparr>, [QueueDraw], Inr True)))"

section \<open>Handlers\<close>

definition set_smaller_zoom :: "(string \<Rightarrow> extents) \<Rightarrow> view \<Rightarrow> bool handled" where
  "set_smaller_zoom ext v =
     (let (start, end) = graphic_get_range (vw_data v)
      in change_range ext (Inr (start, start + (end - start) * 2)) v)"

definition set_bigger_zoom :: "(string \<Rightarrow> extents) \<Rightarrow> view \<Rightarrow> bool handled" where
  "set_bigger_zoom ext v =
     (let (start, end) = graphic_get_range (vw_data v)
      in change_range ext (Inr (start, start + (end - start) div 2)) v)"

definition output_png :: "(string \<Rightarrow> extents) \<Rightarrow> string \<Rightarrow> view \<Rightarrow> bool handled" where
  \<comment> \<open>the context draws on the buffer; the surface that is written has been drawn on by nobody\<close>
  "output_png ext filename v =
     (case attr (vw_buffer v) of
        Inl e \<Rightarrow> (v, [], Inl e)
      | Inr buffer \<Rightarrow>
          (case graphic_draw ext (vw_colors v) (vw_data v) of
             Inl e \<Rightarrow> (v, [], Inl e)
           | Inr (cmds, cs) \<Rightarrow>
               (v\<lparr>vw_buffer := Some (buffer @ cmds), vw_colors := cs\<rparr>, [WritePng filename []], Inr True)))"

definition near :: "pynum \<Rightarrow> pynum \<Rightarrow> bool" where
  "near a b \<longleftrightarrow> num_abs (a - b) < 5"

definition button_press :: "pynum \<Rightarrow> pynum \<Rightarrow> view \<Rightarrow> bool handled" where
  "button_press ex ey v =
     (case get_selection_rectangle (vw_data v) of
        Inl e \<Rightarrow> (v, [], Inl e)
      | Inr (x, y, width, height) \<Rightarrow>
          let (d_x, d_y, d_width, d_height) = get_data_rectangle (vw_data v)
          in if ey > y \<and> ey < y + height \<and> near ex x then
               (v\<lparr>vw_moving_left := True\<rparr>, [], Inr True)
             else if ey > y \<and> ey < y + height \<and> near ex (x + width) then
               (v\<lparr>vw_moving_right := True\<rparr>, [], Inr True)
             else if ey > y \<and> ey < y + height \<and> ex > x \<and> ex < x + width then
               (v\<lparr>vw_moving_both := True, vw_both_start := Some ex, vw_both_cur := Some ex\<rparr>, [], Inr True)
             else if ey > d_y \<and> ey < d_y + d_height \<and> ex > d_x \<and> ex < d_x + d_width then
               (v\<lparr>vw_moving_top := True, vw_top_start := Some ex, vw_top_cur := Some ex\<rparr>, [], Inr True)
             else (v, [], Inr False))"

definition button_release :: "(string \<Rightarrow> extents) \<Rightarrow> view \<Rightarrow> bool handled" where
  "button_release ext v =
     (let g = vw_data v in
      if vw_moving_left v then
        change_range ext
          (rbind (attr (vw_left_cur v)) (\<lambda>c. rbind (scale_selection g c) (\<lambda>left.
             Inr (left, snd (graphic_get_range g)))))
          (v\<lparr>vw_moving_left := False\<rparr>)
      else if vw_moving_right v then
        change_range ext
          (rbind (attr (vw_right_cur v)) (\<lambda>c. rbind (scale_selection g c) (\<lambda>right.
             Inr (fst (graphic_get_range g), right))))
          (v\<lparr>vw_moving_right := False\<rparr>)
      else if vw_moving_both v then
        change_range ext
          (rbind (attr (vw_both_cur v)) (\<lambda>c. rbind (attr (vw_both_start v)) (\<lambda>s.
             rbind (scale_selection g (c - s)) (\<lambda>delta.
               Inr (fst (graphic_get_range g) + delta, snd (graphic_get_range g) + delta)))))
          (v\<lparr>vw_moving_both := False\<rparr>)
      else (v\<lparr>vw_moving_top := False\<rparr>, [], Inr False))"

definition redraw_selection :: "pynum \<Rightarrow> pynum \<Rightarrow> view \<Rightarrow> bool handled" where
  \<comment> \<open>\<open>queue_draw_area(0, int(y), int(self.__width), int(height))\<close>\<close>
  "redraw_selection y height v =
     (case attr (vw_width v) of
        Inl e \<Rightarrow> (v, [], Inl e)
      | Inr w \<Rightarrow> (v, [QueueDrawArea 0 (num_int y) (num_int w) (num_int height)], Inr True))"

definition move_left :: "pynum \<Rightarrow> pynum \<times> pynum \<times> pynum \<times> pynum \<Rightarrow> view \<Rightarrow> bool handled" where
  "move_left ex rect v =
     (let (x, y, width, height) = rect;
          cur = (if ex \<le> 0 then 0 else if ex \<ge> x + width then x + width else ex)
      in redraw_selection y height (v\<lparr>vw_left_cur := Some cur\<rparr>))"

definition move_right :: "pynum \<Rightarrow> pynum \<times> pynum \<times> pynum \<times> pynum \<Rightarrow> view \<Rightarrow> bool handled" where
  \<comment> \<open>past the right edge the code assigns the flag, not the position\<close>
  "move_right ex rect v =
     (let (x, y, width, height) = rect
      in case attr (vw_width v) of
           Inl e \<Rightarrow> (v, [], Inl e)
         | Inr w \<Rightarrow>
             redraw_selection y height
               (if ex \<ge> w then v\<lparr>vw_moving_right := (num_val w \<noteq> 0)\<rparr>
                else if ex < x then v\<lparr>vw_right_cur := Some x\<rparr>
                else v\<lparr>vw_right_cur := Some ex\<rparr>))"

definition move_both :: "pynum \<Rightarrow> pynum \<times> pynum \<times> pynum \<times> pynum \<Rightarrow> view \<Rightarrow> bool handled" where
  "move_both ex rect v =
     (let (x, y, width, height) = rect
      in case rbind (attr (vw_width v)) (\<lambda>w. rbind (attr (vw_both_start v)) (\<lambda>s. Inr (w, s))) of
           Inl e \<Rightarrow> (v, [], Inl e)
         | Inr (w, s) \<Rightarrow>
             let cur_e = w - (x + width - s);
                 cur_s = s - x;
                 cur = (if ex < cur_s then cur_s else if ex > cur_e then cur_e else ex)
             in redraw_selection y height (v\<lparr>vw_both_cur := Some cur\<rparr>))"

definition move_top :: "(string \<Rightarrow> extents) \<Rightarrow> pynum \<Rightarrow> view \<Rightarrow> bool handled" where
  \<comment> \<open>\<open>__moving_top_start\<close> follows the pointer after the range has changed\<close>
  "move_top ext ex v =
     (let v = v\<lparr>vw_top_cur := Some ex\<rparr>; g = vw_data v
      in case change_range ext
                (rbind (attr (vw_top_start v)) (\<lambda>s. rbind (scale_data g (s - ex)) (\<lambda>delta.
                   Inr (fst (graphic_get_range g) + delta, snd (graphic_get_range g) + delta)))) v of
           (v', cmds, Inl e) \<Rightarrow> (v', cmds, Inl e)
         | (v', cmds, Inr b) \<Rightarrow> (v'\<lparr>vw_top_start := Some ex\<rparr>, cmds, Inr b))"

definition motion_notify :: "(string \<Rightarrow> extents) \<Rightarrow> pynum \<Rightarrow> pynum \<Rightarrow> view \<Rightarrow> bool handled" where
  "motion_notify ext ex ey v =
     (case get_selection_rectangle (vw_data v) of
        Inl e \<Rightarrow> (v, [], Inl e)
      | Inr rect \<Rightarrow>
          if vw_moving_left v then move_left ex rect v
          else if vw_moving_right v then move_right ex rect v
          else if vw_moving_both v then move_both ex rect v
          else if vw_moving_top v then move_top ext ex v
          else
            let (x, y, width, height) = rect;
                (d_x, d_y, d_width, d_height) = get_data_rectangle (vw_data v)
            in if ey > y \<and> ey < y + height \<and> (near ex x \<or> near ex (x + width)) then
                 (v, [SetCursor (Some DoubleArrow)], Inr True)
               else if ey > y \<and> ey < y + height \<and> ex > x \<and> ex < x + width then
                 (v, [SetCursor (Some Fleur)], Inr True)
               else if ey > d_y \<and> ey < d_y + d_height \<and> ex > d_x \<and> ex < d_x + d_width then
                 (v, [SetCursor (Some Fleur)], Inr True)
               else (v, [SetCursor None], Inr False))"

definition size_allocate :: "(string \<Rightarrow> extents) \<Rightarrow> pynum \<Rightarrow> pynum \<Rightarrow> view \<Rightarrow> bool handled" where
  "size_allocate ext width height v =
     (let v = v\<lparr>vw_width := Some width, vw_height := Some height\<rparr>
      in case graphic_layout ext width height (vw_data v) of
           (g, Inl e) \<Rightarrow> (v\<lparr>vw_data := g\<rparr>, [], Inl e)
         | (g, Inr _) \<Rightarrow> (v\<lparr>vw_data := g, vw_full_redraw := True\<rparr>, [QueueDraw], Inr True))"

definition draw_mark :: "pynum \<Rightarrow> pynum \<Rightarrow> pynum \<Rightarrow> draw_cmd list" where
  "draw_mark x y height = [MoveTo x y, RelLineTo 0 height, ClosePath]"

definition mark_style :: "draw_cmd list" where
  "mark_style = [SetLineWidth 1, black, Stroke]"

definition expose_marks :: "pynum \<times> pynum \<times> pynum \<times> pynum \<Rightarrow> view \<Rightarrow> draw_cmd list pyres" where
  "expose_marks rect v =
     (let (x, y, width, height) = rect
      in rbind (if vw_moving_left v
                then rbind (attr (vw_left_cur v)) (\<lambda>c. Inr (draw_mark (py_max c 2) y height @ mark_style))
                else Inr []) (\<lambda>l.
         rbind (if vw_moving_right v
                then rbind (attr (vw_right_cur v)) (\<lambda>c. rbind (attr (vw_width v)) (\<lambda>w.
                       Inr (draw_mark (py_min c (w - 2)) y height @ mark_style)))
                else Inr []) (\<lambda>r.
         rbind (if vw_moving_both v
                then rbind (attr (vw_both_cur v)) (\<lambda>c. rbind (attr (vw_both_start v)) (\<lambda>s.
                       let delta_x = c - s
                       in Inr (draw_mark (x + delta_x) y height @ draw_mark (x + width + delta_x) y height
                               @ [black, SetLineWidth 1, Stroke])))
                else Inr []) (\<lambda>b. Inr (l @ r @ b)))))"

definition expose :: "(string \<Rightarrow> extents) \<Rightarrow> view \<Rightarrow> bool handled" where
  \<comment> \<open>\<open>Paint\<close> carries the buffer and the marks drawn over it; an exception in \<open>draw\<close> leaves an
    empty buffer here, a partly drawn one in the code\<close>
  "expose ext v =
     (case (if vw_full_redraw v
            then rbind (graphic_draw ext (vw_colors v) (vw_data v)) (\<lambda>(cmds, cs).
                   Inr (v\<lparr>vw_buffer := Some cmds, vw_colors := cs, vw_full_redraw := False\<rparr>))
            else Inr v) of
        Inl e \<Rightarrow> (v\<lparr>vw_buffer := Some []\<rparr>, [], Inl e)
      | Inr v \<Rightarrow>
          (case rbind (attr (vw_buffer v)) (\<lambda>b. rbind (get_selection_rectangle (vw_data v)) (\<lambda>rect.
                  rbind (expose_marks rect v) (\<lambda>m. Inr (b @ m)))) of
             Inl e \<Rightarrow> (v, [], Inl e)
           | Inr cmds \<Rightarrow> (v, [Paint cmds], Inr False)))"

definition dialog_response :: "(string \<Rightarrow> extents) \<Rightarrow> int \<Rightarrow> string \<Rightarrow> view \<Rightarrow> bool handled" where
  "dialog_response ext response filename v =
     (if response = 1 then
        (case output_png ext filename v of
           (v', cmds, Inl e) \<Rightarrow> (v', cmds, Inl e)
         | (v', cmds, Inr b) \<Rightarrow> (v', cmds @ [HideDialog], Inr b))
      else (v, [], Inr False))"

section \<open>main\<close>

definition viewer_main :: "(string \<Rightarrow> extents) \<Rightarrow> (string list \<Rightarrow> string list) \<Rightarrow> string list \<Rightarrow> view pyres" where
  \<comment> \<open>the view that the window opens with, from the lines of the trace\<close>
  "viewer_main ext hord lines =
     (let (cs, ts) = read_data lines;
          (lower_bound, upper_bound) = timelines_get_bounds ts;
          range_values = get_all_range_values hord ts
      in rbind (lookup_all range_values cs) (\<lambda>(range_colors, cs).
           let g = set_data (set_timelines ts new_data_renderer)
                     (set_top_legend (legend_set_legends range_values range_colors new_legend)
                       (new_graphic (PyInt lower_bound) (PyInt upper_bound)));
               range_mid = (upper_bound - lower_bound) div 2;
               range_width = (upper_bound - lower_bound) div 10;
               range_lo = range_mid - range_width div 2;
               range_hi = range_mid + range_width div 2
           in case set_range ext (PyInt range_lo) (PyInt range_hi) g of
                (g, Inl e) \<Rightarrow> Inl e
              | (g, Inr _) \<Rightarrow> Inr (new_view cs g)))"

section \<open>The event loop\<close>

text \<open>What the toolkit may deliver, and the handler it calls.\<close>

datatype ui_event =
    Press pynum pynum
  | Release
  | Motion pynum pynum
  | Resize pynum pynum
  | Exposed
  | ZoomOut
  | ZoomIn
  | Response int string

fun handle :: "(string \<Rightarrow> extents) \<Rightarrow> ui_event \<Rightarrow> view \<Rightarrow> bool handled" where
  "handle ext (Press x y) v = button_press x y v"
| "handle ext Release v = button_release ext v"
| "handle ext (Motion x y) v = motion_notify ext x y v"
| "handle ext (Resize w h) v = size_allocate ext w h v"
| "handle ext Exposed v = expose ext v"
| "handle ext ZoomOut v = set_smaller_zoom ext v"
| "handle ext ZoomIn v = set_bigger_zoom ext v"
| "handle ext (Response r f) v = dialog_response ext r f v"

text \<open>
  The toolkit delivers the events in any order; an exception in a handler is printed and the
  loop goes on with the view as it is.
\<close>

inductive ui_step :: "(string \<Rightarrow> extents) \<Rightarrow> view \<Rightarrow> view \<Rightarrow> bool" for ext where
  deliver: "handle ext ev v = (v', cmds, outcome) \<Longrightarrow> ui_step ext v v'"

inductive_cases ui_stepE: "ui_step ext v v'"

inductive ui_reachable :: "(string \<Rightarrow> extents) \<Rightarrow> view \<Rightarrow> view \<Rightarrow> bool" for ext v0 where
  start: "ui_reachable ext v0 v0"
| step: "ui_reachable ext v0 v \<Longrightarrow> ui_step ext v v' \<Longrightarrow> ui_reachable ext v0 v'"

section \<open>What the handlers keep\<close>

text \<open>The view shows a range inside the fixed bounds of the trace.\<close>

definition view_ok :: "graphic \<Rightarrow> view \<Rightarrow> bool" where
  "view_ok g0 v \<longleftrightarrow> graphic_ok (vw_data v) \<and> gr_start (vw_data v) = gr_start g0 \<and> gr_end (vw_data v) = gr_end g0"

lemma change_range_ok:
  assumes "view_ok g0 v" and "change_range ext r v = (v', cmds, res)"
  shows "view_ok g0 v'"
proof (cases r)
  case (Inl e)
  with assms show ?thesis by (simp add: change_range_def)
next
  case (Inr lr)
  obtain a b where lr: "lr = (a, b)" by fastforce
  obtain g res' where run: "set_range ext a b (vw_data v) = (g, res')" by fastforce
  have "graphic_ok g" using set_range_ok [of ext a b "vw_data v"] run by simp
  with set_range_fields(1,2) [OF run] assms run show ?thesis
    by (auto simp: change_range_def Inr lr view_ok_def split: sum.splits)
qed

lemma redraw_selection_data: "redraw_selection y h v = (v', cmds, res) \<Longrightarrow> v' = v"
  by (auto simp: redraw_selection_def split: sum.splits)

lemma button_press_data: "vw_data (fst (button_press x y v)) = vw_data v"
proof (cases "get_selection_rectangle (vw_data v)")
  case (Inr rect)
  obtain a b c d where rect: "rect = (a, b, c, d)" by (metis prod_cases4)
  obtain a' b' c' d' where "get_data_rectangle (vw_data v) = (a', b', c', d')" by (metis prod_cases4)
  then show ?thesis by (simp add: button_press_def Inr rect)
qed (simp add: button_press_def)

lemma move_data:
  "vw_data (fst (move_left x rect v)) = vw_data v" "vw_data (fst (move_right x rect v)) = vw_data v"
  "vw_data (fst (move_both x rect v)) = vw_data v"
  by (simp_all add: move_left_def move_right_def move_both_def redraw_selection_def Let_def case_prod_beta
      split: sum.split)

lemma motion_notify_data:
  assumes "vw_moving_left v \<or> vw_moving_right v \<or> vw_moving_both v \<or> \<not> vw_moving_top v"
  shows "vw_data (fst (motion_notify ext x y v)) = vw_data v"
proof (cases "get_selection_rectangle (vw_data v)")
  case (Inr rect)
  obtain a b c d where rect: "rect = (a, b, c, d)" by (metis prod_cases4)
  obtain a' b' c' d' where "get_data_rectangle (vw_data v) = (a', b', c', d')" by (metis prod_cases4)
  with assms show ?thesis
    by (cases "vw_moving_left v"; cases "vw_moving_right v"; cases "vw_moving_both v")
       (simp_all add: motion_notify_def Inr rect move_data)
qed (simp add: motion_notify_def)

lemma move_top_ok:
  assumes "view_ok g0 v" and "move_top ext x v = (v', cmds, res)"
  shows "view_ok g0 v'"
proof -
  let ?v = "v\<lparr>vw_top_cur := Some x\<rparr>"
  let ?r = "rbind (attr (vw_top_start ?v)) (\<lambda>s. rbind (scale_data (vw_data ?v) (s - x)) (\<lambda>delta.
    Inr (fst (graphic_get_range (vw_data ?v)) + delta, snd (graphic_get_range (vw_data ?v)) + delta)))"
  obtain w c oc where run: "change_range ext ?r ?v = (w, c, oc)" by (cases "change_range ext ?r ?v") blast
  have "view_ok g0 ?v" using assms(1) by (simp add: view_ok_def)
  then have w: "view_ok g0 w" using run by (rule change_range_ok)
  have "v' = w \<or> v' = w\<lparr>vw_top_start := Some x\<rparr>"
    using assms(2) [unfolded move_top_def Let_def run prod.case] by (cases oc) auto
  with w show ?thesis by (auto simp: view_ok_def)
qed

lemma handle_ok:
  assumes "view_ok g0 v" and "handle ext ev v = (v', cmds, res)"
  shows "view_ok g0 v'"
proof (cases ev)
  case (Press x y)
  with assms(2) have "button_press x y v = (v', cmds, res)" by (simp only: handle.simps)
  then have "vw_data v' = vw_data v" using button_press_data [of x y v] by (simp only: fst_conv)
  with assms(1) show ?thesis by (simp add: view_ok_def)
next
  case Release
  have "view_ok g0 (v\<lparr>vw_moving_left := False\<rparr>)" "view_ok g0 (v\<lparr>vw_moving_right := False\<rparr>)"
    "view_ok g0 (v\<lparr>vw_moving_both := False\<rparr>)" "view_ok g0 (v\<lparr>vw_moving_top := False\<rparr>)"
    using assms(1) by (simp_all add: view_ok_def)
  with assms(2) Release show ?thesis
    by (auto simp: button_release_def Let_def dest: change_range_ok split: if_splits)
next
  case (Motion x y)
  show ?thesis
  proof (cases "vw_moving_left v \<or> vw_moving_right v \<or> vw_moving_both v \<or> \<not> vw_moving_top v")
    case True
    from assms(2) Motion have "v' = fst (motion_notify ext x y v)" by simp
    then have "vw_data v' = vw_data v" using motion_notify_data [OF True] by simp
    with assms(1) show ?thesis by (simp add: view_ok_def)
  next
    case False
    then have flags: "vw_moving_top v" "\<not> vw_moving_left v" "\<not> vw_moving_right v" "\<not> vw_moving_both v"
      by simp_all
    have run: "motion_notify ext x y v = (v', cmds, res)" using assms(2) Motion by simp
    show ?thesis
    proof (cases "get_selection_rectangle (vw_data v)")
      case (Inl e)
      with run assms(1) show ?thesis by (simp add: motion_notify_def)
    next
      case (Inr rect)
      with run flags have "move_top ext x v = (v', cmds, res)" by (simp add: motion_notify_def)
      with assms(1) show ?thesis by (rule move_top_ok)
    qed
  qed
next
  case (Resize w h)
  obtain g r where run: "graphic_layout ext w h (vw_data v) = (g, r)" by fastforce
  have "graphic_ok g" using graphic_layout_ok [of "vw_data v" ext w h] assms(1) run by (simp add: view_ok_def)
  with graphic_layout_frame(1,2) [OF run] assms run Resize show ?thesis
    by (auto simp: size_allocate_def Let_def view_ok_def split: sum.splits)
next
  case Exposed
  with assms(2) have "vw_data v' = vw_data v"
    by (auto simp: expose_def rbind_Inr_iff split: sum.splits if_splits)
  with assms(1) show ?thesis by (simp add: view_ok_def)
next
  case ZoomOut
  with assms show ?thesis by (auto simp: set_smaller_zoom_def dest: change_range_ok split: prod.splits)
next
  case ZoomIn
  with assms show ?thesis by (auto simp: set_bigger_zoom_def dest: change_range_ok split: prod.splits)
next
  case (Response r f)
  with assms(2) have "vw_data v' = vw_data v"
    by (auto simp: dialog_response_def output_png_def split: sum.splits if_splits prod.splits)
  with assms(1) show ?thesis by (simp add: view_ok_def)
qed

lemma ui_step_ok: "ui_step ext v v' \<Longrightarrow> view_ok g0 v \<Longrightarrow> view_ok g0 v'"
  by (auto elim!: ui_stepE dest: handle_ok)

lemma ui_reachable_ok: "ui_reachable ext v0 v \<Longrightarrow> view_ok g0 v0 \<Longrightarrow> view_ok g0 v"
  by (induction rule: ui_reachable.induct) (auto dest: ui_step_ok)

lemma change_range_data:
  "vw_data (fst (change_range ext (Inr (a, b)) v)) = fst (set_range ext a b (vw_data v))"
  by (auto simp: change_range_def split: prod.split sum.split)

lemma viewer_main_ok:
  assumes "viewer_main ext hord lines = Inr v"
    and "timelines_get_bounds (snd (read_data lines)) = (lo, hi)"
  shows "graphic_ok (vw_data v)" "num_val (gr_start (vw_data v)) = of_int lo" "num_val (gr_end (vw_data v)) = of_int hi"
proof -
  obtain rc cs where c: "lookup_all (get_all_range_values hord (snd (read_data lines))) (fst (read_data lines)) = Inr (rc, cs)"
    using assms(1) by (auto simp: viewer_main_def rbind_Inr_iff case_prod_beta Let_def)
  define g where "g = set_data (set_timelines (snd (read_data lines)) new_data_renderer)
    (set_top_legend (legend_set_legends (get_all_range_values hord (snd (read_data lines))) rc new_legend)
      (new_graphic (PyInt lo) (PyInt hi)))"
  define a where "a = PyInt ((hi - lo) div 2 - (hi - lo) div 10 div 2)"
  define b where "b = PyInt ((hi - lo) div 2 + (hi - lo) div 10 div 2)"
  have "(case set_range ext a b g of (g, Inl e) \<Rightarrow> Inl e | (g, Inr _) \<Rightarrow> Inr (new_view cs g)) = Inr v"
    using assms(1) by (simp add: viewer_main_def case_prod_beta [of _ "read_data lines"] assms(2) c Let_def
        rbind_def g_def a_def b_def)
  then have v1: "v = new_view cs (fst (set_range ext a b g))"
    by (cases "set_range ext a b g") (auto split: sum.splits)
  have g: "gr_start g = PyFloat (of_int lo)" "gr_end g = PyFloat (of_int hi)"
    by (simp_all add: g_def set_data_def set_top_legend_def new_graphic_def)
  obtain r where r: "set_range ext a b g = (fst (set_range ext a b g), r)" by (metis prod.collapse)
  note v = v1 g r
  show "graphic_ok (vw_data v)" by (simp add: v(1) new_view_def set_range_ok)
  show "num_val (gr_start (vw_data v)) = of_int lo" "num_val (gr_end (vw_data v)) = of_int hi"
    using set_range_fields(1,2) [OF v(4)] v(2,3) by (simp_all add: v(1) new_view_def)
qed

section \<open>Properties\<close>

text \<open>C39: whatever events the toolkit delivers, in any order and with any handler failing, the
  start of the range shown is not before the bounds of the trace that \<open>main\<close> has read and its end not
  after them. If the start is not after the end, so the range lies in the bounds; otherwise nothing is
  shown, and the range has been pushed out of the bounds on the left, where its start is the lower bound
  and its end before it, or on the right, where its end is the upper bound and its start after it. The data
  renderer and the scale above the selection show this same range.\<close>

theorem range_in_bounds:
  assumes "viewer_main ext hord lines = Inr v0" and "ui_reachable ext v0 v"
    and "timelines_get_bounds (snd (read_data lines)) = (lo, hi)"
  shows "PyInt lo \<le> gr_r_start (vw_data v) \<and> gr_r_end (vw_data v) \<le> PyInt hi \<and>
    (if gr_r_start (vw_data v) \<le> gr_r_end (vw_data v)
     then gr_r_start (vw_data v) \<le> PyInt hi \<and> PyInt lo \<le> gr_r_end (vw_data v)
     else num_val (gr_r_start (vw_data v)) = of_int lo \<and> gr_r_end (vw_data v) < PyInt lo \<or>
       num_val (gr_r_end (vw_data v)) = of_int hi \<and> PyInt hi < gr_r_start (vw_data v)) \<and>
    dr_start (gr_data (vw_data v)) = gr_r_start (vw_data v) \<and> dr_end (gr_data (vw_data v)) = gr_r_end (vw_data v) \<and>
    sc_lo (gr_mid (vw_data v)) = gr_r_start (vw_data v) \<and> sc_hi (gr_mid (vw_data v)) = gr_r_end (vw_data v)"
proof -
  note init = viewer_main_ok [OF assms(1,3)]
  have "view_ok (vw_data v0) v0" using init(1) by (simp add: view_ok_def)
  with assms(2) have "view_ok (vw_data v0) v" by (rule ui_reachable_ok)
  then have "graphic_ok (vw_data v)" and "gr_start (vw_data v) = gr_start (vw_data v0)"
    and "gr_end (vw_data v) = gr_end (vw_data v0)" by (simp_all add: view_ok_def)
  with init(2,3) show ?thesis by (auto simp: graphic_ok_def num_le_val num_less_val)
qed

definition dragged_out :: "view \<Rightarrow> view" where
  \<comment> \<open>the data is dragged to the left, until the pointer is far outside the window\<close>
  "dragged_out v = fst (handle sample_ext (Motion (- 3000) 40) (fst (handle sample_ext (Press 200 40)
     (fst (handle sample_ext (Resize 300 200) v)))))"

lemma dragged_out_reachable: "ui_reachable sample_ext v (dragged_out v)"
proof -
  have "ui_step sample_ext w (fst (handle sample_ext ev w))" for ev w
    by (cases "handle sample_ext ev w") (auto intro: ui_step.deliver)
  then show ?thesis unfolding dragged_out_def by (blast intro: ui_reachable.intros)
qed

lemma sample_main:
  "case viewer_main sample_ext (\<lambda>ks. ks) sample_trace of Inl _ \<Rightarrow> False | Inr v \<Rightarrow>
     \<not> gr_r_start (vw_data (dragged_out v)) \<le> gr_r_end (vw_data (dragged_out v)) \<and> PyInt 0 \<le> gr_r_end (vw_data (dragged_out v))"
  "timelines_get_bounds (snd (read_data sample_trace)) = (0, 20)"
  by code_simp+

text \<open>Zooming out keeps to the bounds; dragging the data far out of the window on the left leaves a range
  that starts after the end of the trace.\<close>

theorem range_in_bounds_witness:
  "\<exists>v0. viewer_main sample_ext (\<lambda>ks. ks) sample_trace = Inr v0 \<and>
     (let v = fst (set_smaller_zoom sample_ext v0) in PyInt 0 \<le> gr_r_start (vw_data v) \<and> gr_r_end (vw_data v) \<le> PyInt 20) \<and>
     (let v = dragged_out v0 in num_val (gr_r_end (vw_data v)) = 20 \<and> PyInt 20 < gr_r_start (vw_data v))"
proof -
  obtain v0 where v0: "viewer_main sample_ext (\<lambda>ks. ks) sample_trace = Inr v0"
    "\<not> gr_r_start (vw_data (dragged_out v0)) \<le> gr_r_end (vw_data (dragged_out v0))" "PyInt 0 \<le> gr_r_end (vw_data (dragged_out v0))"
    using sample_main(1) by (auto split: sum.splits)
  obtain v c oc where z: "set_smaller_zoom sample_ext v0 = (v, c, oc)"
    by (cases "set_smaller_zoom sample_ext v0") blast
  then have "ui_step sample_ext v0 v" using ui_step.deliver [of sample_ext ZoomOut v0 v c oc] by simp
  then have "ui_reachable sample_ext v0 v" by (rule ui_reachable.step [OF ui_reachable.start])
  from range_in_bounds [OF v0(1) this sample_main(2)] range_in_bounds [OF v0(1) dragged_out_reachable sample_main(2)] v0 z
  show ?thesis by (simp add: Let_def num_le_val num_less_val)
qed

text \<open>Zooming in and then out again shows the same range as before.\<close>

theorem zoom_in_out:
  assumes "gr_start (vw_data v) \<le> gr_r_start (vw_data v)" and "gr_r_start (vw_data v) \<le> gr_r_end (vw_data v)"
    and "gr_r_end (vw_data v) \<le> gr_end (vw_data v)" and "is_float (gr_r_end (vw_data v))"
  shows "let v' = fst (set_smaller_zoom ext (fst (set_bigger_zoom ext v)))
    in num_val (gr_r_start (vw_data v')) = num_val (gr_r_start (vw_data v)) \<and>
       num_val (gr_r_end (vw_data v')) = num_val (gr_r_end (vw_data v))"
proof -
  let ?g = "vw_data v"
  let ?a = "gr_r_start ?g" and ?b = "gr_r_end ?g"
  let ?m = "?a + (?b - ?a) div 2"
  obtain g1 r1 where s1: "set_range ext ?a ?m ?g = (g1, r1)" by fastforce
  let ?v1 = "fst (set_bigger_zoom ext v)"
  have v1: "vw_data ?v1 = g1"
    using s1 by (simp add: set_bigger_zoom_def graphic_get_range_def change_range_data)
  have m: "num_val ?m = num_val ?a + (num_val ?b - num_val ?a) / 2"
    using assms(4) by (simp add: num_val_div_float)
  have g1: "num_val (gr_r_start g1) = num_val ?a" "num_val (gr_r_end g1) = num_val ?m"
      "gr_start g1 = gr_start ?g" "gr_end g1 = gr_end ?g"
    using set_range_fields [OF s1] assms(1-3) m by (auto simp: num_le_val)
  let ?a1 = "gr_r_start g1" and ?b1 = "gr_r_end g1"
  obtain g2 r2 where s2: "set_range ext ?a1 (?a1 + (?b1 - ?a1) * 2) g1 = (g2, r2)" by fastforce
  have "vw_data (fst (set_smaller_zoom ext ?v1)) = g2"
    using s2 v1 by (simp add: set_smaller_zoom_def graphic_get_range_def change_range_data)
  moreover have "num_val (gr_r_start g2) = num_val ?a" "num_val (gr_r_end g2) = num_val ?b"
    using set_range_fields(3,4) [OF s2] assms(1-3) g1 m by (auto simp: num_le_val)
  ultimately show ?thesis by simp
qed

definition sample_view :: view where
  "sample_view = (new_view new_colors ((new_graphic 0 100)\<lparr>gr_r_start := PyFloat 20, gr_r_end := PyFloat 60\<rparr>))
     \<lparr>vw_width := Some 300\<rparr>"

lemma sample_view_simps:
  "vw_data sample_view = (new_graphic 0 100)\<lparr>gr_r_start := PyFloat 20, gr_r_end := PyFloat 60\<rparr>"
  "vw_width sample_view = Some 300" "vw_right_cur sample_view = None" "vw_moving_left sample_view = False"
  by (simp_all add: sample_view_def new_view_def)

theorem zoom_in_out_witness:
  "num_val (gr_r_end (vw_data (fst (set_smaller_zoom sample_ext (fst (set_bigger_zoom sample_ext sample_view)))))) = 60"
  using zoom_in_out [of sample_view sample_ext]
  by (simp add: sample_view_simps new_graphic_def num_le_val Let_def)

lemma sample_view_rect:
  "get_selection_rectangle (vw_data sample_view) = Inr (PyFloat 0, 20, PyFloat 0, 20)"
  by (simp add: sample_view_simps get_selection_rectangle_def new_graphic_def new_scale_def set_top_def
      set_bot_def set_bounds_def new_legend_def new_data_renderer_def get_position_def num_div_cases
      numeral_pynum zero_pynum_def plus_pynum_def minus_pynum_def times_pynum_def divide_pynum_def)

text \<open>Pressing on the left border of the selection, moving and releasing sets the range from
  the position reached, clamped to the part left of the right border, to the old end.\<close>

theorem drag_left_border:
  assumes "get_selection_rectangle (vw_data v) = Inr (x, y, w, h)" and "y < ey" and "ey < y + h" and "near ex x"
    and "vw_width v = Some pw" and "num_val (gr_width (vw_data v)) \<noteq> 0"
  shows "let v1 = fst (button_press ex ey v);
             v2 = fst (motion_notify ext mx my v1);
             v3 = fst (button_release ext v2);
             cur = (if mx \<le> 0 then 0 else if mx \<ge> x + w then x + w else mx);
             g = vw_data v
         in \<not> vw_moving_left v3 \<and> vw_data v1 = g \<and> vw_data v2 = g \<and>
            vw_data v3 = fst (set_range ext (cur div gr_width g * (gr_end g - gr_start g)) (gr_r_end g) g)"
proof -
  define cur where "cur = (if mx \<le> 0 then 0 else if mx \<ge> x + w then x + w else mx)"
  obtain a b c d where rect: "get_data_rectangle (vw_data v) = (a, b, c, d)" by (metis prod_cases4)
  have v1: "fst (button_press ex ey v) = v\<lparr>vw_moving_left := True\<rparr>"
    using assms(2-4) by (simp add: button_press_def assms(1) rect)
  have v2: "fst (motion_notify ext mx my (v\<lparr>vw_moving_left := True\<rparr>)) = v\<lparr>vw_moving_left := True, vw_left_cur := Some cur\<rparr>"
    using assms(5) by (simp add: motion_notify_def assms(1) move_left_def redraw_selection_def attr_def cur_def)
  let ?w = "v\<lparr>vw_left_cur := Some cur, vw_moving_left := False\<rparr>"
  have rel: "button_release ext (v\<lparr>vw_moving_left := True, vw_left_cur := Some cur\<rparr>) =
    change_range ext (Inr (cur div gr_width (vw_data v) * (gr_end (vw_data v) - gr_start (vw_data v)), gr_r_end (vw_data v))) ?w"
    using assms(6) by (simp add: button_release_def attr_def scale_selection_def num_div_cases graphic_get_range_def Let_def)
  have flag: "vw_moving_left (fst (change_range ext r u)) = vw_moving_left u" for r u
    by (simp add: change_range_def split: sum.split prod.split)
  show ?thesis unfolding v1 v2 Let_def cur_def [symmetric] rel
    by (simp add: flag change_range_data)
qed

theorem drag_left_border_witness:
  "vw_data (fst (button_release sample_ext (fst (motion_notify sample_ext 200 30
     (fst (button_press 1 30 sample_view)))))) =
   fst (set_range sample_ext (PyFloat 0) (PyFloat 60) (vw_data sample_view))"
proof -
  have n: "near 1 (PyFloat 0)" by (simp add: near_def num_abs_def num_less_val)
  have "num_val (gr_width (vw_data sample_view)) \<noteq> 0" by (simp add: sample_view_simps new_graphic_def)
  from drag_left_border [OF sample_view_rect _ _ n sample_view_simps(2) this, of 30 sample_ext 200 30]
  show ?thesis
    by (simp add: num_less_val num_le_val Let_def sample_view_simps new_graphic_def
        numeral_pynum zero_pynum_def one_pynum_def plus_pynum_def minus_pynum_def times_pynum_def divide_pynum_def)
qed

text \<open>Dragging the right border past the right edge of the window before it was moved
  inside it loses the position: the release raises \<open>AttributeError\<close> and leaves the range.\<close>

theorem drag_right_past_edge:
  assumes "get_selection_rectangle (vw_data v) = Inr rect" and "vw_moving_right v" and "\<not> vw_moving_left v"
    and "vw_right_cur v = None" and "vw_width v = Some pw" and "pw \<le> ex" and "num_val pw \<noteq> 0"
  shows "\<exists>v'. button_release ext (fst (motion_notify ext ex ey v)) = (v', [], Inl AttributeError) \<and>
    vw_data v' = vw_data v \<and> \<not> vw_moving_right v'"
proof -
  obtain x y w h where rect: "rect = (x, y, w, h)" by (metis prod_cases4)
  have "fst (motion_notify ext ex ey v) = v\<lparr>vw_moving_right := True\<rparr>"
    using assms by (simp add: motion_notify_def move_right_def redraw_selection_def attr_def rect)
  then show ?thesis
    using assms by (simp add: button_release_def change_range_def attr_def)
qed

theorem drag_right_past_edge_witness:
  "snd (snd (button_release sample_ext (fst (motion_notify sample_ext 310 30 (sample_view\<lparr>vw_moving_right := True\<rparr>)))))
     = Inl AttributeError"
proof -
  let ?v = "sample_view\<lparr>vw_moving_right := True\<rparr>"
  have "get_selection_rectangle (vw_data ?v) = Inr (PyFloat 0, 20, PyFloat 0, 20)"
    using sample_view_rect by simp
  from drag_right_past_edge [OF this, of 300 310 sample_ext 30] show ?thesis
    by (auto simp: sample_view_simps num_le_val)
qed

end
