(* ===== verification/Config_Utils.thy ===== *)
theory Config_Utils
  imports Py_Prelude
begin

text \<open>
  \<open>src/utils.py\<close>, which reads values out of the configuration files of ns-3. A file system
  gives the lines of the files that exist. The value of an assignment is what Python's \<open>eval\<close>
  makes of its right-hand side; the files are data, so \<open>eval\<close> on their text is the parameter
  \<open>ev\<close>.
\<close>

type_synonym file_system = "string \<Rightarrow> string list option"

section \<open>The readers\<close>

definition strip_comment :: "string \<Rightarrow> string" where
  "strip_comment line = (if CHR ''#'' \<in> set line then fst (py_split1 (CHR ''#'') line) else line)"

definition assigned_value :: "(string \<Rightarrow> 'v pyres) \<Rightarrow> string \<Rightarrow> 'v pyres" where
  \<comment> \<open>\<open>eval(s.split('=', 1)[1].strip())\<close>\<close>
  "assigned_value ev s = (case py_split1 (CHR ''='') s of
     (_, None) \<Rightarrow> Inl IndexError | (_, Some r) \<Rightarrow> ev (py_strip r))"

fun list_loop :: "(string \<Rightarrow> 'v list pyres) \<Rightarrow> string \<Rightarrow> string list \<Rightarrow> string \<Rightarrow> bool \<Rightarrow> 'v list pyres" where
  "list_loop ev list_name [] list_string parsing_multiline_list = Inr []"
| "list_loop ev list_name (line # lines) list_string parsing_multiline_list =
     (let line = strip_comment line
      in if py_contains list_name line \<or> parsing_multiline_list then
           let list_string = list_string @ line
           in if CHR '']'' \<notin> set list_string then list_loop ev list_name lines list_string True
              else assigned_value ev list_string
         else list_loop ev list_name lines list_string parsing_multiline_list)"

definition get_list_from_file :: "(string \<Rightarrow> 'v list pyres) \<Rightarrow> file_system \<Rightarrow> string \<Rightarrow> string \<Rightarrow> 'v list pyres" where
  "get_list_from_file ev fs file_path list_name = (case fs file_path of
     None \<Rightarrow> Inr [] | Some lines \<Rightarrow> list_loop ev list_name lines [] False)"

fun bool_loop :: "(string \<Rightarrow> 'v pyres) \<Rightarrow> string \<Rightarrow> string list \<Rightarrow> 'v option pyres" where
  "bool_loop ev bool_name [] = Inr None"
| "bool_loop ev bool_name (line # lines) =
     (let line = strip_comment line
      in if py_contains bool_name line then rbind (assigned_value ev line) (\<lambda>b. Inr (Some b))
         else bool_loop ev bool_name lines)"

definition get_bool_from_file :: "(string \<Rightarrow> 'v pyres) \<Rightarrow> file_system \<Rightarrow> string \<Rightarrow> string \<Rightarrow> 'v \<Rightarrow> 'v pyres" where
  \<comment> \<open>\<open>bool_found\<close> is only assigned when the file exists\<close>
  "get_bool_from_file ev fs file_path bool_name value_if_missing = (case fs file_path of
     None \<Rightarrow> Inl UnboundLocalError
   | Some lines \<Rightarrow> rbind (bool_loop ev bool_name lines) (\<lambda>found.
       Inr (case found of None \<Rightarrow> value_if_missing | Some b \<Rightarrow> b)))"

definition read_config_at :: "(string \<Rightarrow> string list pyres) \<Rightarrow> (string \<Rightarrow> bool pyres) \<Rightarrow> file_system \<Rightarrow> string \<Rightarrow>
    (bool \<times> string list \<times> bool \<times> bool) pyres" where
  "read_config_at evl evb fs dot_ns3rc_path =
     rbind (get_list_from_file evl fs dot_ns3rc_path ''modules_enabled'') (\<lambda>ms.
     let modules_enabled = (if ms = [] then [''all_modules''] else ms)
     in rbind (get_bool_from_file evb fs dot_ns3rc_path ''examples_enabled'' False) (\<lambda>examples_enabled.
        rbind (get_bool_from_file evb fs dot_ns3rc_path ''tests_enabled'' False) (\<lambda>tests_enabled.
        Inr (True, modules_enabled, examples_enabled, tests_enabled))))"

definition read_config_file :: "(string \<Rightarrow> string list pyres) \<Rightarrow> (string \<Rightarrow> bool pyres) \<Rightarrow> file_system \<Rightarrow> string \<Rightarrow>
    (bool \<times> string list \<times> bool \<times> bool) pyres" where
  \<comment> \<open>\<open>home\<close> is what \<open>expanduser\<close> makes of \<open>~/\<close>\<close>
  "read_config_file evl evb fs home =
     (if fs ''.ns3rc'' \<noteq> None then read_config_at evl evb fs ''.ns3rc''
      else if fs (home @ ''.ns3rc'') \<noteq> None then read_config_at evl evb fs (home @ ''.ns3rc'')
      else Inr (False, [''all_modules''], False, False))"

section \<open>Lemmas\<close>

lemma list_loop_parsing:
  assumes "CHR '']'' \<notin> set acc"
  shows "list_loop ev name lines acc True =
    (case dropWhile (\<lambda>l. CHR '']'' \<notin> set l) (map strip_comment lines) of
       [] \<Rightarrow> Inr []
     | l # _ \<Rightarrow> assigned_value ev (acc @ concat (takeWhile (\<lambda>l. CHR '']'' \<notin> set l) (map strip_comment lines)) @ l))"
  using assms
  by (induction lines arbitrary: acc)
     (simp_all add: Let_def del: dropWhile_eq_Nil_conv split: list.split)

lemma list_loop_searching:
  "list_loop ev name lines [] False =
    (let rest = dropWhile (\<lambda>l. \<not> py_contains name l) (map strip_comment lines)
     in case dropWhile (\<lambda>l. CHR '']'' \<notin> set l) rest of
          [] \<Rightarrow> Inr []
        | l # _ \<Rightarrow> assigned_value ev (concat (takeWhile (\<lambda>l. CHR '']'' \<notin> set l) rest) @ l))"
  by (induction lines)
     (simp_all add: Let_def list_loop_parsing del: dropWhile_eq_Nil_conv split: list.split)

lemma bool_loop_find:
  "bool_loop ev name lines = (case find (py_contains name) (map strip_comment lines) of
     None \<Rightarrow> Inr None | Some l \<Rightarrow> rbind (assigned_value ev l) (\<lambda>b. Inr (Some b)))"
  by (induction lines) (auto simp: Let_def)

lemma get_bool_exists: "fs path = Some lines \<Longrightarrow> get_bool_from_file ev fs path name v =
    (case find (py_contains name) (map strip_comment lines) of
       None \<Rightarrow> Inr v | Some l \<Rightarrow> assigned_value ev l)"
  by (auto simp: get_bool_from_file_def bool_loop_find rbind_def split: option.split sum.split)

section \<open>Properties\<close>

text \<open>C10: the line-by-line search for a list agrees with a reading of the whole file: with the
  comments removed, skip to the first line that contains the name, take the lines up to the first
  one with a closing bracket, join them, and evaluate what follows the first equals sign; without
  the name or the bracket, or without the file, the list is empty.\<close>

theorem get_list_reference:
  "get_list_from_file ev fs path name =
    (let rest = (case fs path of None \<Rightarrow> []
                 | Some lines \<Rightarrow> dropWhile (\<lambda>l. \<not> py_contains name l) (map strip_comment lines))
     in case dropWhile (\<lambda>l. CHR '']'' \<notin> set l) rest of
          [] \<Rightarrow> Inr []
        | l # _ \<Rightarrow> assigned_value ev (concat (takeWhile (\<lambda>l. CHR '']'' \<notin> set l) rest) @ l))"
  by (simp add: get_list_from_file_def list_loop_searching split: option.split)

text \<open>Reading the configuration never meets the unassigned \<open>bool_found\<close> of
  \<open>get_bool_from_file\<close>, although that function raises \<open>UnboundLocalError\<close> for a file that does not
  exist: it raises only what \<open>eval\<close> raises and \<open>IndexError\<close> for a line without an equals sign. The
  file of the working directory hides the one of the home directory, and the modules returned
  are never an empty list.\<close>

theorem read_config_total:
  assumes "\<And>s. evl s \<noteq> Inl UnboundLocalError" and "\<And>s. evb s \<noteq> Inl UnboundLocalError"
  shows "read_config_file evl evb fs home \<noteq> Inl UnboundLocalError \<and>
    (fs ''.ns3rc'' \<noteq> None \<longrightarrow> read_config_file evl evb fs home = read_config_file evl evb fs []) \<and>
    (\<forall>found ms ex ts. read_config_file evl evb fs home = Inr (found, ms, ex, ts) \<longrightarrow>
       ms \<noteq> [] \<and> (found \<longleftrightarrow> fs ''.ns3rc'' \<noteq> None \<or> fs (home @ ''.ns3rc'') \<noteq> None) \<and>
       (\<not> found \<longrightarrow> ms = [''all_modules''] \<and> \<not> ex \<and> \<not> ts))"
proof -
  have val: "assigned_value evl s \<noteq> Inl UnboundLocalError" "assigned_value evb s \<noteq> Inl UnboundLocalError" for s
    using assms by (auto simp: assigned_value_def split: option.splits prod.splits)
  have lst: "get_list_from_file evl fs path name \<noteq> Inl UnboundLocalError" for path name
    using val(1) by (simp add: get_list_reference Let_def split: list.split)
  have bol: "get_bool_from_file evb fs path name v \<noteq> Inl UnboundLocalError" if "fs path \<noteq> None" for path name v
    using that val(2) by (auto simp: get_bool_exists split: option.splits)
  have cfg: "read_config_at evl evb fs path \<noteq> Inl UnboundLocalError" if "fs path \<noteq> None" for path
    using lst bol that by (auto simp: read_config_at_def rbind_Inl_iff Let_def)
  show ?thesis
    using cfg by (auto simp: read_config_file_def read_config_at_def rbind_Inr_iff Let_def split: if_splits)
qed

definition sample_fs :: file_system where
  "sample_fs = [''/home/u/.ns3rc'' \<mapsto> [''modules_enabled = [core,'', ''wifi] # two'', ''tests_enabled = True'']]"

theorem read_config_total_witness:
  "\<exists>ms. read_config_file (\<lambda>s. Inr [s]) (\<lambda>s. Inr True) sample_fs ''/home/u/'' = Inr (True, ms, False, True) \<and> ms \<noteq> []"
proof -
  have "read_config_file (\<lambda>s. Inr [s]) (\<lambda>s. Inr True) sample_fs ''/home/u/'' = Inr (True, [''[core,wifi]''], False, True)"
    by code_simp
  with read_config_total [of "\<lambda>s. Inr [s]" "\<lambda>s. Inr True" sample_fs "''/home/u/''"] show ?thesis by auto
qed

end
