(* ===== verification/Test_Jobs.thy ===== *)
theory Test_Jobs
  imports Config_Utils "HOL-Library.List_Lexorder" "HOL-Library.Char_ord"
begin

text \<open>
  The first half of \<open>src/test.py\<close>: the configuration that \<open>waf\<close> left, the search path of the
  child processes, the lists of examples, and the jobs that \<open>run_tests\<close> queues. The operating
  system (files, the shell, paths relative to the working directory) and \<open>eval\<close> on the text of
  configuration files are the parameters in \<open>os_env\<close>; messages printed under \<open>--verbose\<close> are
  not modelled.
\<close>

named_theorems job_simps \<open>fields of the jobs that are built\<close>

section \<open>Configuration, options and environment\<close>

record config =
  cf_basedir :: string
  cf_builddir :: string
  cf_modules :: "string list"
  cf_contributed :: "string list"
  cf_module_path :: "string list"
  cf_nsc_enabled :: bool
  cf_examples :: bool
  cf_tests :: bool
  cf_example_dirs :: "string list"
  cf_python_bindings :: "bool option"  \<comment> \<open>no default at the top of the file\<close>
  cf_appname :: string
  cf_profile :: string
  cf_suffix :: string
  cf_version :: string
  cf_python :: "string list"
  cf_valgrind_found :: bool

record options =
  buildpath :: string
  constrain :: string
  duration :: bool
  example :: string
  update_data :: bool
  fullness :: string
  valgrind :: bool
  kinds :: bool
  list_opt :: bool
  multiple :: bool
  nowaf :: bool
  pyexample :: string
  retain :: bool
  suite :: string
  text_opt :: string
  html_opt :: string
  xml_opt :: string

definition default_options :: options where
  \<comment> \<open>what \<open>parse_args\<close> gives without arguments\<close>
  "default_options = \<lparr>buildpath = '''', constrain = '''', duration = False, example = '''', update_data = False,
     fullness = ''QUICK'', valgrind = False, kinds = False, list_opt = False, multiple = False, nowaf = False,
     pyexample = '''', retain = False, suite = '''', text_opt = '''', html_opt = '''', xml_opt = ''''\<rparr>"

record proc =
  pr_code :: int
  pr_out :: "string option"  \<comment> \<open>\<open>None\<close> when the bytes cannot be decoded\<close>
  pr_err :: "string option"
  pr_elapsed :: rat

record os_env =
  os_files :: file_system
  os_exists :: "string \<Rightarrow> bool"
  os_relpath :: "string \<Rightarrow> string \<Rightarrow> string"
  os_abspath :: "string \<Rightarrow> string"
  os_cwd :: string
  os_platform :: string
  os_sysconf :: "int option"  \<comment> \<open>\<open>SC_NPROCESSORS_ONLN\<close>\<close>
  os_shell :: "string \<Rightarrow> string \<Rightarrow> proc"  \<comment> \<open>command and working directory\<close>
  eval_bool :: "string \<Rightarrow> bool pyres"
  eval_str :: "string \<Rightarrow> string pyres"
  eval_strings :: "string \<Rightarrow> string list pyres"
  eval_pairs :: "string \<Rightarrow> (string \<times> string) list pyres"
  eval_triples :: "string \<Rightarrow> (string \<times> string \<times> string) list pyres"
  exec_line :: "string \<Rightarrow> config \<Rightarrow> config pyres"

text \<open>How a function of the driver may end before its last line; \<open>Listed\<close> holds the lines printed
  for \<open>--list\<close> before \<open>return\<close>.\<close>

datatype stop = Raised py_error | SysExit int | Returned int | Listed "string list"

type_synonym 'a driven = "stop + 'a"

definition lift_py :: "'a pyres \<Rightarrow> 'a driven" where
  "lift_py r = (case r of Inl e \<Rightarrow> Inl (Raised e) | Inr x \<Rightarrow> Inr x)"

lemma lift_py_simps [simp]: "lift_py (Inl e) = Inl (Raised e)" "lift_py (Inr x) = Inr x"
  by (simp_all add: lift_py_def)

lemma lift_py_Inr [res_elims]: "lift_py r = Inr x \<longleftrightarrow> r = Inr x"
  by (cases r) simp_all

section \<open>read_waf_config\<close>

definition interesting_config_items :: "string list" where
  "interesting_config_items =
     [''NS3_ENABLED_MODULES'', ''NS3_ENABLED_CONTRIBUTED_MODULES'', ''NS3_MODULE_PATH'', ''NSC_ENABLED'',
      ''ENABLE_REAL_TIME'', ''ENABLE_THREADING'', ''ENABLE_EXAMPLES'', ''ENABLE_TESTS'',
      ''EXAMPLE_DIRECTORIES'', ''ENABLE_PYTHON_BINDINGS'', ''NSCLICK'', ''ENABLE_BRITE'',
      ''ENABLE_OPENFLOW'', ''APPNAME'', ''BUILD_PROFILE'', ''VERSION'', ''PYTHON'', ''VALGRIND_FOUND'']"

definition key_val :: "string \<Rightarrow> string pyres" where
  \<comment> \<open>\<open>key, val = line.split('=')\<close>, \<open>val\<close>\<close>
  "key_val line = (case py_split (CHR ''='') line of [key, val] \<Rightarrow> Inr val | _ \<Rightarrow> Inl ValueError)"

definition lock_line :: "os_env \<Rightarrow> string \<Rightarrow> string option \<times> string option \<Rightarrow> (string option \<times> string option) pyres" where
  "lock_line env line = (\<lambda>(top_dir, out_dir).
     rbind (if prefix ''top_dir ='' line
            then rbind (key_val line) (\<lambda>v. rbind (eval_str env (py_strip v)) (\<lambda>d. Inr (Some d)))
            else Inr top_dir) (\<lambda>top_dir.
     rbind (if prefix ''out_dir ='' line
            then rbind (key_val line) (\<lambda>v. rbind (eval_str env (py_strip v)) (\<lambda>d. Inr (Some d)))
            else Inr out_dir) (\<lambda>out_dir.
     Inr (top_dir, out_dir))))"

definition cache_line :: "os_env \<Rightarrow> string \<Rightarrow> config \<Rightarrow> config pyres" where
  \<comment> \<open>a line is executed once for every item that it starts with\<close>
  "cache_line env line =
     rfold (\<lambda>item cfg. if prefix item line then exec_line env line cfg else Inr cfg) interesting_config_items"

definition read_waf_config :: "os_env \<Rightarrow> config \<Rightarrow> config driven" where
  "read_waf_config env cfg =
     (let lock = ''.lock-waf_'' @ os_platform env @ ''_build'';
          lines = (case os_files env lock of None \<Rightarrow> os_files env ''.lock-waf_linux2_build'' | l \<Rightarrow> l)
      in case lines of
           None \<Rightarrow> Inl (SysExit 2)
         | Some lines \<Rightarrow> lift_py (
             rbind (rfold (lock_line env) lines (None, None)) (\<lambda>(top_dir, out_dir).
             case (top_dir, out_dir) of
               (Some top_dir, Some out_dir) \<Rightarrow>
                 (case os_files env (out_dir @ ''/c4che/_cache.py'') of
                    None \<Rightarrow> Inl OSError
                  | Some cache \<Rightarrow> rfold (cache_line env) cache (cfg\<lparr>cf_basedir := top_dir, cf_builddir := out_dir\<rparr>))
             | _ \<Rightarrow> Inl UnboundLocalError)))"

section \<open>make_paths\<close>

definition environ_get :: "(string \<times> string) list \<Rightarrow> string \<Rightarrow> string" where
  "environ_get e k = (case map_of e k of None \<Rightarrow> '''' | Some v \<Rightarrow> v)"

definition append_paths :: "string \<Rightarrow> string \<Rightarrow> string list \<Rightarrow> (string \<times> string) list \<Rightarrow> (string \<times> string) list" where
  \<comment> \<open>set to the empty string when missing, then one \<open>+=\<close> for each path\<close>
  "append_paths var sep paths environ =
     fold (\<lambda>p e. AList.update var (environ_get e var @ sep @ p) e) paths
       (if map_of environ var = None then AList.update var '''' environ else environ)"

definition make_paths :: "os_env \<Rightarrow> config \<Rightarrow> (string \<times> string) list \<Rightarrow> (string \<times> string) list" where
  "make_paths env cfg environ =
     (let have_PYTHONPATH = map_of environ ''PYTHONPATH'' \<noteq> None;
          pypath = path_join (path_join (cf_builddir cfg) ''bindings'') ''python'';
          environ = AList.update ''PYTHONPATH'' pypath environ;
          environ = (if \<not> have_PYTHONPATH then AList.update ''PYTHONPATH'' pypath environ
                     else AList.update ''PYTHONPATH'' (environ_get environ ''PYTHONPATH'' @ '':'' @ pypath) environ)
      in if os_platform env = ''darwin'' then append_paths ''DYLD_LIBRARY_PATH'' '':'' (cf_module_path cfg) environ
         else if os_platform env = ''win32'' then append_paths ''PATH'' '';'' (cf_module_path cfg) environ
         else if os_platform env = ''cygwin'' then append_paths ''PATH'' '':'' (cf_module_path cfg) environ
         else append_paths ''LD_LIBRARY_PATH'' '':'' (cf_module_path cfg) environ)"

section \<open>parse_examples_to_run_file\<close>

text \<open>The three lists that the function extends: C++ examples with their conditions, their
  original names, and Python examples.\<close>

type_synonym example_lists =
  "(string \<times> string \<times> string \<times> string) list \<times> string list \<times> (string \<times> string) list"

definition built_name :: "config \<Rightarrow> string \<Rightarrow> string" where
  \<comment> \<open>the prefix and suffix that the wscript gives a program\<close>
  "built_name cfg name = cf_appname cfg @ cf_version cfg @ ''-'' @ name @ cf_suffix cfg"

definition with_arguments :: "string \<Rightarrow> string option \<Rightarrow> string" where
  "with_arguments s args = (case args of None \<Rightarrow> s | Some a \<Rightarrow> s @ '' '' @ a)"

definition add_cpp_example :: "os_env \<Rightarrow> config \<Rightarrow> string \<Rightarrow> string \<times> string \<times> string \<Rightarrow> example_lists \<Rightarrow> example_lists" where
  "add_cpp_example env cfg cpp_executable_dir = (\<lambda>(example_name_original, do_run, do_valgrind_run) (tests, names, pys).
     let (example_name, example_arguments) = py_split1 (CHR '' '') example_name_original;
         example_path = path_join cpp_executable_dir (built_name cfg example_name);
         example_name = path_join (os_relpath env cpp_executable_dir (cf_builddir cfg)) example_name
     in if os_exists env example_path then
          (tests @ [(with_arguments example_name example_arguments, with_arguments example_path example_arguments,
                     do_run, do_valgrind_run)], names @ [example_name_original], pys)
        else (tests, names, pys))"

definition add_python_example :: "os_env \<Rightarrow> string \<Rightarrow> string \<times> string \<Rightarrow> example_lists \<Rightarrow> example_lists" where
  "add_python_example env python_script_dir = (\<lambda>(example_name, do_run) (tests, names, pys).
     let (example_name, example_arguments) = py_split1 (CHR '' '') example_name;
         example_path = path_join python_script_dir example_name
     in if os_exists env example_path then
          (tests, names, pys @ [(with_arguments example_path example_arguments, do_run)])
        else (tests, names, pys))"

definition parse_examples_to_run_file :: "os_env \<Rightarrow> config \<Rightarrow> string \<Rightarrow> string \<Rightarrow> string \<Rightarrow> example_lists \<Rightarrow> example_lists pyres" where
  "parse_examples_to_run_file env cfg examples_to_run_path cpp_executable_dir python_script_dir acc =
     (if os_files env examples_to_run_path \<noteq> None then
        rbind (get_list_from_file (eval_triples env) (os_files env) examples_to_run_path ''cpp_examples'') (\<lambda>cpp_examples.
        let acc = fold (add_cpp_example env cfg cpp_executable_dir) cpp_examples acc
        in rbind (get_list_from_file (eval_pairs env) (os_files env) examples_to_run_path ''python_examples'') (\<lambda>python_examples.
        Inr (fold (add_python_example env python_script_dir) python_examples acc)))
      else Inr acc)"

definition parse_example_dir :: "os_env \<Rightarrow> config \<Rightarrow> string \<Rightarrow> example_lists \<Rightarrow> example_lists pyres" where
  "parse_example_dir env cfg directory =
     (let example_directory = path_join ''examples'' directory
      in parse_examples_to_run_file env cfg (path_join example_directory ''examples-to-run.py'')
           (path_join (cf_builddir cfg) example_directory) example_directory)"

definition parse_module :: "os_env \<Rightarrow> config \<Rightarrow> string \<Rightarrow> string \<Rightarrow> example_lists \<Rightarrow> example_lists pyres" where
  \<comment> \<open>\<open>root_dir\<close> is \<open>src\<close> or \<open>contrib\<close>\<close>
  "parse_module env cfg root_dir name =
     (let name = drop (length ''ns3-'') name;
          module_directory = path_join root_dir name;
          example_directory = path_join module_directory ''examples''
      in parse_examples_to_run_file env cfg (path_join (path_join module_directory ''test'') ''examples-to-run.py'')
           (path_join (cf_builddir cfg) example_directory) example_directory)"

definition collect_examples :: "os_env \<Rightarrow> config \<Rightarrow> example_lists pyres" where
  "collect_examples env cfg =
     rbind (rfold (parse_example_dir env cfg) (cf_example_dirs cfg) ([], [], [])) (\<lambda>acc.
     rbind (rfold (parse_module env cfg ''src'') (cf_modules cfg) acc)
       (rfold (parse_module env cfg ''contrib'') (cf_contributed cfg)))"

section \<open>run_job_synchronously\<close>

definition job_command :: "config \<Rightarrow> string \<Rightarrow> bool \<Rightarrow> bool \<Rightarrow> string \<Rightarrow> string pyres" where
  "job_command cfg shell_command with_valgrind is_python build_path =
     (let suppressions_path = path_join (cf_basedir cfg) ''testpy.supp''
      in rbind (if is_python
                then rbind (py_index (cf_python cfg) 0) (\<lambda>p. Inr (p @ '' '' @ path_join (cf_basedir cfg) shell_command))
                else if build_path \<noteq> '''' then Inr (path_join build_path shell_command)
                else Inr (path_join (cf_builddir cfg) shell_command)) (\<lambda>path_cmd.
         Inr (if with_valgrind then
                ''valgrind --suppressions='' @ suppressions_path @
                '' --leak-check=full --show-reachable=yes --error-exitcode=2 --errors-for-leak-kinds=all '' @ path_cmd
              else path_cmd)))"

definition run_job_synchronously :: "os_env \<Rightarrow> config \<Rightarrow> string \<Rightarrow> string \<Rightarrow> bool \<Rightarrow> bool \<Rightarrow> string \<Rightarrow>
    (int \<times> string option \<times> rat) pyres" where
  \<comment> \<open>return code, standard output and time; \<open>build_path\<close> is empty by default\<close>
  "run_job_synchronously env cfg shell_command directory with_valgrind is_python build_path =
     rbind (job_command cfg shell_command with_valgrind is_python build_path) (\<lambda>cmd.
     let p = os_shell env cmd directory
     in Inr (if pr_out p = None \<or> pr_err p = None then 1 else pr_code p, pr_out p, pr_elapsed p))"

section \<open>Jobs\<close>

record job =
  is_break :: bool
  is_skip :: bool
  skip_reason :: string
  is_example :: bool
  is_pyexample :: bool
  shell_command :: string
  display_name :: string
  basedir :: string
  tempdir :: string
  cwd :: string
  tmp_file_name :: string
  returncode :: int  \<comment> \<open>\<open>False\<close>, which equals 0, before the job has run\<close>
  elapsed_time :: rat
  build_path :: string

definition new_job :: job where
  "new_job = \<lparr>is_break = False, is_skip = False, skip_reason = '''', is_example = False, is_pyexample = False,
     shell_command = '''', display_name = '''', basedir = '''', tempdir = '''', cwd = '''', tmp_file_name = '''',
     returncode = 0, elapsed_time = 0, build_path = ''''\<rparr>"

definition skip_job :: "string \<Rightarrow> job \<Rightarrow> job" where
  "skip_job reason j = j\<lparr>is_skip := True, skip_reason := reason\<rparr>"

definition core_valgrind_skip_tests :: "string list" where
  "core_valgrind_skip_tests =
     [''ns3-tcp-cwnd'', ''nsc-tcp-loss'', ''ns3-tcp-interoperability'', ''routing-click'',
      ''lte-rr-ff-mac-scheduler'', ''lte-tdmt-ff-mac-scheduler'', ''lte-fdmt-ff-mac-scheduler'',
      ''lte-pf-ff-mac-scheduler'', ''lte-tta-ff-mac-scheduler'', ''lte-fdbet-ff-mac-scheduler'',
      ''lte-ttbet-ff-mac-scheduler'', ''lte-fdtbfq-ff-mac-scheduler'', ''lte-tdtbfq-ff-mac-scheduler'',
      ''lte-pss-ff-mac-scheduler'']"

definition core_nsc_missing_skip_tests :: "string list" where
  "core_nsc_missing_skip_tests = [''ns3-tcp-cwnd'', ''nsc-tcp-loss'', ''ns3-tcp-interoperability'']"

definition core_kinds :: "string list" where
  "core_kinds = [''bvt'', ''core'', ''performance'', ''system'', ''unit'']"

definition to_upper :: "string \<Rightarrow> string" where
  "to_upper = map (\<lambda>c. if CHR ''a'' \<le> c \<and> c \<le> CHR ''z'' then char_of ((of_char c :: nat) - 32) else c)"

definition test_runner :: "config \<Rightarrow> string" where
  "test_runner cfg = built_name cfg ''test-runner''"

definition suite_job :: "os_env \<Rightarrow> config \<Rightarrow> options \<Rightarrow> string \<Rightarrow> string \<Rightarrow> job" where
  "suite_job env cfg opts testpy_output_dir test =
     (let multiple = (if multiple opts then '''' else '' --stop-on-failure'');
          fullness = (if fullness opts \<noteq> '''' then '' --fullness='' @ to_upper (fullness opts) else '' --fullness=QUICK'');
          path_cmd = path_join ''utils'' (test_runner cfg @ '' --test-name='' @ test @ multiple @ fullness);
          job = new_job\<lparr>display_name := test, tmp_file_name := path_join testpy_output_dir (test @ ''.xml''),
            cwd := os_cwd env, basedir := os_cwd env, tempdir := testpy_output_dir, shell_command := path_cmd\<rparr>;
          job = (if valgrind opts \<and> test \<in> set core_valgrind_skip_tests then skip_job ''crashes valgrind'' job else job)
      in if \<not> cf_nsc_enabled cfg \<and> test \<in> set core_nsc_missing_skip_tests then skip_job ''requires NSC'' job else job)"

definition suite_jobs :: "os_env \<Rightarrow> config \<Rightarrow> options \<Rightarrow> string \<Rightarrow> string list \<Rightarrow> job list" where
  "suite_jobs env cfg opts testpy_output_dir suite_list =
     map (suite_job env cfg opts testpy_output_dir) (filter (\<lambda>t. t \<noteq> []) (map py_strip suite_list))"

definition example_job :: "os_env \<Rightarrow> options \<Rightarrow> string \<Rightarrow> string \<Rightarrow> string \<Rightarrow> job" where
  "example_job env opts testpy_output_dir name test =
     new_job\<lparr>is_example := True, display_name := name, cwd := testpy_output_dir, basedir := os_cwd env,
       tempdir := testpy_output_dir, shell_command := test, build_path := buildpath opts\<rparr>"

definition program_of :: "string \<Rightarrow> string" where
  \<comment> \<open>without arguments and directories\<close>
  "program_of test = basename (fst (py_split1 (CHR '' '') test))"

definition queue_example :: "os_env \<Rightarrow> options \<Rightarrow> string \<Rightarrow> (string \<times> string) list \<Rightarrow>
    string \<times> string \<times> string \<times> string \<Rightarrow> job list \<Rightarrow> job list pyres" where
  "queue_example env opts testpy_output_dir programs = (\<lambda>(name, test, do_run, do_valgrind_run) jobs.
     if map_of programs (program_of test) \<noteq> None then
       rbind (eval_bool env do_run) (\<lambda>run.
       if run then
         let job = example_job env opts testpy_output_dir name test
         in rbind (if valgrind opts then eval_bool env do_valgrind_run else Inr True) (\<lambda>run_valgrind.
            Inr (jobs @ [if run_valgrind then job else skip_job ''skip in valgrind runs'' job]))
       else Inr jobs)
     else Inr jobs)"

definition example_jobs :: "os_env \<Rightarrow> config \<Rightarrow> options \<Rightarrow> string \<Rightarrow> (string \<times> string) list \<Rightarrow>
    (string \<times> string \<times> string \<times> string) list \<Rightarrow> job list pyres" where
  "example_jobs env cfg opts testpy_output_dir programs example_tests =
     (if suite opts = '''' \<and> example opts = '''' \<and> pyexample opts = '''' then
        if (constrain opts = '''' \<or> constrain opts = ''example'') \<and> cf_examples cfg
        then rfold (queue_example env opts testpy_output_dir programs) example_tests []
        else Inr []
      else if example opts \<noteq> '''' then
        (case map_of programs (built_name cfg (example opts)) of
           None \<Rightarrow> Inr []
         | Some example_path \<Rightarrow>
             let p = os_abspath env example_path in Inr [example_job env opts testpy_output_dir p p])
      else Inr [])"

definition pyexample_job :: "os_env \<Rightarrow> string \<Rightarrow> string \<Rightarrow> job" where
  "pyexample_job env testpy_output_dir test =
     new_job\<lparr>is_pyexample := True, display_name := test, cwd := testpy_output_dir, basedir := os_cwd env,
       tempdir := testpy_output_dir, shell_command := test\<rparr>"

definition queue_pyexample :: "os_env \<Rightarrow> config \<Rightarrow> options \<Rightarrow> string \<Rightarrow> string list \<Rightarrow> string \<times> string \<Rightarrow>
    job list \<Rightarrow> job list pyres" where
  "queue_pyexample env cfg opts testpy_output_dir scripts = (\<lambda>(test, do_run) jobs.
     if program_of test \<in> set scripts then
       rbind (eval_bool env do_run) (\<lambda>run.
       if run then
         let job = pyexample_job env testpy_output_dir test;
             job = (if valgrind opts then skip_job ''skip in valgrind runs'' job else job)
         in (case cf_python_bindings cfg of
               None \<Rightarrow> Inl NameError
             | Some bindings \<Rightarrow> Inr (jobs @ [if bindings then job else skip_job ''requires Python bindings'' job]))
       else Inr jobs)
     else Inr jobs)"

definition pyexample_jobs :: "os_env \<Rightarrow> config \<Rightarrow> options \<Rightarrow> string \<Rightarrow> string list \<Rightarrow> (string \<times> string) list \<Rightarrow>
    job list pyres" where
  "pyexample_jobs env cfg opts testpy_output_dir scripts python_tests =
     (if suite opts = '''' \<and> example opts = '''' \<and> pyexample opts = '''' then
        if (constrain opts = '''' \<or> constrain opts = ''pyexample'') \<and> cf_examples cfg
        then rfold (queue_pyexample env cfg opts testpy_output_dir scripts) python_tests []
        else Inr []
      else if pyexample opts \<noteq> '''' \<and> basename (pyexample opts) \<in> set scripts
      then Inr [pyexample_job env testpy_output_dir (pyexample opts)]
      else Inr [])"

section \<open>run_tests up to the queueing of the jobs\<close>

definition profile_suffix :: "config \<Rightarrow> config" where
  "profile_suffix cfg =
     cfg\<lparr>cf_suffix := (if cf_profile cfg = ''release'' then '''' else ''-'' @ cf_profile cfg)\<rparr>"

definition waf_command :: "options \<Rightarrow> string" where
  "waf_command opts =
     (if kinds opts \<or> list_opt opts \<or> (constrain opts \<noteq> '''' \<and> constrain opts \<in> set core_kinds)
      then ''./waf --target=test-runner''
      else if example opts \<noteq> '''' then ''./waf --target='' @ basename (example opts)
      else ''./waf'')"

definition run_waf :: "os_env \<Rightarrow> options \<Rightarrow> unit driven" where
  "run_waf env opts =
     (if nowaf opts then Inr ()
      else let rc = pr_code (os_shell env (waf_command opts) (os_cwd env))
           in if rc \<noteq> 0 then Inl (Returned rc) else Inr ())"

definition build_status :: "os_env \<Rightarrow> config \<Rightarrow> ((string \<times> string) list \<times> string list) driven" where
  \<comment> \<open>the programs by name, and the scripts\<close>
  "build_status env cfg =
     (let build_status_file = path_join (cf_builddir cfg) ''build-status.py''
      in if os_files env build_status_file = None then Inl (SysExit 2)
         else lift_py (
           rbind (get_list_from_file (eval_strings env) (os_files env) build_status_file ''ns3_runnable_programs'') (\<lambda>programs.
           rbind (get_list_from_file (eval_strings env) (os_files env) build_status_file ''ns3_runnable_scripts'') (\<lambda>scripts.
           Inr (fold (\<lambda>program. AList.update (basename program) program) programs [], scripts)))))"

definition runner_output :: "os_env \<Rightarrow> config \<Rightarrow> string \<Rightarrow> (int \<times> string option) pyres" where
  \<comment> \<open>return code and output of the test runner with the given arguments\<close>
  "runner_output env cfg args =
     rbind (run_job_synchronously env cfg (path_join ''utils'' (test_runner cfg @ args)) (os_cwd env) False False '''')
       (\<lambda>(rc, out, et). Inr (rc, out))"

definition decoded :: "string option \<Rightarrow> string pyres" where
  \<comment> \<open>\<open>if isinstance(s, bytes): s = s.decode()\<close>; bytes are left when they cannot be decoded\<close>
  "decoded out = (case out of None \<Rightarrow> Inl ValueError | Some s \<Rightarrow> Inr s)"

definition print_kinds :: "os_env \<Rightarrow> config \<Rightarrow> options \<Rightarrow> unit driven" where
  \<comment> \<open>\<open>standard_out.decode()\<close> on what is already a string\<close>
  "print_kinds env cfg opts =
     (if kinds opts then
        lift_py (rbind (runner_output env cfg '' --print-test-type-list'') (\<lambda>(rc, out).
          case out of None \<Rightarrow> Inl ValueError | Some s \<Rightarrow> Inl AttributeError))
      else Inr ())"

definition list_lines :: "string \<Rightarrow> string list \<Rightarrow> string list" where
  "list_lines standard_out example_names_original =
     [''Test Type    Test Name'', ''---------    ---------''] @
     filter (\<lambda>item. py_strip item \<noteq> []) (sort (py_split newline standard_out)) @
     map (\<lambda>item. ''example      '' @ item) (sort example_names_original) @ [[]]"

definition print_list :: "os_env \<Rightarrow> config \<Rightarrow> options \<Rightarrow> string list \<Rightarrow> unit driven" where
  "print_list env cfg opts example_names_original =
     (if list_opt opts then
        rbind (lift_py (runner_output env cfg
            (if constrain opts \<noteq> '''' then '' --print-test-name-list --print-test-types --test-type='' @ constrain opts
             else '' --print-test-name-list --print-test-types''))) (\<lambda>(rc, out).
        if rc \<noteq> 0 then Inl (Listed
          [''test.py error:  test-runner return code returned '' @ str_int rc,
           ''To debug, try running '' @ [CHR 0x27] @ ''./waf --run \"test-runner --print-test-name-list\"'' @
             [CHR 0x27, newline]])
        else rbind (lift_py (decoded out)) (\<lambda>out. Inl (Listed (list_lines out example_names_original))))
      else Inr ())"

definition select_suites :: "os_env \<Rightarrow> config \<Rightarrow> options \<Rightarrow> (string list \<times> bool) driven" where
  \<comment> \<open>\<open>suite_list\<close> and \<open>single_suite\<close>\<close>
  "select_suites env cfg opts =
     (if suite opts \<noteq> '''' then
        rbind (lift_py (rbind (runner_output env cfg '' --print-test-name-list'') (\<lambda>(rc, out). decoded out))) (\<lambda>suites.
        if suite opts \<in> set (py_split newline suites) then Inr (py_split newline (suite opts @ [newline]), True)
        else Inl (SysExit 2))
      else if example opts = '''' \<and> pyexample opts = '''' then
        lift_py (rbind (runner_output env cfg
            (if constrain opts \<noteq> '''' then '' --print-test-name-list --test-type='' @ constrain opts
             else '' --print-test-name-list'')) (\<lambda>(rc, out).
        rbind (decoded out) (\<lambda>suites. Inr (py_split newline suites, False))))
      else Inr ([[]], False))"

definition remove_all_once :: "string list \<Rightarrow> string list \<Rightarrow> string list" where
  "remove_all_once performance_test_list suite_list =
     fold (\<lambda>p l. if p \<in> set l then remove1 p l else l) performance_test_list suite_list"

definition drop_performance :: "os_env \<Rightarrow> config \<Rightarrow> options \<Rightarrow> string list \<times> bool \<Rightarrow> string list pyres" where
  "drop_performance env cfg opts = (\<lambda>(suite_list, single_suite).
     if \<not> single_suite \<and> constrain opts \<noteq> ''performance'' then
       rbind (runner_output env cfg '' --print-test-name-list --test-type=performance'') (\<lambda>(rc, out).
       rbind (decoded out) (\<lambda>performance_tests.
       Inr (remove_all_once (py_split newline performance_tests) suite_list)))
     else Inr suite_list)"

definition processors :: "os_env \<Rightarrow> int pyres" where
  "processors env =
     (if os_platform env \<noteq> ''win32'' then
        (case os_sysconf env of
           Some n \<Rightarrow> Inr n
         | None \<Rightarrow>
             let p = os_shell env ''sysctl -n hw.ncpu'' (os_cwd env)
             in rbind (decoded (pr_out p)) (\<lambda>out. rbind (decoded (pr_err p)) (\<lambda>err.
                if err = '''' then
                  (case of_base 10 (py_strip out) of None \<Rightarrow> Inl ValueError | Some n \<Rightarrow> Inr (int n))
                else Inr 1)))
      else Inr 1)"

definition prepare :: "os_env \<Rightarrow> config \<Rightarrow> options \<Rightarrow> string \<Rightarrow> (string \<times> string) list \<Rightarrow>
    (config \<times> (string \<times> string) list \<times> string \<times> int \<times> job list) driven" where
  \<comment> \<open>configuration, environment, output directory, number of threads and the jobs in the order in
    which they are queued; \<open>date\<close> is the time stamp of the run\<close>
  "prepare env cfg opts date environ =
     rbind (read_waf_config env cfg) (\<lambda>cfg.
     let cfg = profile_suffix cfg
     in rbind (run_waf env opts) (\<lambda>_.
     let environ = make_paths env cfg environ
     in rbind (build_status env cfg) (\<lambda>(programs, scripts).
     rbind (lift_py (collect_examples env cfg)) (\<lambda>(example_tests, example_names_original, python_tests).
     let environ = AList.update ''NS_LOG'' '''' environ
     in rbind (print_kinds env cfg opts) (\<lambda>_.
     rbind (print_list env cfg opts example_names_original) (\<lambda>_.
     let testpy_output_dir = path_join ''testpy-output'' date
     in rbind (select_suites env cfg opts) (\<lambda>suites.
     rbind (lift_py (drop_performance env cfg opts suites)) (\<lambda>suite_list.
     rbind (lift_py (processors env)) (\<lambda>n.
     rbind (lift_py (example_jobs env cfg opts testpy_output_dir programs example_tests)) (\<lambda>examples.
     rbind (lift_py (pyexample_jobs env cfg opts testpy_output_dir scripts python_tests)) (\<lambda>pyexamples.
     Inr (cfg, environ, testpy_output_dir, n,
          suite_jobs env cfg opts testpy_output_dir suite_list @ examples @ pyexamples))))))))))))"

section \<open>Lemmas\<close>

lemma rfold_shape:
  "rfold f xs s = Inr t \<Longrightarrow> P s \<Longrightarrow> (\<And>x u v. P u \<Longrightarrow> f x u = Inr v \<Longrightarrow> P v) \<Longrightarrow> P t"
  by (rule rfold_invariant) auto

lemma job_fields [job_simps]:
  "is_break new_job = False" "is_break (skip_job r j) = is_break j" "is_skip (skip_job r j) = True"
  "display_name (skip_job r j) = display_name j" "is_break (example_job env opts dir name test) = False"
  "is_break (pyexample_job env dir test) = False"
  by (simp_all add: new_job_def skip_job_def example_job_def pyexample_job_def)

lemma suite_job_fields [job_simps]:
  "is_break (suite_job env cfg opts dir test) = False"
  "display_name (suite_job env cfg opts dir test) = test"
  "is_skip (suite_job env cfg opts dir test) \<longleftrightarrow>
     valgrind opts \<and> test \<in> set core_valgrind_skip_tests \<or>
     \<not> cf_nsc_enabled cfg \<and> test \<in> set core_nsc_missing_skip_tests"
  by (simp_all add: suite_job_def Let_def job_simps new_job_def)

definition no_breaks :: "job list \<Rightarrow> bool" where
  "no_breaks jobs \<longleftrightarrow> list_all (\<lambda>j. \<not> is_break j) jobs"

lemma queue_example_no_breaks:
  "queue_example env opts dir programs e jobs = Inr jobs' \<Longrightarrow> no_breaks jobs \<Longrightarrow> no_breaks jobs'"
  by (cases e) (auto simp: queue_example_def rbind_Inr_iff no_breaks_def job_simps Let_def split: if_splits)

lemma queue_pyexample_no_breaks:
  "queue_pyexample env cfg opts dir scripts e jobs = Inr jobs' \<Longrightarrow> no_breaks jobs \<Longrightarrow> no_breaks jobs'"
  by (cases e) (auto simp: queue_pyexample_def rbind_Inr_iff no_breaks_def job_simps Let_def
      split: if_splits option.splits)

lemma example_jobs_no_breaks: "example_jobs env cfg opts dir programs tests = Inr jobs \<Longrightarrow> no_breaks jobs"
  by (auto simp: example_jobs_def no_breaks_def job_simps Let_def split: if_splits option.splits
      elim!: rfold_shape [where P = no_breaks, unfolded no_breaks_def]
      dest: queue_example_no_breaks [unfolded no_breaks_def])

lemma pyexample_jobs_no_breaks: "pyexample_jobs env cfg opts dir scripts tests = Inr jobs \<Longrightarrow> no_breaks jobs"
  by (auto simp: pyexample_jobs_def no_breaks_def job_simps Let_def split: if_splits option.splits
      elim!: rfold_shape [where P = no_breaks, unfolded no_breaks_def]
      dest: queue_pyexample_no_breaks [unfolded no_breaks_def])

lemma suite_jobs_no_breaks: "no_breaks (suite_jobs env cfg opts dir suites)"
  by (simp add: suite_jobs_def no_breaks_def list_all_iff job_simps)

lemma prepare_no_breaks:
  "prepare env cfg opts date environ = Inr (cfg', environ', dir, n, jobs) \<Longrightarrow> no_breaks jobs"
  by (auto simp: prepare_def rbind_Inr_iff lift_py_Inr Let_def no_breaks_def
      dest!: example_jobs_no_breaks pyexample_jobs_no_breaks
      intro: suite_jobs_no_breaks [unfolded no_breaks_def])

lemma environ_get_update: "environ_get (AList.update k v e) k' = (if k = k' then v else environ_get e k')"
  by (simp add: environ_get_def lookup_update)

lemma fold_append_paths:
  "map_of environ var = Some v \<Longrightarrow>
   map_of (fold (\<lambda>p e. AList.update var (environ_get e var @ sep @ p) e) paths environ) =
   (map_of environ)(var \<mapsto> v @ concat (map (\<lambda>p. sep @ p) paths))"
  by (induction paths arbitrary: environ v) (auto simp: lookup_update environ_get_def)

lemma append_paths_lookup:
  "map_of (append_paths var sep paths environ) =
   (map_of environ)(var \<mapsto> environ_get environ var @ concat (map (\<lambda>p. sep @ p) paths))"
proof (cases "map_of environ var")
  case None
  then show ?thesis
    by (simp add: append_paths_def fold_append_paths [where v = "[]"] lookup_update environ_get_def [of environ])
next
  case (Some v)
  then show ?thesis by (simp add: append_paths_def fold_append_paths environ_get_def [of environ])
qed

lemma remove_all_once_filter:
  "distinct suite_list \<Longrightarrow> remove_all_once tests suite_list = filter (\<lambda>s. s \<notin> set tests) suite_list"
  unfolding remove_all_once_def
  by (induction tests arbitrary: suite_list)
     (auto simp: distinct_remove1_removeAll removeAll_filter_not_eq conj_commute filter_id_conv
      intro!: filter_cong)

section \<open>Sample configuration\<close>

definition sample_env :: os_env where
  \<comment> \<open>one program has been built; every command returns 0 and prints nothing\<close>
  "sample_env = \<lparr>os_files =
       [''.lock-waf_linux_build'' \<mapsto> [''top_dir = /ns3'', ''out_dir = /b''], ''/b/c4che/_cache.py'' \<mapsto> [],
        ''/b/build-status.py'' \<mapsto> [''ns3_runnable_programs = [1]'']],
     os_exists = (\<lambda>_. False), os_relpath = (\<lambda>p _. p), os_abspath = (\<lambda>p. p),
     os_cwd = ''/ns3'', os_platform = ''linux'', os_sysconf = Some 1,
     os_shell = (\<lambda>_ _. \<lparr>pr_code = 0, pr_out = Some [], pr_err = Some [], pr_elapsed = 1/2\<rparr>),
     eval_bool = (\<lambda>_. Inr True), eval_str = Inr, eval_strings = (\<lambda>_. Inr [''/b/ns3-first-debug'']),
     eval_pairs = (\<lambda>_. Inr []), eval_triples = (\<lambda>_. Inr []), exec_line = (\<lambda>_. Inr)\<rparr>"

definition sample_config :: config where
  "sample_config = \<lparr>cf_basedir = ''/ns3'', cf_builddir = ''/b'', cf_modules = [], cf_contributed = [],
     cf_module_path = [''/b/lib''], cf_nsc_enabled = True, cf_examples = True, cf_tests = True,
     cf_example_dirs = [], cf_python_bindings = Some True, cf_appname = ''ns'', cf_profile = ''debug'',
     cf_suffix = ''-debug'', cf_version = ''3'', cf_python = [''python3''], cf_valgrind_found = False\<rparr>"

definition sample_options :: options where
  "sample_options = default_options\<lparr>example := ''first'', nowaf := True\<rparr>"

definition sample_job :: job where
  "sample_job = example_job sample_env sample_options ''testpy-output/d'' ''/b/ns3-first-debug'' ''/b/ns3-first-debug''"

lemma sample_prepare:
  "\<exists>environ. prepare sample_env sample_config sample_options ''d'' [] =
    Inr (sample_config, environ, ''testpy-output/d'', 1, [sample_job])"
proof -
  have "case prepare sample_env sample_config sample_options ''d'' [] of Inl _ \<Rightarrow> False
    | Inr (c, _, d, n, js) \<Rightarrow> c = sample_config \<and> d = ''testpy-output/d'' \<and> n = 1 \<and> js = [sample_job]"
    by code_simp
  then show ?thesis by (auto split: sum.splits prod.splits)
qed

section \<open>Properties\<close>

definition library_path :: "os_env \<Rightarrow> string \<times> string" where
  \<comment> \<open>the variable of the loader and its separator\<close>
  "library_path env =
     (if os_platform env = ''darwin'' then (''DYLD_LIBRARY_PATH'', '':'')
      else if os_platform env = ''win32'' then (''PATH'', '';'')
      else if os_platform env = ''cygwin'' then (''PATH'', '':'')
      else (''LD_LIBRARY_PATH'', '':''))"

text \<open>The environment of the child processes has the module paths appended to the search path
  of the loader and is otherwise unchanged, except that a \<open>PYTHONPATH\<close> of the user is lost: it is
  replaced by the bindings directory, twice.\<close>

theorem make_paths_environ:
  "map_of (make_paths env cfg environ) k =
    (let (var, sep) = library_path env; pypath = path_join (path_join (cf_builddir cfg) ''bindings'') ''python''
     in if k = ''PYTHONPATH'' then
          Some (if map_of environ ''PYTHONPATH'' = None then pypath else pypath @ '':'' @ pypath)
        else if k = var then Some (environ_get environ var @ concat (map (\<lambda>p. sep @ p) (cf_module_path cfg)))
        else map_of environ k)"
proof -
  obtain var sep where l: "library_path env = (var, sep)" by fastforce
  then have var: "var \<noteq> ''PYTHONPATH''" by (auto simp: library_path_def split: if_splits)
  let ?py = "path_join (path_join (cf_builddir cfg) ''bindings'') ''python''"
  let ?v = "if map_of environ ''PYTHONPATH'' = None then ?py else ?py @ '':'' @ ?py"
  have "make_paths env cfg environ = append_paths var sep (cf_module_path cfg)
      (AList.update ''PYTHONPATH'' ?v (AList.update ''PYTHONPATH'' ?py environ))"
    using l by (auto simp: make_paths_def library_path_def Let_def environ_get_update split: if_splits)
  with var show ?thesis
    by (simp add: l Let_def append_paths_lookup lookup_update environ_get_update del: append.append_Cons)
qed

text \<open>Unless one suite or the performance tests are asked for, the suites that are queued are
  those that the test runner lists, in its order and without the performance tests; a suite is
  queued as skipped exactly when it is on the list of those that crash valgrind or need NSC.\<close>

theorem performance_dropped:
  assumes "distinct suite_list" and "constrain opts \<noteq> ''performance''"
    and "runner_output env cfg '' --print-test-name-list --test-type=performance'' = Inr (rc, Some out)"
  shows "\<exists>suites. drop_performance env cfg opts (suite_list, False) = Inr suites \<and>
    map display_name (suite_jobs env cfg opts dir suites) =
      filter (\<lambda>s. s \<noteq> []) (map py_strip (filter (\<lambda>s. s \<notin> set (py_split newline out)) suite_list)) \<and>
    list_all (\<lambda>j. is_skip j \<longleftrightarrow> valgrind opts \<and> display_name j \<in> set core_valgrind_skip_tests \<or>
        \<not> cf_nsc_enabled cfg \<and> display_name j \<in> set core_nsc_missing_skip_tests)
      (suite_jobs env cfg opts dir suites)"
  using assms
  by (simp add: drop_performance_def decoded_def remove_all_once_filter suite_jobs_def job_simps comp_def list_all_iff)

theorem performance_dropped_witness:
  "drop_performance sample_env sample_config sample_options ([''a'', ''b'', []], False) = Inr [''a'', ''b'']"
proof -
  have r: "runner_output sample_env sample_config '' --print-test-name-list --test-type=performance'' = Inr (0, Some [])"
    by code_simp
  have "constrain sample_options \<noteq> ''performance''" by (simp add: sample_options_def default_options_def)
  from performance_dropped [OF _ this r, of "[''a'', ''b'', []]"] r show ?thesis
    by (auto simp: drop_performance_def sample_options_def default_options_def decoded_def remove_all_once_def)
qed

text \<open>\<open>--kinds\<close> never lists the kinds of tests and never gets to running tests: what the test
  runner prints is decoded a second time, which raises.\<close>

theorem kinds_raises:
  assumes "kinds opts"
  shows "(\<exists>s. prepare env cfg opts date environ = Inl s \<and> (\<forall>lines. s \<noteq> Listed lines)) \<and>
    print_kinds env cfg opts \<in> {Inl (Raised AttributeError), Inl (Raised ValueError)}"
proof -
  have run: "\<exists>rc out. runner_output env c args = Inr (rc, out)" for c args
    by (simp add: runner_output_def run_job_synchronously_def job_command_def Let_def)
  have pk: "print_kinds env c opts \<in> {Inl (Raised AttributeError), Inl (Raised ValueError)}" for c
    using run [of c "'' --print-test-type-list''"] assms
    by (auto simp: print_kinds_def split: option.splits)
  then have pk': "print_kinds env c opts \<noteq> Inr ()" "print_kinds env c opts \<noteq> Inl (Listed l)" for c l
    by (metis insert_iff singletonD sum.distinct(1) sum.inject(1) stop.distinct)+
  have waf: "read_waf_config env cfg \<noteq> Inl (Listed l)" for l
    by (auto simp: read_waf_config_def lift_py_def Let_def split: option.split sum.split)
  have "prepare env cfg opts date environ \<noteq> Inr x" for x
    using pk' by (cases x) (auto simp: prepare_def rbind_Inr_iff Let_def)
  moreover have "prepare env cfg opts date environ \<noteq> Inl (Listed l)" for l
    using pk' waf by (auto simp: prepare_def rbind_Inl_iff Let_def run_waf_def build_status_def lift_py_def
        split: if_splits sum.splits)
  ultimately show ?thesis using pk by (metis obj_sumE)
qed

theorem kinds_raises_witness:
  "prepare sample_env sample_config (sample_options\<lparr>kinds := True\<rparr>) ''d'' [] = Inl (Raised AttributeError)"
proof -
  have "case prepare sample_env sample_config (sample_options\<lparr>kinds := True\<rparr>) ''d'' [] of
      Inl s \<Rightarrow> s = Raised AttributeError | Inr _ \<Rightarrow> True" by code_simp
  with kinds_raises [of "sample_options\<lparr>kinds := True\<rparr>" sample_env sample_config "''d''" "[]"] show ?thesis
    by (auto split: sum.splits)
qed

end
