(* ===== verification/Test_Report.thy ===== *)
theory Test_Report
  imports Py_Prelude
begin

text \<open>
  The report writers of \<open>src/test.py\<close>: \<open>read_test\<close>, \<open>node_to_text\<close>, \<open>translate_to_text\<close> and
  \<open>translate_to_html\<close>. The XML parser of the standard library gives the tree \<open>xml\<close>; a report
  is the text written to the file. An exception ends the program, what was written before it is
  not modelled.
\<close>

section \<open>Element trees\<close>

datatype xml = Elem (xtag: string) (xattrs: "(string \<times> string) list") (xtext: "string option") (xkids: "xml list")

definition xml_find :: "string \<Rightarrow> xml \<Rightarrow> xml option" where
  "xml_find tag e = find (\<lambda>k. xtag k = tag) (xkids e)"

definition findall :: "string \<Rightarrow> xml \<Rightarrow> xml list" where
  "findall tag e = filter (\<lambda>k. xtag k = tag) (xkids e)"

definition child_text :: "string \<Rightarrow> xml \<Rightarrow> string option pyres" where
  \<comment> \<open>\<open>e.find(tag).text\<close>: there is no \<open>text\<close> on \<open>None\<close>\<close>
  "child_text tag e = (case xml_find tag e of None \<Rightarrow> Inl AttributeError | Some c \<Rightarrow> Inr (xtext c))"

definition py_text :: "string option \<Rightarrow> string" where
  \<comment> \<open>\<open>'%s' % t\<close>\<close>
  "py_text t = (case t of None \<Rightarrow> ''None'' | Some s \<Rightarrow> s)"

definition ln :: "string \<Rightarrow> string" where
  "ln s = s @ [newline]"

lemma findall_size: "k \<in> set (findall tag e) \<Longrightarrow> size k < size e"
  by (cases e) (auto simp: findall_def dest!: size_list_estimation' [where f = size, OF _ order_refl])

section \<open>Reading a result\<close>

definition read_time :: "xml \<Rightarrow> string option" where
  "read_time test = (case xml_find ''Time'' test of
     None \<Rightarrow> Some '''' | Some t \<Rightarrow> map_of (xattrs t) ''real'')"

definition read_test :: "xml \<Rightarrow> (string option \<times> string option \<times> string option \<times> string option) pyres" where
  "read_test test =
     rbind (child_text ''Result'' test) (\<lambda>result.
     rbind (child_text ''Name'' test) (\<lambda>name.
     let reason = (case xml_find ''Reason'' test of None \<Rightarrow> Some '''' | Some r \<Rightarrow> xtext r)
     in Inr (result, name, reason, read_time test)))"

section \<open>The text report\<close>

definition detail_fields :: "(string \<times> string) list" where
  "detail_fields =
     [(''Message'', ''      Message:   ''), (''Condition'', ''      Condition: ''),
      (''Actual'', ''      Actual:    ''), (''Limit'', ''      Limit:     ''),
      (''File'', ''      File:      ''), (''Line'', ''      Line:      '')]"

definition details_text :: "xml \<Rightarrow> string pyres" where
  "details_text details =
     rbind (rmap (\<lambda>(tag, label). rbind (child_text tag details) (\<lambda>t. Inr (ln (label @ py_text t)))) detail_fields)
       (\<lambda>ls. Inr (ln ''    Details:'' @ concat ls))"

definition own_text :: "xml \<Rightarrow> string pyres" where
  \<comment> \<open>what \<open>node_to_text\<close> writes before it descends\<close>
  "own_text test =
     rbind (read_test test) (\<lambda>(result, name, reason, time_real).
     let reason = (case reason of
           Some r \<Rightarrow> Some (if r = '''' then r else '' ('' @ r @ '')'') | None \<Rightarrow> None);
         output = ln (py_text result @ '': Test Suite \"'' @ py_text name @ ''\" ('' @ py_text time_real
                      @ '')'' @ py_text reason)
     in rbind (rmap details_text (findall ''FailureDetails'' test)) (\<lambda>ds. Inr (output @ concat ds)))"

function node_to_text :: "xml \<Rightarrow> string pyres" where
  "node_to_text test =
     rbind (own_text test) (\<lambda>s.
     rbind (rmap node_to_text (findall ''Test'' test)) (\<lambda>cs. Inr (s @ concat cs)))"
  by pat_completeness auto
termination by (relation "measure size") (auto intro: findall_size)

declare node_to_text.simps [simp del]

definition example_text :: "xml \<Rightarrow> string pyres" where
  "example_text example =
     rbind (child_text ''Result'' example) (\<lambda>result.
     rbind (child_text ''Name'' example) (\<lambda>name.
     Inr (ln (py_text result @ '': Example \"'' @ py_text name @ ''\" ('' @ py_text (read_time example) @ '')''))))"

definition translate_to_text :: "xml \<Rightarrow> string \<Rightarrow> (string \<times> string) pyres" where
  \<comment> \<open>the file and its contents\<close>
  "translate_to_text results text_file =
     rbind (rmap node_to_text (findall ''Test'' results)) (\<lambda>ts.
     rbind (rmap example_text (findall ''Example'' results)) (\<lambda>es.
     Inr (text_file @ ''.txt'', concat ts @ concat es)))"

section \<open>The HTML report\<close>

definition suite_heading :: "string option \<Rightarrow> string option \<Rightarrow> string option \<Rightarrow> string option \<Rightarrow> string" where
  "suite_heading result name reason time =
     (if result = Some ''PASS'' then
        ln (''<h3 style=\"color:green\">'' @ py_text result @ '': '' @ py_text name @ '' ('' @ py_text time @ '')</h3>'')
      else if result = Some ''SKIP'' then
        ln (''<h3 style=\"color:#ff6600\">'' @ py_text result @ '': '' @ py_text name @ '' ('' @ py_text time
            @ '') ('' @ py_text reason @ '')</h3>'')
      else
        ln (''<h3 style=\"color:red\">'' @ py_text result @ '': '' @ py_text name @ '' ('' @ py_text time @ '')</h3>''))"

definition no_detail_row :: "string option \<Rightarrow> string" where
  "no_detail_row result =
     ln ''<tr>'' @
     (if result = Some ''SKIP'' then ln (''<td style=\"color:#ff6600\">'' @ py_text result @ ''</td>'')
      else ln (''<td style=\"color:red\">'' @ py_text result @ ''</td>'')) @
     ln ''</tr>''"

definition html_fields :: "(string \<times> string \<times> string) list" where
  "html_fields =
     [(''Message'', ''<b>Message: </b>'', '', ''), (''Condition'', ''<b>Condition: </b>'', '', ''),
      (''Actual'', ''<b>Actual: </b>'', '', ''), (''Limit'', ''<b>Limit: </b>'', '', ''),
      (''File'', ''<b>File: </b>'', '', ''), (''Line'', ''<b>Line: </b>'', '''')]"

definition failure_cell :: "xml \<Rightarrow> string pyres" where
  "failure_cell details =
     rbind (rmap (\<lambda>(tag, label, sep). rbind (child_text tag details) (\<lambda>t. Inr (label @ py_text t @ sep))) html_fields)
       (\<lambda>ls. Inr (''<td>'' @ concat ls @ ln ''</td>''))"

fun html_failures :: "string option \<Rightarrow> string option \<Rightarrow> string option \<Rightarrow> bool \<Rightarrow> xml list \<Rightarrow> string pyres" where
  "html_failures result name time first_row [] = Inr []"
| "html_failures result name time first_row (details # ds) =
     rbind (failure_cell details) (\<lambda>cell.
     rbind (html_failures result name time False ds) (\<lambda>rest.
     Inr (ln ''<tr>'' @
          (if first_row then
             ln (''<td style=\"color:red\">'' @ py_text result @ ''</td>'') @
             ln (''<td>'' @ py_text name @ ''</td>'') @ ln (''<td>'' @ py_text time @ ''</td>'')
           else ln ''<td></td>'' @ ln ''<td></td>'' @ ln ''<td></td>'') @
          cell @ ln ''</td>'' @ rest)))"

definition pass_row :: "string option \<Rightarrow> string option \<Rightarrow> string option \<Rightarrow> string option \<Rightarrow> string" where
  "pass_row result name reason time =
     ln ''<tr>'' @ ln (''<td style=\"color:green\">'' @ py_text result @ ''</td>'') @
     ln (''<td>'' @ py_text name @ ''</td>'') @ ln (''<td>'' @ py_text time @ ''</td>'') @
     ln (''<td>'' @ py_text reason @ ''</td>'') @ ln ''</tr>''"

definition html_case :: "xml \<Rightarrow> string pyres" where
  "html_case test_case =
     rbind (read_test test_case) (\<lambda>(result, name, reason, time).
     if result = Some ''FAIL'' then html_failures result name time True (findall ''FailureDetails'' test_case)
     else Inr (pass_row result name reason time))"

definition html_suite :: "xml \<Rightarrow> string pyres" where
  "html_suite suite =
     rbind (read_test suite) (\<lambda>(result, name, reason, time).
     let head = suite_heading result name reason time @ ln ''<table border=\"1\">'' @ ln ''<th> Result </th>''
     in if result \<in> set [Some ''CRASH'', Some ''SKIP'', Some ''VALGR''] then
          Inr (head @ no_detail_row result @ ln ''</table>'')
        else rbind (rmap html_case (findall ''Test'' suite)) (\<lambda>rows.
          Inr (head @ ln ''<th>Test Case Name</th>'' @ ln ''<th> Time </th>'' @
               (if result = Some ''FAIL'' then ln ''<th>Failure Details</th>'' else '''') @
               concat rows @ ln ''</table>'')))"

definition html_example :: "xml \<Rightarrow> string pyres" where
  "html_example example =
     rbind (read_test example) (\<lambda>(result, name, reason, time).
     Inr (ln ''<tr>'' @
          (if result = Some ''PASS'' then ln (''<td style=\"color:green\">'' @ py_text result @ ''</td>'')
           else if result = Some ''SKIP'' then ln (''<td style=\"color:#ff6600\">'' @ py_text result @ ''</fd>'')
           else ln (''<td style=\"color:red\">'' @ py_text result @ ''</td>'')) @
          ln (''<td>'' @ py_text name @ ''</td>'') @ ln (''<td>'' @ py_text time @ ''</td>'') @
          ln (''<td>'' @ py_text reason @ ''</td>'') @ ln ''</tr>''))"

definition translate_to_html :: "xml \<Rightarrow> string \<Rightarrow> (string \<times> string) pyres" where
  "translate_to_html results html_file =
     rbind (rmap html_suite (findall ''Test'' results)) (\<lambda>suites.
     rbind (rmap html_example (findall ''Example'' results)) (\<lambda>examples.
     Inr (html_file @ ''.html'',
          ln ''<html>'' @ ln ''<body>'' @ ln ''<center><h1>ns-3 Test Results</h1></center>'' @
          ln ''<h2>Test Suites</h2>'' @ concat suites @
          ln ''<h2>Examples</h2>'' @ ln ''<table border=\"1\">'' @ ln ''<th> Result </th>'' @
          ln ''<th>Example Name</th>'' @ ln ''<th>Elapsed Time</th>'' @ ln ''<th>Details</th>'' @
          concat examples @ ln ''</table>'' @ ln ''</body>'' @ ln ''</html>'')))"

section \<open>The text report, flattened\<close>

function preorder :: "xml \<Rightarrow> xml list" where
  "preorder test = test # concat (map preorder (findall ''Test'' test))"
  by pat_completeness auto
termination by (relation "measure size") (auto intro: findall_size)

declare preorder.simps [simp del]

definition complete :: "xml \<Rightarrow> bool" where
  \<comment> \<open>every child that the writer reads is there\<close>
  "complete test \<longleftrightarrow> xml_find ''Result'' test \<noteq> None \<and> xml_find ''Name'' test \<noteq> None \<and>
     list_all (\<lambda>d. list_all (\<lambda>tag. xml_find tag d \<noteq> None) (map fst detail_fields)) (findall ''FailureDetails'' test)"

lemma child_text_cases:
  "child_text tag e = (if xml_find tag e = None then Inl AttributeError else Inr (xtext (the (xml_find tag e))))"
  by (auto simp: child_text_def split: option.split)

lemma read_test_cases:
  "read_test t = (if xml_find ''Result'' t \<noteq> None \<and> xml_find ''Name'' t \<noteq> None
     then Inr (xtext (the (xml_find ''Result'' t)), xtext (the (xml_find ''Name'' t)),
       (case xml_find ''Reason'' t of None \<Rightarrow> Some '''' | Some r \<Rightarrow> xtext r), read_time t)
     else Inl AttributeError)"
  by (simp add: read_test_def child_text_cases Let_def)

lemma details_text_ok:
  "(\<exists>s. details_text d = Inr s) \<longleftrightarrow> list_all (\<lambda>tag. xml_find tag d \<noteq> None) (map fst detail_fields)"
  by (simp add: details_text_def rbind_Inr_iff detail_fields_def child_text_cases)

lemma details_text_error: "details_text d = Inl e \<Longrightarrow> e = AttributeError"
  by (auto simp: details_text_def rbind_Inl_iff detail_fields_def child_text_cases split: if_splits)

lemma own_text_ok: "(\<exists>s. own_text t = Inr s) \<longleftrightarrow> complete t"
  unfolding own_text_def complete_def list_all_iff [of _ "findall ''FailureDetails'' t"]
  by (simp add: rbind_Inr_iff read_test_cases Let_def rmap_ok_iff details_text_ok)

lemma own_text_error: "own_text t = Inl e \<Longrightarrow> e = AttributeError"
  by (auto simp: own_text_def rbind_Inl_iff read_test_cases Let_def
      dest!: rmap_Inl details_text_error split: if_splits)

lemma rmap_rbind:
  "rmap (\<lambda>x. rbind (g x) (\<lambda>y. Inr (h y))) xs = rbind (rmap g xs) (\<lambda>ys. Inr (map h ys))"
  by (induction xs) (auto simp: rbind_def split: sum.split)

lemma rmap_map: "rmap f (map g xs) = rmap (\<lambda>x. f (g x)) xs"
  by (induction xs) simp_all

lemma concat_concat_map: "concat (map concat xsss) = concat (concat xsss)"
  by (induction xsss) simp_all

lemma node_to_text_flat:
  "node_to_text t = rbind (rmap own_text (preorder t)) (\<lambda>ss. Inr (concat ss))"
proof (induction t rule: node_to_text.induct)
  case (1 t)
  show ?case
  proof (cases "own_text t")
    case (Inl e)
    then show ?thesis by (subst node_to_text.simps, subst preorder.simps) simp
  next
    case (Inr s)
    with "1.IH" have "rmap node_to_text (findall ''Test'' t) =
      rmap (\<lambda>k. rbind (rmap own_text (preorder k)) (\<lambda>ss. Inr (concat ss))) (findall ''Test'' t)"
      by (intro rmap_cong) auto
    then have "rmap node_to_text (findall ''Test'' t) =
      rbind (rmap (rmap own_text) (map preorder (findall ''Test'' t))) (\<lambda>ys. Inr (map concat ys))"
      by (simp add: rmap_rbind rmap_map)
    then show ?thesis
      by (subst node_to_text.simps, subst preorder.simps)
         (auto simp: Inr rmap_concat rbind_def concat_concat_map split: sum.split)
  qed
qed

lemma example_text_error: "example_text x = Inl e \<Longrightarrow> e = AttributeError"
  by (auto simp: example_text_def rbind_Inl_iff child_text_cases split: if_splits)

section \<open>Nesting of tags\<close>

function tags :: "string \<Rightarrow> string list" where
  "tags [] = []"
| "tags (c # cs) =
     (if c = CHR ''<'' then takeWhile (\<lambda>c. c \<noteq> CHR ''>'') cs # tags (dropWhile (\<lambda>c. c \<noteq> CHR ''>'') cs)
      else tags cs)"
  by pat_completeness auto
termination by (relation "measure length") (auto simp: le_imp_less_Suc length_dropWhile_le)

fun nest :: "string list \<Rightarrow> string list \<Rightarrow> string list option" where
  \<comment> \<open>the open elements after the tags\<close>
  "nest opened [] = Some opened"
| "nest opened (t # ts) =
     (if take 1 t = ''/'' then
        (case opened of [] \<Rightarrow> None | e # es \<Rightarrow> if e = drop 1 t then nest es ts else None)
      else nest (takeWhile (\<lambda>c. c \<noteq> CHR '' '') t # opened) ts)"

definition well_nested :: "string \<Rightarrow> bool" where
  "well_nested html \<longleftrightarrow> nest [] (tags html) = Some []"

definition clean :: "string option \<Rightarrow> bool" where
  "clean t \<longleftrightarrow> CHR ''<'' \<notin> set (py_text t)"

fun markup_free :: "xml \<Rightarrow> bool" where
  \<comment> \<open>no text and no attribute holds an angle bracket\<close>
  "markup_free (Elem tag attrs text kids) \<longleftrightarrow>
     clean text \<and> list_all (\<lambda>(k, v). CHR ''<'' \<notin> set v) attrs \<and> list_all markup_free kids"

lemma py_text_Some [simp]: "py_text (Some s) = s"
  by (simp add: py_text_def)

lemma tags_text: "CHR ''<'' \<notin> set s \<Longrightarrow> tags (s @ t) = tags t"
  by (induction s) auto

lemma tags_py_text: "clean r \<Longrightarrow> tags (py_text r @ t) = tags t"
  by (simp add: clean_def tags_text)

lemma nest_pass_row:
  assumes "clean result" "clean name" "clean reason" "clean time"
  shows "nest st (tags (pass_row result name reason time @ rest)) = nest st (tags rest)"
  using assms by (simp add: pass_row_def ln_def tags_py_text)

lemma nest_heading:
  assumes "clean result" "clean name" "clean reason" "clean time"
  shows "nest st (tags (suite_heading result name reason time @ rest)) = nest st (tags rest)"
  using assms by (simp add: suite_heading_def ln_def tags_py_text)

lemma nest_no_detail_row:
  assumes "clean result"
  shows "nest st (tags (no_detail_row result @ rest)) = nest st (tags rest)"
  using assms by (simp add: no_detail_row_def ln_def tags_py_text)

section \<open>Which pieces of the report are nested\<close>

text \<open>
  The interface of a writer of report pieces: the text of an item that is not \<open>bad\<close> leaves the
  open elements as they were, the text of a \<open>bad\<close> one closes an element that is not open, and
  the rest of the report cannot repair that.
\<close>

locale markup_writer =
  fixes piece :: "'a \<Rightarrow> string pyres" and bad :: "'a \<Rightarrow> bool" and good_input :: "'a \<Rightarrow> bool"
  assumes piece_one: "good_input x \<Longrightarrow> piece x = Inr p \<Longrightarrow>
    nest st (tags (p @ rest)) = (if bad x then None else nest st (tags rest))"
begin

lemma piece_all:
  "list_all good_input xs \<Longrightarrow> rmap piece xs = Inr ps \<Longrightarrow>
    nest st (tags (concat ps @ rest)) = (if list_ex bad xs then None else nest st (tags rest))"
  by (induction xs arbitrary: ps) (auto simp: rbind_Inr_iff piece_one)

end

lemma markup_free_find: "markup_free e \<Longrightarrow> xml_find tag e = Some c \<Longrightarrow> markup_free c"
  by (cases e) (auto simp: xml_find_def find_Some_iff list_all_iff)

lemma markup_free_all: "markup_free e \<Longrightarrow> list_all markup_free (findall tag e)"
  by (cases e) (auto simp: findall_def list_all_iff)

lemma clean_xtext: "markup_free e \<Longrightarrow> clean (xtext e)"
  by (cases e) simp

lemma clean_child: "markup_free e \<Longrightarrow> child_text tag e = Inr t \<Longrightarrow> clean t"
  by (auto simp: child_text_def clean_xtext dest: markup_free_find split: option.splits)

lemma clean_Some: "clean (Some s) \<longleftrightarrow> CHR ''<'' \<notin> set s"
  by (simp add: clean_def)

lemma clean_None: "clean None"
  by (simp add: clean_def py_text_def)

lemma clean_time:
  assumes "markup_free e"
  shows "clean (read_time e)"
proof (cases "xml_find ''Time'' e")
  case None
  then show ?thesis by (simp add: read_time_def clean_Some)
next
  case (Some t)
  then have "markup_free t" using assms by (rule markup_free_find [rotated])
  then show ?thesis
    by (cases t; cases "map_of (xattrs t) ''real''")
       (auto simp: read_time_def Some clean_None clean_Some list_all_iff dest!: map_of_SomeD)
qed

lemma clean_read_test:
  assumes "markup_free e" and "read_test e = Inr (result, name, reason, time)"
  shows "clean result" "clean name" "clean reason" "clean time"
proof -
  have r: "child_text ''Result'' e = Inr result" "child_text ''Name'' e = Inr name" "time = read_time e"
    "reason = (case xml_find ''Reason'' e of None \<Rightarrow> Some '''' | Some r \<Rightarrow> xtext r)"
    using assms(2) by (auto simp: read_test_def rbind_Inr_iff Let_def)
  then show "clean result" "clean name" "clean time"
    using assms(1) clean_child clean_time by blast+
  show "clean reason"
    using assms(1) by (auto simp: r(4) clean_Some clean_xtext dest: markup_free_find split: option.split)
qed

lemma nest_failure_cell:
  assumes "markup_free d" and "failure_cell d = Inr p"
  shows "nest st (tags (p @ rest)) = nest st (tags rest)"
proof -
  obtain a b c l f n where
    t: "child_text ''Message'' d = Inr a" "child_text ''Condition'' d = Inr b" "child_text ''Actual'' d = Inr c"
      "child_text ''Limit'' d = Inr l" "child_text ''File'' d = Inr f" "child_text ''Line'' d = Inr n"
    using assms(2) by (auto simp: failure_cell_def html_fields_def rbind_Inr_iff)
  then have "clean a" "clean b" "clean c" "clean l" "clean f" "clean n"
    using clean_child [OF assms(1)] by auto
  with t assms(2) show ?thesis
    by (auto simp: failure_cell_def html_fields_def ln_def tags_py_text)
qed

lemma nest_failures:
  assumes "html_failures result name time first ds = Inr p" and "list_all markup_free ds" and "ds \<noteq> []"
    and "clean result" "clean name" "clean time"
  shows "nest st (tags (p @ rest)) = None"
proof -
  obtain d ds' cell more where
    p: "ds = d # ds'" "failure_cell d = Inr cell"
      "p = ln ''<tr>'' @ (if first then ln (''<td style=\"color:red\">'' @ py_text result @ ''</td>'') @
             ln (''<td>'' @ py_text name @ ''</td>'') @ ln (''<td>'' @ py_text time @ ''</td>'')
           else ln ''<td></td>'' @ ln ''<td></td>'' @ ln ''<td></td>'') @ cell @ ln ''</td>'' @ more"
    using assms(1,3) by (cases ds) (auto simp: rbind_Inr_iff)
  have "nest (''tr'' # st) (tags (cell @ u)) = nest (''tr'' # st) (tags u)" for u
    using assms(2) p(1,2) by (intro nest_failure_cell) auto
  then show ?thesis using assms(4-6) by (simp add: p(3) ln_def tags_py_text)
qed

definition result_is :: "string \<Rightarrow> xml \<Rightarrow> bool" where
  "result_is r e \<longleftrightarrow> (case xml_find ''Result'' e of None \<Rightarrow> False | Some x \<Rightarrow> xtext x = Some r)"

definition failing_case :: "xml \<Rightarrow> bool" where
  "failing_case c \<longleftrightarrow> result_is ''FAIL'' c \<and> findall ''FailureDetails'' c \<noteq> []"

definition failing_suite :: "xml \<Rightarrow> bool" where
  \<comment> \<open>a suite that ran to its end and has a failing case with details\<close>
  "failing_suite s \<longleftrightarrow> \<not> result_is ''CRASH'' s \<and> \<not> result_is ''SKIP'' s \<and> \<not> result_is ''VALGR'' s \<and>
     list_ex failing_case (findall ''Test'' s)"

lemma read_test_result:
  "read_test e = Inr (result, rest) \<Longrightarrow> result_is r e \<longleftrightarrow> result = Some r"
  by (auto simp: result_is_def read_test_cases split: if_splits option.splits)

interpretation case_writer: markup_writer html_case failing_case markup_free
proof
  fix c p st rest
  assume c: "markup_free c" "html_case c = Inr p"
  obtain result name reason time where r: "read_test c = Inr (result, name, reason, time)"
    using c(2) by (auto simp: html_case_def rbind_Inr_iff)
  note cl = clean_read_test [OF c(1) r]
  show "nest st (tags (p @ rest)) = (if failing_case c then None else nest st (tags rest))"
  proof (cases "result = Some ''FAIL''")
    case True
    then have p: "html_failures result name time True (findall ''FailureDetails'' c) = Inr p"
      using c(2) by (simp add: html_case_def r)
    have f: "failing_case c \<longleftrightarrow> findall ''FailureDetails'' c \<noteq> []"
      using True read_test_result [OF r] by (simp add: failing_case_def)
    show ?thesis
    proof (cases "findall ''FailureDetails'' c = []")
      case True
      with p f show ?thesis by simp
    next
      case False
      from nest_failures [OF p markup_free_all [OF c(1)] False cl(1,2,4)] f False show ?thesis by simp
    qed
  next
    case False
    then have p: "p = pass_row result name reason time" and f: "\<not> failing_case c"
      using c(2) read_test_result [OF r] by (simp_all add: html_case_def r failing_case_def)
    then show ?thesis by (simp add: nest_pass_row cl)
  qed
qed

interpretation suite_writer: markup_writer html_suite failing_suite markup_free
proof
  fix s p st rest
  assume s: "markup_free s" "html_suite s = Inr p"
  obtain result name reason time where r: "read_test s = Inr (result, name, reason, time)"
    using s(2) by (auto simp: html_suite_def rbind_Inr_iff)
  note cl = clean_read_test [OF s(1) r] and res = read_test_result [OF r]
  show "nest st (tags (p @ rest)) = (if failing_suite s then None else nest st (tags rest))"
  proof (cases "result \<in> set [Some ''CRASH'', Some ''SKIP'', Some ''VALGR'']")
    case True
    then have "\<not> failing_suite s" by (auto simp: failing_suite_def res)
    moreover have "p = suite_heading result name reason time @ ln ''<table border=\"1\">'' @ ln ''<th> Result </th>'' @
        no_detail_row result @ ln ''</table>''"
      using True s(2) by (simp add: html_suite_def r del: list.set)
    ultimately show ?thesis by (simp add: nest_heading nest_no_detail_row cl ln_def)
  next
    case False
    then obtain rows where rows: "rmap html_case (findall ''Test'' s) = Inr rows"
      "p = suite_heading result name reason time @ ln ''<table border=\"1\">'' @ ln ''<th> Result </th>'' @
         ln ''<th>Test Case Name</th>'' @ ln ''<th> Time </th>'' @
         (if result = Some ''FAIL'' then ln ''<th>Failure Details</th>'' else '''') @ concat rows @ ln ''</table>''"
      using s(2) by (auto simp: html_suite_def r rbind_Inr_iff simp del: list.set)
    have f: "failing_suite s \<longleftrightarrow> list_ex failing_case (findall ''Test'' s)"
      using False by (simp add: failing_suite_def res)
    show ?thesis
      by (simp add: rows(2) nest_heading cl ln_def case_writer.piece_all [OF markup_free_all [OF s(1)] rows(1)] f)
  qed
qed

interpretation example_writer: markup_writer html_example "result_is ''SKIP''" markup_free
proof
  fix e p st rest
  assume e: "markup_free e" "html_example e = Inr p"
  obtain result name reason time where r: "read_test e = Inr (result, name, reason, time)"
    using e(2) by (auto simp: html_example_def rbind_Inr_iff)
  note cl = clean_read_test [OF e(1) r]
  from e(2) have "p = ln ''<tr>'' @
      (if result = Some ''PASS'' then ln (''<td style=\"color:green\">'' @ py_text result @ ''</td>'')
       else if result = Some ''SKIP'' then ln (''<td style=\"color:#ff6600\">'' @ py_text result @ ''</fd>'')
       else ln (''<td style=\"color:red\">'' @ py_text result @ ''</td>'')) @
      ln (''<td>'' @ py_text name @ ''</td>'') @ ln (''<td>'' @ py_text time @ ''</td>'') @
      ln (''<td>'' @ py_text reason @ ''</td>'') @ ln ''</tr>''"
    by (simp add: html_example_def r)
  then show "nest st (tags (p @ rest)) = (if result_is ''SKIP'' e then None else nest st (tags rest))"
    by (simp add: read_test_result [OF r] cl ln_def tags_py_text)
qed

section \<open>Properties\<close>

text \<open>C11: when no text and no attribute of the results holds an opening angle bracket, the HTML report
  closes its elements in the right order exactly when no suite that ran to its end has a failing case
  with details (the row is closed with a second \<open>/td\<close>) and no example was skipped (its cell is closed
  with \<open>/fd\<close>). Names are not escaped: the witness also has a report of a single test that passed, with
  a name of the tree, \<open>CreateObject<Type>\<close>, whose elements are not closed.\<close>

theorem html_well_nested:
  assumes "translate_to_html results html_file = Inr (path, html)" and "markup_free results"
  shows "well_nested html \<longleftrightarrow>
    \<not> list_ex failing_suite (findall ''Test'' results) \<and> \<not> list_ex (result_is ''SKIP'') (findall ''Example'' results)"
proof -
  obtain suites examples where
    s: "rmap html_suite (findall ''Test'' results) = Inr suites"
    and e: "rmap html_example (findall ''Example'' results) = Inr examples"
    and html: "html = ln ''<html>'' @ ln ''<body>'' @ ln ''<center><h1>ns-3 Test Results</h1></center>'' @
          ln ''<h2>Test Suites</h2>'' @ concat suites @
          ln ''<h2>Examples</h2>'' @ ln ''<table border=\"1\">'' @ ln ''<th> Result </th>'' @
          ln ''<th>Example Name</th>'' @ ln ''<th>Elapsed Time</th>'' @ ln ''<th>Details</th>'' @
          concat examples @ ln ''</table>'' @ ln ''</body>'' @ ln ''</html>''"
    using assms(1) by (auto simp: translate_to_html_def rbind_Inr_iff)
  note free = markup_free_all [OF assms(2)]
  show ?thesis
    by (simp add: well_nested_def html ln_def suite_writer.piece_all [OF free s]
        example_writer.piece_all [OF free e])
qed

definition leaf :: "string \<Rightarrow> string \<Rightarrow> xml" where
  "leaf tag s = Elem tag [] (Some s) []"

definition sample_results :: xml where
  "sample_results = Elem ''Results'' [] None
     [Elem ''Test'' [] None [leaf ''Name'' ''a'', leaf ''Result'' ''PASS'', Elem ''Time'' [(''real'', ''0.1'')] None [],
        Elem ''Test'' [] None [leaf ''Name'' ''a1'', leaf ''Result'' ''PASS'']],
      Elem ''Example'' [] None [leaf ''Name'' ''b'', leaf ''Result'' ''SKIP'']]"

definition angle_results :: xml where
  "angle_results = Elem ''Results'' [] None [Elem ''Test'' [] None [leaf ''Name'' ''CreateObject<Type>'', leaf ''Result'' ''PASS'']]"

theorem html_well_nested_witness:
  "(\<exists>path html. translate_to_html sample_results ''r'' = Inr (path, html) \<and> \<not> well_nested html) \<and>
   (case translate_to_html angle_results ''r'' of Inl _ \<Rightarrow> False | Inr (path, html) \<Rightarrow> \<not> well_nested html)"
proof -
  have angle: "case translate_to_html angle_results ''r'' of Inl _ \<Rightarrow> False | Inr (path, html) \<Rightarrow> \<not> well_nested html"
    by code_simp
  have "case translate_to_html sample_results ''r'' of Inl _ \<Rightarrow> False | Inr _ \<Rightarrow> True" by code_simp
  then obtain path html where t: "translate_to_html sample_results ''r'' = Inr (path, html)"
    by (auto split: sum.splits)
  have "markup_free sample_results" by code_simp
  from html_well_nested [OF t this] have "\<not> well_nested html"
    by (simp add: sample_results_def leaf_def findall_def result_is_def xml_find_def)
  with t angle show ?thesis by blast
qed

text \<open>C12: the text report lists the suites with all tests below them in preorder and then the
  examples, each with its own failure details; it cannot be written (\<open>AttributeError\<close>) exactly
  when one of them lacks a child that the writer reads.\<close>

theorem text_report_preorder:
  "translate_to_text results text_file =
     rbind (rmap own_text (concat (map preorder (findall ''Test'' results)))) (\<lambda>ts.
     rbind (rmap example_text (findall ''Example'' results)) (\<lambda>es.
     Inr (text_file @ ''.txt'', concat ts @ concat es))) \<and>
   ((\<exists>r. translate_to_text results text_file = Inr r) \<longleftrightarrow> translate_to_text results text_file \<noteq> Inl AttributeError) \<and>
   ((\<exists>r. translate_to_text results text_file = Inr r) \<longleftrightarrow>
     list_all complete (concat (map preorder (findall ''Test'' results))) \<and>
     list_all (\<lambda>x. xml_find ''Result'' x \<noteq> None \<and> xml_find ''Name'' x \<noteq> None) (findall ''Example'' results))"
proof -
  have "rmap node_to_text (findall ''Test'' results) =
    rbind (rmap (rmap own_text) (map preorder (findall ''Test'' results))) (\<lambda>ys. Inr (map concat ys))"
    unfolding rmap_rbind [symmetric] rmap_map by (intro rmap_cong refl node_to_text_flat)
  then have flat: "translate_to_text results text_file =
     rbind (rmap own_text (concat (map preorder (findall ''Test'' results)))) (\<lambda>ts.
     rbind (rmap example_text (findall ''Example'' results)) (\<lambda>es.
     Inr (text_file @ ''.txt'', concat ts @ concat es)))"
    by (auto simp: translate_to_text_def rmap_concat rbind_def concat_concat_map split: sum.split)
  have ex: "(\<exists>s. example_text x = Inr s) \<longleftrightarrow> xml_find ''Result'' x \<noteq> None \<and> xml_find ''Name'' x \<noteq> None" for x
    by (simp add: example_text_def rbind_Inr_iff child_text_cases)
  have err: "e = AttributeError" if "translate_to_text results text_file = Inl e" for e
    using that by (auto simp: flat rbind_Inl_iff dest!: rmap_Inl own_text_error example_text_error)
  have "(\<exists>r. translate_to_text results text_file = Inr r) \<longleftrightarrow>
    (\<exists>ts. rmap own_text (concat (map preorder (findall ''Test'' results))) = Inr ts) \<and>
    (\<exists>es. rmap example_text (findall ''Example'' results) = Inr es)"
    by (auto simp: flat rbind_Inr_iff)
  then have "(\<exists>r. translate_to_text results text_file = Inr r) \<longleftrightarrow>
     list_all complete (concat (map preorder (findall ''Test'' results))) \<and>
     list_all (\<lambda>x. xml_find ''Result'' x \<noteq> None \<and> xml_find ''Name'' x \<noteq> None) (findall ''Example'' results)"
    unfolding rmap_ok_iff own_text_ok ex list_all_iff .
  moreover have "(\<exists>r. translate_to_text results text_file = Inr r) \<longleftrightarrow> translate_to_text results text_file \<noteq> Inl AttributeError"
    using err by (cases "translate_to_text results text_file") auto
  ultimately show ?thesis using flat by blast
qed

end
