(* ===== verification/Test_Pool.thy ===== *)
theory Test_Pool
  imports Test_Jobs Test_Report
begin

text \<open>
  The worker threads of \<open>src/test.py\<close> and the two queues that join them to the main thread. A
  state of the pool holds what the main thread still has to put, the queues, what each thread is
  doing, how many results the main thread waits for, the results it has, and the flag that the
  interrupt handler sets. The threads interleave in any way, one queue operation, test of the flag
  or run of a job at a time.
\<close>

section \<open>The worker\<close>

definition execute_job :: "os_env \<Rightarrow> config \<Rightarrow> options \<Rightarrow> job \<Rightarrow> job pyres" where
  "execute_job env cfg opts job =
     rbind (if is_example job \<or> is_pyexample job then
              run_job_synchronously env cfg (shell_command job) (cwd job) (valgrind opts) (is_pyexample job) (build_path job)
            else
              let update_data = (if update_data opts then ''--update-data'' else '''')
              in run_job_synchronously env cfg
                   (shell_command job @ '' --xml --tempdir='' @ tempdir job @ '' --out='' @ tmp_file_name job @ '' '' @ update_data)
                   (cwd job) (valgrind opts) False '''')
       (\<lambda>(code, out, et). Inr (job\<lparr>returncode := code, elapsed_time := et\<rparr>))"

datatype thread =
    Waiting       \<comment> \<open>in \<open>input_queue.get()\<close>\<close>
  | Got job
  | Running job
  | Exited
  | Died job      \<comment> \<open>an exception ended the thread\<close>

record pool =
  todo :: "job list"
  inq :: "job list"
  outq :: "job list"
  threads :: "thread list"
  left :: nat
  got :: "job list"
  thread_exit :: bool

definition break_job :: job where
  "break_job = new_job\<lparr>is_break := True\<rparr>"

definition start_pool :: "job list \<Rightarrow> nat \<Rightarrow> pool" where
  "start_pool jobs n = \<lparr>todo = jobs @ replicate n break_job, inq = [], outq = [], threads = replicate n Waiting,
     left = length jobs, got = [], thread_exit = False\<rparr>"

definition set_thread :: "nat \<Rightarrow> thread \<Rightarrow> pool \<Rightarrow> pool" where
  "set_thread i t p = p\<lparr>threads := (threads p)[i := t]\<rparr>"

definition at_work :: "pool \<Rightarrow> nat \<Rightarrow> thread \<Rightarrow> bool" where
  "at_work p i t \<longleftrightarrow> i < length (threads p) \<and> threads p ! i = t"

inductive pool_step :: "(job \<Rightarrow> job pyres) \<Rightarrow> pool \<Rightarrow> pool \<Rightarrow> bool" for run where
  put: "todo p = j # js \<Longrightarrow> pool_step run p (p\<lparr>todo := js, inq := inq p @ [j]\<rparr>)"
| get: "at_work p i Waiting \<Longrightarrow> inq p = j # q \<Longrightarrow> pool_step run p (set_thread i (Got j) (p\<lparr>inq := q\<rparr>))"
| quit: "at_work p i (Got j) \<Longrightarrow> is_break j \<Longrightarrow> pool_step run p (set_thread i Exited p)"
| abandon: "at_work p i (Got j) \<Longrightarrow> \<not> is_break j \<Longrightarrow> thread_exit p \<Longrightarrow>
    pool_step run p (set_thread i Waiting (p\<lparr>outq := outq p @ [j\<lparr>is_break := True\<rparr>]\<rparr>))"
| skip: "at_work p i (Got j) \<Longrightarrow> \<not> is_break j \<Longrightarrow> \<not> thread_exit p \<Longrightarrow> is_skip j \<Longrightarrow>
    pool_step run p (set_thread i Waiting (p\<lparr>outq := outq p @ [j]\<rparr>))"
| launch: "at_work p i (Got j) \<Longrightarrow> \<not> is_break j \<Longrightarrow> \<not> thread_exit p \<Longrightarrow> \<not> is_skip j \<Longrightarrow>
    pool_step run p (set_thread i (Running j) p)"
| finish: "at_work p i (Running j) \<Longrightarrow> run j = Inr j' \<Longrightarrow>
    pool_step run p (set_thread i Waiting (p\<lparr>outq := outq p @ [j']\<rparr>))"
| die: "at_work p i (Running j) \<Longrightarrow> run j = Inl e \<Longrightarrow> pool_step run p (set_thread i (Died j) p)"
| collect: "todo p = [] \<Longrightarrow> left p = Suc n \<Longrightarrow> outq p = j # q \<Longrightarrow>
    pool_step run p (p\<lparr>left := n, outq := q, got := got p @ [j]\<rparr>)"
| interrupt: "\<not> thread_exit p \<Longrightarrow> pool_step run p (p\<lparr>thread_exit := True\<rparr>)"

inductive_cases pool_stepE: "pool_step run p q"

abbreviation pool_reach :: "(job \<Rightarrow> job pyres) \<Rightarrow> pool \<Rightarrow> pool \<Rightarrow> bool" where
  "pool_reach run \<equiv> rtranclp (pool_step run)"

definition finished :: "pool \<Rightarrow> bool" where
  \<comment> \<open>the main thread has its results and every thread can be joined\<close>
  "finished p \<longleftrightarrow> todo p = [] \<and> left p = 0 \<and> list_all (\<lambda>t. t = Exited) (threads p)"

section \<open>Collecting the results\<close>

definition format3 :: "rat \<Rightarrow> string" where
  \<comment> \<open>\<open>'%.3f' % q\<close>: rounded to the nearest, a tie to the even digit\<close>
  "format3 q =
     (let m = \<bar>q\<bar> * 1000; f = \<lfloor>m\<rfloor>; r = m - of_int f;
          k = nat (if r > 1/2 \<or> (r = 1/2 \<and> odd f) then f + 1 else f);
          d = to_base 10 (k mod 1000)
      in (if q < 0 then ''-'' else '''') @ to_base 10 (k div 1000) @ ''.'' @ replicate (3 - length d) (CHR ''0'') @ d)"

record tally =
  ta_passed :: nat
  ta_failed :: nat
  ta_crashed :: nat
  ta_valgrind :: nat
  ta_skipped :: nat
  ta_failed_names :: "string list"
  ta_crashed_names :: "string list"
  ta_valgrind_names :: "string list"
  ta_skipped_names :: "string list"
  ta_out :: "string list"
  ta_xml :: string

definition new_tally :: tally where
  "new_tally = \<lparr>ta_passed = 0, ta_failed = 0, ta_crashed = 0, ta_valgrind = 0, ta_skipped = 0,
     ta_failed_names = [], ta_crashed_names = [], ta_valgrind_names = [], ta_skipped_names = [], ta_out = [],
     ta_xml = ln ''<?xml version=\"1.0\"?>'' @ ln ''<Results>''\<rparr>"

definition job_status :: "job \<Rightarrow> string" where
  "job_status job =
     (if is_skip job then ''SKIP'' else if returncode job = 0 then ''PASS'' else if returncode job = 1 then ''FAIL''
      else if returncode job = 2 then ''VALGR'' else ''CRASH'')"

definition count_job :: "job \<Rightarrow> tally \<Rightarrow> tally" where
  "count_job job t =
     (if is_skip job then
        t\<lparr>ta_skipped := ta_skipped t + 1,
          ta_skipped_names := ta_skipped_names t @ [display_name job @ '' ('' @ skip_reason job @ '')'']\<rparr>
      else if returncode job = 0 then t\<lparr>ta_passed := ta_passed t + 1\<rparr>
      else if returncode job = 1 then
        t\<lparr>ta_failed := ta_failed t + 1, ta_failed_names := ta_failed_names t @ [display_name job]\<rparr>
      else if returncode job = 2 then
        t\<lparr>ta_valgrind := ta_valgrind t + 1, ta_valgrind_names := ta_valgrind_names t @ [display_name job]\<rparr>
      else t\<lparr>ta_crashed := ta_crashed t + 1, ta_crashed_names := ta_crashed_names t @ [display_name job]\<rparr>)"

definition status_line :: "options \<Rightarrow> job \<Rightarrow> string" where
  "status_line opts job =
     (let kind = (if is_example job \<or> is_pyexample job then ''Example'' else ''TestSuite'')
      in if duration opts \<or> constrain opts = ''performance'' then
           job_status job @ '' ('' @ format3 (elapsed_time job) @ ''): '' @ kind @ '' '' @ display_name job
         else job_status job @ '': '' @ kind @ '' '' @ display_name job)"

definition example_xml :: "job \<Rightarrow> string" where
  "example_xml job =
     ln ''<Example>'' @ ln (''  <Name>'' @ display_name job @ ''</Name>'') @
     ln (''  <Result>'' @ job_status job @ ''</Result>'') @
     ln (''  <Time real=\"'' @ format3 (elapsed_time job) @ ''\"/>'') @ ln ''</Example>''"

definition suite_xml :: "(string \<Rightarrow> string option) \<Rightarrow> job \<Rightarrow> string pyres" where
  \<comment> \<open>\<open>files\<close> gives the result files that the test suites left\<close>
  "suite_xml files job =
     (if is_skip job then
        Inr (ln ''<Test>'' @ ln (''  <Name>'' @ display_name job @ ''</Name>'') @ ln ''  <Result>SKIP</Result>'' @
             ln (''  <Reason>'' @ skip_reason job @ ''</Reason>'') @ ln ''</Test>'')
      else if returncode job = 0 \<or> returncode job = 1 \<or> returncode job = 2 then
        (case files (tmp_file_name job) of None \<Rightarrow> Inl OSError | Some s \<Rightarrow> Inr s)
      else
        Inr (ln ''<Test>'' @ ln (''  <Name>'' @ display_name job @ ''</Name>'') @
             ln ''  <Result>CRASH</Result>'' @ ln ''</Test>''))"

definition collect_result :: "options \<Rightarrow> (string \<Rightarrow> string option) \<Rightarrow> job \<Rightarrow> tally \<Rightarrow> tally pyres" where
  "collect_result opts files job t =
     (if is_break job then Inr t
      else
        let t = count_job job t; t = t\<lparr>ta_out := ta_out t @ [status_line opts job]\<rparr>
        in rbind (if is_example job \<or> is_pyexample job then Inr (example_xml job) else suite_xml files job) (\<lambda>x.
           Inr (t\<lparr>ta_xml := ta_xml t @ x\<rparr>)))"

definition collect_results :: "options \<Rightarrow> (string \<Rightarrow> string option) \<Rightarrow> job list \<Rightarrow> tally pyres" where
  "collect_results opts files results =
     rbind (rfold (collect_result opts files) results new_tally) (\<lambda>t. Inr (t\<lparr>ta_xml := ta_xml t @ ln ''</Results>''\<rparr>))"

section \<open>The summary\<close>

definition name_list :: "string \<Rightarrow> string list \<Rightarrow> string list" where
  \<comment> \<open>a printed list of names, when there are any\<close>
  "name_list title names = (if names = [] then [] else
     [title @ [newline] @ ''    '' @ py_join (newline # ''    '') (sort names)])"

definition summary :: "tally \<Rightarrow> nat \<Rightarrow> string list" where
  "summary t n_total =
     (let num = (\<lambda>n. str_int (int n))
      in [num (ta_passed t) @ '' of '' @ num n_total @ '' tests passed ('' @ num (ta_passed t) @ '' passed, '' @
          num (ta_skipped t) @ '' skipped, '' @ num (ta_failed t) @ '' failed, '' @ num (ta_crashed t) @ '' crashed, '' @
          num (ta_valgrind t) @ '' valgrind errors)''] @
         name_list ''List of SKIPped tests:'' (ta_skipped_names t) @
         name_list ''List of FAILed tests:'' (ta_failed_names t) @
         name_list ''List of CRASHed tests:'' (ta_crashed_names t) @
         name_list ''List of VALGR failures:'' (ta_valgrind_names t))"

definition final_notes :: "config \<Rightarrow> options \<Rightarrow> string list" where
  "final_notes cfg opts =
     (if \<not> cf_tests cfg \<or> \<not> cf_examples cfg then
        [[]] @
        (if \<not> cf_tests cfg then
           [''***  Note: ns-3 tests are currently disabled. Enable them by adding'',
            ''***  \"--enable-tests\" to ./waf configure or modifying your .ns3rc file.'', []] else []) @
        (if \<not> cf_examples cfg then
           [''***  Note: ns-3 examples are currently disabled. Enable them by adding'',
            ''***  \"--enable-examples\" to ./waf configure or modifying your .ns3rc file.'', []] else [])
      else []) @
     (if valgrind opts \<and> \<not> cf_valgrind_found cfg then
        [[], ''***  Note: you are trying to use valgrind, but valgrind could not be found'',
         ''***  on your machine.  All tests and examples will crash or be skipped.'', []] else [])"

definition exit_code :: "tally \<Rightarrow> nat \<Rightarrow> int" where
  "exit_code t n_total = (if ta_passed t + ta_skipped t = n_total then 0 else 1)"

section \<open>run_tests\<close>

text \<open>What a run leaves: the exit code, the printed lines, the reports that were asked for, and
  whether the output directory is kept.\<close>

record outcome =
  oc_code :: int
  oc_printed :: "string list"
  oc_files :: "(string \<times> string) list"
  oc_retained :: bool

definition write_reports :: "(string \<Rightarrow> xml pyres) \<Rightarrow> options \<Rightarrow> string \<Rightarrow> (string \<times> string) list pyres" where
  \<comment> \<open>\<open>parse\<close> is \<open>ElementTree.parse\<close> on the text of \<open>results.xml\<close>\<close>
  "write_reports parse opts results_xml =
     rbind (if html_opt opts \<noteq> ''''
            then rbind (parse results_xml) (\<lambda>r. rbind (translate_to_html r (html_opt opts)) (\<lambda>f. Inr [f])) else Inr []) (\<lambda>h.
     rbind (if text_opt opts \<noteq> ''''
            then rbind (parse results_xml) (\<lambda>r. rbind (translate_to_text r (text_opt opts)) (\<lambda>f. Inr [f])) else Inr []) (\<lambda>t.
     Inr (h @ t @ (if xml_opt opts \<noteq> '''' then [(xml_opt opts @ ''.xml'', results_xml)] else []))))"

definition report_lines :: "options \<Rightarrow> string list" where
  \<comment> \<open>what the writers print\<close>
  "report_lines opts =
     (if html_opt opts \<noteq> '''' \<or> text_opt opts \<noteq> '''' \<or> xml_opt opts \<noteq> '''' then [[]] else []) @
     (if html_opt opts \<noteq> '''' then [''Writing results to html file '' @ html_opt opts @ ''.html...done.''] else []) @
     (if text_opt opts \<noteq> '''' then [''Writing results to text file \"'' @ text_opt opts @ ''.txt\"...done.''] else []) @
     (if xml_opt opts \<noteq> '''' then [''Writing results to xml file '' @ xml_opt opts @ ''.xml...done.''] else [])"

definition finish_run :: "config \<Rightarrow> options \<Rightarrow> (string \<Rightarrow> string option) \<Rightarrow> (string \<Rightarrow> xml pyres) \<Rightarrow> nat \<Rightarrow>
    job list \<Rightarrow> outcome pyres" where
  "finish_run cfg opts files parse total_tests results =
     rbind (collect_results opts files results) (\<lambda>t.
     rbind (write_reports parse opts (ta_xml t)) (\<lambda>reports.
     Inr \<lparr>oc_code = exit_code t total_tests, oc_printed = ta_out t @ summary t total_tests @ report_lines opts @ final_notes cfg opts,
          oc_files = reports, oc_retained = retain opts\<rparr>))"

inductive run_tests :: "os_env \<Rightarrow> config \<Rightarrow> options \<Rightarrow> string \<Rightarrow> (string \<times> string) list \<Rightarrow> (string \<Rightarrow> string option) \<Rightarrow>
    (string \<Rightarrow> xml pyres) \<Rightarrow> outcome driven \<Rightarrow> bool"
  for env cfg opts date environ files parse where
  stopped: "prepare env cfg opts date environ = Inl s \<Longrightarrow> run_tests env cfg opts date environ files parse (Inl s)"
| ran: "prepare env cfg opts date environ = Inr (cfg', environ', testpy_output_dir, n, jobs) \<Longrightarrow>
    pool_reach (execute_job env cfg' opts) (start_pool jobs (nat n)) p \<Longrightarrow> finished p \<Longrightarrow>
    run_tests env cfg opts date environ files parse
      (lift_py (finish_run cfg' opts files parse (length jobs) (got p)))"

section \<open>What the pool keeps\<close>

fun held :: "thread \<Rightarrow> job multiset" where
  "held Waiting = {#}"
| "held (Got j) = {#j#}"
| "held (Running j) = {#j#}"
| "held Exited = {#}"
| "held (Died j) = {#j#}"

definition result_of :: "(job \<Rightarrow> job pyres) \<Rightarrow> bool \<Rightarrow> job \<Rightarrow> job \<Rightarrow> bool" where
  \<comment> \<open>what a worker may make of a job, when the flag is set or not\<close>
  "result_of run flag j j' \<longleftrightarrow>
     flag \<and> j' = j\<lparr>is_break := True\<rparr> \<or> is_skip j \<and> j' = j \<or> \<not> is_skip j \<and> run j = Inr j'"

definition waiting_jobs :: "pool \<Rightarrow> job multiset" where
  \<comment> \<open>jobs without a result yet, the ones that stop a worker included\<close>
  "waiting_jobs p = mset (todo p) + mset (inq p) + (\<Sum>t \<in># mset (threads p). held t)"

definition pending :: "pool \<Rightarrow> job multiset" where
  "pending p = filter_mset (\<lambda>j. \<not> is_break j) (waiting_jobs p)"

definition accounts :: "(job \<Rightarrow> job pyres) \<Rightarrow> job list \<Rightarrow> pool \<Rightarrow> bool" where
  \<comment> \<open>every job either has exactly one result or is still pending\<close>
  "accounts run jobs p \<longleftrightarrow> (\<exists>ds. (\<forall>(j, j') \<in># ds. result_of run (thread_exit p) j j') \<and>
     image_mset snd ds = mset (got p) + mset (outq p) \<and> mset jobs = image_mset fst ds + pending p)"

lemma at_work_mset:
  assumes "at_work p i t"
  shows "\<exists>M. mset (threads p) = add_mset t M \<and> (\<forall>u. mset ((threads p)[i := u]) = add_mset u M)"
proof -
  have i: "i < length (threads p)" "threads p ! i = t" using assms by (simp_all add: at_work_def)
  then have "mset (threads p) = add_mset t (mset (threads p) - {#t#})" by (auto intro: nth_mem)
  moreover have "mset ((threads p)[i := u]) = add_mset u (mset (threads p) - {#t#})" for u
    using i by (simp add: mset_update)
  ultimately show ?thesis by blast
qed

lemma result_of_mono: "result_of run flag j j' \<Longrightarrow> result_of run True j j'"
  by (auto simp: result_of_def)

lemma accounts_intro:
  assumes "accounts run jobs p" and "thread_exit p = thread_exit q \<or> thread_exit q"
    and "mset (got q) + mset (outq q) = mset (got p) + mset (outq p)" and "pending q = pending p"
  shows "accounts run jobs q"
proof -
  obtain ds where ds: "\<forall>(j, j') \<in># ds. result_of run (thread_exit p) j j'"
    "image_mset snd ds = mset (got p) + mset (outq p)" "mset jobs = image_mset fst ds + pending p"
    using assms(1) by (auto simp: accounts_def)
  have "\<forall>(j, j') \<in># ds. result_of run (thread_exit q) j j'"
    using ds(1) assms(2) by (force dest: result_of_mono)
  with ds assms(3,4) show ?thesis unfolding accounts_def by metis
qed

lemma accounts_result:
  assumes "accounts run jobs p" and "thread_exit q = thread_exit p" and "result_of run (thread_exit p) j j'"
    and "mset (got q) + mset (outq q) = add_mset j' (mset (got p) + mset (outq p))"
    and "pending p = add_mset j (pending q)"
  shows "accounts run jobs q"
proof -
  obtain ds where ds: "\<forall>(j, j') \<in># ds. result_of run (thread_exit p) j j'"
    "image_mset snd ds = mset (got p) + mset (outq p)" "mset jobs = image_mset fst ds + pending p"
    using assms(1) by (auto simp: accounts_def)
  then show ?thesis using assms(2-) unfolding accounts_def
    by (intro exI [of _ "add_mset (j, j') ds"]) auto
qed

lemma pending_fields:
  "todo q = todo p \<Longrightarrow> inq q = inq p \<Longrightarrow> threads q = threads p \<Longrightarrow> pending q = pending p"
  by (simp add: pending_def waiting_jobs_def)

definition busy_ok :: "thread \<Rightarrow> bool" where
  \<comment> \<open>only a job that is neither a break nor to be skipped is run\<close>
  "busy_ok t \<longleftrightarrow> (case t of Running j \<Rightarrow> \<not> is_break j \<and> \<not> is_skip j | Died j \<Rightarrow> \<not> is_break j | _ \<Rightarrow> True)"

lemma busy_ok_simps [simp]:
  "busy_ok Waiting" "busy_ok (Got j)" "busy_ok Exited"
  "busy_ok (Running j) \<longleftrightarrow> \<not> is_break j \<and> \<not> is_skip j" "busy_ok (Died j) \<longleftrightarrow> \<not> is_break j"
  by (simp_all add: busy_ok_def)

lemma at_work_busy: "at_work p i t \<Longrightarrow> list_all busy_ok (threads p) \<Longrightarrow> busy_ok t"
  by (auto simp: at_work_def list_all_length)

lemma accounts_step:
  assumes "pool_step run p q" and "accounts run jobs p" and "list_all busy_ok (threads p)"
  shows "accounts run jobs q"
  using assms(1)
proof cases
  case (put j js)
  then show ?thesis
    by (intro accounts_intro [OF assms(2)]) (simp_all add: pending_def waiting_jobs_def)
next
  case (get i j q')
  obtain M where M: "mset (threads p) = add_mset Waiting M" "\<And>u. mset ((threads p)[i := u]) = add_mset u M"
    using at_work_mset [OF get(2)] by blast
  show ?thesis using get M
    by (intro accounts_intro [OF assms(2)]) (simp_all add: pending_def waiting_jobs_def set_thread_def)
next
  case (quit i j)
  obtain M where M: "mset (threads p) = add_mset (Got j) M" "\<And>u. mset ((threads p)[i := u]) = add_mset u M"
    using at_work_mset [OF quit(2)] by blast
  show ?thesis using quit M
    by (intro accounts_intro [OF assms(2)]) (simp_all add: pending_def waiting_jobs_def set_thread_def)
next
  case (abandon i j)
  obtain M where M: "mset (threads p) = add_mset (Got j) M" "\<And>u. mset ((threads p)[i := u]) = add_mset u M"
    using at_work_mset [OF abandon(2)] by blast
  show ?thesis using abandon M
    by (intro accounts_result [OF assms(2), where j = j and j' = "j\<lparr>is_break := True\<rparr>"])
       (simp_all add: pending_def waiting_jobs_def set_thread_def result_of_def)
next
  case (skip i j)
  obtain M where M: "mset (threads p) = add_mset (Got j) M" "\<And>u. mset ((threads p)[i := u]) = add_mset u M"
    using at_work_mset [OF skip(2)] by blast
  show ?thesis using skip M
    by (intro accounts_result [OF assms(2), where j = j and j' = j])
       (simp_all add: pending_def waiting_jobs_def set_thread_def result_of_def)
next
  case (launch i j)
  obtain M where M: "mset (threads p) = add_mset (Got j) M" "\<And>u. mset ((threads p)[i := u]) = add_mset u M"
    using at_work_mset [OF launch(2)] by blast
  show ?thesis using launch M
    by (intro accounts_intro [OF assms(2)]) (simp_all add: pending_def waiting_jobs_def set_thread_def)
next
  case (finish i j j')
  obtain M where M: "mset (threads p) = add_mset (Running j) M" "\<And>u. mset ((threads p)[i := u]) = add_mset u M"
    using at_work_mset [OF finish(2)] by blast
  have "\<not> is_break j \<and> \<not> is_skip j" using at_work_busy [OF finish(2) assms(3)] by simp
  then show ?thesis using finish M
    by (intro accounts_result [OF assms(2), where j = j and j' = j'])
       (simp_all add: pending_def waiting_jobs_def set_thread_def result_of_def)
next
  case (die i j e)
  obtain M where M: "mset (threads p) = add_mset (Running j) M" "\<And>u. mset ((threads p)[i := u]) = add_mset u M"
    using at_work_mset [OF die(2)] by blast
  show ?thesis using die M
    by (intro accounts_intro [OF assms(2)]) (simp_all add: pending_def waiting_jobs_def set_thread_def)
next
  case (collect n j q')
  then show ?thesis
    by (intro accounts_intro [OF assms(2)]) (simp_all add: pending_def waiting_jobs_def)
next
  case interrupt
  then show ?thesis
    by (intro accounts_intro [OF assms(2)]) (simp_all add: pending_def waiting_jobs_def)
qed

lemma busy_step:
  assumes "pool_step run p q" and "list_all busy_ok (threads p)"
  shows "list_all busy_ok (threads q) \<and> length (threads q) = length (threads p)"
proof -
  have run: "\<not> is_break j" if "at_work p i (Running j)" for i j
    using at_work_busy [OF that assms(2)] by simp
  show ?thesis
    using assms(1) by cases (simp_all add: assms(2) set_thread_def list_all_update run)
qed

definition stopping :: "pool \<Rightarrow> nat" where
  \<comment> \<open>jobs that stop a worker, and workers that have stopped\<close>
  "stopping p = size (filter_mset is_break (waiting_jobs p)) + count (mset (threads p)) Exited"

lemma stopping_step:
  assumes "pool_step run p q" and "list_all busy_ok (threads p)"
  shows "stopping q = stopping p"
proof -
  have nobreak: "\<not> is_break j" if "at_work p i (Running j)" for i j
    using at_work_busy [OF that assms(2)] by simp
  have upd: "stopping (set_thread i u p') = stopping p"
    if aw: "at_work p i t" and th: "threads p' = threads p"
      "size (filter_mset is_break (mset (todo p') + mset (inq p') + held u)) + count {#u#} Exited =
       size (filter_mset is_break (mset (todo p) + mset (inq p) + held t)) + count {#t#} Exited" for i t u p'
  proof -
    obtain M where M: "mset (threads p) = add_mset t M" "\<And>u. mset ((threads p)[i := u]) = add_mset u M"
      using at_work_mset [OF aw] by blast
    from M th show ?thesis
      by (simp add: stopping_def waiting_jobs_def set_thread_def split: if_splits)
  qed
  show ?thesis
    using assms(1)
  proof cases
    case (put j js)
    then show ?thesis by (simp add: stopping_def waiting_jobs_def)
  next
    case (get i j q')
    show ?thesis unfolding get(1) by (rule upd [OF get(2)]) (simp_all add: get(3))
  next
    case (quit i j)
    show ?thesis unfolding quit(1) by (rule upd [OF quit(2)]) (simp_all add: quit(3))
  next
    case (abandon i j)
    show ?thesis unfolding abandon(1) by (rule upd [OF abandon(2)]) (simp_all add: abandon(3))
  next
    case (skip i j)
    show ?thesis unfolding skip(1) by (rule upd [OF skip(2)]) (simp_all add: skip(3))
  next
    case (launch i j)
    show ?thesis unfolding launch(1) by (rule upd [OF launch(2)]) simp_all
  next
    case (finish i j j')
    show ?thesis unfolding finish(1) by (rule upd [OF finish(2)]) (simp_all add: nobreak [OF finish(2)])
  next
    case (die i j e)
    show ?thesis unfolding die(1) by (rule upd [OF die(2)]) simp_all
  qed (simp_all add: stopping_def waiting_jobs_def)
qed

definition stops :: "thread \<Rightarrow> bool" where
  "stops t \<longleftrightarrow> (case t of Exited \<Rightarrow> True | Got j \<Rightarrow> is_break j | _ \<Rightarrow> False)"

lemma stops_simps [simp]:
  "\<not> stops Waiting" "\<not> stops (Running j)" "\<not> stops (Died j)" "stops Exited" "stops (Got j) \<longleftrightarrow> is_break j"
  by (simp_all add: stops_def)

definition in_order :: "pool \<Rightarrow> bool" where
  \<comment> \<open>the jobs that stop a worker come last, and once one is taken only such jobs are left\<close>
  "in_order p \<longleftrightarrow> (\<exists>rs bs. inq p @ todo p = rs @ bs \<and> no_breaks rs \<and> list_all is_break bs \<and>
     (list_ex stops (threads p) \<longrightarrow> rs = []))"

lemma in_order_keep:
  assumes "in_order p" and "inq q @ todo q = inq p @ todo p"
    and "list_ex stops (threads q) \<Longrightarrow> list_ex stops (threads p)"
  shows "in_order q"
  using assms unfolding in_order_def by metis

lemma in_order_get:
  assumes "in_order p" and "inq p = j # q" and "at_work p i Waiting"
  shows "in_order (set_thread i (Got j) (p\<lparr>inq := q\<rparr>))"
proof -
  obtain rs bs where o: "inq p @ todo p = rs @ bs" "no_breaks rs" "list_all is_break bs"
      "list_ex stops (threads p) \<longrightarrow> rs = []"
    using assms(1) by (auto simp: in_order_def)
  show ?thesis
  proof (cases rs)
    case Nil
    then obtain bs' where "bs = j # bs'" "q @ todo p = bs'" using o(1) assms(2) by auto
    then show ?thesis using o(3) unfolding in_order_def
      by (intro exI [of _ "[]"] exI [of _ bs']) (simp add: set_thread_def no_breaks_def)
  next
    case (Cons r rs')
    then have j: "r = j" "q @ todo p = rs' @ bs" using o(1) assms(2) by auto
    have "\<not> is_break j" using o(2) Cons j by (simp add: no_breaks_def)
    then have "\<not> list_ex stops ((threads p)[i := Got j])"
      using o(4) Cons by (auto dest!: list_ex_update)
    then show ?thesis using o(2,3) Cons j unfolding in_order_def
      by (intro exI [of _ rs'] exI [of _ bs]) (simp add: set_thread_def no_breaks_def)
  qed
qed

lemma in_order_step:
  assumes "pool_step run p q" and "in_order p"
  shows "in_order q"
proof -
  have got: "list_ex stops (threads p)" if "at_work p i (Got j)" "is_break j" for i j
  proof -
    have "Got j \<in> set (threads p)" using that(1) by (metis at_work_def nth_mem)
    with that(2) show ?thesis by (force simp: list_ex_iff)
  qed
  show ?thesis
    using assms(1)
  proof cases
    case (get i j q')
    then show ?thesis using in_order_get [OF assms(2)] by simp
  next
    case (quit i j)
    then show ?thesis using got by (intro in_order_keep [OF assms(2)]) (auto simp: set_thread_def)
  qed (auto intro!: in_order_keep [OF assms(2)] simp: set_thread_def dest!: list_ex_update)
qed

definition pool_inv :: "(job \<Rightarrow> job pyres) \<Rightarrow> job list \<Rightarrow> nat \<Rightarrow> pool \<Rightarrow> bool" where
  "pool_inv run jobs n p \<longleftrightarrow> accounts run jobs p \<and> list_all busy_ok (threads p) \<and> length (threads p) = n \<and>
     stopping p = n \<and> in_order p \<and> left p + length (got p) = length jobs"

lemma pool_inv_step: "pool_step run p q \<Longrightarrow> pool_inv run jobs n p \<Longrightarrow> pool_inv run jobs n q"
proof -
  assume step: "pool_step run p q" and inv: "pool_inv run jobs n p"
  have "left q + length (got q) = left p + length (got p)"
    using step by cases (simp_all add: set_thread_def)
  with inv show "pool_inv run jobs n q"
    using accounts_step [OF step] busy_step [OF step] stopping_step [OF step] in_order_step [OF step]
    by (simp add: pool_inv_def)
qed

lemma sum_held_waiting: "\<Sum>\<^sub># (replicate_mset n {#}) = {#}"
  by (induction n) simp_all

lemma filter_breaks: "filter_mset is_break (replicate_mset n break_job) = replicate_mset n break_job"
  by (induction n) (simp_all add: break_job_def)

lemma pool_inv_start:
  assumes "no_breaks jobs"
  shows "pool_inv run jobs n (start_pool jobs n)"
proof -
  have reg: "filter_mset (\<lambda>j. \<not> is_break j) (mset jobs) = mset jobs" "filter_mset is_break (mset jobs) = {#}"
    using assms by (auto simp: no_breaks_def list_all_iff filter_mset_eq_conv)
  have "accounts run jobs (start_pool jobs n)"
    unfolding accounts_def by (rule exI [of _ "{#}"])
      (simp add: start_pool_def pending_def waiting_jobs_def reg sum_held_waiting break_job_def)
  moreover have "stopping (start_pool jobs n) = n"
    by (simp add: stopping_def start_pool_def waiting_jobs_def reg sum_held_waiting filter_breaks)
  moreover have "in_order (start_pool jobs n)"
    unfolding in_order_def using assms
    by (intro exI [of _ jobs] exI [of _ "replicate n break_job"])
       (simp add: start_pool_def break_job_def list_ex_iff list_all_iff)
  ultimately show ?thesis
    by (simp add: pool_inv_def start_pool_def list_all_length)
qed

lemma pool_inv_reach:
  assumes "pool_reach run (start_pool jobs n) p" and "no_breaks jobs"
  shows "pool_inv run jobs n p"
  using assms by (induction rule: rtranclp_induct) (auto intro: pool_inv_start pool_inv_step)

section \<open>Progress and termination\<close>

fun thread_work :: "thread \<Rightarrow> nat" where
  "thread_work (Got j) = 3"
| "thread_work (Running j) = 2"
| "thread_work _ = 0"

definition pool_work :: "pool \<Rightarrow> nat" where
  \<comment> \<open>an upper bound of the steps that are left\<close>
  "pool_work p = 5 * length (todo p) + 4 * length (inq p) + sum_list (map thread_work (threads p)) +
     length (outq p) + (if thread_exit p then 0 else 1)"

lemma thread_work_update:
  "at_work p i t \<Longrightarrow> sum_list (map thread_work ((threads p)[i := u])) + thread_work t =
    sum_list (map thread_work (threads p)) + thread_work u"
proof -
  assume "at_work p i t"
  then obtain M where M: "mset (threads p) = add_mset t M" "mset ((threads p)[i := u]) = add_mset u M"
    using at_work_mset by blast
  have "sum_list (map thread_work xs) = (\<Sum>t \<in># mset xs. thread_work t)" for xs
    by (metis mset_map sum_mset_sum_list)
  with M show ?thesis by simp
qed

lemma pool_step_work:
  assumes "pool_step run p q"
  shows "pool_work q < pool_work p"
  using assms
proof cases
  case (get i j q')
  then show ?thesis using thread_work_update [OF get(2), of "Got j"] by (simp add: pool_work_def set_thread_def)
next
  case (quit i j)
  then show ?thesis using thread_work_update [OF quit(2), of Exited] by (simp add: pool_work_def set_thread_def)
next
  case (abandon i j)
  then show ?thesis using thread_work_update [OF abandon(2), of Waiting] by (simp add: pool_work_def set_thread_def)
next
  case (skip i j)
  then show ?thesis using thread_work_update [OF skip(2), of Waiting] by (simp add: pool_work_def set_thread_def)
next
  case (launch i j)
  then show ?thesis using thread_work_update [OF launch(2), of "Running j"] by (simp add: pool_work_def set_thread_def)
next
  case (finish i j j')
  then show ?thesis using thread_work_update [OF finish(2), of Waiting] by (simp add: pool_work_def set_thread_def)
next
  case (die i j e)
  then show ?thesis using thread_work_update [OF die(2), of "Died j"] by (simp add: pool_work_def set_thread_def)
qed (simp_all add: pool_work_def)

lemma pool_steps_bound: "(pool_step run ^^ k) p q \<Longrightarrow> k + pool_work q \<le> pool_work p"
proof (induction k arbitrary: q)
  case (Suc k)
  then obtain r where "(pool_step run ^^ k) p r" "pool_step run r q" by auto
  with Suc.IH pool_step_work [of run r q] show ?case by fastforce
qed simp

lemma pool_work_start: "pool_work (start_pool jobs n) = 5 * (length jobs + n) + 1"
  by (simp add: pool_work_def start_pool_def sum_list_replicate)

lemma accounts_size:
  "accounts run jobs p \<Longrightarrow> length jobs = length (got p) + length (outq p) + size (pending p)"
proof -
  assume "accounts run jobs p"
  then obtain ds where ds: "image_mset snd ds = mset (got p) + mset (outq p)" "mset jobs = image_mset fst ds + pending p"
    by (auto simp: accounts_def)
  have "length jobs = size ds + size (pending p)" by (metis ds(2) size_image_mset size_mset size_union)
  moreover have "size ds = length (got p) + length (outq p)" by (metis ds(1) size_image_mset size_mset size_union)
  ultimately show ?thesis by simp
qed

lemma idle_pool_finished:
  assumes inv: "pool_inv run jobs n p" and "0 < n" and "todo p = []"
    and idle: "\<forall>t \<in> set (threads p). t = Waiting \<or> t = Exited"
    and "Waiting \<in> set (threads p) \<Longrightarrow> inq p = []" and "left p = 0 \<or> outq p = []"
  shows "finished p"
proof -
  have held0: "(\<Sum>t \<in># mset (threads p). held t) = {#}"
    using idle by (intro sum_mset.neutral) auto
  then have wj: "waiting_jobs p = mset (inq p)" using assms(3) by (simp add: waiting_jobs_def)
  have n: "length (threads p) = n" "size (filter_mset is_break (waiting_jobs p)) + count (mset (threads p)) Exited = n"
    using inv by (auto simp: pool_inv_def stopping_def)
  have ex: "Waiting \<notin> set (threads p)"
  proof
    assume w: "Waiting \<in> set (threads p)"
    then have "waiting_jobs p = {#}" using assms(5) wj by simp
    then have "count (mset (threads p)) Exited = length (threads p)" using n
      by (metis add_0 filter_empty_mset size_empty)
    moreover have "length (filter ((=) Exited) (threads p)) < length (threads p)"
      using w by (rule length_filter_less) simp
    ultimately show False by (simp add: count_mset count_list_eq_length_filter)
  qed
  then have all_ex: "\<forall>t \<in> set (threads p). t = Exited" using idle by metis
  moreover have "threads p \<noteq> []" using n(1) assms(2) by (metis list.size(3) less_irrefl)
  ultimately have "list_ex stops (threads p)" by (metis hd_in_set list_ex_iff stops_simps(4))
  then have "list_all is_break (inq p)" using inv assms(3) by (auto simp: pool_inv_def in_order_def)
  then have "pending p = {#}" by (simp add: pending_def wj list_all_iff filter_empty_conv flip: mset_filter)
  then have "left p = length (outq p)" using inv accounts_size [of run jobs p] by (simp add: pool_inv_def)
  then have "left p = 0" using assms(6) by auto
  with all_ex assms(3) show ?thesis by (simp add: finished_def list_all_iff)
qed

lemma pool_progress:
  assumes inv: "pool_inv run jobs n p" and "0 < n" and "\<forall>j. Died j \<notin> set (threads p)"
    and total: "\<forall>j. \<exists>j'. run j = Inr j'" and "\<not> finished p"
  shows "\<exists>q. pool_step run p q"
proof (rule ccontr)
  assume stuck: "\<nexists>q. pool_step run p q"
  have td: "todo p = []" using stuck put by (cases "todo p") blast+
  have work: "at_work p i (threads p ! i)" if "i < length (threads p)" for i
    using that by (simp add: at_work_def)
  have idle: "threads p ! i = Waiting \<or> threads p ! i = Exited" if i: "i < length (threads p)" for i
  proof (cases "threads p ! i")
    case (Got j)
    then show ?thesis using stuck work [OF i] quit abandon skip launch by metis
  next
    case (Running j)
    then show ?thesis using stuck work [OF i] finish total by metis
  next
    case (Died j)
    then show ?thesis using assms(3) i by (metis nth_mem)
  qed simp_all
  have inq: "inq p = []" if w: "Waiting \<in> set (threads p)"
  proof (rule ccontr)
    assume "inq p \<noteq> []"
    then obtain j q where "inq p = j # q" by (cases "inq p") auto
    moreover obtain i where "at_work p i Waiting" using w by (auto simp: in_set_conv_nth at_work_def)
    ultimately show False using stuck get by blast
  qed
  have "left p = 0 \<or> outq p = []"
    using stuck collect [OF td] by (cases "left p"; cases "outq p") blast+
  moreover have "\<forall>t \<in> set (threads p). t = Waiting \<or> t = Exited" using idle by (metis in_set_conv_nth)
  ultimately have "finished p" using idle_pool_finished [OF inv assms(2) td] inq by blast
  with assms(5) show False by blast
qed

lemma no_deaths:
  assumes "pool_reach run (start_pool jobs n) p" and "\<forall>j. \<exists>j'. run j = Inr j'"
  shows "\<forall>j. Died j \<notin> set (threads p)"
  using assms(1)
proof (induction rule: rtranclp_induct)
  case base
  show ?case by (simp add: start_pool_def)
next
  case (step p q)
  have run: "run j \<noteq> Inl e" for j e using assms(2) by (metis sum.distinct(1))
  have upd: "Died j \<notin> set ((threads p)[i := u])" if "u \<noteq> Died j" for i j u
    using step.IH that set_update_subset_insert [of "threads p" i u] by blast
  from step.hyps(2) show ?case by cases (use step.IH in \<open>simp_all add: set_thread_def upd run\<close>)
qed

section \<open>The results of a finished pool\<close>

definition job_result :: "(job \<Rightarrow> job pyres) \<Rightarrow> job \<Rightarrow> job" where
  \<comment> \<open>what a sequential run makes of a job\<close>
  "job_result run j = (if is_skip j then j else case run j of Inl _ \<Rightarrow> j | Inr j' \<Rightarrow> j')"

lemma finished_accounts:
  assumes "pool_inv run jobs n p" and "finished p"
  obtains ds where "\<forall>(j, j') \<in># ds. result_of run (thread_exit p) j j'"
    "image_mset snd ds = mset (got p)" "mset jobs = image_mset fst ds"
proof -
  have acc: "accounts run jobs p" and l: "left p + length (got p) = length jobs" and "left p = 0"
    using assms by (simp_all add: pool_inv_def finished_def)
  then have "outq p = []" "pending p = {#}" using accounts_size [OF acc] by simp_all
  with acc that show thesis by (auto simp: accounts_def)
qed

lemma finished_length: "pool_inv run jobs n p \<Longrightarrow> finished p \<Longrightarrow> length (got p) = length jobs"
  by (simp add: pool_inv_def finished_def)

lemma result_of_job_result: "result_of run False j j' \<Longrightarrow> j' = job_result run j"
  by (auto simp: result_of_def job_result_def)

lemma finished_results:
  assumes "pool_inv run jobs n p" and "finished p" and "\<not> thread_exit p"
  shows "mset (got p) = mset (map (job_result run) jobs)"
proof -
  obtain ds where ds: "\<forall>(j, j') \<in># ds. result_of run (thread_exit p) j j'"
    "image_mset snd ds = mset (got p)" "mset jobs = image_mset fst ds"
    using finished_accounts [OF assms(1,2)] .
  have "image_mset snd ds = image_mset (\<lambda>d. job_result run (fst d)) ds"
    using ds(1) assms(3) by (intro image_mset_cong) (force dest: result_of_job_result)
  also have "\<dots> = image_mset (job_result run) (mset jobs)" by (simp add: ds(3) image_mset.compositionality comp_def)
  finally show ?thesis by (simp add: ds(2))
qed

lemma finished_ran:
  assumes "pool_inv run jobs n p" and "finished p" and "\<not> thread_exit p" and "j \<in> set jobs"
  shows "is_skip j \<or> (\<exists>j'. run j = Inr j')"
proof -
  obtain ds where ds: "\<forall>(j, j') \<in># ds. result_of run (thread_exit p) j j'" "mset jobs = image_mset fst ds"
    using finished_accounts [OF assms(1,2)] by metis
  from assms(4) have "j \<in># image_mset fst ds" by (metis ds(2) set_mset_mset)
  with ds(1) assms(3) show ?thesis by (force simp: result_of_def)
qed

section \<open>Counting\<close>

definition jobs_with :: "string \<Rightarrow> job list \<Rightarrow> job list" where
  "jobs_with status rs = filter (\<lambda>j. \<not> is_break j \<and> job_status j = status) rs"

definition reportable :: "(string \<Rightarrow> string option) \<Rightarrow> job \<Rightarrow> bool" where
  \<comment> \<open>a test suite that ran to its end has left its result file\<close>
  "reportable files j \<longleftrightarrow> is_break j \<or> is_example j \<or> is_pyexample j \<or> is_skip j \<or>
     returncode j \<notin> {0, 1, 2} \<or> files (tmp_file_name j) \<noteq> None"

lemma jobs_with_simps [simp]:
  "jobs_with st [] = []"
  "jobs_with st (rs @ [j]) = (if \<not> is_break j \<and> job_status j = st then jobs_with st rs @ [j] else jobs_with st rs)"
  by (simp_all add: jobs_with_def)

definition tallies :: "job list \<Rightarrow> tally \<Rightarrow> bool" where
  "tallies rs t \<longleftrightarrow>
     ta_passed t = length (jobs_with ''PASS'' rs) \<and> ta_failed t = length (jobs_with ''FAIL'' rs) \<and>
     ta_crashed t = length (jobs_with ''CRASH'' rs) \<and> ta_valgrind t = length (jobs_with ''VALGR'' rs) \<and>
     ta_skipped t = length (jobs_with ''SKIP'' rs) \<and>
     ta_failed_names t = map display_name (jobs_with ''FAIL'' rs) \<and>
     ta_crashed_names t = map display_name (jobs_with ''CRASH'' rs) \<and>
     ta_valgrind_names t = map display_name (jobs_with ''VALGR'' rs) \<and>
     ta_skipped_names t = map (\<lambda>j. display_name j @ '' ('' @ skip_reason j @ '')'') (jobs_with ''SKIP'' rs)"

lemma tallies_count: "tallies rs t \<Longrightarrow> \<not> is_break j \<Longrightarrow> tallies (rs @ [j]) (count_job j t)"
  by (simp add: tallies_def count_job_def job_status_def)

lemma suite_xml_ok:
  "\<not> is_break j \<Longrightarrow> \<not> is_example j \<Longrightarrow> \<not> is_pyexample j \<Longrightarrow> (\<exists>x. suite_xml files j = Inr x) \<longleftrightarrow> reportable files j"
  by (auto simp: suite_xml_def reportable_def split: option.split)

lemma collect_result_ok: "(\<exists>t'. collect_result opts files j t = Inr t') \<longleftrightarrow> reportable files j"
proof (cases "is_break j \<or> is_example j \<or> is_pyexample j")
  case True
  then show ?thesis by (auto simp: collect_result_def reportable_def Let_def)
next
  case False
  then show ?thesis using suite_xml_ok [of j files]
    by (auto simp: collect_result_def Let_def rbind_Inr_iff)
qed

lemma tallies_fields:
  "tallies rs (t\<lparr>ta_out := out\<rparr>) \<longleftrightarrow> tallies rs t" "tallies rs (t\<lparr>ta_xml := x\<rparr>) \<longleftrightarrow> tallies rs t"
  by (simp_all add: tallies_def)

lemma collect_result_tallies:
  assumes "collect_result opts files j t = Inr t'" and "tallies rs t"
  shows "tallies (rs @ [j]) t'"
proof (cases "is_break j")
  case True
  with assms show ?thesis by (simp add: collect_result_def tallies_def)
next
  case False
  with assms show ?thesis
    by (auto simp: collect_result_def Let_def rbind_Inr_iff tallies_fields tallies_count)
qed

lemma collect_fold_tallies:
  "rfold (collect_result opts files) rs t = Inr t' \<Longrightarrow> tallies done t \<Longrightarrow> tallies (done @ rs) t'"
proof (induction rs arbitrary: t "done")
  case (Cons j rs)
  then obtain u where u: "collect_result opts files j t = Inr u" "rfold (collect_result opts files) rs u = Inr t'"
    by (auto simp: rbind_Inr_iff)
  from Cons.IH [OF u(2) collect_result_tallies [OF u(1) Cons.prems(2)]] show ?case by simp
qed simp

lemma collect_fold_ok:
  "(\<exists>t'. rfold (collect_result opts files) rs t = Inr t') \<longleftrightarrow> list_all (reportable files) rs"
proof (induction rs arbitrary: t)
  case (Cons j rs)
  show ?case
    using collect_result_ok [of opts files j t] Cons.IH
    by (cases "collect_result opts files j t") auto
qed simp

lemma collect_results_tallies: "collect_results opts files rs = Inr t \<Longrightarrow> tallies rs t"
  using collect_fold_tallies [of opts files rs new_tally _ "[]"]
  by (auto simp: collect_results_def rbind_Inr_iff tallies_fields) (simp add: tallies_def new_tally_def)

lemma collect_results_ok: "(\<exists>t. collect_results opts files rs = Inr t) \<longleftrightarrow> list_all (reportable files) rs"
  by (simp add: collect_results_def rbind_Inr_iff collect_fold_ok)

lemma sort_perm: "mset xs = mset ys \<Longrightarrow> sort xs = sort (ys :: 'a :: linorder list)"
  by (metis mset_sort properties_for_sort sorted_sort)

lemma name_list_perm: "mset xs = mset ys \<Longrightarrow> name_list title xs = name_list title ys"
  by (auto simp: name_list_def dest: sort_perm)

lemma tallies_perm:
  assumes "tallies rs t" and "tallies rs' t'" and "mset rs = mset rs'"
  shows "summary t n = summary t' n" "exit_code t n = exit_code t' n"
proof -
  have m: "mset (jobs_with st rs) = mset (jobs_with st rs')" for st
    using assms(3) by (simp add: jobs_with_def)
  have l: "length (jobs_with st rs) = length (jobs_with st rs')" for st
    using m [of st] by (metis size_mset)
  have names: "name_list title (map f (jobs_with st rs)) = name_list title (map f (jobs_with st rs'))" for title f st
    using m [of st] by (intro name_list_perm) simp
  show "exit_code t n = exit_code t' n"
    using assms(1,2) by (simp add: exit_code_def tallies_def l)
  show "summary t n = summary t' n"
    using assms(1,2) unfolding summary_def tallies_def by (simp add: l names)
qed

section \<open>Running a job\<close>

text \<open>
  The interface between the pool and what runs a job: running sets the return code and the time
  and leaves the flags that the worker and the main thread look at.
\<close>

locale job_runner =
  fixes run :: "job \<Rightarrow> job pyres"
  assumes run_keeps: "run j = Inr j' \<Longrightarrow> is_break j' = is_break j \<and> is_skip j' = is_skip j"
begin

lemma job_result_keeps: "is_break (job_result run j) = is_break j \<and> is_skip (job_result run j) = is_skip j"
  using run_keeps by (auto simp: job_result_def split: sum.split)

lemma results_regular:
  assumes "pool_inv run jobs n p" and "finished p" and "\<not> thread_exit p" and "no_breaks jobs"
  shows "no_breaks (got p)"
proof -
  have "set (got p) = job_result run ` set jobs"
    using finished_results [OF assms(1-3)] by (metis mset_eq_setD set_map)
  with assms(4) show ?thesis by (auto simp: no_breaks_def list_all_iff job_result_keeps)
qed

end

lemma execute_job_fields:
  "execute_job env cfg opts j = Inr j' \<Longrightarrow> \<exists>code et. j' = j\<lparr>returncode := code, elapsed_time := et\<rparr>"
  by (auto simp: execute_job_def rbind_Inr_iff)

interpretation worker: job_runner "execute_job env cfg opts" for env cfg opts
  by unfold_locales (auto dest!: execute_job_fields)

lemma execute_job_total: "cf_python cfg \<noteq> [] \<Longrightarrow> \<exists>j'. execute_job env cfg opts j = Inr j'"
proof -
  assume py: "cf_python cfg \<noteq> []"
  have "\<exists>c. job_command cfg s v b d = Inr c" for s v b d
    using py by (simp add: job_command_def py_index_def py_pos_def Let_def)
  then have "\<exists>r. run_job_synchronously env cfg s dir v b d = Inr r" for s dir v b d
    by (simp add: run_job_synchronously_def rbind_Inr_iff Let_def)
  then show ?thesis by (auto simp: execute_job_def rbind_Inr_iff Let_def)
qed

lemma pass_skip_length:
  "length (jobs_with ''PASS'' rs) + length (jobs_with ''SKIP'' rs) =
    length (filter (\<lambda>j. \<not> is_break j \<and> (is_skip j \<or> returncode j = 0)) rs)"
  by (induction rs) (auto simp: jobs_with_def job_status_def)

lemma length_filter_all: "length (filter P xs) = length xs \<longleftrightarrow> list_all P xs"
  by (induction xs) (auto simp: le_imp_less_Suc [OF length_filter_le] less_imp_neq)

lemma status_sum:
  "no_breaks rs \<Longrightarrow> length (jobs_with ''PASS'' rs) + length (jobs_with ''FAIL'' rs) + length (jobs_with ''CRASH'' rs) +
    length (jobs_with ''VALGR'' rs) + length (jobs_with ''SKIP'' rs) = length rs"
  by (induction rs) (simp_all add: jobs_with_def no_breaks_def job_status_def)

lemma tallies_sum:
  "tallies rs t \<Longrightarrow> no_breaks rs \<Longrightarrow>
    ta_passed t + ta_failed t + ta_crashed t + ta_valgrind t + ta_skipped t = length rs"
  using status_sum [of rs] by (simp add: tallies_def)

lemma finish_run_code:
  assumes "finish_run cfg opts files parse n rs = Inr oc" and "length rs = n"
  shows "oc_code oc = (if list_all (\<lambda>j. \<not> is_break j \<and> (is_skip j \<or> returncode j = 0)) rs then 0 else 1)"
proof -
  obtain t where t: "collect_results opts files rs = Inr t" "oc_code oc = exit_code t n"
    using assms(1) by (auto simp: finish_run_def rbind_Inr_iff)
  have "tallies rs t" by (rule collect_results_tallies [OF t(1)])
  then have "ta_passed t + ta_skipped t = length (filter (\<lambda>j. \<not> is_break j \<and> (is_skip j \<or> returncode j = 0)) rs)"
    using pass_skip_length [of rs] by (simp add: tallies_def)
  then show ?thesis by (simp add: t(2) exit_code_def assms(2) [symmetric] length_filter_all)
qed

section \<open>A run with one worker\<close>

lemma sample_job_runs:
  "execute_job sample_env sample_config sample_options sample_job = Inr (sample_job\<lparr>elapsed_time := 1/2\<rparr>)"
  by (simp add: execute_job_def run_job_synchronously_def job_command_def sample_job_def example_job_def
      sample_env_def sample_config_def sample_options_def default_options_def new_job_def)

lemma sample_job_flags: "\<not> is_break sample_job" "\<not> is_skip sample_job" "no_breaks [sample_job]"
  by (simp_all add: sample_job_def example_job_def new_job_def no_breaks_def)

definition sample_end :: pool where
  "sample_end = \<lparr>todo = [], inq = [], outq = [], threads = [Exited], left = 0,
     got = [sample_job\<lparr>elapsed_time := 1/2\<rparr>], thread_exit = False\<rparr>"

lemma sample_reach:
  "pool_reach (execute_job sample_env sample_config sample_options) (start_pool [sample_job] 1) sample_end"
proof -
  let ?run = "execute_job sample_env sample_config sample_options"
  let ?j = sample_job and ?r = "sample_job\<lparr>elapsed_time := 1/2\<rparr>"
  let ?p = "\<lambda>td iq oq t l g. \<lparr>todo = td, inq = iq, outq = oq, threads = [t], left = l, got = g, thread_exit = False\<rparr>"
  have s1: "pool_step ?run (?p [?j, break_job] [] [] Waiting 1 []) (?p [break_job] [?j] [] Waiting 1 [])"
    using pool_step.put [where p = "?p [?j, break_job] [] [] Waiting 1 []" and run = ?run] by simp
  have s2: "pool_step ?run (?p [break_job] [?j] [] Waiting 1 []) (?p [] [?j, break_job] [] Waiting 1 [])"
    using pool_step.put [where p = "?p [break_job] [?j] [] Waiting 1 []" and run = ?run] by simp
  have s3: "pool_step ?run (?p [] [?j, break_job] [] Waiting 1 []) (?p [] [break_job] [] (Got ?j) 1 [])"
    using pool_step.get [where p = "?p [] [?j, break_job] [] Waiting 1 []" and i = 0 and run = ?run]
    by (simp add: at_work_def set_thread_def)
  have s4: "pool_step ?run (?p [] [break_job] [] (Got ?j) 1 []) (?p [] [break_job] [] (Running ?j) 1 [])"
    using pool_step.launch [where p = "?p [] [break_job] [] (Got ?j) 1 []" and i = 0 and run = ?run] sample_job_flags
    by (simp add: at_work_def set_thread_def)
  have s5: "pool_step ?run (?p [] [break_job] [] (Running ?j) 1 []) (?p [] [break_job] [?r] Waiting 1 [])"
    using pool_step.finish [where p = "?p [] [break_job] [] (Running ?j) 1 []" and i = 0 and run = ?run and j = ?j
      and j' = ?r] by (simp add: at_work_def set_thread_def sample_job_runs)
  have s6: "pool_step ?run (?p [] [break_job] [?r] Waiting 1 []) (?p [] [] [?r] (Got break_job) 1 [])"
    using pool_step.get [where p = "?p [] [break_job] [?r] Waiting 1 []" and i = 0 and run = ?run]
    by (simp add: at_work_def set_thread_def)
  have s7: "pool_step ?run (?p [] [] [?r] (Got break_job) 1 []) (?p [] [] [?r] Exited 1 [])"
    using pool_step.quit [where p = "?p [] [] [?r] (Got break_job) 1 []" and i = 0 and run = ?run]
    by (simp add: at_work_def set_thread_def break_job_def)
  have s8: "pool_step ?run (?p [] [] [?r] Exited 1 []) (?p [] [] [] Exited 0 [?r])"
    using pool_step.collect [where p = "?p [] [] [?r] Exited 1 []" and run = ?run] by simp
  have "start_pool [sample_job] 1 = ?p [?j, break_job] [] [] Waiting 1 []" by (simp add: start_pool_def)
  with s1 s2 s3 s4 s5 s6 s7 s8 show ?thesis
    unfolding sample_end_def by (auto intro!: converse_rtranclp_into_rtranclp [of "pool_step ?run"])
qed

lemma sample_collect: "\<exists>t. collect_results sample_options (\<lambda>_. None) (got sample_end) = Inr t"
  unfolding collect_results_ok by (simp add: sample_end_def reportable_def sample_job_def example_job_def)

lemma sample_end_finished: "finished sample_end" "\<not> thread_exit sample_end"
  by (simp_all add: finished_def sample_end_def)

section \<open>Properties\<close>

text \<open>C7: the pool never gets stuck: with at least one worker and a Python interpreter configured,
  whatever the schedule and whenever the interrupt comes, some thread can go on until the main
  thread has all its results and every worker has exited, and this happens within
  \<open>5 * (jobs + workers) + 1\<close> steps.\<close>

theorem pool_live:
  assumes "no_breaks jobs" and "0 < n" and "cf_python cfg \<noteq> []"
    and "pool_reach (execute_job env cfg opts) (start_pool jobs n) p"
  shows "(finished p \<or> (\<exists>q. pool_step (execute_job env cfg opts) p q)) \<and>
    (\<exists>q. pool_reach (execute_job env cfg opts) p q \<and> finished q) \<and>
    (\<forall>k q. (pool_step (execute_job env cfg opts) ^^ k) (start_pool jobs n) q \<longrightarrow> k \<le> 5 * (length jobs + n) + 1)"
proof -
  let ?run = "execute_job env cfg opts"
  have total: "\<forall>j. \<exists>j'. ?run j = Inr j'" using execute_job_total [OF assms(3)] by blast
  have progress: "finished q \<or> (\<exists>r. pool_step ?run q r)" if r: "pool_reach ?run (start_pool jobs n) q" for q
    using pool_progress [OF pool_inv_reach [OF r assms(1)] assms(2) no_deaths [OF r total] total] by blast
  have "\<exists>r. pool_reach ?run q r \<and> finished r" if "pool_reach ?run (start_pool jobs n) q" for q
    using that
  proof (induction "pool_work q" arbitrary: q rule: less_induct)
    case less
    show ?case
    proof (cases "finished q")
      case False
      then obtain r where r: "pool_step ?run q r" using progress less.prems by blast
      then have "\<exists>s. pool_reach ?run r s \<and> finished s"
        using less.hyps [OF pool_step_work [OF r]] less.prems by (meson rtranclp.rtrancl_into_rtrancl)
      with r show ?thesis by (meson converse_rtranclp_into_rtranclp)
    qed blast
  qed
  moreover have "k \<le> 5 * (length jobs + n) + 1" if "(pool_step ?run ^^ k) (start_pool jobs n) q" for k q
    using pool_steps_bound [OF that] by (simp add: pool_work_start)
  ultimately show ?thesis using progress assms(4) by blast
qed

theorem pool_live_witness:
  "\<exists>p. pool_reach (execute_job sample_env sample_config sample_options) (start_pool [sample_job] 2) p \<and> finished p"
proof -
  have py: "cf_python sample_config \<noteq> []" by (simp add: sample_config_def)
  from pool_live [OF sample_job_flags(3) _ py rtranclp.rtrancl_refl, of 2 sample_env sample_options]
  show ?thesis by simp
qed

text \<open>C8: without an interrupt the concurrent run is the sequential one: whatever the schedule,
  the results can be collected when those of a run of the jobs one by one can, the counts add up to
  the number of jobs, and the printed summary and the exit code are those of the sequential run.\<close>

theorem pool_sequential:
  assumes "no_breaks jobs" and "pool_reach (execute_job env cfg opts) (start_pool jobs n) p" and "finished p"
    and "\<not> thread_exit p" and "collect_results opts files (got p) = Inr t"
  shows "\<exists>t'. collect_results opts files (map (job_result (execute_job env cfg opts)) jobs) = Inr t' \<and>
    summary t (length jobs) = summary t' (length jobs) \<and> exit_code t (length jobs) = exit_code t' (length jobs) \<and>
    ta_passed t + ta_failed t + ta_crashed t + ta_valgrind t + ta_skipped t = length jobs"
proof -
  let ?run = "execute_job env cfg opts" and ?rs = "map (job_result (execute_job env cfg opts)) jobs"
  note inv = pool_inv_reach [OF assms(2,1)]
  have perm: "mset (got p) = mset ?rs" by (rule finished_results [OF inv assms(3,4)])
  have "list_all (reportable files) (got p)" using assms(5) collect_results_ok by blast
  then have "list_all (reportable files) ?rs"
    using mset_eq_setD [OF perm] unfolding list_all_iff by blast
  then obtain t' where t': "collect_results opts files ?rs = Inr t'" using collect_results_ok by blast
  note tal = collect_results_tallies [OF assms(5)]
  have "ta_passed t + ta_failed t + ta_crashed t + ta_valgrind t + ta_skipped t = length (got p)"
    by (rule tallies_sum [OF tal worker.results_regular [OF inv assms(3,4,1)]])
  with t' tallies_perm [OF tal collect_results_tallies [OF t'] perm] finished_length [OF inv assms(3)]
  show ?thesis by metis
qed

theorem pool_sequential_witness:
  "\<exists>t t'. collect_results sample_options (\<lambda>_. None) (got sample_end) = Inr t \<and>
     collect_results sample_options (\<lambda>_. None)
       (map (job_result (execute_job sample_env sample_config sample_options)) [sample_job]) = Inr t' \<and>
     summary t 1 = summary t' 1"
proof -
  obtain t where t: "collect_results sample_options (\<lambda>_. None) (got sample_end) = Inr t"
    using sample_collect by blast
  from pool_sequential [OF sample_job_flags(3) sample_reach sample_end_finished t] t show ?thesis by auto
qed

text \<open>C9: the exit code of a run is that of the results the main thread has got from its workers,
  whatever the schedule: 0 when each of them, one for every job, is that of a skipped job or has return
  code 0 and none was given up after the interrupt, and 1 otherwise. Without an interrupt it is 0
  exactly when every job that is not skipped returns 0 when it is run.\<close>

theorem exit_code_iff:
  assumes "prepare env cfg opts date environ = Inr (cfg', environ', dir, n, jobs)"
    and "run_tests env cfg opts date environ files parse (Inr oc)"
  shows "(\<exists>p. pool_reach (execute_job env cfg' opts) (start_pool jobs (nat n)) p \<and> finished p \<and>
      finish_run cfg' opts files parse (length jobs) (got p) = Inr oc) \<and>
    (\<forall>p. pool_reach (execute_job env cfg' opts) (start_pool jobs (nat n)) p \<and> finished p \<and>
        finish_run cfg' opts files parse (length jobs) (got p) = Inr oc \<longrightarrow>
      length (got p) = length jobs \<and>
      oc_code oc = (if list_all (\<lambda>j. \<not> is_break j \<and> (is_skip j \<or> returncode j = 0)) (got p) then 0 else 1) \<and>
      (\<not> thread_exit p \<longrightarrow> (oc_code oc = 0 \<longleftrightarrow>
        list_all (\<lambda>j. is_skip j \<or> (\<exists>j'. execute_job env cfg' opts j = Inr j' \<and> returncode j' = 0)) jobs)))"
proof (intro conjI allI impI; (elim conjE)?)
  show "\<exists>p. pool_reach (execute_job env cfg' opts) (start_pool jobs (nat n)) p \<and> finished p \<and>
      finish_run cfg' opts files parse (length jobs) (got p) = Inr oc"
    using assms(2) by cases (auto simp: assms(1) lift_py_Inr dest!: sym [of "Inr oc"])
next
  let ?run = "execute_job env cfg' opts"
  fix p assume p: "pool_reach ?run (start_pool jobs (nat n)) p" "finished p"
    "finish_run cfg' opts files parse (length jobs) (got p) = Inr oc"
  note nb = prepare_no_breaks [OF assms(1)]
  note inv = pool_inv_reach [OF p(1) nb]
  show len: "length (got p) = length jobs" by (rule finished_length [OF inv p(2)])
  show code: "oc_code oc = (if list_all (\<lambda>j. \<not> is_break j \<and> (is_skip j \<or> returncode j = 0)) (got p) then 0 else 1)"
    by (rule finish_run_code [OF p(3) len])
  assume quiet: "\<not> thread_exit p"
  have "\<not> is_break j' \<and> (is_skip j' \<or> returncode j' = 0) \<longleftrightarrow>
      is_skip j \<or> (\<exists>j'. ?run j = Inr j' \<and> returncode j' = 0)" if "j \<in> set jobs" "j' = job_result ?run j" for j j'
    using that nb worker.job_result_keeps [of env cfg' opts j] finished_ran [OF inv p(2) quiet that(1)]
    by (auto simp: no_breaks_def list_all_iff job_result_def split: if_splits)
  moreover have "set (got p) = job_result ?run ` set jobs"
    using finished_results [OF inv p(2) quiet] by (metis mset_eq_setD set_map)
  ultimately show "oc_code oc = 0 \<longleftrightarrow> list_all (\<lambda>j. is_skip j \<or> (\<exists>j'. ?run j = Inr j' \<and> returncode j' = 0)) jobs"
    unfolding code by (simp add: list_all_iff)
qed

theorem exit_code_iff_witness:
  "\<exists>oc. run_tests sample_env sample_config sample_options ''d'' [] (\<lambda>_. None) (\<lambda>_. Inl ValueError) (Inr oc) \<and>
     oc_code oc = 0"
proof -
  obtain environ where pre: "prepare sample_env sample_config sample_options ''d'' [] =
      Inr (sample_config, environ, ''testpy-output/d'', 1, [sample_job])"
    using sample_prepare by blast
  obtain t where t: "collect_results sample_options (\<lambda>_. None) (got sample_end) = Inr t"
    using sample_collect by blast
  have none: "html_opt sample_options = []" "text_opt sample_options = []" by (simp_all add: sample_options_def default_options_def)
  obtain oc where oc: "finish_run sample_config sample_options (\<lambda>_. None) (\<lambda>_. Inl ValueError) 1 (got sample_end) = Inr oc"
    by (simp add: finish_run_def write_reports_def t none)
  have reach: "pool_reach (execute_job sample_env sample_config sample_options) (start_pool [sample_job] (nat 1)) sample_end"
    using sample_reach by simp
  from run_tests.ran [OF pre this sample_end_finished(1), of "\<lambda>_. None" "\<lambda>_. Inl ValueError"] oc
  have run: "run_tests sample_env sample_config sample_options ''d'' [] (\<lambda>_. None) (\<lambda>_. Inl ValueError) (Inr oc)"
    by simp
  have "list_all (\<lambda>j. \<not> is_break j \<and> (is_skip j \<or> returncode j = 0)) (got sample_end)"
    by (simp add: sample_end_def sample_job_def example_job_def new_job_def)
  with exit_code_iff [OF pre run] reach sample_end_finished oc run show ?thesis by auto
qed

end
