(* ===== verification/Run_Program.thy ===== *)
theory Run_Program
  imports Shell_Cmd
begin

text \<open>
  \<open>src/wutils.py\<close>, with which \<open>waf\<close> runs a program that it has built. What waf knows (the task
  generators, its options and the environment of the build) is the parameter \<open>build\<close>, starting a
  process gives its return code and the bytes that it wrote to the error stream, or the exception of
  \<open>Popen\<close>. Bytes are the characters of a \<open>string\<close>; text that may hold any character of Unicode is a list of
  code points. A \<open>WafError\<close> is \<open>PyException\<close>; its message and the names of signals are not modelled, nor is the copy of
  \<open>os.path.relpath\<close> for old versions of Python.
\<close>

section \<open>What waf provides\<close>

record program =
  pg_is_ns3 :: bool
  pg_name :: string
  pg_path :: string          \<comment> \<open>\<open>path.abspath()\<close>\<close>
  pg_bld_path :: string      \<comment> \<open>\<open>path.get_bld().abspath()\<close>\<close>
  pg_executable :: string    \<comment> \<open>\<open>path.find_or_declare(target).abspath()\<close>\<close>

record build =
  bd_programs :: "program list"
  bd_module_path :: "string list"
  bd_executable_path :: "string list"
  bd_valgrind :: "string list"
  bd_python :: "string list"
  bd_pymoddir :: string
  bd_pyvizdir :: string
  bd_launch_dir :: string
  bd_cwd_option :: "string option"    \<comment> \<open>\<open>Options.options.cwd_launch\<close>\<close>
  bd_cwd_launch :: string
  bd_use_valgrind :: bool
  bd_template :: "string option"
  bd_platform :: string
  bd_pathsep :: string
  bd_environ :: "(string \<times> string) list"
  bd_relpath :: "string \<Rightarrow> string \<Rightarrow> string"
  bd_popen :: "string list \<Rightarrow> (string \<times> string) list \<Rightarrow> string option \<Rightarrow> (int \<times> string) pyres"

section \<open>The functions\<close>

definition given :: "string option \<Rightarrow> bool" where
  \<comment> \<open>the truth value of an optional string\<close>
  "given s \<longleftrightarrow> s \<noteq> None \<and> s \<noteq> Some []"

definition get_command_template :: "build \<Rightarrow> string list \<Rightarrow> string" where
  "get_command_template bd arguments =
     fold (\<lambda>arg cmd. cmd @ '' '' @ arg) arguments (if given (bd_template bd) then the (bd_template bd) else ''%s'')"

fun find_program_loop :: "build \<Rightarrow> string \<Rightarrow> program list \<Rightarrow> program pyres" where
  "find_program_loop bd program_name [] = Inl ValueError"
| "find_program_loop bd program_name (obj # objs) =
     (if \<not> pg_is_ns3 obj then find_program_loop bd program_name objs
      else if \<not> (prefix (bd_launch_dir bd) (pg_path obj) \<or> prefix (bd_launch_dir bd) (pg_bld_path obj))
      then find_program_loop bd program_name objs
      else
        let name1 = pg_name obj;
            name2 = path_join (bd_relpath bd (pg_path obj) (bd_launch_dir bd)) (pg_name obj)
        in if program_name \<in> set [name1, name2] then Inr obj else find_program_loop bd program_name objs)"

definition find_program :: "build \<Rightarrow> string \<Rightarrow> program pyres" where
  "find_program bd program_name = find_program_loop bd program_name (bd_programs bd)"

definition pathvar :: "build \<Rightarrow> string" where
  "pathvar bd =
     (if bd_platform bd = ''linux2'' \<or> bd_platform bd = ''linux'' then ''LD_LIBRARY_PATH''
      else if bd_platform bd = ''darwin'' then ''DYLD_LIBRARY_PATH''
      else if bd_platform bd = ''win32'' then ''PATH''
      else if bd_platform bd = ''cygwin'' then ''PATH''
      else if prefix ''freebsd'' (bd_platform bd) then ''LD_LIBRARY_PATH''
      else ''LD_LIBRARY_PATH'')"

definition prepend_paths :: "build \<Rightarrow> string \<Rightarrow> string list \<Rightarrow> (string \<times> string) list \<Rightarrow> (string \<times> string) list" where
  "prepend_paths bd var paths proc_env =
     AList.update var (py_join (bd_pathsep bd) (paths @ (case map_of proc_env var of None \<Rightarrow> [] | Some v \<Rightarrow> [v]))) proc_env"

definition get_proc_env :: "build \<Rightarrow> (string \<times> string) list \<Rightarrow> (string \<times> string) list" where
  "get_proc_env bd os_env =
     (let proc_env = fold (\<lambda>(k, v). AList.update k v) os_env (bd_environ bd);
          proc_env = prepend_paths bd (pathvar bd) (bd_module_path bd) proc_env;
          proc_env = prepend_paths bd ''PYTHONPATH'' [bd_pymoddir bd, bd_pyvizdir bd] proc_env
      in prepend_paths bd ''PATH'' (bd_executable_path bd) proc_env)"

definition utf8_tail :: "nat list \<Rightarrow> nat \<Rightarrow> nat list option" where
  \<comment> \<open>the next continuation bytes, without their marks\<close>
  "utf8_tail bs k =
     (if length bs < k \<or> \<not> list_all (\<lambda>b. 128 \<le> b \<and> b < 192) (take k bs) then None else Some (map (\<lambda>b. b - 128) (take k bs)))"

definition utf8_char :: "nat \<Rightarrow> nat list \<Rightarrow> (nat \<times> nat) option" where
  \<comment> \<open>the code point that starts with a byte, and how many more bytes it takes: no overlong forms, no surrogates\<close>
  "utf8_char b bs =
     (if b < 128 then Some (b, 0)
      else
        let k = (if 194 \<le> b \<and> b < 224 then 1 else if 224 \<le> b \<and> b < 240 then 2 else if 240 \<le> b \<and> b < 245 then 3 else 0);
            mark = [0, 192, 224, 240] ! k; least = [0, 128, 2048, 65536] ! k
        in if k = 0 then None
           else case utf8_tail bs k of
                  None \<Rightarrow> None
                | Some ts \<Rightarrow>
                    let cp = fold (\<lambda>t cp. cp * 64 + t) ts (b - mark)
                    in if cp < least \<or> 1114111 < cp \<or> 55296 \<le> cp \<and> cp < 57344 then None else Some (cp, k))"

function utf8_decode :: "nat list \<Rightarrow> nat list pyres" where
  "utf8_decode [] = Inr []"
| "utf8_decode (b # bs) = (case utf8_char b bs of
     None \<Rightarrow> Inl UnicodeDecodeError
   | Some (cp, k) \<Rightarrow> rbind (utf8_decode (drop k bs)) (\<lambda>cps. Inr (cp # cps)))"
  by pat_completeness auto

termination utf8_decode
  by (relation "measure length") auto

definition leak_check :: "int \<Rightarrow> nat list \<Rightarrow> int" where
  \<comment> \<open>\<open>for line in stderrdata\<close> goes through the characters of the string\<close>
  "leak_check retval stderrdata =
     (let error = list_ex (\<lambda>ch. py_contains (map of_char ''== LEAK SUMMARY'') [ch]) stderrdata
      in if retval = 0 \<and> error then 1 else retval)"

definition run_argv :: "build \<Rightarrow> string list \<Rightarrow> (string \<times> string) list \<Rightarrow> string option \<Rightarrow> bool \<Rightarrow> int pyres" where
  \<comment> \<open>\<open>WindowsError\<close> is \<open>OSError\<close> where it exists\<close>
  "run_argv bd argv os_env cwd force_no_valgrind =
     (let proc_env = get_proc_env bd os_env
      in rbind (if bd_use_valgrind bd \<and> \<not> force_no_valgrind then
                  if given (bd_template bd) then Inl PyException
                  else case bd_valgrind bd of
                         [] \<Rightarrow> Inl PyException
                       | vg # _ \<Rightarrow>
                           rbind (bd_popen bd
                             ([vg, ''--leak-check=full'', ''--show-reachable=yes'', ''--error-exitcode=1''] @ argv) proc_env cwd)
                             (\<lambda>(code, stderrdata). rbind (utf8_decode (map of_char stderrdata)) (\<lambda>text.
                           Inr (leak_check code text)))
                else case bd_popen bd argv proc_env cwd of
                       Inl e \<Rightarrow> Inl (if bd_platform bd = ''win32'' \<and> e = OSError then PyException else e)
                     | Inr (code, _) \<Rightarrow> Inr code) (\<lambda>retval.
         if retval \<noteq> 0 then Inl PyException else Inr retval))"

fun py_format :: "string \<Rightarrow> string \<Rightarrow> bool \<Rightarrow> string pyres" where
  \<comment> \<open>\<open>template % (arg,)\<close> for the conversions \<open>%s\<close> and \<open>%%\<close>\<close>
  "py_format [] arg used = (if used then Inr [] else Inl TypeError)"
| "py_format [c] arg used =
     (if c = CHR ''%'' then Inl ValueError else rbind (py_format [] arg used) (\<lambda>r. Inr (c # r)))"
| "py_format (c # d # cs) arg used =
     (if c \<noteq> CHR ''%'' then rbind (py_format (d # cs) arg used) (\<lambda>r. Inr (c # r))
      else if d = CHR ''%'' then rbind (py_format cs arg used) (\<lambda>r. Inr (d # r))
      else if d = CHR ''s'' then if used then Inl TypeError else rbind (py_format cs arg True) (\<lambda>r. Inr (arg @ r))
      else Inl ValueError)"

definition double_backslash :: "string \<Rightarrow> string" where
  "double_backslash s = concat (map (\<lambda>c. if c = backslash then [backslash, backslash] else [c]) s)"

definition waf_find :: "build \<Rightarrow> string \<Rightarrow> program pyres" where
  \<comment> \<open>a \<open>ValueError\<close> becomes a \<open>WafError\<close>\<close>
  "waf_find bd name = (case find_program bd name of Inl ValueError \<Rightarrow> Inl PyException | r \<Rightarrow> r)"

definition plain_program :: "build \<Rightarrow> string \<Rightarrow> (string \<times> string list) pyres" where
  "plain_program bd program_string =
     rbind (shlex_split program_string) (\<lambda>argv. rbind (py_index argv 0) (\<lambda>program_name.
     rbind (waf_find bd program_name) (\<lambda>obj. Inr (program_name, pg_executable obj # py_slice_from argv 1))))"

definition get_run_program :: "build \<Rightarrow> string \<Rightarrow> string option \<Rightarrow> (string \<times> string list) pyres" where
  "get_run_program bd program_string command_template =
     (if command_template \<in> {None, Some ''%s''} then plain_program bd program_string
      else
        rbind (waf_find bd program_string) (\<lambda>obj.
        rbind (py_format (the command_template) (pg_executable obj) False) (\<lambda>tmpl.
        rbind (shlex_split (double_backslash tmpl)) (\<lambda>execvec. Inr (program_string, execvec)))))"

definition visual_flag :: "bool \<Rightarrow> string list" where
  "visual_flag visualize = (if visualize then [''--SimulatorImplementationType=ns3::VisualSimulatorImpl''] else [])"

definition launch_cwd :: "build \<Rightarrow> string" where
  "launch_cwd bd = (if given (bd_cwd_option bd) then the (bd_cwd_option bd) else bd_cwd_launch bd)"

definition run_program :: "build \<Rightarrow> string \<Rightarrow> string option \<Rightarrow> string option \<Rightarrow> bool \<Rightarrow> int pyres" where
  "run_program bd program_string command_template cwd visualize =
     rbind (get_run_program bd program_string command_template) (\<lambda>(_, execvec).
     let cwd = (if cwd = None then Some (launch_cwd bd) else cwd)
     in run_argv bd (execvec @ visual_flag visualize) [] cwd False)"

definition run_python_program :: "build \<Rightarrow> string \<Rightarrow> bool \<Rightarrow> int pyres" where
  "run_python_program bd program_string visualize =
     rbind (shlex_split program_string) (\<lambda>execvec. rbind (py_index (bd_python bd) 0) (\<lambda>python.
     run_argv bd ([python] @ execvec @ visual_flag visualize) [] (Some (launch_cwd bd)) False))"

fun uniquify_loop :: "'a list \<Rightarrow> 'a list \<Rightarrow> 'a list" where
  \<comment> \<open>\<open>seen.add\<close> returns None, so every kept element passes the second test\<close>
  "uniquify_loop [] seen = []"
| "uniquify_loop (x # xs) seen = (if x \<in> set seen then uniquify_loop xs seen else x # uniquify_loop xs (x # seen))"

definition uniquify_list :: "'a list \<Rightarrow> 'a list" where
  "uniquify_list seq = uniquify_loop seq []"

section \<open>Lemmas\<close>

lemma py_contains_length: "py_contains t s \<Longrightarrow> length t \<le> length s"
  by (auto simp: py_contains_iff)

lemma utf8_decode_ascii: "list_all (\<lambda>b. b < 128) bs \<Longrightarrow> utf8_decode bs = Inr bs"
  by (induction bs) (simp_all add: utf8_char_def)

lemma utf8_decode_samples:
  "utf8_decode [226, 130, 172, 65] = Inr [8364, 65]" "utf8_decode [240, 159, 152, 128] = Inr [128512]"
  "utf8_decode [192, 128] = Inl UnicodeDecodeError" "utf8_decode [237, 160, 128] = Inl UnicodeDecodeError"
  "utf8_decode [195] = Inl UnicodeDecodeError"
  by (simp_all add: utf8_char_def utf8_tail_def)

lemma leak_check_code: "leak_check retval stderrdata = retval"
  using py_contains_length by (fastforce simp: leak_check_def Let_def list_ex_iff)

lemma prepend_lookup:
  "map_of (prepend_paths bd var paths e) = (map_of e)(var \<mapsto>
     py_join (bd_pathsep bd) (paths @ (case map_of e var of None \<Rightarrow> [] | Some v \<Rightarrow> [v])))"
  by (simp add: prepend_paths_def lookup_update)

lemma find_program_sound:
  "find_program_loop bd name objs = Inr obj \<Longrightarrow> obj \<in> set objs \<and> pg_is_ns3 obj \<and>
    (prefix (bd_launch_dir bd) (pg_path obj) \<or> prefix (bd_launch_dir bd) (pg_bld_path obj)) \<and>
    name \<in> {pg_name obj, path_join (bd_relpath bd (pg_path obj) (bd_launch_dir bd)) (pg_name obj)}"
  by (induction objs) (auto simp: Let_def split: if_splits)

lemma remdups_snoc: "remdups (xs @ [x]) = remdups (filter (\<lambda>y. y \<noteq> x) xs) @ [x]"
  by (induction xs) auto

lemma uniquify_loop_filter: "uniquify_loop xs seen = rev (remdups (rev (filter (\<lambda>x. x \<notin> set seen) xs)))"
  by (induction xs seen rule: uniquify_loop.induct) (auto simp: remdups_snoc filter_filter rev_filter conj_commute)

section \<open>Properties\<close>

text \<open>C17: \<open>run_program\<close> returns exactly when the program is found, its process could be started and has
  ended with return code 0, and under valgrind its error stream is UTF-8 as well; then it returns 0. A
  leak that valgrind only reports never counts, because the search for its summary looks at single
  characters.\<close>

theorem run_program_succeeds:
  "run_program bd program_string None cwd visualize = Inr r \<longleftrightarrow>
    r = 0 \<and> (\<exists>name args obj err. shlex_split program_string = Inr (name # args) \<and> find_program bd name = Inr obj \<and>
      (let argv = pg_executable obj # args @ visual_flag visualize;
           dir = (if cwd = None then Some (launch_cwd bd) else cwd); env = get_proc_env bd []
       in if bd_use_valgrind bd then
            \<not> given (bd_template bd) \<and> bd_valgrind bd \<noteq> [] \<and>
            bd_popen bd ([hd (bd_valgrind bd), ''--leak-check=full'', ''--show-reachable=yes'',
                          ''--error-exitcode=1''] @ argv) env dir = Inr (0, err) \<and>
            (\<exists>text. utf8_decode (map of_char err) = Inr text)
          else bd_popen bd argv env dir = Inr (0, err)))"
proof -
  have find: "waf_find bd name = Inr obj \<longleftrightarrow> find_program bd name = Inr obj" for name obj
    by (auto simp: waf_find_def split: sum.splits py_error.splits)
  have run: "run_argv bd argv [] dir False = Inr r \<longleftrightarrow> r = 0 \<and>
    (\<exists>err. if bd_use_valgrind bd then \<not> given (bd_template bd) \<and> bd_valgrind bd \<noteq> [] \<and>
       bd_popen bd ([hd (bd_valgrind bd), ''--leak-check=full'', ''--show-reachable=yes'',
          ''--error-exitcode=1''] @ argv) (get_proc_env bd []) dir = Inr (0, err) \<and>
       (\<exists>text. utf8_decode (map of_char err) = Inr text)
     else bd_popen bd argv (get_proc_env bd []) dir = Inr (0, err))" for argv dir
    by (auto simp: run_argv_def Let_def rbind_Inr_iff leak_check_code split: list.splits sum.splits if_splits)
  have plain: "get_run_program bd program_string None = Inr (name, execvec) \<longleftrightarrow>
    (\<exists>args obj. shlex_split program_string = Inr (name # args) \<and> find_program bd name = Inr obj \<and>
       execvec = pg_executable obj # args)" for name execvec
  proof (cases "shlex_split program_string")
    case (Inr argv)
    have first: "py_index argv 0 = (if argv = [] then Inl IndexError else Inr (hd argv))"
      by (cases argv) (simp_all add: py_index_def py_pos_def)
    have rest: "argv \<noteq> [] \<Longrightarrow> py_slice_from argv 1 = tl argv"
      by (cases argv) (simp_all add: py_slice_from_def py_clamp_def py_pos_def)
    have "get_run_program bd program_string None = (if argv = [] then Inl IndexError
        else rbind (waf_find bd (hd argv)) (\<lambda>obj. Inr (hd argv, pg_executable obj # tl argv)))"
      using rest by (simp add: get_run_program_def plain_program_def Inr first)
    then show ?thesis
      by (cases argv) (auto simp: Inr rbind_Inr_iff find)
  qed (simp add: get_run_program_def plain_program_def)
  have "run_program bd program_string None cwd visualize = Inr r \<longleftrightarrow> (\<exists>name execvec.
      get_run_program bd program_string None = Inr (name, execvec) \<and>
      run_argv bd (execvec @ visual_flag visualize) [] (if cwd = None then Some (launch_cwd bd) else cwd) False = Inr r)"
    by (simp add: run_program_def rbind_Inr_iff split_paired_Ex)
  also have "\<dots> \<longleftrightarrow> r = 0 \<and> (\<exists>name args obj. shlex_split program_string = Inr (name # args) \<and>
      find_program bd name = Inr obj \<and> run_argv bd ((pg_executable obj # args) @ visual_flag visualize) []
        (if cwd = None then Some (launch_cwd bd) else cwd) False = Inr r)"
    unfolding plain run by blast
  finally show ?thesis unfolding run Let_def append_Cons append_Nil by metis
qed

end
