(* ===== verification/Waf_Command.thy ===== *)
theory Waf_Command
  imports Shell_Cmd
begin

text \<open>
  \<open>src/waf-tools/command.py\<close>, the build tasks that run a command line: \<open>${NAME}\<close> and \<open>${NAME code}\<close>
  in the words of the parsed line are replaced by the values of the expressions, then the line is
  run. Evaluating an expression is the parameter \<open>ev\<close>; the nodes, the environment and the
  targets that waf gives to a task are data.
\<close>

section \<open>The values of expressions\<close>

record src_node =
  nd_srcpath :: string       \<comment> \<open>\<open>srcpath()\<close>\<close>
  nd_bld_abspath :: string   \<comment> \<open>\<open>get_bld().abspath()\<close>\<close>
  nd_bldpath :: string       \<comment> \<open>\<open>bldpath()\<close>\<close>

datatype py_value =
    StrV string
  | NodeV src_node
  | InputsV "src_node list"    \<comment> \<open>the list \<open>self.inputs\<close> itself\<close>
  | OutputsV "src_node list"   \<comment> \<open>the list \<open>self.outputs\<close> itself\<close>
  | ListV "py_value list"      \<comment> \<open>another list\<close>
  | NoneV
  | OtherV

type_synonym namespace = "(string \<times> py_value) list"
type_synonym evaluator = "namespace \<Rightarrow> string \<Rightarrow> py_value pyres"

datatype command_line = Line string | Tokens "string list"

record taskgen =
  tg_command :: command_line
  tg_variables :: "namespace option option"  \<comment> \<open>\<open>None\<close>: the attribute is not set\<close>
  tg_rule :: "string option"
  tg_source :: "src_node list"
  tg_target :: "string list"                 \<comment> \<open>\<open>to_list(self.target)\<close>\<close>
  tg_dep_vars :: "string list option"

record command_task =
  ct_generator :: taskgen
  ct_inputs :: "src_node list"
  ct_outputs :: "src_node list"
  ct_env :: namespace                        \<comment> \<open>\<open>env.get_merged_dict()\<close>\<close>
  ct_dep_vars :: "string list option"

section \<open>Making the task\<close>

definition init_command :: "taskgen \<Rightarrow> taskgen" where
  \<comment> \<open>\<open>def_attrs\<close> sets what is not set\<close>
  "init_command tg = tg\<lparr>tg_variables := (case tg_variables tg of None \<Rightarrow> Some None | v \<Rightarrow> v),
     tg_rule := (case tg_rule tg of None \<Rightarrow> Some '''' | r \<Rightarrow> r)\<rparr>"

definition apply_command :: "(string \<Rightarrow> src_node) \<Rightarrow> namespace \<Rightarrow> taskgen \<Rightarrow> command_task \<times> taskgen" where
  \<comment> \<open>the first argument is \<open>path.find_or_declare\<close>\<close>
  "apply_command find_or_declare env tg =
     (let tg' = tg\<lparr>tg_source := []\<rparr>
      in (\<lparr>ct_generator = tg', ct_inputs = tg_source tg, ct_outputs = map find_or_declare (tg_target tg),
           ct_env = env, ct_dep_vars = tg_dep_vars tg\<rparr>, tg'))"

definition parse_task_line :: "command_line \<Rightarrow> node list pyres" where
  "parse_task_line line = (case line of Line s \<Rightarrow> parse_command s | Tokens ts \<Rightarrow> parse_tokens ts)"

definition str_task :: "command_task \<Rightarrow> string pyres" where
  "str_task t =
     rbind (parse_task_line (tg_command (ct_generator t))) (\<lambda>nodes.
     Inr (''command ('' @ get_abbreviated_command nodes @ ''): '' @ py_join '' '' (map nd_bldpath (ct_inputs t)) @
       (if ct_outputs t \<noteq> [] then '' -> '' else '''') @ py_join '' '' (map nd_bldpath (ct_outputs t))))"

section \<open>Substitution\<close>

abbreviation dollar :: char where "dollar \<equiv> CHR ''$''"
abbreviation lbrace :: char where "lbrace \<equiv> CHR ''{''"
abbreviation rbrace :: char where "rbrace \<equiv> CHR ''}''"

definition re_word :: "char \<Rightarrow> bool" where
  \<comment> \<open>\<open>\w\<close> on the first 256 code points\<close>
  "re_word c \<longleftrightarrow> word_char c \<or> (let n = of_char c :: nat
     in n \<in> {170, 178, 179, 181, 185, 186} \<or> n \<in> {188 .. 190} \<or> (192 \<le> n \<and> n \<noteq> 215 \<and> n \<noteq> 247))"

datatype piece = Plain char | Dollar | Subst string string

definition subst_at :: "string \<Rightarrow> (string \<times> string \<times> string) option" where
  \<comment> \<open>\<open>(\w+)(.*?)\}\<close>: variable, code and what follows; \<open>.\<close> is not a newline\<close>
  "subst_at s =
     (let var = takeWhile re_word s; rest = dropWhile re_word s;
          in_code = (\<lambda>c. c \<noteq> rbrace \<and> c \<noteq> newline)
      in case dropWhile in_code rest of
           [] \<Rightarrow> None
         | c # after \<Rightarrow> if var \<noteq> [] \<and> c = rbrace then Some (var, takeWhile in_code rest, after) else None)"

lemma subst_at_length:
  assumes "subst_at s = Some (var, code, after)"
  shows "length after < length s"
proof -
  from assms have "length (dropWhile (\<lambda>c. c \<noteq> rbrace \<and> c \<noteq> newline) (dropWhile re_word s)) = Suc (length after)"
    by (auto simp: subst_at_def Let_def split: list.splits if_splits)
  moreover have "length (dropWhile P (dropWhile re_word s)) \<le> length s" for P
    by (meson le_trans length_dropWhile_le)
  ultimately show ?thesis by (metis Suc_le_eq)
qed

function (sequential) split_arg :: "string \<Rightarrow> piece list" where
  \<comment> \<open>the matches of \<open>arg_rx\<close> from left to right, and the characters between them\<close>
  "split_arg [] = []"
| "split_arg [c] = [Plain c]"
| "split_arg (c # d # cs) =
     (if c \<noteq> dollar then Plain c # split_arg (d # cs)
      else if d = dollar then Dollar # split_arg cs
      else if d \<noteq> lbrace then Plain c # split_arg (d # cs)
      else case subst_at cs of
             None \<Rightarrow> Plain c # split_arg (d # cs)
           | Some (var, code, after) \<Rightarrow> Subst var code # split_arg after)"
  by pat_completeness auto

termination
  by (relation "measure length") (auto dest: subst_at_length)

definition repl_subst :: "evaluator \<Rightarrow> command_task \<Rightarrow> namespace \<Rightarrow> string \<Rightarrow> string \<Rightarrow> py_value pyres" where
  "repl_subst ev t ns var code =
     rbind (ev ns (var @ code)) (\<lambda>result. case result of
       NodeV n \<Rightarrow>
         if var = ''TGT'' then Inr (StrV (nd_bld_abspath n))
         else if var = ''SRC'' then Inr (StrV (nd_srcpath n)) else Inl ValueError
     | InputsV _ \<Rightarrow> (case ct_inputs t of [n] \<Rightarrow> Inr (StrV (nd_srcpath n)) | _ \<Rightarrow> Inl ValueError)
     | OutputsV _ \<Rightarrow> (case ct_outputs t of [n] \<Rightarrow> Inr (StrV (nd_bld_abspath n)) | _ \<Rightarrow> Inl ValueError)
     | ListV vs \<Rightarrow> (case vs of [v] \<Rightarrow> Inr v | _ \<Rightarrow> Inl AssertionError)
     | v \<Rightarrow> Inr v)"

fun repl :: "evaluator \<Rightarrow> command_task \<Rightarrow> namespace \<Rightarrow> piece \<Rightarrow> py_value pyres" where
  "repl ev t ns (Plain c) = Inr (StrV [c])"
| "repl ev t ns Dollar = Inr (StrV [dollar])"
| "repl ev t ns (Subst var code) = repl_subst ev t ns var code"

fun join_values :: "py_value list \<Rightarrow> string pyres" where
  \<comment> \<open>\<open>re.sub\<close> leaves out \<open>None\<close> and joins the rest, which must be strings\<close>
  "join_values [] = Inr []"
| "join_values (StrV s # vs) = rbind (join_values vs) (\<lambda>r. Inr (s @ r))"
| "join_values (NoneV # vs) = join_values vs"
| "join_values (_ # vs) = Inl TypeError"

definition subst_arg :: "evaluator \<Rightarrow> command_task \<Rightarrow> namespace \<Rightarrow> string \<Rightarrow> string pyres" where
  "subst_arg ev t ns arg = rbind (rmap (repl ev t ns) (split_arg arg)) join_values"

section \<open>Running the task\<close>

fun ropt :: "('a \<Rightarrow> 'e + 'b) \<Rightarrow> 'a option \<Rightarrow> 'e + 'b option" where
  "ropt f None = Inr None"
| "ropt f (Some x) = rbind (f x) (\<lambda>y. Inr (Some y))"

definition subst_redirect :: "(string \<Rightarrow> string pyres) \<Rightarrow> redirect \<Rightarrow> redirect pyres" where
  \<comment> \<open>only a string is substituted\<close>
  "subst_redirect sub r = (case r of ToFile f \<Rightarrow> rbind (sub f) (\<lambda>f. Inr (ToFile f)) | _ \<Rightarrow> Inr r)"

definition subst_command :: "(string \<Rightarrow> string pyres) \<Rightarrow> command \<Rightarrow> command pyres" where
  "subst_command sub c =
     rbind (ropt sub (cm_stdin c)) (\<lambda>i.
     rbind (ropt (subst_redirect sub) (cm_stdout c)) (\<lambda>out.
     rbind (ropt (subst_redirect sub) (cm_stderr c)) (\<lambda>err.
     rbind (rmap sub (cm_argv c)) (\<lambda>argv.
     rbind (rmap (\<lambda>(name, v). rbind (sub v) (\<lambda>v. Inr (name, v))) (cm_env c)) (\<lambda>env_vars.
     Inr (c\<lparr>cm_stdin := i, cm_stdout := out, cm_stderr := err, cm_argv := argv, cm_env := env_vars\<rparr>))))))"

definition subst_node :: "(string \<Rightarrow> string pyres) \<Rightarrow> node \<Rightarrow> node pyres" where
  "subst_node sub n = (case n of
     CommandNode c \<Rightarrow> rbind (subst_command sub c) (\<lambda>c. Inr (CommandNode c))
   | ChdirNode None \<Rightarrow> Inl TypeError
   | ChdirNode (Some d) \<Rightarrow> rbind (sub d) (\<lambda>d. Inr (ChdirNode (Some d)))
   | _ \<Rightarrow> Inr n)"

definition updated :: "namespace \<Rightarrow> namespace \<Rightarrow> namespace" where
  \<comment> \<open>\<open>dict.update\<close>\<close>
  "updated kvs d = fold (\<lambda>(k, v). AList.update k v) kvs d"

definition task_namespace :: "command_task \<Rightarrow> namespace option \<Rightarrow> namespace" where
  "task_namespace t variables =
     updated [(''env'', OtherV), (''SRC'', InputsV (ct_inputs t)), (''TGT'', OutputsV (ct_outputs t))]
       (case variables of None \<Rightarrow> ct_env t | Some vs \<Rightarrow> updated vs (ct_env t))"

definition run_task :: "evaluator \<Rightarrow> shell_world \<Rightarrow> int \<Rightarrow> command_task \<Rightarrow> (int option \<times> run_state) pyres" where
  \<comment> \<open>the number is \<open>Options.options.verbose\<close>\<close>
  "run_task ev w verbose t =
     rbind (parse_task_line (tg_command (ct_generator t))) (\<lambda>nodes.
     case tg_variables (ct_generator t) of
       None \<Rightarrow> Inl AttributeError
     | Some variables \<Rightarrow>
         rbind (rmap (subst_node (subst_arg ev t (task_namespace t variables))) nodes) (\<lambda>nodes.
         run_pipeline w (verbose > 0) nodes))"

section \<open>Templates\<close>

text \<open>What a writer of command lines has in mind: literal text and expressions. Printing doubles the
  dollars of the text.\<close>

datatype part = Text string | Ref string string

fun quote_dollars :: "string \<Rightarrow> string" where
  "quote_dollars [] = []"
| "quote_dollars (c # cs) = (if c = dollar then [dollar, dollar] else [c]) @ quote_dollars cs"

fun print_part :: "part \<Rightarrow> string" where
  "print_part (Text s) = quote_dollars s"
| "print_part (Ref var code) = dollar # lbrace # var @ code @ [rbrace]"

fun part_ok :: "part \<Rightarrow> bool" where
  "part_ok (Text s) \<longleftrightarrow> True"
| "part_ok (Ref var code) \<longleftrightarrow> var \<noteq> [] \<and> list_all re_word var \<and> (code \<noteq> [] \<longrightarrow> \<not> re_word (hd code)) \<and>
     list_all (\<lambda>c. c \<noteq> rbrace \<and> c \<noteq> newline) code"

fun part_pieces :: "part \<Rightarrow> piece list" where
  "part_pieces (Text s) = map (\<lambda>c. if c = dollar then Dollar else Plain c) s"
| "part_pieces (Ref var code) = [Subst var code]"

fun part_text :: "(string \<Rightarrow> string \<Rightarrow> string) \<Rightarrow> part \<Rightarrow> string" where
  "part_text f (Text s) = s"
| "part_text f (Ref var code) = f var code"

lemma re_word_brace [simp]: "\<not> re_word rbrace"
  by code_simp

lemma subst_at_ref:
  assumes "part_ok (Ref var code)"
  shows "subst_at (var @ code @ rbrace # rest) = Some (var, code, rest)"
proof -
  from assms have w: "\<forall>c \<in> set var. re_word c" and c: "\<forall>c \<in> set code. c \<noteq> rbrace \<and> c \<noteq> newline"
    by (auto simp: list_all_iff)
  have "takeWhile re_word (code @ rbrace # rest) = []" "dropWhile re_word (code @ rbrace # rest) = code @ rbrace # rest"
    using assms by (cases code; simp)+
  with w c assms show ?thesis by (simp add: subst_at_def Let_def dropWhile_append)
qed

lemma split_plain [simp]: "c \<noteq> dollar \<Longrightarrow> split_arg (c # cs) = Plain c # split_arg cs"
  by (cases cs) simp_all

lemma split_text: "split_arg (quote_dollars s @ rest) = part_pieces (Text s) @ split_arg rest"
  by (induction s) auto

lemma split_print:
  "list_all part_ok ps \<Longrightarrow> split_arg (concat (map print_part ps)) = concat (map part_pieces ps)"
proof (induction ps)
  case (Cons p ps)
  show ?case
  proof (cases p)
    case (Text s)
    with Cons show ?thesis by (simp add: split_text)
  next
    case (Ref var code)
    with Cons.prems have "subst_at (var @ code @ rbrace # concat (map print_part ps)) =
        Some (var, code, concat (map print_part ps))"
      by (intro subst_at_ref) simp
    with Cons Ref show ?thesis by simp
  qed
qed simp

lemma join_StrV: "join_values (map StrV ss @ vs) = rbind (join_values vs) (\<lambda>r. Inr (concat ss @ r))"
  by (induction ss) (auto simp: rbind_def split: sum.split)

definition strings_of :: "(string \<Rightarrow> string \<Rightarrow> string) \<Rightarrow> part \<Rightarrow> string list" where
  "strings_of f p = (case p of Text s \<Rightarrow> map (\<lambda>c. [c]) s | Ref var code \<Rightarrow> [f var code])"

lemma concat_strings_of: "concat (strings_of f p) = part_text f p"
  by (cases p) (simp_all add: strings_of_def)

lemma repl_part:
  assumes "\<And>var code. p = Ref var code \<Longrightarrow> repl_subst ev t ns var code = Inr (StrV (f var code))"
  shows "rmap (repl ev t ns) (part_pieces p) = Inr (map StrV (strings_of f p))"
proof (cases p)
  case (Text s)
  have "rmap (repl ev t ns) (map (\<lambda>c. if c = dollar then Dollar else Plain c) s) = Inr (map (\<lambda>c. StrV [c]) s)"
    by (induction s) auto
  with Text show ?thesis by (simp add: strings_of_def)
qed (simp add: assms strings_of_def)

lemma repl_parts:
  assumes "\<And>var code. Ref var code \<in> set ps \<Longrightarrow> repl_subst ev t ns var code = Inr (StrV (f var code))"
  shows "rmap (repl ev t ns) (concat (map part_pieces ps)) = Inr (map StrV (concat (map (strings_of f) ps)))"
  using assms by (induction ps) (simp_all add: rmap_append repl_part [where f = f])

lemma subst_print:
  assumes "list_all part_ok ps"
    and "\<And>var code. Ref var code \<in> set ps \<Longrightarrow> repl_subst ev t ns var code = Inr (StrV (f var code))"
  shows "subst_arg ev t ns (concat (map print_part ps)) = Inr (concat (map (part_text f) ps))"
proof -
  have "join_values (map StrV ss) = Inr (concat ss)" for ss
    using join_StrV [of ss "[]"] by simp
  moreover have "concat (concat (map (strings_of f) ps)) = concat (map (part_text f) ps)"
    by (induction ps) (simp_all add: concat_strings_of)
  ultimately show ?thesis using assms by (simp add: subst_arg_def split_print repl_parts)
qed

lemma subst_no_dollar: "dollar \<notin> set s \<Longrightarrow> subst_arg ev t ns s = Inr s"
proof -
  assume "dollar \<notin> set s"
  then have "quote_dollars s = s" by (induction s) auto
  with subst_print [of "[Text s]" ev t ns] show ?thesis by simp
qed

section \<open>The names of a task\<close>

definition looks_up :: "evaluator \<Rightarrow> bool" where
  \<comment> \<open>evaluating a name that is bound gives its value\<close>
  "looks_up ev \<longleftrightarrow> (\<forall>ns x v. map_of ns x = Some v \<longrightarrow> ev ns x = Inr v)"

lemma map_of_updated: "map_of (updated kvs d) x = (case map_of (rev kvs) x of None \<Rightarrow> map_of d x | v \<Rightarrow> v)"
  by (induction kvs arbitrary: d) (auto simp: updated_def update_conv' map_add_def split: option.split)

lemma task_names:
  "map_of (task_namespace t vs) ''SRC'' = Some (InputsV (ct_inputs t))"
  "map_of (task_namespace t vs) ''TGT'' = Some (OutputsV (ct_outputs t))"
  by (simp_all add: task_namespace_def map_of_updated)

lemma subst_whole:
  assumes "looks_up ev"
  shows "repl_subst ev t (task_namespace t vs) ''SRC'' [] =
      (case ct_inputs t of [n] \<Rightarrow> Inr (StrV (nd_srcpath n)) | _ \<Rightarrow> Inl ValueError)"
    and "repl_subst ev t (task_namespace t vs) ''TGT'' [] =
      (case ct_outputs t of [n] \<Rightarrow> Inr (StrV (nd_bld_abspath n)) | _ \<Rightarrow> Inl ValueError)"
proof -
  have "ev (task_namespace t vs) ''SRC'' = Inr (InputsV (ct_inputs t))"
    and "ev (task_namespace t vs) ''TGT'' = Inr (OutputsV (ct_outputs t))"
    using assms task_names by (auto simp: looks_up_def)
  then show "repl_subst ev t (task_namespace t vs) ''SRC'' [] =
      (case ct_inputs t of [n] \<Rightarrow> Inr (StrV (nd_srcpath n)) | _ \<Rightarrow> Inl ValueError)"
    and "repl_subst ev t (task_namespace t vs) ''TGT'' [] =
      (case ct_outputs t of [n] \<Rightarrow> Inr (StrV (nd_bld_abspath n)) | _ \<Rightarrow> Inl ValueError)"
    by (simp_all add: repl_subst_def)
qed

section \<open>Substitution in a chain of pipes\<close>

fun node_fields :: "(string \<Rightarrow> string) \<Rightarrow> node \<Rightarrow> node" where
  "node_fields g (CommandNode c) = CommandNode (c\<lparr>cm_stdin := map_option g (cm_stdin c),
     cm_stdout := map_option (\<lambda>r. case r of ToFile f \<Rightarrow> ToFile (g f) | _ \<Rightarrow> r) (cm_stdout c),
     cm_stderr := map_option (\<lambda>r. case r of ToFile f \<Rightarrow> ToFile (g f) | _ \<Rightarrow> r) (cm_stderr c),
     cm_argv := map g (cm_argv c), cm_env := map (\<lambda>(name, v). (name, g v)) (cm_env c)\<rparr>)"
| "node_fields g (ChdirNode d) = ChdirNode (map_option g d)"
| "node_fields g n = n"

definition redirect_strings :: "redirect option \<Rightarrow> string list" where
  "redirect_strings r = (case r of Some (ToFile f) \<Rightarrow> [f] | _ \<Rightarrow> [])"

fun node_strings :: "node \<Rightarrow> string list" where
  "node_strings (CommandNode c) = (case cm_stdin c of None \<Rightarrow> [] | Some f \<Rightarrow> [f]) @
     redirect_strings (cm_stdout c) @ redirect_strings (cm_stderr c) @ cm_argv c @ map snd (cm_env c)"
| "node_strings (ChdirNode d) = (case d of None \<Rightarrow> [] | Some dir \<Rightarrow> [dir])"
| "node_strings n = []"

definition command_fields :: "(string \<Rightarrow> string) \<Rightarrow> command \<Rightarrow> command" where
  "command_fields g c = (case node_fields g (CommandNode c) of CommandNode c \<Rightarrow> c | _ \<Rightarrow> c)"

fun chain_fields :: "(string \<Rightarrow> string) \<Rightarrow> chain \<Rightarrow> chain" where
  "chain_fields g (Single (dirs, cs)) = Single (map g dirs, map (command_fields g) cs)"
| "chain_fields g (AndThen (dirs, cs) ch) = AndThen (map g dirs, map (command_fields g) cs) (chain_fields g ch)"
| "chain_fields g (OrElse (dirs, cs) ch) = OrElse (map g dirs, map (command_fields g) cs) (chain_fields g ch)"

lemma command_fields: "node_fields g (CommandNode c) = CommandNode (command_fields g c)"
  by (simp add: command_fields_def)

lemma pipe_nodes_fields: "map (node_fields g) (pipe_nodes cs) = pipe_nodes (map (command_fields g) cs)"
  by (induction cs rule: pipe_nodes.induct) (simp_all add: command_fields del: node_fields.simps(1))

lemma group_nodes_fields:
  "map (node_fields g) (group_nodes (dirs, cs)) = group_nodes (map g dirs, map (command_fields g) cs)"
  by (induction dirs) (simp_all add: pipe_nodes_fields)

lemma chain_nodes_fields: "map (node_fields g) (chain_nodes ch) = chain_nodes (chain_fields g ch)"
  by (induction g ch rule: chain_fields.induct) (simp_all add: group_nodes_fields del: group_nodes.simps)

lemma groups_fields:
  "list_all (\<lambda>g. snd g \<noteq> []) (groups (chain_fields f ch)) \<longleftrightarrow> list_all (\<lambda>g. snd g \<noteq> []) (groups ch)"
  by (induction f ch rule: chain_fields.induct) simp_all

lemma subst_redirect_fields:
  assumes "\<forall>s \<in> set (redirect_strings r). sub s = Inr (g s)"
  shows "ropt (subst_redirect sub) r = Inr (map_option (\<lambda>r. case r of ToFile f \<Rightarrow> ToFile (g f) | _ \<Rightarrow> r) r)"
proof (cases r)
  case (Some x)
  with assms show ?thesis by (cases x) (simp_all add: redirect_strings_def subst_redirect_def)
qed simp

lemma subst_node_fields:
  assumes "n \<noteq> ChdirNode None" and "\<forall>s \<in> set (node_strings n). sub s = Inr (g s)"
  shows "subst_node sub n = Inr (node_fields g n)"
proof (cases n)
  case (CommandNode c)
  with assms(2) have fields: "\<forall>s \<in> set (redirect_strings (cm_stdout c)). sub s = Inr (g s)"
    "\<forall>s \<in> set (redirect_strings (cm_stderr c)). sub s = Inr (g s)"
    "\<forall>s \<in> set (cm_argv c). sub s = Inr (g s)" "\<forall>kv \<in> set (cm_env c). sub (snd kv) = Inr (g (snd kv))"
    by auto
  have i: "ropt sub (cm_stdin c) = Inr (map_option g (cm_stdin c))"
    using assms(2) CommandNode by (cases "cm_stdin c") auto
  have env: "rmap (\<lambda>(name, v). rbind (sub v) (\<lambda>v. Inr (name, v))) (cm_env c) = Inr (map (\<lambda>(name, v). (name, g v)) (cm_env c))"
    using fields(4) by (intro rmap_total) auto
  have argv: "rmap sub (cm_argv c) = Inr (map g (cm_argv c))"
    using fields(3) by (intro rmap_total) auto
  show ?thesis
    by (simp add: CommandNode subst_node_def subst_command_def i env argv
        subst_redirect_fields [OF fields(1)] subst_redirect_fields [OF fields(2)])
next
  case (ChdirNode d)
  with assms show ?thesis by (cases d) (auto simp: subst_node_def)
qed (simp_all add: subst_node_def)

lemma subst_nodes_fields:
  assumes "\<forall>n \<in> set ns. n \<noteq> ChdirNode None \<and> (\<forall>s \<in> set (node_strings n). sub s = Inr (g s))"
  shows "rmap (subst_node sub) ns = Inr (map (node_fields g) ns)"
  using assms by (intro rmap_total subst_node_fields) auto

lemma chain_no_bare_cd: "ChdirNode None \<notin> set (chain_nodes ch)"
proof -
  have p: "ChdirNode None \<notin> set (pipe_nodes cs)" for cs
    by (induction cs rule: pipe_nodes.induct) auto
  have "ChdirNode None \<notin> set (group_nodes g)" for g
    using p by (cases g) auto
  then show ?thesis by (induction ch) auto
qed

section \<open>Properties\<close>

text \<open>C16: a word printed from literal text and references to variables is replaced by the text
  itself and the values of the references, so a dollar can be written in every word.\<close>

theorem subst_template:
  assumes "list_all part_ok ps"
    and "\<forall>var code. Ref var code \<in> set ps \<longrightarrow> repl_subst ev t ns var code = Inr (StrV (f var code))"
  shows "subst_arg ev t ns (concat (map print_part ps)) = Inr (concat (map (part_text f) ps))"
  using assms by (intro subst_print) auto

definition eval_names :: evaluator where
  "eval_names ns x = (case map_of ns x of Some v \<Rightarrow> Inr v | None \<Rightarrow> Inl NameError)"

lemma looks_up_names: "looks_up eval_names"
  by (simp add: looks_up_def eval_names_def)

definition copy_line :: string where
  "copy_line = ''cp ${SRC} ${TGT} && echo cost: $$${price}''"

definition copy_task :: command_task where
  "copy_task = fst (apply_command (\<lambda>f. \<lparr>nd_srcpath = f, nd_bld_abspath = ''/b/'' @ f, nd_bldpath = f\<rparr>)
     [(''price'', StrV ''5''), (''SRC'', StrV ''none'')]
     (init_command \<lparr>tg_command = Line copy_line, tg_variables = None, tg_rule = None,
        tg_source = [\<lparr>nd_srcpath = ''a && b'', nd_bld_abspath = ''/b/a'', nd_bldpath = ''a''\<rparr>],
        tg_target = [''c''], tg_dep_vars = None\<rparr>))"

theorem subst_template_witness:
  "subst_arg eval_names copy_task (task_namespace copy_task None) ''-o$$x=${TGT}'' = Inr ''-o$x=/b/c''"
proof -
  let ?ps = "[Text ''-o$x='', Ref ''TGT'' []]" and ?f = "\<lambda>_ _. ''/b/c''"
  have "repl_subst eval_names copy_task (task_namespace copy_task None) ''TGT'' [] = Inr (StrV ''/b/c'')"
    by (simp add: subst_whole(2) [OF looks_up_names] copy_task_def apply_command_def init_command_def Let_def)
  moreover have "list_all part_ok ?ps" by code_simp
  ultimately have "subst_arg eval_names copy_task (task_namespace copy_task None) (concat (map print_part ?ps)) =
      Inr (concat (map (part_text ?f) ?ps))"
    by (intro subst_template) auto
  then show ?thesis by simp
qed

text \<open>C15: a task whose command line is a chain of pipes runs the chain with the values put
  into its words: what a value contains never becomes an operator, a redirection or a further word,
  and the operators go on or stop as in the chain.\<close>

theorem run_task_chain:
  assumes "parse_task_line (tg_command (ct_generator t)) = Inr (chain_nodes ch)"
    and "tg_variables (ct_generator t) = Some vs" and "\<not> verbose > 0"
    and "open_world w code" and "list_all (\<lambda>g. snd g \<noteq> []) (groups ch)"
    and "\<forall>n \<in> set (chain_nodes ch). \<forall>s \<in> set (node_strings n). subst_arg ev t (task_namespace t vs) s = Inr (g s)"
  shows "\<exists>st. run_task ev w verbose t = Inr (Some (fst (chain_result w code ''.'' (chain_fields g ch))), st) \<and>
    rs_spawned st = snd (chain_result w code ''.'' (chain_fields g ch))"
proof -
  let ?start = "\<lparr>rs_pipe = False, rs_cwd = ''.'', rs_codes = [], rs_display = [], rs_spawned = [], rs_printed = []\<rparr>"
  obtain r ss where c: "chain_result w code ''.'' (chain_fields g ch) = (r, ss)" by fastforce
  have "rmap (subst_node (subst_arg ev t (task_namespace t vs))) (chain_nodes ch) = Inr (chain_nodes (chain_fields g ch))"
    unfolding chain_nodes_fields [symmetric] using assms(6) chain_no_bare_cd [of ch] by (intro subst_nodes_fields) metis
  then have "run_task ev w verbose t = run_pipeline w False (chain_nodes (chain_fields g ch))"
    using assms(1-3) by (simp add: run_task_def)
  with run_chain [OF assms(4), of "chain_fields g ch" ?start r ss] assms(5) c show ?thesis
    by (simp add: run_pipeline_def groups_fields)
qed

theorem run_task_chain_witness:
  "\<exists>w st. run_task eval_names w 0 copy_task = Inr (Some 0, st) \<and>
     map sp_argv (rs_spawned st) = [[''cp'', ''a && b'', ''/b/c''], [''echo'', ''cost:'', ''$5'']]"
proof -
  let ?w = "\<lparr>sw_popen = \<lambda>_. Inr 0, sw_readable = \<lambda>_. True, sw_writable = \<lambda>_. True, sw_environ = []\<rparr>"
  let ?sub = "subst_arg eval_names copy_task (task_namespace copy_task None)"
  let ?g = "\<lambda>s. case ?sub s of Inr r \<Rightarrow> r | _ \<Rightarrow> []"
  let ?cp = "(new_command ''cp'')\<lparr>cm_argv := [''cp'', ''${SRC}'', ''${TGT}'']\<rparr>"
  let ?echo = "(new_command ''echo'')\<lparr>cm_argv := [''echo'', ''cost:'', ''$$${price}'']\<rparr>"
  let ?ch = "AndThen ([], [?cp]) (Single ([], [?echo]))"
  have line: "parse_task_line (tg_command (ct_generator copy_task)) = Inr (chain_nodes ?ch)" by code_simp
  have subs: "?sub ''cp'' = Inr ''cp''" "?sub ''${SRC}'' = Inr ''a && b''" "?sub ''${TGT}'' = Inr ''/b/c''"
    "?sub ''echo'' = Inr ''echo''" "?sub ''cost:'' = Inr ''cost:''" "?sub ''$$${price}'' = Inr ''$5''"
    by code_simp+
  have "tg_variables (ct_generator copy_task) = Some None" by code_simp
  moreover have "open_world ?w (\<lambda>_. 0)" by (simp add: open_world_def)
  moreover have "\<forall>n \<in> set (chain_nodes ?ch). \<forall>s \<in> set (node_strings n). ?sub s = Inr (?g s)"
    using subs by (simp add: new_command_def redirect_strings_def)
  ultimately obtain st where st:
    "run_task eval_names ?w 0 copy_task = Inr (Some (fst (chain_result ?w (\<lambda>_. 0) ''.'' (chain_fields ?g ?ch))), st)"
    "rs_spawned st = snd (chain_result ?w (\<lambda>_. 0) ''.'' (chain_fields ?g ?ch))"
    using run_task_chain [OF line, of None 0 ?w "\<lambda>_. 0" eval_names ?g] by auto
  then show ?thesis
    by (intro exI [of _ ?w] exI [of _ st]) (simp add: spawn_of_def new_command_def command_fields_def subs Let_def)
qed

end
