(* ===== verification/Cflags.thy ===== *)
theory Cflags
  imports Py_Prelude
begin

text \<open>
  \<open>src/waf-tools/cflags.py\<close>, which sets the flags of the compilers for a build profile. Whether the
  compiler accepts a flag (\<open>check_cxx\<close>) is a parameter; the messages are not modelled.
\<close>

section \<open>Compilers\<close>

datatype compiler_traits = GccTraits | IccTraits | MsvcTraits

definition warnings_lists :: "compiler_traits \<Rightarrow> string list list" where
  "warnings_lists t = (case t of
     GccTraits \<Rightarrow> [[''-Wall'', ''-Wno-error=deprecated-declarations'', ''-fstrict-aliasing'', ''-Wstrict-aliasing'']]
   | IccTraits \<Rightarrow> [[], [], [''-Wall'']]
   | MsvcTraits \<Rightarrow> [[''/W2''], [''/WX''], [''/Wall'']])"

definition get_compiler_flags :: "compiler_traits \<Rightarrow> string list" where
  "get_compiler_flags t = (case t of
     GccTraits \<Rightarrow> [''-std=c++14''] | IccTraits \<Rightarrow> [''/Qstd=c++14''] | MsvcTraits \<Rightarrow> [])"

fun warnings_loop :: "string list list \<Rightarrow> int list \<Rightarrow> string list \<Rightarrow> string list" where
  "warnings_loop flags [] warnings = warnings"
| "warnings_loop flags (l # ls) warnings =
     (if l < int (length flags) then warnings_loop flags ls (warnings @ flags ! nat l) else warnings)"

definition get_warnings_flags :: "compiler_traits \<Rightarrow> int \<Rightarrow> string list" where
  "get_warnings_flags t level = warnings_loop (warnings_lists t) [0..level - 1] []"

definition get_optimization_flags :: "compiler_traits \<Rightarrow> int \<Rightarrow> string list option" where
  \<comment> \<open>no branch returns for another level\<close>
  "get_optimization_flags t level = (case t of
     MsvcTraits \<Rightarrow>
       if level = 0 then Some [''/Od''] else if level = 1 then Some [] else if level = 2 then Some [''/O2'']
       else if level = 3 then Some [''/Ox''] else None
   | _ \<Rightarrow>
       if level = 0 then Some [''-O0''] else if level = 1 then Some [''-O''] else if level = 2 then Some [''-O2'']
       else if level = 3 then Some [''-O3''] else None)"

definition get_debug_flags :: "compiler_traits \<Rightarrow> int \<Rightarrow> (string list \<times> string list) option" where
  \<comment> \<open>flags and defines\<close>
  "get_debug_flags t level = (case t of
     MsvcTraits \<Rightarrow>
       if level = 0 then Some ([], [''NDEBUG'']) else if level = 1 then Some ([''/ZI'', ''/RTC1''], [])
       else if level \<ge> 2 then Some ([''/ZI'', ''/RTC1''], [''_DEBUG'']) else None
   | _ \<Rightarrow>
       if level = 0 then Some ([''-g0''], [''NDEBUG'']) else if level = 1 then Some ([''-g''], [])
       else if level \<ge> 2 then Some ([''-ggdb'', ''-g3''], [''_DEBUG'']) else None)"

definition compiler_mapping :: "(string \<times> compiler_traits) list" where
  "compiler_mapping = [(''gcc'', GccTraits), (''g++'', GccTraits), (''msvc'', MsvcTraits), (''icc'', IccTraits),
     (''icpc'', IccTraits), (''clang'', GccTraits), (''clang++'', GccTraits)]"

definition profiles :: "(string \<times> (int \<times> int \<times> int)) list" where
  \<comment> \<open>levels of optimization, warnings and debugging\<close>
  "profiles = [(''default'', (2, 1, 1)), (''debug'', (0, 2, 3)), (''release'', (3, 1, 0))]"

section \<open>Configuring\<close>

record flags_env =
  fe_cc :: "string option"     \<comment> \<open>\<open>COMPILER_CC\<close>, \<open>None\<close> if it is not set or empty\<close>
  fe_cxx :: "string option"
  fe_ccflags :: "string list"
  fe_ccdefines :: "string list"
  fe_cxxflags :: "string list"
  fe_cxxdefines :: "string list"

record flag_options =
  fo_profile :: string
  fo_disable_werror :: bool

definition get_supported_cxxflags :: "(string list \<Rightarrow> bool) \<Rightarrow> string list option \<Rightarrow> string list pyres" where
  \<comment> \<open>iterating over \<open>None\<close> is a \<open>TypeError\<close>\<close>
  "get_supported_cxxflags check_cxx flags = (case flags of
     None \<Rightarrow> Inl TypeError
   | Some fs \<Rightarrow> Inr (filter (\<lambda>f. check_cxx [''-Werror'', f]) fs))"

definition find_compiler :: "flags_env \<Rightarrow> compiler_traits option" where
  "find_compiler env = (case Option.bind (fe_cc env) (map_of compiler_mapping) of
     Some t \<Rightarrow> Some t
   | None \<Rightarrow> Option.bind (fe_cxx env) (map_of compiler_mapping))"

definition append_flags :: "string list \<Rightarrow> string list \<Rightarrow> string list \<Rightarrow> string list \<Rightarrow> string list \<Rightarrow> flags_env \<Rightarrow> flags_env" where
  "append_flags compiler optimizations debug warnings debug_defs env =
     (let env = (if fe_cc env \<noteq> None \<and> fe_ccflags env = [] then
                   env\<lparr>fe_ccflags := fe_ccflags env @ optimizations @ debug @ warnings,
                       fe_ccdefines := fe_ccdefines env @ debug_defs\<rparr>
                 else env)
      in if fe_cxx env \<noteq> None \<and> fe_cxxflags env = [] then
           env\<lparr>fe_cxxflags := fe_cxxflags env @ compiler @ optimizations @ debug @ warnings,
               fe_cxxdefines := fe_cxxdefines env @ debug_defs\<rparr>
         else env)"

definition configure :: "(string list \<Rightarrow> bool) \<Rightarrow> flag_options \<Rightarrow> flags_env \<Rightarrow> flags_env pyres" where
  \<comment> \<open>\<open>WafError\<close> is \<open>PyException\<close>\<close>
  "configure check_cxx opts env =
     (if fe_cc env = None \<and> fe_cxx env = None then Inl PyException
      else case find_compiler env of
        None \<Rightarrow> Inr env
      | Some t \<Rightarrow> (case map_of profiles (fo_profile opts) of
          None \<Rightarrow> Inl KeyError
        | Some (opt_level, warn_level, dbg_level) \<Rightarrow>
            rbind (get_supported_cxxflags check_cxx (Some (get_compiler_flags t))) (\<lambda>compiler.
            rbind (get_supported_cxxflags check_cxx (get_optimization_flags t opt_level)) (\<lambda>optimizations.
            case get_debug_flags t dbg_level of
              None \<Rightarrow> Inl TypeError
            | Some (debug, debug_defs) \<Rightarrow>
                rbind (get_supported_cxxflags check_cxx (Some debug)) (\<lambda>debug.
                rbind (get_supported_cxxflags check_cxx (Some (get_warnings_flags t warn_level))) (\<lambda>warnings.
                let warnings = (if fo_disable_werror opts then remove1 ''-Werror'' warnings else warnings)
                in Inr (append_flags compiler optimizations debug warnings debug_defs env)))))))"

section \<open>What the profiles give\<close>

lemma warnings_loop_set:
  "\<forall>l \<in> set ls. 0 \<le> l \<Longrightarrow> set (warnings_loop flags ls ws) \<subseteq> set ws \<union> (\<Union>f \<in> set flags. set f)"
proof (induction flags ls ws rule: warnings_loop.induct)
  case (2 flags l ls ws)
  show ?case
  proof (cases "l < int (length flags)")
    case True
    with 2 have "set (warnings_loop flags ls (ws @ flags ! nat l)) \<subseteq> set (ws @ flags ! nat l) \<union> (\<Union>f \<in> set flags. set f)"
      by simp
    moreover have "flags ! nat l \<in> set flags" using True "2.prems" by (intro nth_mem) (simp add: nat_less_iff)
    ultimately show ?thesis using True by auto
  qed simp
qed simp

lemma no_werror: "''-Werror'' \<notin> set (get_warnings_flags t level)"
proof -
  have "set (get_warnings_flags t level) \<subseteq> (\<Union>f \<in> set (warnings_lists t). set f)"
    unfolding get_warnings_flags_def using warnings_loop_set [of "[0..level - 1]" "warnings_lists t" "[]"] by simp
  moreover have "''-Werror'' \<notin> (\<Union>f \<in> set (warnings_lists t). set f)" by (cases t) (simp_all add: warnings_lists_def)
  ultimately show ?thesis by blast
qed

lemma profile_levels:
  assumes "map_of profiles p = Some (opt_level, warn_level, dbg_level)"
  obtains opts dbg defs where "get_optimization_flags t opt_level = Some opts" "get_debug_flags t dbg_level = Some (dbg, defs)"
  using assms that
  by (cases t) (auto simp: profiles_def get_optimization_flags_def get_debug_flags_def split: if_splits)

lemma configure_result:
  assumes "find_compiler env = Some t" and "map_of profiles (fo_profile opts) = Some (opt_level, warn_level, dbg_level)"
    and "get_optimization_flags t opt_level = Some os" and "get_debug_flags t dbg_level = Some (dbg, defs)"
  shows "configure check_cxx opts env =
    (let ok = filter (\<lambda>f. check_cxx [''-Werror'', f])
     in Inr (append_flags (ok (get_compiler_flags t)) (ok os) (ok dbg) (ok (get_warnings_flags t warn_level)) defs env))"
proof -
  have "fe_cc env \<noteq> None \<or> fe_cxx env \<noteq> None" using assms(1) by (cases "fe_cc env"; cases "fe_cxx env") (auto simp: find_compiler_def)
  moreover have "remove1 ''-Werror'' (filter (\<lambda>f. check_cxx [''-Werror'', f]) (get_warnings_flags t warn_level)) =
      filter (\<lambda>f. check_cxx [''-Werror'', f]) (get_warnings_flags t warn_level)"
    using no_werror by (intro remove1_idem) simp
  ultimately show ?thesis
    using assms by (auto simp: configure_def get_supported_cxxflags_def Let_def)
qed

text \<open>The option \<open>--disable-werror\<close> changes nothing: no list of warnings has the flag.\<close>

lemma disable_werror_no_effect: "configure check_cxx (opts\<lparr>fo_disable_werror := b\<rparr>) env = configure check_cxx opts env"
proof (cases "find_compiler env")
  case None
  then show ?thesis by (simp add: configure_def)
next
  case (Some t)
  show ?thesis
  proof (cases "map_of profiles (fo_profile opts)")
    case None
    with Some show ?thesis by (simp add: configure_def)
  next
    case (Some levels)
    then obtain ol wl dl where p: "map_of profiles (fo_profile opts) = Some (ol, wl, dl)" by (cases levels) auto
    then obtain os dbg defs where "get_optimization_flags t ol = Some os" "get_debug_flags t dl = Some (dbg, defs)"
      by (rule profile_levels)
    with \<open>find_compiler env = Some t\<close> p show ?thesis by (simp add: configure_result)
  qed
qed

lemma configure_keeps_given:
  assumes "configure check_cxx opts env = Inr env'"
  shows "fe_ccflags env \<noteq> [] \<Longrightarrow> fe_ccflags env' = fe_ccflags env \<and> fe_ccdefines env' = fe_ccdefines env"
    and "fe_cxxflags env \<noteq> [] \<Longrightarrow> fe_cxxflags env' = fe_cxxflags env \<and> fe_cxxdefines env' = fe_cxxdefines env"
proof -
  have "env' = env \<or> (\<exists>c os dbg ws defs. env' = append_flags c os dbg ws defs env)"
  proof (cases "find_compiler env")
    case None
    with assms show ?thesis by (simp add: configure_def split: if_splits)
  next
    case (Some t)
    with assms obtain ol wl dl where p: "map_of profiles (fo_profile opts) = Some (ol, wl, dl)"
      by (auto simp: configure_def split: if_splits option.splits)
    then obtain os dbg defs where "get_optimization_flags t ol = Some os" "get_debug_flags t dl = Some (dbg, defs)"
      by (rule profile_levels)
    with configure_result [OF Some p this, of check_cxx] assms show ?thesis by (simp add: Let_def) metis
  qed
  then show "fe_ccflags env \<noteq> [] \<Longrightarrow> fe_ccflags env' = fe_ccflags env \<and> fe_ccdefines env' = fe_ccdefines env"
    and "fe_cxxflags env \<noteq> [] \<Longrightarrow> fe_cxxflags env' = fe_cxxflags env \<and> fe_cxxdefines env' = fe_cxxdefines env"
    by (auto simp: append_flags_def Let_def)
qed

lemma configure_cxxflags:
  assumes "find_compiler env = Some t" and "map_of profiles (fo_profile opts) = Some (opt_level, warn_level, dbg_level)"
    and "fe_cxx env \<noteq> None" and "fe_cxxflags env = []" and "configure check_cxx opts env = Inr env'"
  shows "fe_cxxflags env' = filter (\<lambda>f. check_cxx [''-Werror'', f])
      (get_compiler_flags t @ the (get_optimization_flags t opt_level) @ fst (the (get_debug_flags t dbg_level)) @
       get_warnings_flags t warn_level) \<and>
    fe_cxxdefines env' = fe_cxxdefines env @ snd (the (get_debug_flags t dbg_level))"
proof -
  obtain os dbg defs where l: "get_optimization_flags t opt_level = Some os" "get_debug_flags t dbg_level = Some (dbg, defs)"
    using assms(2) by (rule profile_levels)
  then show ?thesis
    using configure_result [OF assms(1,2) l, of check_cxx] assms(3-) by (auto simp: append_flags_def Let_def)
qed

end
