(* ===== verification/Viz_Sim.thy ===== *)
theory Viz_Sim
  imports Py_Prelude
begin

text \<open>
  The simulation thread of \<open>src/visualizer/visualizer/core.py\<close> and the handlers of the window that
  share its lock. The window runs one event at a time, but \<open>update_view_timeout\<close> runs the pending
  events while it waits for the lock, so its activations form a stack of frames; the simulation
  thread has its place in \<open>run\<close>. Both advance in any order. GLib numbers its sources upwards, never
  dispatches a source inside itself, and ignores the removal of one that is gone; \<open>SimulatorRunUntil\<close>
  stops at the time it is given or earlier, and does nothing when that time is past. Times are
  rational numbers of seconds.
\<close>

section \<open>The state\<close>

datatype owner = Gui | Sim

datatype sim_place =
    AtLoop       \<comment> \<open>\<open>while not self.quit\<close>\<close>
  | AtWait       \<comment> \<open>\<open>go.wait()\<close>\<close>
  | AtClear      \<comment> \<open>\<open>go.clear()\<close>\<close>
  | AtCheck      \<comment> \<open>\<open>if self.quit\<close>\<close>
  | AtAcquire    \<comment> \<open>\<open>lock.acquire()\<close>\<close>
  | Simulating   \<comment> \<open>\<open>SimulatorRunUntil\<close>\<close>
  | Reporting    \<comment> \<open>what follows it, up to the release\<close>
  | Ended

datatype locked_call =
    PeriodicUpdate   \<comment> \<open>\<open>update_model\<close>\<close>
  | LockedAction     \<comment> \<open>a handler that holds the lock for its work: tooltips, dragging, nodes of interest\<close>

datatype unlocked_call =
    Autoscale        \<comment> \<open>\<open>autoscale_view\<close>, once, 200 milliseconds after the start\<close>
  | NodeMenu         \<comment> \<open>\<open>popup_node_menu\<close>, in which the plugin of OLSR looks into the node\<close>

datatype frame =
    TryLock nat                \<comment> \<open>\<open>update_view_timeout\<close> of a timer, at \<open>lock.acquire(False)\<close>\<close>
  | Pump nat                   \<comment> \<open>in its loop over the pending events\<close>
  | Viewing nat "string list"  \<comment> \<open>with the lock and the pause messages\<close>
  | Viewed nat "string list"   \<comment> \<open>after the release\<close>
  | WantsLock locked_call
  | HoldsLock locked_call
  | Unlocked unlocked_call     \<comment> \<open>reads the simulation without the lock\<close>
  | Joining                    \<comment> \<open>\<open>_quit\<close>, at \<open>simulation.join()\<close>\<close>

record viz =
  sv_lock :: "owner option"
  sv_go :: bool
  sv_quit :: bool
  sv_target :: rat
  sv_now :: rat
  sv_sim :: sim_place
  sv_pauses :: "string list"   \<comment> \<open>\<open>pause_messages\<close>\<close>
  sv_idle :: nat               \<comment> \<open>calls of \<open>update_model\<close> that wait for the window to be idle\<close>
  sv_timer :: "nat option"     \<comment> \<open>\<open>_update_timeout_id\<close>\<close>
  sv_sources :: "(nat \<times> int) list"  \<comment> \<open>live timers and their intervals in milliseconds\<close>
  sv_next :: nat
  sv_autoscale :: bool         \<comment> \<open>the timer of \<open>autoscale_view\<close> is live\<close>
  sv_play :: bool
  sv_speed :: rat
  sv_period :: rat
  sv_frames :: "frame list"    \<comment> \<open>innermost first\<close>
  sv_main_quit :: bool
  sv_shown :: rat              \<comment> \<open>the time in the label\<close>
  sv_dialogs :: "string list"  \<comment> \<open>messages that have been shown\<close>
  sv_emitted :: "string list"  \<comment> \<open>history: messages the simulator has given\<close>
  sv_lost :: "string list"     \<comment> \<open>history: messages taken by an update that raised\<close>

section \<open>The handlers\<close>

definition SAMPLE_PERIOD :: rat where
  "SAMPLE_PERIOD = 1 / 10"

definition source_remove :: "nat \<Rightarrow> viz \<Rightarrow> viz" where
  "source_remove i v = v\<lparr>sv_sources := filter (\<lambda>(j, _). j \<noteq> i) (sv_sources v)\<rparr>"

definition remove_timer :: "viz \<Rightarrow> viz" where
  \<comment> \<open>the identifier stays\<close>
  "remove_timer v = (case sv_timer v of None \<Rightarrow> v | Some i \<Rightarrow> source_remove i v)"

definition timer_interval :: "rat \<Rightarrow> int" where
  "timer_interval speed = \<lfloor>SAMPLE_PERIOD / min speed 1 * 1000\<rfloor>"

definition start_update_timer :: "viz \<Rightarrow> viz" where
  "start_update_timer v =
     (let v = remove_timer v
      in v\<lparr>sv_timer := Some (sv_next v), sv_sources := sv_sources v @ [(sv_next v, timer_interval (sv_speed v))],
           sv_next := sv_next v + 1\<rparr>)"

definition on_play_button_toggled :: "viz \<Rightarrow> viz" where
  "on_play_button_toggled v = (if sv_play v then start_update_timer v else remove_timer v)"

definition set_active :: "bool \<Rightarrow> viz \<Rightarrow> viz" where
  \<comment> \<open>the button calls its handler only when its state changes\<close>
  "set_active b v = (if b = sv_play v then v else on_play_button_toggled (v\<lparr>sv_play := b\<rparr>))"

definition speed_changed :: "rat \<Rightarrow> viz \<Rightarrow> viz" where
  "speed_changed s v = start_update_timer (v\<lparr>sv_speed := s, sv_period := SAMPLE_PERIOD * s\<rparr>)"

definition take_messages :: "nat \<Rightarrow> viz \<Rightarrow> viz" where
  "take_messages i v =
     v\<lparr>sv_lock := Some Gui, sv_pauses := [], sv_frames := Viewing i (sv_pauses v) # tl (sv_frames v)\<rparr>"

definition update_view :: "nat \<Rightarrow> string list \<Rightarrow> viz \<Rightarrow> viz" where
  "update_view i msgs v =
     v\<lparr>sv_shown := sv_now v, sv_target := sv_now v + sv_period v, sv_lock := None,
       sv_frames := Viewed i msgs # tl (sv_frames v)\<rparr>"

definition view_raises :: "nat \<Rightarrow> string list \<Rightarrow> viz \<Rightarrow> viz" where
  \<comment> \<open>the label is set first; the lock is released and the exception makes GLib remove the source\<close>
  "view_raises i msgs v =
     source_remove i (v\<lparr>sv_shown := sv_now v, sv_lock := None, sv_lost := sv_lost v @ msgs, sv_frames := tl (sv_frames v)\<rparr>)"

definition finish_timeout :: "nat \<Rightarrow> string list \<Rightarrow> viz \<Rightarrow> viz" where
  "finish_timeout i msgs v =
     (let v = v\<lparr>sv_frames := tl (sv_frames v)\<rparr>;
          v = (if msgs \<noteq> [] then set_active False (v\<lparr>sv_dialogs := sv_dialogs v @ msgs\<rparr>) else v)
      in if \<not> sv_play v then source_remove i (v\<lparr>sv_timer := None\<rparr>) else v\<lparr>sv_go := True\<rparr>)"

definition quit_handler :: "viz \<Rightarrow> viz" where
  "quit_handler v =
     (let v = (if sv_timer v \<noteq> None then (remove_timer v)\<lparr>sv_timer := None\<rparr> else v)
      in v\<lparr>sv_quit := True, sv_go := True, sv_frames := Joining # sv_frames v\<rparr>)"

definition new_viz :: viz where
  \<comment> \<open>after \<open>__init__\<close>, which starts the timer, and \<open>start\<close>\<close>
  "new_viz = speed_changed 1
     \<lparr>sv_lock = None, sv_go = False, sv_quit = False, sv_target = 0, sv_now = 0, sv_sim = AtLoop, sv_pauses = [],
      sv_idle = 0, sv_timer = None, sv_sources = [], sv_next = 0, sv_autoscale = True, sv_play = False, sv_speed = 1,
      sv_period = SAMPLE_PERIOD, sv_frames = [], sv_main_quit = False, sv_shown = 0, sv_dialogs = [],
      sv_emitted = [], sv_lost = []\<rparr>"

section \<open>The two threads\<close>

inductive sim_step :: "viz \<Rightarrow> viz \<Rightarrow> bool" where
  loop: "sv_sim v = AtLoop \<Longrightarrow> sim_step v (v\<lparr>sv_sim := if sv_quit v then Ended else AtWait\<rparr>)"
| wait: "sv_sim v = AtWait \<Longrightarrow> sv_go v \<Longrightarrow> sim_step v (v\<lparr>sv_sim := AtClear\<rparr>)"
| clear: "sv_sim v = AtClear \<Longrightarrow> sim_step v (v\<lparr>sv_go := False, sv_sim := AtCheck\<rparr>)"
| check: "sv_sim v = AtCheck \<Longrightarrow> sim_step v (v\<lparr>sv_sim := if sv_quit v then Ended else AtAcquire\<rparr>)"
| acquire: "sv_sim v = AtAcquire \<Longrightarrow> sv_lock v = None \<Longrightarrow> sim_step v (v\<lparr>sv_lock := Some Sim, sv_sim := Simulating\<rparr>)"
| simulate: "sv_sim v = Simulating \<Longrightarrow> sv_now v \<le> t \<Longrightarrow> t \<le> max (sv_now v) (sv_target v) \<Longrightarrow>
    sim_step v (v\<lparr>sv_now := t, sv_sim := Reporting\<rparr>)"
| report: "sv_sim v = Reporting \<Longrightarrow>
    sim_step v (v\<lparr>sv_pauses := sv_pauses v @ msgs, sv_emitted := sv_emitted v @ msgs, sv_idle := sv_idle v + 1,
                 sv_lock := None, sv_sim := AtLoop\<rparr>)"

definition ready :: "viz \<Rightarrow> bool" where
  \<comment> \<open>an event loop, the main one or one inside \<open>update_view_timeout\<close>, takes the next event\<close>
  "ready v \<longleftrightarrow> (case sv_frames v of [] \<Rightarrow> \<not> sv_main_quit v | f # _ \<Rightarrow> (case f of Pump _ \<Rightarrow> True | _ \<Rightarrow> False))"

fun frame_timer :: "frame \<Rightarrow> nat option" where
  "frame_timer (TryLock i) = Some i"
| "frame_timer (Pump i) = Some i"
| "frame_timer (Viewing i _) = Some i"
| "frame_timer (Viewed i _) = Some i"
| "frame_timer _ = None"

inductive gui_step :: "viz \<Rightarrow> viz \<Rightarrow> bool" where
  fire: "ready v \<Longrightarrow> i \<in> set (keys (sv_sources v)) \<Longrightarrow> \<not> list_ex (\<lambda>f. frame_timer f = Some i) (sv_frames v) \<Longrightarrow>
    gui_step v (v\<lparr>sv_frames := TryLock i # sv_frames v\<rparr>)"
| idle: "ready v \<Longrightarrow> sv_idle v = Suc n \<Longrightarrow>
    gui_step v (v\<lparr>sv_idle := n, sv_frames := WantsLock PeriodicUpdate # sv_frames v\<rparr>)"
| action: "ready v \<Longrightarrow> gui_step v (v\<lparr>sv_frames := WantsLock LockedAction # sv_frames v\<rparr>)"
| autoscale: "ready v \<Longrightarrow> sv_autoscale v \<Longrightarrow>
    gui_step v (v\<lparr>sv_autoscale := False, sv_frames := Unlocked Autoscale # sv_frames v\<rparr>)"
| menu: "ready v \<Longrightarrow> gui_step v (v\<lparr>sv_frames := Unlocked NodeMenu # sv_frames v\<rparr>)"
| unlocked: "sv_frames v = Unlocked c # fs \<Longrightarrow> gui_step v (v\<lparr>sv_frames := fs\<rparr>)"
| toggle: "ready v \<Longrightarrow> gui_step v (set_active (\<not> sv_play v) v)"
| speed: "ready v \<Longrightarrow> 1 / 100 \<le> s \<Longrightarrow> s \<le> 10 \<Longrightarrow> gui_step v (speed_changed s v)"
| close: "ready v \<Longrightarrow> \<not> sv_quit v \<Longrightarrow> gui_step v (quit_handler v)"
| busy: "sv_frames v = TryLock i # fs \<Longrightarrow> sv_lock v \<noteq> None \<Longrightarrow> gui_step v (v\<lparr>sv_frames := Pump i # fs\<rparr>)"
| pumped: "sv_frames v = Pump i # fs \<Longrightarrow> gui_step v (v\<lparr>sv_frames := TryLock i # fs\<rparr>)"
| locked: "sv_frames v = TryLock i # fs \<Longrightarrow> sv_lock v = None \<Longrightarrow> gui_step v (take_messages i v)"
| view: "sv_frames v = Viewing i msgs # fs \<Longrightarrow> gui_step v (update_view i msgs v)"
| raised: "sv_frames v = Viewing i msgs # fs \<Longrightarrow> gui_step v (view_raises i msgs v)"
| timeout: "sv_frames v = Viewed i msgs # fs \<Longrightarrow> gui_step v (finish_timeout i msgs v)"
| lock_call: "sv_frames v = WantsLock c # fs \<Longrightarrow> sv_lock v = None \<Longrightarrow>
    gui_step v (v\<lparr>sv_lock := Some Gui, sv_frames := HoldsLock c # fs\<rparr>)"
| release: "sv_frames v = HoldsLock c # fs \<Longrightarrow> gui_step v (v\<lparr>sv_lock := None, sv_frames := fs\<rparr>)"
| joined: "sv_frames v = Joining # fs \<Longrightarrow> sv_sim v = Ended \<Longrightarrow> gui_step v (v\<lparr>sv_main_quit := True, sv_frames := fs\<rparr>)"

definition viz_step :: "viz \<Rightarrow> viz \<Rightarrow> bool" where
  "viz_step v v' \<longleftrightarrow> sim_step v v' \<or> gui_step v v'"

abbreviation viz_reach :: "viz \<Rightarrow> bool" where
  "viz_reach \<equiv> rtranclp viz_step new_viz"

section \<open>What the handlers leave alone\<close>

definition core :: "viz \<Rightarrow> _" where
  \<comment> \<open>everything but the timers, the play button and the speed\<close>
  "core v = ((sv_lock v, sv_go v, sv_quit v, sv_target v, sv_now v, sv_sim v, sv_pauses v),
     (sv_idle v, sv_frames v, sv_main_quit v, sv_shown v, sv_dialogs v, sv_emitted v, sv_lost v))"

lemma core_fields:
  assumes "core v = core w"
  shows "sv_lock v = sv_lock w" "sv_go v = sv_go w" "sv_quit v = sv_quit w" "sv_target v = sv_target w"
    "sv_now v = sv_now w" "sv_sim v = sv_sim w" "sv_pauses v = sv_pauses w" "sv_idle v = sv_idle w"
    "sv_frames v = sv_frames w" "sv_main_quit v = sv_main_quit w" "sv_shown v = sv_shown w"
    "sv_dialogs v = sv_dialogs w" "sv_emitted v = sv_emitted w" "sv_lost v = sv_lost w"
  using assms by (simp_all add: core_def)

lemma core_source_remove: "core (source_remove i v) = core v"
  by (simp add: core_def source_remove_def)

lemma core_remove_timer: "core (remove_timer v) = core v"
  by (simp add: remove_timer_def core_source_remove split: option.split)

lemma core_start_update_timer: "core (start_update_timer v) = core v"
  using core_remove_timer [of v] by (simp add: core_def start_update_timer_def Let_def)

lemma core_speed_changed: "core (speed_changed s v) = core v"
  by (simp add: speed_changed_def core_start_update_timer) (simp add: core_def)

lemma core_toggled: "core (on_play_button_toggled v) = core v"
  by (simp add: on_play_button_toggled_def core_start_update_timer core_remove_timer)

lemma core_set_active: "core (set_active b v) = core v"
  by (simp add: set_active_def core_toggled) (simp add: core_def)

lemmas core_simps [simp] = core_fields [OF core_source_remove] core_fields [OF core_remove_timer]
  core_fields [OF core_speed_changed] core_fields [OF core_set_active]

lemma period_simps [simp]:
  "sv_period (source_remove i v) = sv_period v" "sv_period (remove_timer v) = sv_period v"
  "sv_period (set_active b v) = sv_period v" "sv_period (speed_changed s v) = SAMPLE_PERIOD * s"
  by (simp_all add: source_remove_def remove_timer_def set_active_def on_play_button_toggled_def start_update_timer_def
      speed_changed_def Let_def split: option.split)

lemmas handler_defs = take_messages_def update_view_def view_raises_def finish_timeout_def quit_handler_def Let_def

section \<open>Invariants\<close>


fun holding :: "frame \<Rightarrow> bool" where
  "holding (Viewing i msgs) \<longleftrightarrow> True"
| "holding (HoldsLock c) \<longleftrightarrow> True"
| "holding _ \<longleftrightarrow> False"

fun pumping :: "frame \<Rightarrow> bool" where
  "pumping (Pump i) \<longleftrightarrow> True"
| "pumping _ \<longleftrightarrow> False"

definition lock_ok :: "viz \<Rightarrow> bool" where
  "lock_ok v \<longleftrightarrow> (sv_lock v = Some Sim \<longleftrightarrow> sv_sim v \<in> {Simulating, Reporting}) \<and>
     (sv_lock v = Some Gui \<longleftrightarrow> (case sv_frames v of [] \<Rightarrow> False | f # _ \<Rightarrow> holding f)) \<and>
     list_all pumping (tl (sv_frames v))"

lemma ready_frames:
  assumes "ready v" and "lock_ok v"
  shows "list_all pumping (sv_frames v)" and "sv_lock v \<noteq> Some Gui"
  using assms by (auto simp: ready_def lock_ok_def split: list.splits frame.splits)

lemma lock_ok_push: "lock_ok v \<Longrightarrow> ready v \<Longrightarrow> \<not> holding f \<Longrightarrow> sv_lock w = sv_lock v \<Longrightarrow> sv_sim w = sv_sim v \<Longrightarrow>
    sv_frames w = f # sv_frames v \<Longrightarrow> lock_ok w"
  using ready_frames [of v] by (auto simp: lock_ok_def)

lemma tl_pumping: "list_all pumping fs \<Longrightarrow> list_all pumping (tl fs)"
  by (cases fs) simp_all

lemma pumping_holding: "pumping f \<Longrightarrow> \<not> holding f"
  by (cases f) simp_all

lemma pumping_not_holding: "list_all pumping fs \<Longrightarrow> (case fs of [] \<Rightarrow> False | f # _ \<Rightarrow> holding f) = False"
  by (auto split: list.split dest: pumping_holding)

lemma lock_ok_sim: "sim_step v w \<Longrightarrow> lock_ok v \<Longrightarrow> lock_ok w"
  by (induction rule: sim_step.induct) (auto simp: lock_ok_def)

lemma lock_ok_gui: "gui_step v w \<Longrightarrow> lock_ok v \<Longrightarrow> lock_ok w"
proof (induction rule: gui_step.induct)
  case (fire v i)
  show ?case by (rule lock_ok_push [of v "TryLock i"]) (simp_all add: fire)
next
  case (idle v n)
  show ?case by (rule lock_ok_push [of v "WantsLock PeriodicUpdate"]) (simp_all add: idle)
next
  case (action v)
  show ?case by (rule lock_ok_push [of v "WantsLock LockedAction"]) (simp_all add: action)
next
  case (autoscale v)
  show ?case by (rule lock_ok_push [of v "Unlocked Autoscale"]) (simp_all add: autoscale)
next
  case (menu v)
  show ?case by (rule lock_ok_push [of v "Unlocked NodeMenu"]) (simp_all add: menu)
next
  case (close v)
  show ?case by (rule lock_ok_push [of v Joining]) (simp_all add: close quit_handler_def Let_def)
qed (auto simp: lock_ok_def handler_defs tl_pumping pumping_not_holding)

interpretation lock: preserved viz_step lock_ok
  by unfold_locales (auto simp: viz_step_def intro: lock_ok_sim lock_ok_gui)

lemma lock_ok_new: "lock_ok new_viz"
  by code_simp

definition time_ok :: "viz \<Rightarrow> bool" where
  "time_ok v \<longleftrightarrow> sv_now v \<le> sv_target v \<and> sv_shown v \<le> sv_now v \<and> sv_target v \<le> sv_shown v + 1 \<and>
     0 \<le> sv_period v \<and> sv_period v \<le> 1"

lemma time_ok_sim: "sim_step v w \<Longrightarrow> time_ok v \<Longrightarrow> time_ok w"
  by (induction rule: sim_step.induct) (auto simp: time_ok_def)

lemma time_ok_gui: "gui_step v w \<Longrightarrow> time_ok v \<Longrightarrow> time_ok w"
  by (induction rule: gui_step.induct) (auto simp: time_ok_def handler_defs SAMPLE_PERIOD_def)

interpretation time: preserved viz_step time_ok
  by unfold_locales (auto simp: viz_step_def intro: time_ok_sim time_ok_gui)

lemma time_ok_new: "time_ok new_viz"
  by code_simp

fun messages :: "frame list \<Rightarrow> string list" where
  "messages (Viewing i msgs # fs) = msgs"
| "messages (Viewed i msgs # fs) = msgs"
| "messages _ = []"

definition messages_ok :: "viz \<Rightarrow> bool" where
  "messages_ok v \<longleftrightarrow> lock_ok v \<and>
     (sv_lost v = [] \<longrightarrow> sv_emitted v = sv_dialogs v @ messages (sv_frames v) @ sv_pauses v)"

lemma messages_pumping: "list_all pumping fs \<Longrightarrow> messages fs = []"
  by (cases fs rule: messages.cases) auto

lemma ready_messages: "ready v \<Longrightarrow> lock_ok v \<Longrightarrow> messages (sv_frames v) = []"
  by (simp add: ready_frames messages_pumping)

lemma messages_ok_gui: "gui_step v w \<Longrightarrow> messages_ok v \<Longrightarrow> messages_ok w"
proof -
  assume step: "gui_step v w" and ok: "messages_ok v"
  then have lock: "lock_ok v" "lock_ok w" by (auto simp: messages_ok_def intro: lock_ok_gui)
  have below: "messages fs = []" if "sv_frames v = f # fs" for f fs
    using lock(1) that by (auto simp: lock_ok_def intro: messages_pumping)
  have above: "ready v \<Longrightarrow> messages (sv_frames v) = []" using ready_messages lock(1) by blast
  have "sv_lost w = [] \<longrightarrow> sv_emitted w = sv_dialogs w @ messages (sv_frames w) @ sv_pauses w"
    using step ok by (cases; simp add: handler_defs messages_ok_def; use above below in force)
  with lock show ?thesis by (simp add: messages_ok_def)
qed

lemma messages_ok_sim: "sim_step v w \<Longrightarrow> messages_ok v \<Longrightarrow> messages_ok w"
proof -
  assume step: "sim_step v w" and ok: "messages_ok v"
  then have "lock_ok w" by (auto simp: messages_ok_def intro: lock_ok_sim)
  with step ok show ?thesis by cases (auto simp: messages_ok_def)
qed

interpretation messages: preserved viz_step messages_ok
  by unfold_locales (auto simp: viz_step_def intro: messages_ok_sim messages_ok_gui)

definition quit_ok :: "viz \<Rightarrow> bool" where
  "quit_ok v \<longleftrightarrow> (sv_quit v \<longrightarrow> sv_go v \<or> sv_sim v \<noteq> AtWait) \<and> (list_ex (\<lambda>f. f = Joining) (sv_frames v) \<longrightarrow> sv_quit v)"

lemma quit_ok_sim: "sim_step v w \<Longrightarrow> quit_ok v \<Longrightarrow> quit_ok w"
  by (induction rule: sim_step.induct) (auto simp: quit_ok_def)

lemma list_ex_tl: "list_ex P (tl xs) \<Longrightarrow> list_ex P xs"
  by (cases xs) simp_all

lemma quit_ok_gui: "gui_step v w \<Longrightarrow> quit_ok v \<Longrightarrow> quit_ok w"
  by (induction rule: gui_step.induct) (auto simp: quit_ok_def handler_defs dest: list_ex_tl)

interpretation quit: preserved viz_step quit_ok
  by unfold_locales (auto simp: viz_step_def intro: quit_ok_sim quit_ok_gui)

interpretation over: preserved viz_step "\<lambda>v. sv_main_quit v \<and> sv_sim v = Ended"
  by unfold_locales (auto simp: viz_step_def handler_defs elim!: sim_step.cases gui_step.cases)

section \<open>Schedules\<close>

text \<open>A schedule is the list of steps that are taken; it is executable.\<close>

datatype event =
    SimTick rat "string list"   \<comment> \<open>a step of the simulation thread: the time it reaches, its messages\<close>
  | GuiTick                     \<comment> \<open>the innermost frame goes on\<close>
  | Fire nat
  | Idle
  | Scale
  | Menu
  | Toggle
  | Speed rat
  | Close

fun sim_tick :: "rat \<Rightarrow> string list \<Rightarrow> viz \<Rightarrow> viz option" where
  "sim_tick t msgs v = (case sv_sim v of
     AtLoop \<Rightarrow> Some (v\<lparr>sv_sim := if sv_quit v then Ended else AtWait\<rparr>)
   | AtWait \<Rightarrow> if sv_go v then Some (v\<lparr>sv_sim := AtClear\<rparr>) else None
   | AtClear \<Rightarrow> Some (v\<lparr>sv_go := False, sv_sim := AtCheck\<rparr>)
   | AtCheck \<Rightarrow> Some (v\<lparr>sv_sim := if sv_quit v then Ended else AtAcquire\<rparr>)
   | AtAcquire \<Rightarrow> if sv_lock v = None then Some (v\<lparr>sv_lock := Some Sim, sv_sim := Simulating\<rparr>) else None
   | Simulating \<Rightarrow> if sv_now v \<le> t \<and> t \<le> max (sv_now v) (sv_target v) then Some (v\<lparr>sv_now := t, sv_sim := Reporting\<rparr>) else None
   | Reporting \<Rightarrow> Some (v\<lparr>sv_pauses := sv_pauses v @ msgs, sv_emitted := sv_emitted v @ msgs, sv_idle := sv_idle v + 1,
                 sv_lock := None, sv_sim := AtLoop\<rparr>)
   | Ended \<Rightarrow> None)"

fun gui_tick :: "viz \<Rightarrow> viz option" where
  "gui_tick v = (case sv_frames v of
     [] \<Rightarrow> None
   | TryLock i # fs \<Rightarrow> Some (if sv_lock v = None then take_messages i v else v\<lparr>sv_frames := Pump i # fs\<rparr>)
   | Pump i # fs \<Rightarrow> Some (v\<lparr>sv_frames := TryLock i # fs\<rparr>)
   | Viewing i msgs # fs \<Rightarrow> Some (update_view i msgs v)
   | Viewed i msgs # fs \<Rightarrow> Some (finish_timeout i msgs v)
   | WantsLock c # fs \<Rightarrow>
       if sv_lock v = None then Some (v\<lparr>sv_lock := Some Gui, sv_frames := HoldsLock c # fs\<rparr>) else None
   | HoldsLock c # fs \<Rightarrow> Some (v\<lparr>sv_lock := None, sv_frames := fs\<rparr>)
   | Unlocked c # fs \<Rightarrow> Some (v\<lparr>sv_frames := fs\<rparr>)
   | Joining # fs \<Rightarrow> if sv_sim v = Ended then Some (v\<lparr>sv_main_quit := True, sv_frames := fs\<rparr>) else None)"

fun perform :: "event \<Rightarrow> viz \<Rightarrow> viz option" where
  "perform (SimTick t msgs) v = sim_tick t msgs v"
| "perform GuiTick v = gui_tick v"
| "perform (Fire i) v =
     (if ready v \<and> i \<in> set (keys (sv_sources v)) \<and> \<not> list_ex (\<lambda>f. frame_timer f = Some i) (sv_frames v)
      then Some (v\<lparr>sv_frames := TryLock i # sv_frames v\<rparr>) else None)"
| "perform Idle v =
     (if ready v \<and> sv_idle v > 0
      then Some (v\<lparr>sv_idle := sv_idle v - 1, sv_frames := WantsLock PeriodicUpdate # sv_frames v\<rparr>) else None)"
| "perform Scale v =
     (if ready v \<and> sv_autoscale v then Some (v\<lparr>sv_autoscale := False, sv_frames := Unlocked Autoscale # sv_frames v\<rparr>) else None)"
| "perform Menu v = (if ready v then Some (v\<lparr>sv_frames := Unlocked NodeMenu # sv_frames v\<rparr>) else None)"
| "perform Toggle v = (if ready v then Some (set_active (\<not> sv_play v) v) else None)"
| "perform (Speed s) v = (if ready v \<and> 1 / 100 \<le> s \<and> s \<le> 10 then Some (speed_changed s v) else None)"
| "perform Close v = (if ready v \<and> \<not> sv_quit v then Some (quit_handler v) else None)"

fun schedule :: "event list \<Rightarrow> viz \<Rightarrow> viz option" where
  "schedule [] v = Some v"
| "schedule (e # es) v = (case perform e v of None \<Rightarrow> None | Some v \<Rightarrow> schedule es v)"

lemma sim_tick_step: "sim_tick t msgs v = Some w \<Longrightarrow> sim_step v w"
  using sim_step.loop [of v] sim_step.check [of v] sim_step.report [of v msgs]
  by (cases "sv_sim v") (auto split: if_splits intro: sim_step.intros)

lemma gui_tick_step: "gui_tick v = Some w \<Longrightarrow> gui_step v w"
  by (auto split: if_splits list.splits frame.splits intro: gui_step.intros)

lemma perform_step: "perform e v = Some w \<Longrightarrow> viz_step v w"
proof (cases e)
  case Idle
  assume "perform e v = Some w"
  with Idle gui_step.idle [of v "sv_idle v - 1"] show ?thesis by (auto simp: viz_step_def split: if_splits)
next
  case (Fire i)
  assume "perform e v = Some w"
  with Fire gui_step.fire [of v i] show ?thesis by (auto simp: viz_step_def split: if_splits)
qed (auto simp: viz_step_def split: if_splits simp del: sim_tick.simps gui_tick.simps
       intro: sim_tick_step gui_tick_step gui_step.fire gui_step.autoscale gui_step.menu gui_step.toggle gui_step.speed gui_step.close)

lemma schedule_reach: "schedule es v = Some w \<Longrightarrow> viz_step\<^sup>*\<^sup>* v w"
  by (induction es arbitrary: v) (auto split: option.splits dest: perform_step intro: converse_rtranclp_into_rtranclp)

section \<open>Properties\<close>

text \<open>C32: the simulator runs only while its thread holds the lock, and an update of the view by its
  timer, a periodic update and a handler that takes the lock hold it too, so that none of these
  overlap; the lock is held by the innermost activation of the window only, so the window never waits
  for itself. The first scaling of the view and the menu of a node read the simulation without the lock,
  and the witness shows each of them while the simulator runs.\<close>

theorem viz_exclusive:
  assumes "viz_reach v"
  shows "(sv_lock v = Some Sim \<longleftrightarrow> sv_sim v \<in> {Simulating, Reporting}) \<and>
    (sv_lock v = Some Gui \<longleftrightarrow> (\<exists>f fs. sv_frames v = f # fs \<and> (f \<in> range HoldsLock \<or> (\<exists>i msgs. f = Viewing i msgs)))) \<and>
    list_all pumping (tl (sv_frames v)) \<and>
    (sv_sim v \<in> {Simulating, Reporting} \<longrightarrow>
      (\<forall>f \<in> set (sv_frames v). f \<notin> range HoldsLock \<and> (\<forall>i msgs. f \<noteq> Viewing i msgs)))"
proof -
  have ok: "lock_ok v" by (rule lock.reach [OF assms lock_ok_new])
  have h: "holding f \<longleftrightarrow> f \<in> range HoldsLock \<or> (\<exists>i msgs. f = Viewing i msgs)" for f by (cases f) auto
  have "\<not> holding f" if "sv_sim v \<in> {Simulating, Reporting}" "f \<in> set (sv_frames v)" for f
    using ok that by (cases "sv_frames v") (auto simp: lock_ok_def list_all_iff dest: pumping_holding)
  then show ?thesis
    using ok unfolding lock_ok_def h by (auto split: list.splits)
qed

definition busy_schedule :: "event list" where
  \<comment> \<open>play, one update of the view, and a second one while the simulator runs\<close>
  "busy_schedule = [Toggle, Fire 1, GuiTick, GuiTick, GuiTick, SimTick 0 [], SimTick 0 [], SimTick 0 [], SimTick 0 [],
     SimTick 0 [], Fire 1, GuiTick]"

theorem viz_exclusive_witness:
  "(\<exists>v. viz_reach v \<and> sv_frames v = [Pump 1] \<and> sv_sim v = Simulating \<and> sv_lock v = Some Sim) \<and>
   (\<exists>v. viz_reach v \<and> sv_frames v = [Unlocked Autoscale, Pump 1] \<and> sv_sim v = Simulating \<and> sv_lock v = Some Sim) \<and>
   (\<exists>v. viz_reach v \<and> sv_frames v = [Unlocked NodeMenu, Pump 1] \<and> sv_sim v = Simulating \<and> sv_lock v = Some Sim)"
proof -
  have "map_option (\<lambda>v. (sv_frames v, sv_sim v)) (schedule busy_schedule new_viz) = Some ([Pump 1], Simulating)"
    "map_option (\<lambda>v. (sv_frames v, sv_sim v)) (schedule (busy_schedule @ [Scale]) new_viz) =
      Some ([Unlocked Autoscale, Pump 1], Simulating)"
    "map_option (\<lambda>v. (sv_frames v, sv_sim v)) (schedule (busy_schedule @ [Menu]) new_viz) =
      Some ([Unlocked NodeMenu, Pump 1], Simulating)"
    by code_simp+
  moreover have "\<exists>v. viz_reach v \<and> sv_frames v = fs \<and> sv_sim v = Simulating \<and> sv_lock v = Some Sim"
    if "map_option (\<lambda>v. (sv_frames v, sv_sim v)) (schedule es new_viz) = Some (fs, Simulating)" for es fs
  proof -
    from that obtain v where "viz_reach v" "sv_frames v = fs" "sv_sim v = Simulating" by (auto dest: schedule_reach)
    with viz_exclusive [of v] show ?thesis by blast
  qed
  ultimately show ?thesis by blast
qed

text \<open>C34: the simulation never gets past the time set for it, and is never more than one second ahead
  of the time that the window shows; the time shown never lies in the future.\<close>

theorem viz_time:
  assumes "viz_reach v"
  shows "sv_shown v \<le> sv_now v \<and> sv_now v \<le> sv_target v \<and> sv_target v \<le> sv_shown v + 1"
  using time.reach [OF assms time_ok_new] by (simp add: time_ok_def)

theorem viz_time_witness:
  "\<exists>v. viz_reach v \<and> sv_shown v = 0 \<and> sv_now v = 1/10 \<and> sv_now v \<le> sv_shown v + 1"
proof -
  have "map_option (\<lambda>v. (sv_shown v, sv_now v)) (schedule (busy_schedule @ [SimTick (1/10) []]) new_viz) = Some (0, 1/10)"
    by code_simp
  then obtain v where v: "viz_reach v" "sv_shown v = 0" "sv_now v = 1/10" by (auto dest: schedule_reach)
  with viz_time [OF v(1)] show ?thesis by auto
qed

text \<open>Unless an update of the view raises an exception, every message with which the simulation
  paused itself is shown exactly once and in order, or is still waiting to be.\<close>

theorem viz_messages:
  assumes "viz_reach v" and "sv_lost v = []"
  shows "sv_emitted v = sv_dialogs v @ messages (sv_frames v) @ sv_pauses v"
proof -
  have "messages_ok new_viz" using lock_ok_new by (simp add: messages_ok_def) code_simp
  from messages.reach [OF assms(1) this] assms(2) show ?thesis by (simp add: messages_ok_def)
qed

theorem viz_messages_witness:
  "\<exists>v. viz_reach v \<and> sv_dialogs v = [''halt''] \<and> sv_emitted v = [''halt''] \<and> sv_pauses v = [] \<and> \<not> sv_play v"
proof -
  have "map_option (\<lambda>v. (sv_dialogs v, sv_lost v, sv_frames v, sv_pauses v, sv_play v))
      (schedule (busy_schedule @ [SimTick (1/10) [], SimTick 0 [''halt''], GuiTick, GuiTick, GuiTick, GuiTick]) new_viz) =
    Some ([''halt''], [], [], [], False)"
    by code_simp
  then obtain v where v: "viz_reach v" "sv_lost v = []" "sv_dialogs v = [''halt'']" "sv_frames v = []" "sv_pauses v = []"
    "\<not> sv_play v" by (auto dest: schedule_reach)
  with viz_messages [OF v(1,2)] show ?thesis by auto
qed

fun sim_steps_left :: "sim_place \<Rightarrow> nat" where
  \<comment> \<open>steps to the end of \<open>join()\<close> once \<open>quit\<close> is set\<close>
  "sim_steps_left AtAcquire = 5"
| "sim_steps_left Simulating = 4"
| "sim_steps_left Reporting = 3"
| "sim_steps_left AtLoop = 2"
| "sim_steps_left AtWait = 4"
| "sim_steps_left AtClear = 3"
| "sim_steps_left AtCheck = 2"
| "sim_steps_left Ended = 1"

lemma sim_steps_left_pos: "0 < sim_steps_left s"
  by (cases s) simp_all

definition closing :: "viz \<Rightarrow> bool" where
  "closing v \<longleftrightarrow> lock_ok v \<and> quit_ok v \<and> (\<exists>fs. sv_frames v = Joining # fs)"

lemma closing_sim: "sim_step v w \<Longrightarrow> closing v \<Longrightarrow> sv_frames w = sv_frames v \<and> sim_steps_left (sv_sim w) < sim_steps_left (sv_sim v)"
  by (induction rule: sim_step.induct) (auto simp: closing_def quit_ok_def)

lemma closing_gui: "gui_step v w \<Longrightarrow> closing v \<Longrightarrow> sv_main_quit w \<and> sv_sim w = Ended"
  by (induction rule: gui_step.induct) (auto simp: closing_def ready_def)

lemma closing_step:
  assumes "viz_step v w" and "closing v"
  shows "sv_main_quit w \<and> sv_sim w = Ended \<or> closing w \<and> sim_steps_left (sv_sim w) < sim_steps_left (sv_sim v)"
proof (cases "gui_step v w")
  case True
  then show ?thesis using assms(2) closing_gui by blast
next
  case False
  then have "sim_step v w" using assms(1) by (simp add: viz_step_def)
  with closing_sim [OF this assms(2)] assms show ?thesis
    using lock.step quit.step unfolding closing_def by fastforce
qed

lemma closing_power:
  "(viz_step ^^ n) v w \<Longrightarrow> closing v \<Longrightarrow> sv_main_quit w \<and> sv_sim w = Ended \<or> closing w \<and> sim_steps_left (sv_sim w) + n \<le> sim_steps_left (sv_sim v)"
proof (induction n arbitrary: w)
  case (Suc n)
  then obtain u where u: "(viz_step ^^ n) v u" "viz_step u w" by auto
  from Suc.IH [OF u(1) Suc.prems(2)] show ?case using over.step [OF u(2)] closing_step [OF u(2)] by fastforce
qed simp

lemma closing_progress: "closing v \<Longrightarrow> \<exists>w. viz_step v w"
proof -
  assume v: "closing v"
  then have "sv_sim v = AtAcquire \<Longrightarrow> sv_lock v = None"
    by (cases "sv_lock v"; cases "the (sv_lock v)") (auto simp: closing_def lock_ok_def)
  moreover have "sv_sim v = AtWait \<Longrightarrow> sv_go v" using v by (auto simp: closing_def quit_ok_def)
  ultimately have "sv_sim v \<noteq> Ended \<Longrightarrow> \<exists>w. sim_step v w"
    using sim_step.loop [of v] sim_step.wait [of v] sim_step.clear [of v] sim_step.check [of v] sim_step.acquire [of v]
      sim_step.simulate [of v "sv_now v"] sim_step.report [of v "[]"] by (cases "sv_sim v") auto
  moreover have "sv_sim v = Ended \<Longrightarrow> \<exists>w. gui_step v w"
    using v by (auto simp: closing_def intro: gui_step.joined)
  ultimately show ?thesis by (auto simp: viz_step_def)
qed

text \<open>C33: closing the window ends: whatever the simulation thread is doing when \<open>_quit\<close> waits for it,
  and even when the window was closed in the middle of an update, some step is possible until
  \<open>Gtk.main_quit\<close> has been called, and after any five steps it has been called and the thread has ended.\<close>

theorem viz_quit:
  assumes "viz_reach v" and "sv_frames v = Joining # fs"
  shows "(\<exists>w. viz_step v w) \<and> (\<forall>n w. (viz_step ^^ n) v w \<and> \<not> sv_main_quit w \<longrightarrow> (\<exists>u. viz_step w u)) \<and>
    (\<forall>w. (viz_step ^^ 5) v w \<longrightarrow> sv_main_quit w \<and> sv_sim w = Ended)"
proof -
  have "quit_ok new_viz" by code_simp
  with assms have v: "closing v"
    using lock.reach [OF assms(1) lock_ok_new] quit.reach [OF assms(1)] by (simp add: closing_def)
  moreover have "sv_main_quit w \<and> sv_sim w = Ended" if run: "(viz_step ^^ 5) v w" for w
  proof -
    have "sim_steps_left (sv_sim v) \<le> 5" by (cases "sv_sim v") simp_all
    with closing_power [OF run v] sim_steps_left_pos [of "sv_sim w"] show ?thesis by linarith
  qed
  ultimately show ?thesis using closing_progress closing_power by blast
qed

theorem viz_quit_witness:
  "\<exists>v. viz_reach v \<and> sv_frames v = [Joining, Pump 1] \<and> sv_sim v = Simulating \<and>
    (\<forall>w. (viz_step ^^ 5) v w \<longrightarrow> sv_main_quit w \<and> sv_sim w = Ended)"
proof -
  have "map_option (\<lambda>v. (sv_frames v, sv_sim v)) (schedule (busy_schedule @ [Close]) new_viz) =
      Some ([Joining, Pump 1], Simulating)" by code_simp
  then obtain v where v: "viz_reach v" "sv_frames v = [Joining, Pump 1]" "sv_sim v = Simulating" by (auto dest: schedule_reach)
  with viz_quit [OF v(1)] show ?thesis by blast
qed

text \<open>The identifier of the timer is forgotten while another timer is live: when the user pauses,
  changes the speed and goes on playing around an update that waits for the simulation, two timers
  are live at once, the older of which no variable knows.\<close>

theorem viz_two_timers:
  "\<exists>v. viz_reach v \<and> sv_play v \<and> sv_frames v = [] \<and> keys (sv_sources v) = [2, 3] \<and> sv_timer v = Some 3 \<and>
    sv_emitted v = [] \<and> sv_lost v = []"
proof -
  have "map_option (\<lambda>v. (sv_play v, sv_frames v, keys (sv_sources v), sv_timer v, sv_emitted v, sv_lost v))
      (schedule (busy_schedule @ [Toggle, Speed 2, SimTick (1/10) [], SimTick 0 [], GuiTick, GuiTick, GuiTick, GuiTick, Toggle])
        new_viz) = Some (True, [], [2, 3], Some 3, [], [])"
    by code_simp
  then show ?thesis by (auto dest: schedule_reach)
qed

end
