(* ===== verification/Viz_Svg.thy ===== *)
theory Viz_Svg
  imports Py_Prelude
begin

text \<open>
  The pictures of \<open>src/visualizer/visualizer/svgitem.py\<close>: position and size of an \<open>SvgItem\<close>. The
  drawing of the picture and its natural size come from \<open>rsvg\<close>; coordinates are rational numbers.
\<close>

record svg =
  sg_x :: rat
  sg_y :: rat
  sg_sx :: rat
  sg_sy :: rat
  sg_natural_width :: rat    \<comment> \<open>\<open>handle.props.width\<close>\<close>
  sg_natural_height :: rat
  sg_width :: rat
  sg_height :: rat
  sg_custom_width :: "rat option"
  sg_custom_height :: "rat option"

definition new_svg :: "rat \<Rightarrow> rat \<Rightarrow> rat \<times> rat \<Rightarrow> svg" where
  "new_svg x y handle = \<lparr>sg_x = x, sg_y = y, sg_sx = 1, sg_sy = 1, sg_natural_width = fst handle, sg_natural_height = snd handle,
     sg_width = fst handle, sg_height = snd handle, sg_custom_width = None, sg_custom_height = None\<rparr>"

definition py_divide :: "rat \<Rightarrow> rat \<Rightarrow> rat pyres" where
  "py_divide a b = (if b = 0 then Inl ZeroDivisionError else Inr (a / b))"

definition size_changed :: "svg \<Rightarrow> svg pyres" where
  "size_changed s = (case (sg_custom_width s, sg_custom_height s) of
     (None, None) \<Rightarrow> Inr (s\<lparr>sg_width := sg_natural_width s, sg_height := sg_natural_height s, sg_sx := 1, sg_sy := 1\<rparr>)
   | (Some w, None) \<Rightarrow>
       rbind (py_divide w (sg_natural_width s)) (\<lambda>k.
       Inr (s\<lparr>sg_width := w, sg_sx := k, sg_sy := k, sg_height := sg_natural_height s * k\<rparr>))
   | (None, Some h) \<Rightarrow>
       rbind (py_divide h (sg_natural_height s)) (\<lambda>k.
       Inr (s\<lparr>sg_height := h, sg_sy := k, sg_sx := k, sg_width := sg_natural_width s * k\<rparr>))
   | (Some w, Some h) \<Rightarrow>
       rbind (py_divide w (sg_natural_width s)) (\<lambda>kx. rbind (py_divide h (sg_natural_height s)) (\<lambda>ky.
       Inr (s\<lparr>sg_width := w, sg_height := h, sg_sx := kx, sg_sy := ky\<rparr>))))"

definition do_set_property :: "string \<Rightarrow> rat \<Rightarrow> svg \<Rightarrow> svg pyres" where
  "do_set_property name val s =
     (if name = ''x'' then Inr (s\<lparr>sg_x := val\<rparr>)
      else if name = ''y'' then Inr (s\<lparr>sg_y := val\<rparr>)
      else if name = ''width'' then size_changed (s\<lparr>sg_custom_width := Some val\<rparr>)
      else if name = ''height'' then size_changed (s\<lparr>sg_custom_height := Some val\<rparr>)
      else Inl AttributeError)"

definition do_get_property :: "string \<Rightarrow> svg \<Rightarrow> (rat \<times> svg) pyres" where
  \<comment> \<open>reading the width puts the natural size back\<close>
  "do_get_property name s =
     (if name = ''x'' then Inr (sg_x s, s)
      else if name = ''y'' then Inr (sg_y s, s)
      else if name = ''width'' then
        let s = s\<lparr>sg_width := sg_natural_width s, sg_height := sg_natural_height s\<rparr> in Inr (sg_width s, s)
      else if name = ''height'' then Inr (sg_height s, s)
      else Inl AttributeError)"

definition paint_point :: "svg \<Rightarrow> rat \<times> rat \<Rightarrow> rat \<times> rat" where
  \<comment> \<open>\<open>do_simple_paint\<close>: where a point of the picture is drawn\<close>
  "paint_point s p = (sg_x s + sg_sx s * fst p, sg_y s + sg_sy s * snd p)"

definition simple_update :: "svg \<Rightarrow> rat \<times> rat \<times> rat \<times> rat" where
  \<comment> \<open>the bounds of the item\<close>
  "simple_update s = (sg_x s, sg_y s, sg_x s + sg_width s, sg_y s + sg_height s)"

definition is_item_at :: "svg \<Rightarrow> rat \<Rightarrow> rat \<Rightarrow> bool" where
  "is_item_at s x y =
     (if (x < sg_x s \<or> x > sg_x s + sg_width s) \<or> (y < sg_y s \<or> y > sg_y s + sg_height s) then False else True)"

section \<open>The invariant\<close>

definition svg_ok :: "svg \<Rightarrow> bool" where
  \<comment> \<open>the size is the natural size at the scale of the drawing\<close>
  "svg_ok s \<longleftrightarrow> sg_width s = sg_sx s * sg_natural_width s \<and> sg_height s = sg_sy s * sg_natural_height s"

lemma svg_ok_new: "svg_ok (new_svg x y handle)"
  by (simp add: svg_ok_def new_svg_def)

lemma size_changed_ok: "size_changed s = Inr t \<Longrightarrow> svg_ok t"
  by (auto simp: size_changed_def svg_ok_def py_divide_def rbind_Inr_iff split: option.splits if_splits)

lemma set_property_ok: "do_set_property name val s = Inr t \<Longrightarrow> svg_ok s \<Longrightarrow> svg_ok t"
  by (auto simp: do_set_property_def dest: size_changed_ok split: if_splits) (simp_all add: svg_ok_def)

definition set_properties :: "(string \<times> rat) list \<Rightarrow> svg \<Rightarrow> svg pyres" where
  "set_properties = rfold (\<lambda>(name, val). do_set_property name val)"

lemma set_properties_ok: "set_properties ps s = Inr t \<Longrightarrow> svg_ok s \<Longrightarrow> svg_ok t"
  unfolding set_properties_def by (erule rfold_invariant) (auto intro: set_property_ok)

lemma size_changed_natural:
  "size_changed s = Inr t \<Longrightarrow> sg_natural_width t = sg_natural_width s \<and> sg_natural_height t = sg_natural_height s \<and>
    sg_custom_width t = sg_custom_width s \<and> sg_custom_height t = sg_custom_height s"
  by (auto simp: size_changed_def rbind_Inr_iff split: option.splits)

lemma set_properties_natural:
  assumes "set_properties ps s = Inr t"
  shows "sg_natural_width t = sg_natural_width s \<and> sg_natural_height t = sg_natural_height s"
proof (rule rfold_invariant [OF assms [unfolded set_properties_def]])
  fix p u v
  assume "sg_natural_width u = sg_natural_width s \<and> sg_natural_height u = sg_natural_height s"
    and "(case p of (name, val) \<Rightarrow> do_set_property name val) u = Inr v"
  then show "sg_natural_width v = sg_natural_width s \<and> sg_natural_height v = sg_natural_height s"
    by (cases p) (auto simp: do_set_property_def dest: size_changed_natural split: if_splits)
qed simp

section \<open>Properties\<close>

lemma scaled_interval:
  fixes k n x :: rat
  assumes "0 < n" and "0 \<le> k"
  shows "(\<exists>p. 0 \<le> p \<and> p \<le> n \<and> x = k * p) \<longleftrightarrow> 0 \<le> x \<and> x \<le> k * n"
proof (cases "k = 0")
  case True
  with assms show ?thesis by (auto intro: exI [of _ 0])
next
  case False
  with assms have "0 < k" by simp
  then show ?thesis using assms by (auto intro!: exI [of _ "x / k"] simp: mult_left_mono field_simps)
qed

text \<open>Whatever properties are set, in whatever order, the item answers to exactly the points where
  its picture is drawn, for a picture of positive size that is not scaled negatively.\<close>

theorem svg_hit_area:
  assumes "set_properties ps (new_svg x y handle) = Inr s" and "0 < fst handle" and "0 < snd handle"
    and "0 \<le> sg_sx s" and "0 \<le> sg_sy s"
  shows "is_item_at s a b \<longleftrightarrow>
    (\<exists>p q. 0 \<le> p \<and> p \<le> fst handle \<and> 0 \<le> q \<and> q \<le> snd handle \<and> paint_point s (p, q) = (a, b))"
proof -
  have nat: "sg_natural_width s = fst handle" "sg_natural_height s = snd handle"
    using set_properties_natural [OF assms(1)] by (simp_all add: new_svg_def)
  have size: "sg_width s = sg_sx s * fst handle" "sg_height s = sg_sy s * snd handle"
    using set_properties_ok [OF assms(1) svg_ok_new] nat by (simp_all add: svg_ok_def)
  have "is_item_at s a b \<longleftrightarrow> (0 \<le> a - sg_x s \<and> a - sg_x s \<le> sg_sx s * fst handle) \<and>
      (0 \<le> b - sg_y s \<and> b - sg_y s \<le> sg_sy s * snd handle)"
    by (auto simp: is_item_at_def size)
  also have "\<dots> \<longleftrightarrow> (\<exists>p. 0 \<le> p \<and> p \<le> fst handle \<and> a - sg_x s = sg_sx s * p) \<and>
      (\<exists>q. 0 \<le> q \<and> q \<le> snd handle \<and> b - sg_y s = sg_sy s * q)"
    by (simp add: scaled_interval assms)
  finally show ?thesis by (fastforce simp: paint_point_def algebra_simps)
qed

theorem svg_hit_area_witness:
  "\<exists>s. set_properties [(''width'', 30), (''x'', 100)] (new_svg 0 5 (10, 20)) = Inr s \<and> sg_height s = 60 \<and>
    (is_item_at s 130 65 \<longleftrightarrow> (\<exists>p q. 0 \<le> p \<and> p \<le> (10 :: rat) \<and> 0 \<le> q \<and> q \<le> (20 :: rat) \<and> paint_point s (p, q) = (130, 65)))"
proof -
  obtain s where s: "set_properties [(''width'', 30), (''x'', 100)] (new_svg 0 5 (10, 20)) = Inr s"
    "sg_height s = 60" "sg_sx s = 3" "sg_sy s = 3"
    by (simp add: set_properties_def do_set_property_def size_changed_def new_svg_def py_divide_def)
  with svg_hit_area [OF s(1), of 130 65] show ?thesis by auto
qed

lemma get_width_resets:
  "do_get_property ''width'' s = Inr (w, t) \<Longrightarrow> svg_ok t \<Longrightarrow> 0 < sg_natural_width s \<Longrightarrow> sg_sx s = 1"
  by (auto simp: do_get_property_def svg_ok_def Let_def)

end
