(* ===== verification/Viz_Nodes.thy ===== *)
theory Viz_Nodes
  imports Viz_Svg
begin

text \<open>
  Nodes, channels and links of \<open>src/visualizer/visualizer/core.py\<close>, the links of its wifi plugin
  (\<open>plugins/wifi_intrastructure_link.py\<close>) and the coordinates of \<open>base.py\<close>. A reference to a node is
  its index, one to a channel its number, one to a link its place among the links of its class, so the
  links that a node keeps are shared with the view. A path or a list of points is the pair of its ends;
  coordinates are rational numbers. The canvas is what it is told: the bounds, and per item what is
  drawn.
\<close>

section \<open>Coordinates\<close>

type_synonym point = "rat \<times> rat"

definition PIXELS_PER_METER :: rat where
  "PIXELS_PER_METER = 3"

definition distance_to_canvas :: "rat \<Rightarrow> rat" where
  "distance_to_canvas d = d * PIXELS_PER_METER"

definition point_to_canvas :: "point \<Rightarrow> point" where
  "point_to_canvas p = (fst p * PIXELS_PER_METER, snd p * PIXELS_PER_METER)"

definition distance_to_simulation :: "rat \<Rightarrow> rat" where
  "distance_to_simulation d = d / PIXELS_PER_METER"

definition point_to_simulation :: "point \<Rightarrow> point" where
  "point_to_simulation p = (fst p / PIXELS_PER_METER, snd p / PIXELS_PER_METER)"

section \<open>The state of the view\<close>

datatype link_ref = Wired nat | Wifi nat

record viz_node =
  nd_links :: "link_ref list"
  nd_has_mobility :: "bool option"   \<comment> \<open>what \<open>has_mobility\<close> remembers\<close>
  nd_selected :: bool
  nd_highlighted :: bool
  nd_color :: int
  nd_size :: rat
  nd_label :: "string option"
  nd_pos :: point                    \<comment> \<open>centre of the ellipse\<close>
  nd_radius :: rat
  nd_fill :: int
  nd_line_width :: rat
  nd_stroke :: string
  nd_label_item :: "(string \<times> point) option"
  nd_svg :: "(svg \<times> rat \<times> rat) option"  \<comment> \<open>the icon and its alignment\<close>

record viz_channel =
  ch_pos :: point
  ch_links :: "link_ref list"

datatype endpoint = NodeEnd int | ChannelEnd int

record wired_link =
  wl_node1 :: int
  wl_node2 :: endpoint
  wl_data :: "(point \<times> point) option"

record wifi_link =
  wf_sta :: int
  wf_ap :: "int option"
  wf_points :: "(point \<times> point) option"
  wf_visible :: bool

datatype transmissions_mode = ShowAll | ShowNone | ShowSelected

record viz_view =
  vw_nodes :: "(int \<times> viz_node) list"
  vw_channels :: "(int \<times> viz_channel) list"
  vw_wired :: "wired_link list"
  vw_wifi :: "wifi_link list"
  vw_bounds :: "rat \<times> rat \<times> rat \<times> rat"
  vw_get_bounds :: bool              \<comment> \<open>the binding's \<open>get_bounds\<close> returns them; else \<open>TypeError\<close> (bug 2969)\<close>
  vw_selected :: "int option"
  vw_mode :: transmissions_mode
  vw_interest :: "int list"          \<comment> \<open>\<open>sim_helper.SetNodesOfInterest\<close>\<close>

definition appear :: "viz_node \<Rightarrow> viz_node" where
  \<comment> \<open>the ellipse in \<open>_update_appearance\<close>\<close>
  "appear n =
     (let size = distance_to_canvas (nd_size n); alpha = (if nd_svg n \<noteq> None then 0x80 else 0xff)
      in n\<lparr>nd_radius := size, nd_fill := or (and (nd_color n) 0xffffff00) alpha,
           nd_line_width := (if nd_selected n then size * (3/10) else size * (15/100)),
           nd_stroke := (if nd_highlighted n then ''yellow'' else ''black'')\<rparr>)"

definition new_node :: viz_node where
  "new_node = appear
     \<lparr>nd_links = [], nd_has_mobility = None, nd_selected = False, nd_highlighted = False, nd_color = 0x808080ff, nd_size = 1,
      nd_label = None, nd_pos = (0, 0), nd_radius = 0, nd_fill = 0, nd_line_width = 0, nd_stroke = '''', nd_label_item = None,
      nd_svg = None\<rparr>"

definition new_channel :: viz_channel where
  "new_channel = \<lparr>ch_pos = (0, 0), ch_links = []\<rparr>"

definition new_viz_view :: "bool \<Rightarrow> nat \<Rightarrow> viz_view" where
  \<comment> \<open>after \<open>__init__\<close>, in a simulation of \<open>n\<close> nodes, with a binding that gives the bounds or not\<close>
  "new_viz_view gives n = \<lparr>vw_nodes = [], vw_channels = [], vw_wired = [], vw_wifi = [], vw_bounds = (- 10000, - 10000, 10000, 10000),
     vw_get_bounds = gives,
     vw_selected = None, vw_mode = ShowAll, vw_interest = map int [0..<n]\<rparr>"

definition node_at :: "viz_view \<Rightarrow> int \<Rightarrow> viz_node" where
  "node_at v i = (case map_of (vw_nodes v) i of None \<Rightarrow> new_node | Some n \<Rightarrow> n)"

definition channel_at :: "viz_view \<Rightarrow> int \<Rightarrow> viz_channel" where
  "channel_at v c = (case map_of (vw_channels v) c of None \<Rightarrow> new_channel | Some ch \<Rightarrow> ch)"

definition update_node :: "int \<Rightarrow> (viz_node \<Rightarrow> viz_node) \<Rightarrow> viz_view \<Rightarrow> viz_view" where
  "update_node i f v = v\<lparr>vw_nodes := AList.map_entry i f (vw_nodes v)\<rparr>"

definition update_channel :: "int \<Rightarrow> (viz_channel \<Rightarrow> viz_channel) \<Rightarrow> viz_view \<Rightarrow> viz_view" where
  "update_channel c f v = v\<lparr>vw_channels := AList.map_entry c f (vw_channels v)\<rparr>"

fun end_pos :: "viz_view \<Rightarrow> endpoint \<Rightarrow> point" where
  "end_pos v (NodeEnd i) = nd_pos (node_at v i)"
| "end_pos v (ChannelEnd c) = ch_pos (channel_at v c)"

section \<open>Operations\<close>

definition wired_points :: "viz_view \<Rightarrow> wired_link \<Rightarrow> point \<times> point" where
  "wired_points v l = (end_pos v (NodeEnd (wl_node1 l)), end_pos v (wl_node2 l))"

definition wifi_update :: "viz_view \<Rightarrow> wifi_link \<Rightarrow> wifi_link" where
  "wifi_update v l = (case wf_ap l of
     None \<Rightarrow> l
   | Some ap \<Rightarrow> l\<lparr>wf_points := Some (end_pos v (NodeEnd (wf_sta l)), end_pos v (NodeEnd ap))\<rparr>)"

fun update_points :: "link_ref \<Rightarrow> viz_view \<Rightarrow> viz_view" where
  "update_points (Wired k) v =
     v\<lparr>vw_wired := (vw_wired v)[k := (vw_wired v ! k)\<lparr>wl_data := Some (wired_points v (vw_wired v ! k))\<rparr>]\<rparr>"
| "update_points (Wifi k) v = v\<lparr>vw_wifi := (vw_wifi v)[k := wifi_update v (vw_wifi v ! k)]\<rparr>"

definition place_svg :: "point \<Rightarrow> svg \<times> rat \<times> rat \<Rightarrow> svg \<times> rat \<times> rat" where
  \<comment> \<open>\<open>_update_svg_position\<close>\<close>
  "place_svg p s = (case s of (svg, align_x, align_y) \<Rightarrow>
     (svg\<lparr>sg_x := fst p - (1 - align_x) * sg_width svg, sg_y := snd p - (1 - align_y) * sg_height svg\<rparr>, align_x, align_y))"

definition grow_bounds :: "point \<Rightarrow> viz_view \<Rightarrow> viz_view" where
  \<comment> \<open>a \<open>TypeError\<close> of \<open>get_bounds\<close> is ignored\<close>
  "grow_bounds p v = (if \<not> vw_get_bounds v then v else case vw_bounds v of (min_x, min_y, max_x, max_y) \<Rightarrow>
     v\<lparr>vw_bounds := (min (fst p) min_x, min (snd p) min_y, max (fst p) max_x, max (snd p) max_y)\<rparr>)"

definition node_set_position :: "int \<Rightarrow> point \<Rightarrow> viz_view \<Rightarrow> viz_view" where
  "node_set_position i p v =
     (let v = update_node i (\<lambda>n. n\<lparr>nd_pos := p, nd_svg := map_option (place_svg p) (nd_svg n)\<rparr>) v;
          v = fold update_points (nd_links (node_at v i)) v;
          v = update_node i (\<lambda>n. n\<lparr>nd_label_item :=
                map_option (\<lambda>(text, _). (text, (fst p, snd p + nd_size n * 3))) (nd_label_item n)\<rparr>) v
      in grow_bounds p v)"

definition channel_set_position :: "int \<Rightarrow> point \<Rightarrow> viz_view \<Rightarrow> viz_view" where
  "channel_set_position c p v =
     (let v = update_channel c (\<lambda>ch. ch\<lparr>ch_pos := p\<rparr>) v
      in fold update_points (ch_links (channel_at v c)) v)"

definition update_appearance :: "int \<Rightarrow> viz_view \<Rightarrow> viz_view" where
  "update_appearance i v =
     (let v = update_node i appear v
      in case nd_label (node_at v i) of
           None \<Rightarrow> v
         | Some label \<Rightarrow>
             let v = update_node i (\<lambda>n. n\<lparr>nd_label_item :=
                   Some (label, case nd_label_item n of None \<Rightarrow> (0, 0) | Some (_, p) \<Rightarrow> p)\<rparr>) v
             in node_set_position i (nd_pos (node_at v i)) v)"

definition set_selected :: "bool \<Rightarrow> int \<Rightarrow> viz_view \<Rightarrow> viz_view" where
  "set_selected b i v = update_appearance i (update_node i (\<lambda>n. n\<lparr>nd_selected := b\<rparr>) v)"

definition set_highlighted :: "bool \<Rightarrow> int \<Rightarrow> viz_view \<Rightarrow> viz_view" where
  "set_highlighted b i v = update_appearance i (update_node i (\<lambda>n. n\<lparr>nd_highlighted := b\<rparr>) v)"

definition set_size :: "rat \<Rightarrow> int \<Rightarrow> viz_view \<Rightarrow> viz_view" where
  "set_size s i v = update_appearance i (update_node i (\<lambda>n. n\<lparr>nd_size := s\<rparr>) v)"

definition gdk_color :: "int \<times> int \<times> int \<Rightarrow> int" where
  \<comment> \<open>of the sixteen-bit components that \<open>Gdk.color_parse\<close> gives\<close>
  "gdk_color c = (case c of (red, green, blue) \<Rightarrow>
     or (or (or (push_bit 24 (drop_bit 8 red)) (push_bit 16 (drop_bit 8 green))) (push_bit 8 (drop_bit 8 blue))) 0xff)"

definition set_color :: "int \<Rightarrow> int \<Rightarrow> viz_view \<Rightarrow> viz_view" where
  "set_color color i v = update_appearance i (update_node i (\<lambda>n. n\<lparr>nd_color := color\<rparr>) v)"

definition set_label :: "bool \<Rightarrow> string \<Rightarrow> int \<Rightarrow> viz_view \<Rightarrow> viz_view pyres" where
  \<comment> \<open>Python 3 has no \<open>basestring\<close>\<close>
  "set_label python3 label i v =
     (if python3 then Inl NameError
      else Inr (update_appearance i (update_node i (\<lambda>n. n\<lparr>nd_label := Some label\<rparr>) v)))"

definition set_svg_icon :: "rat \<times> rat \<Rightarrow> rat option \<Rightarrow> rat option \<Rightarrow> rat \<Rightarrow> rat \<Rightarrow> int \<Rightarrow> viz_view \<Rightarrow> viz_view pyres" where
  \<comment> \<open>the handle is the natural size of the picture\<close>
  "set_svg_icon handle width height align_x align_y i v =
     (if width = None \<and> height = None then Inl ValueError
      else
        let p = nd_pos (node_at v i); svg = new_svg (fst p) (snd p) handle
        in rbind (case width of None \<Rightarrow> Inr svg | Some w \<Rightarrow> do_set_property ''width'' (distance_to_canvas w) svg) (\<lambda>svg.
           rbind (case height of None \<Rightarrow> Inr svg | Some h \<Rightarrow> do_set_property ''height'' (distance_to_canvas h) svg) (\<lambda>svg.
           Inr (update_appearance i (update_node i (\<lambda>n. n\<lparr>nd_svg := Some (place_svg p (svg, align_x, align_y))\<rparr>) v)))))"

definition get_node :: "int \<Rightarrow> viz_view \<Rightarrow> viz_view" where
  "get_node i v = (if i \<in> set (keys (vw_nodes v)) then v else v\<lparr>vw_nodes := vw_nodes v @ [(i, new_node)]\<rparr>)"

definition get_channel :: "int \<Rightarrow> viz_view \<Rightarrow> viz_view" where
  "get_channel c v =
     (if c \<in> set (keys (vw_channels v)) then v else v\<lparr>vw_channels := vw_channels v @ [(c, new_channel)]\<rparr>)"

definition attach :: "link_ref \<Rightarrow> endpoint \<Rightarrow> viz_view \<Rightarrow> viz_view" where
  "attach l e v = (case e of
     NodeEnd i \<Rightarrow> update_node i (\<lambda>n. n\<lparr>nd_links := nd_links n @ [l]\<rparr>) v
   | ChannelEnd c \<Rightarrow> update_channel c (\<lambda>ch. ch\<lparr>ch_links := ch_links ch @ [l]\<rparr>) v)"

definition create_link :: "int \<Rightarrow> endpoint \<Rightarrow> viz_view \<Rightarrow> viz_view" where
  "create_link i e v =
     (let l = Wired (length (vw_wired v));
          v = v\<lparr>vw_wired := vw_wired v @ [\<lparr>wl_node1 = i, wl_node2 = e, wl_data = None\<rparr>]\<rparr>
      in attach l e (attach l (NodeEnd i) v))"

section \<open>Selection\<close>

definition set_nodes_of_interest :: "int list \<Rightarrow> viz_view \<Rightarrow> viz_view" where
  "set_nodes_of_interest nodes v = v\<lparr>vw_interest := nodes\<rparr>"

definition show_selected :: "viz_view \<Rightarrow> viz_view" where
  "show_selected v = set_nodes_of_interest (case vw_selected v of None \<Rightarrow> [] | Some i \<Rightarrow> [i]) v"

definition set_show_transmissions_mode :: "nat \<Rightarrow> transmissions_mode \<Rightarrow> viz_view \<Rightarrow> viz_view" where
  \<comment> \<open>the first argument is \<open>NodeList.GetNNodes()\<close>\<close>
  "set_show_transmissions_mode n mode v =
     (let v = v\<lparr>vw_mode := mode\<rparr>
      in case mode of
           ShowAll \<Rightarrow> set_nodes_of_interest (map int [0..<n]) v
         | ShowNone \<Rightarrow> set_nodes_of_interest [] v
         | ShowSelected \<Rightarrow> show_selected v)"

definition select_node :: "int option \<Rightarrow> viz_view \<Rightarrow> viz_view pyres" where
  "select_node node v =
     (if (case node of None \<Rightarrow> False | Some i \<Rightarrow> i \<notin> set (keys (vw_nodes v))) then Inl KeyError
      else if node = vw_selected v then Inr v
      else
        let v = (case vw_selected v of None \<Rightarrow> v | Some i \<Rightarrow> set_selected False i v);
            v = v\<lparr>vw_selected := node\<rparr>;
            v = (case node of None \<Rightarrow> v | Some i \<Rightarrow> set_selected True i v)
        in Inr (if vw_mode v = ShowSelected then show_selected v else v))"

section \<open>Wifi links\<close>

definition new_wifi_link :: "int \<Rightarrow> viz_view \<Rightarrow> viz_view" where
  \<comment> \<open>\<open>set_ap(None)\<close> returns at once, so the item is not hidden; it has no points yet\<close>
  "new_wifi_link sta v = v\<lparr>vw_wifi := vw_wifi v @ [\<lparr>wf_sta = sta, wf_ap = None, wf_points = None, wf_visible = True\<rparr>]\<rparr>"

definition remove_link :: "link_ref \<Rightarrow> int \<Rightarrow> viz_view \<Rightarrow> viz_view pyres" where
  "remove_link l i v =
     (if l \<in> set (nd_links (node_at v i)) then Inr (update_node i (\<lambda>n. n\<lparr>nd_links := remove1 l (nd_links n)\<rparr>) v)
      else Inl ValueError)"

definition set_ap :: "nat \<Rightarrow> int option \<Rightarrow> viz_view \<Rightarrow> viz_view pyres" where
  "set_ap k ap v =
     (if ap = wf_ap (vw_wifi v ! k) then Inr v
      else
        rbind (case wf_ap (vw_wifi v ! k) of None \<Rightarrow> Inr v | Some old \<Rightarrow> remove_link (Wifi k) old v) (\<lambda>v.
        let v = v\<lparr>vw_wifi := (vw_wifi v)[k := (vw_wifi v ! k)\<lparr>wf_ap := ap, wf_visible := ap \<noteq> None\<rparr>]\<rparr>;
            v = (case ap of None \<Rightarrow> v | Some i \<Rightarrow> attach (Wifi k) (NodeEnd i) v)
        in Inr (update_points (Wifi k) v)))"

definition destroy_wifi_link :: "nat \<Rightarrow> viz_view \<Rightarrow> viz_view" where
  \<comment> \<open>the access point keeps its reference; the station is not used again\<close>
  "destroy_wifi_link k v = v\<lparr>vw_wifi := (vw_wifi v)[k := (vw_wifi v ! k)\<lparr>wf_ap := None\<rparr>]\<rparr>"

datatype wifi_device =
    Station nat           \<comment> \<open>with a \<open>StaWifiMac\<close>\<close>
  | AccessPoint string    \<comment> \<open>with an \<open>ApWifiMac\<close>: the text of its address\<close>
  | OtherDevice

record monitor =
  mo_access_points :: "(string \<times> int) list"
  mo_stations :: "(nat \<times> int \<times> nat) list"   \<comment> \<open>device, node, link\<close>

fun scan_device :: "int \<Rightarrow> wifi_device \<Rightarrow> monitor \<times> viz_view \<Rightarrow> monitor \<times> viz_view" where
  "scan_device i (Station d) (m, v) =
     (m\<lparr>mo_stations := mo_stations m @ [(d, i, length (vw_wifi v))]\<rparr>, new_wifi_link i v)"
| "scan_device i (AccessPoint bssid) (m, v) = (m\<lparr>mo_access_points := AList.update bssid i (mo_access_points m)\<rparr>, v)"
| "scan_device i OtherDevice s = s"

definition scan_nodes :: "(int \<Rightarrow> wifi_device list) \<Rightarrow> monitor \<Rightarrow> viz_view \<Rightarrow> monitor \<times> viz_view" where
  "scan_nodes devices m v =
     (let v = fold (\<lambda>(_, _, k). destroy_wifi_link k) (mo_stations m) v
      in fold (\<lambda>i. fold (scan_device i) (devices i)) (keys (vw_nodes v)) (\<lparr>mo_access_points = [], mo_stations = []\<rparr>, v))"

definition station_ap :: "(nat \<Rightarrow> bool) \<Rightarrow> (nat \<Rightarrow> string) \<Rightarrow> monitor \<Rightarrow> nat \<Rightarrow> int option pyres" where
  "station_ap up bssid m d =
     (if \<not> up d \<or> bssid d = ''00:00:00:00:00:00'' then Inr None
      else rbind (dict_get (mo_access_points m) (bssid d)) (\<lambda>ap. Inr (Some ap)))"

definition wifi_periodic_update :: "(nat \<Rightarrow> bool) \<Rightarrow> (nat \<Rightarrow> string) \<Rightarrow> monitor \<Rightarrow> viz_view \<Rightarrow> viz_view pyres" where
  "wifi_periodic_update up bssid m v =
     rfold (\<lambda>(d, _, k) v. rbind (station_ap up bssid m d) (\<lambda>ap. set_ap k ap v)) (mo_stations m) v"

definition wifi_update_view :: "monitor \<Rightarrow> viz_view \<Rightarrow> viz_view" where
  "wifi_update_view m v = fold (\<lambda>(_, _, k). update_points (Wifi k)) (mo_stations m) v"

section \<open>Lookups after an operation\<close>

lemma keys_map_entry [simp]: "keys (AList.map_entry k f xs) = keys xs"
  by (induction xs) auto

lemma map_of_map_entry: "map_of (AList.map_entry k f xs) = (map_of xs)(k := map_option f (map_of xs k))"
  by (induction xs) (auto simp: fun_eq_iff)

lemma node_at_update_node:
  "node_at (update_node i f v) j = (if j = i \<and> i \<in> set (keys (vw_nodes v)) then f (node_at v i) else node_at v j)"
  using lookup_keys [of "vw_nodes v" i] by (auto simp: node_at_def update_node_def map_of_map_entry split: option.split)

lemma channel_at_update_channel:
  "channel_at (update_channel c f v) d = (if d = c \<and> c \<in> set (keys (vw_channels v)) then f (channel_at v c) else channel_at v d)"
  using lookup_keys [of "vw_channels v" c]
  by (auto simp: channel_at_def update_channel_def map_of_map_entry split: option.split)

lemma update_node_fields [simp]:
  "keys (vw_nodes (update_node i f v)) = keys (vw_nodes v)" "vw_channels (update_node i f v) = vw_channels v"
  "vw_wired (update_node i f v) = vw_wired v" "vw_wifi (update_node i f v) = vw_wifi v"
  "vw_bounds (update_node i f v) = vw_bounds v" "vw_get_bounds (update_node i f v) = vw_get_bounds v" "vw_selected (update_node i f v) = vw_selected v"
  "vw_mode (update_node i f v) = vw_mode v" "vw_interest (update_node i f v) = vw_interest v"
  "channel_at (update_node i f v) c = channel_at v c"
  by (simp_all add: update_node_def channel_at_def)

lemma update_channel_fields [simp]:
  "vw_nodes (update_channel c f v) = vw_nodes v" "keys (vw_channels (update_channel c f v)) = keys (vw_channels v)"
  "vw_wired (update_channel c f v) = vw_wired v" "vw_wifi (update_channel c f v) = vw_wifi v"
  "vw_bounds (update_channel c f v) = vw_bounds v" "vw_get_bounds (update_channel c f v) = vw_get_bounds v" "vw_selected (update_channel c f v) = vw_selected v"
  "vw_mode (update_channel c f v) = vw_mode v" "vw_interest (update_channel c f v) = vw_interest v"
  "node_at (update_channel c f v) i = node_at v i"
  by (simp_all add: update_channel_def node_at_def)

lemma update_points_fields [simp]:
  "vw_nodes (update_points l v) = vw_nodes v" "vw_channels (update_points l v) = vw_channels v"
  "length (vw_wired (update_points l v)) = length (vw_wired v)" "length (vw_wifi (update_points l v)) = length (vw_wifi v)"
  "vw_bounds (update_points l v) = vw_bounds v" "vw_get_bounds (update_points l v) = vw_get_bounds v" "vw_selected (update_points l v) = vw_selected v"
  "vw_mode (update_points l v) = vw_mode v" "vw_interest (update_points l v) = vw_interest v"
  "node_at (update_points l v) i = node_at v i" "channel_at (update_points l v) c = channel_at v c"
  "end_pos (update_points l v) e = end_pos v e"
  by (cases l; cases e; simp add: node_at_def channel_at_def)+

lemma fold_update_points_fields [simp]:
  "vw_nodes (fold update_points ls v) = vw_nodes v" "vw_channels (fold update_points ls v) = vw_channels v"
  "length (vw_wired (fold update_points ls v)) = length (vw_wired v)"
  "length (vw_wifi (fold update_points ls v)) = length (vw_wifi v)"
  "vw_bounds (fold update_points ls v) = vw_bounds v" "vw_get_bounds (fold update_points ls v) = vw_get_bounds v" "vw_selected (fold update_points ls v) = vw_selected v"
  "vw_mode (fold update_points ls v) = vw_mode v" "vw_interest (fold update_points ls v) = vw_interest v"
  "node_at (fold update_points ls v) i = node_at v i" "channel_at (fold update_points ls v) c = channel_at v c"
  "end_pos (fold update_points ls v) e = end_pos v e"
  by (induction ls arbitrary: v) simp_all

lemma grow_bounds_fields [simp]:
  "vw_nodes (grow_bounds p v) = vw_nodes v" "vw_channels (grow_bounds p v) = vw_channels v"
  "vw_wired (grow_bounds p v) = vw_wired v" "vw_wifi (grow_bounds p v) = vw_wifi v"
  "vw_selected (grow_bounds p v) = vw_selected v" "vw_get_bounds (grow_bounds p v) = vw_get_bounds v" "vw_mode (grow_bounds p v) = vw_mode v"
  "vw_interest (grow_bounds p v) = vw_interest v"
  "node_at (grow_bounds p v) i = node_at v i" "channel_at (grow_bounds p v) c = channel_at v c"
  by (simp_all add: grow_bounds_def node_at_def channel_at_def case_prod_beta)

lemma wired_update_points:
  "k < length (vw_wired v) \<Longrightarrow> vw_wired (update_points l v) ! k =
    (if l = Wired k then (vw_wired v ! k)\<lparr>wl_data := Some (wired_points v (vw_wired v ! k))\<rparr> else vw_wired v ! k)"
  by (cases l) auto

lemma wired_fold_update_points:
  "k < length (vw_wired v) \<Longrightarrow> vw_wired (fold update_points ls v) ! k =
    (if Wired k \<in> set ls then (vw_wired v ! k)\<lparr>wl_data := Some (wired_points v (vw_wired v ! k))\<rparr> else vw_wired v ! k)"
proof (induction ls arbitrary: v)
  case (Cons l ls)
  have "wired_points (update_points l v) (vw_wired (update_points l v) ! k) = wired_points v (vw_wired v ! k)"
    using Cons.prems by (simp add: wired_update_points wired_points_def)
  with Cons show ?case by (auto simp: wired_update_points)
qed simp

section \<open>Links are drawn between their ends\<close>

fun end_links :: "viz_view \<Rightarrow> endpoint \<Rightarrow> link_ref list" where
  "end_links v (NodeEnd i) = nd_links (node_at v i)"
| "end_links v (ChannelEnd c) = ch_links (channel_at v c)"

fun present :: "viz_view \<Rightarrow> endpoint \<Rightarrow> bool" where
  "present v (NodeEnd i) \<longleftrightarrow> i \<in> set (keys (vw_nodes v))"
| "present v (ChannelEnd c) \<longleftrightarrow> c \<in> set (keys (vw_channels v))"

definition link_ok :: "viz_view \<Rightarrow> nat \<Rightarrow> bool" where
  \<comment> \<open>both ends exist and know the link, and it is drawn where they are, if it has been drawn\<close>
  "link_ok v k \<longleftrightarrow> (let l = vw_wired v ! k in
     list_all (\<lambda>e. present v e \<and> Wired k \<in> set (end_links v e)) [NodeEnd (wl_node1 l), wl_node2 l] \<and>
     (wl_data l = None \<or> wl_data l = Some (wired_points v l)))"

definition links_ok :: "viz_view \<Rightarrow> bool" where
  "links_ok v \<longleftrightarrow> list_all (link_ok v) [0..<length (vw_wired v)]"

lemma links_okI: "(\<And>k. k < length (vw_wired v) \<Longrightarrow> link_ok v k) \<Longrightarrow> links_ok v"
  by (simp add: links_ok_def list_all_iff)

lemma links_okD: "links_ok v \<Longrightarrow> k < length (vw_wired v) \<Longrightarrow> link_ok v k"
  by (simp add: links_ok_def list_all_iff)

lemma links_ok_cong:
  assumes "vw_wired w = vw_wired v" and "\<And>e. present v e \<Longrightarrow> present w e"
    and "\<And>e. present v e \<Longrightarrow> set (end_links v e) \<subseteq> set (end_links w e)" and "\<And>e. present v e \<Longrightarrow> end_pos w e = end_pos v e"
    and "links_ok v"
  shows "links_ok w"
proof (rule links_okI)
  fix k assume "k < length (vw_wired w)"
  with assms(1,5) have "link_ok v k" by (simp add: links_okD)
  with assms(1-4) show "link_ok w k"
    by (auto simp: link_ok_def Let_def wired_points_def simp del: end_pos.simps present.simps end_links.simps)
qed

lemma links_ok_move:
  \<comment> \<open>when one end has moved, updating its links is enough\<close>
  assumes "links_ok v" and "vw_wired w = vw_wired v" and "\<And>e'. present w e' = present v e'"
    and "\<And>e'. end_links w e' = end_links v e'" and "\<And>e'. e' \<noteq> e \<Longrightarrow> end_pos w e' = end_pos v e'"
  shows "links_ok (fold update_points (end_links w e) w)"
proof (rule links_okI)
  let ?w = "fold update_points (end_links w e) w"
  fix k assume "k < length (vw_wired ?w)"
  then have k: "k < length (vw_wired v)" using assms(2) by simp
  with assms(1) have ok: "link_ok v k" by (rule links_okD)
  have frame: "present ?w e' = present v e'" "end_links ?w e' = end_links v e'" for e'
    using assms(3,4) [of e'] by (cases e'; simp)+
  show "link_ok ?w k"
  proof (cases "Wired k \<in> set (end_links v e)")
    case True
    with k assms(2,4) have "vw_wired ?w ! k = (vw_wired v ! k)\<lparr>wl_data := Some (wired_points w (vw_wired v ! k))\<rparr>"
      by (simp add: wired_fold_update_points)
    with ok frame show ?thesis by (simp add: link_ok_def Let_def wired_points_def)
  next
    case False
    then have same: "vw_wired ?w ! k = vw_wired v ! k" using k assms(2,4) by (simp add: wired_fold_update_points)
    from False ok have "e \<noteq> NodeEnd (wl_node1 (vw_wired v ! k))" "e \<noteq> wl_node2 (vw_wired v ! k)"
      by (auto simp: link_ok_def Let_def)
    then have "wired_points ?w (vw_wired v ! k) = wired_points v (vw_wired v ! k)"
      using assms(5) by (auto simp: wired_points_def simp del: end_pos.simps)
    with ok frame same show ?thesis by (simp add: link_ok_def Let_def)
  qed
qed

lemma links_ok_neutral:
  assumes "links_ok v" and "\<And>n. nd_links (f n) = nd_links n" and "\<And>n. nd_pos (f n) = nd_pos n"
  shows "links_ok (update_node i f v)"
proof (rule links_ok_cong [OF _ _ _ _ assms(1)])
  fix e
  show "present (update_node i f v) e" if "present v e" using that by (cases e) simp_all
  show "set (end_links v e) \<subseteq> set (end_links (update_node i f v) e)"
    by (cases e) (simp_all add: node_at_update_node assms)
  show "end_pos (update_node i f v) e = end_pos v e"
    by (cases e) (simp_all add: node_at_update_node assms)
qed simp

lemma links_ok_grow: "links_ok v \<Longrightarrow> links_ok (grow_bounds p v)"
proof (rule links_ok_cong [where v = v])
  fix e
  show "present (grow_bounds p v) e" if "present v e" using that by (cases e) simp_all
  show "set (end_links v e) \<subseteq> set (end_links (grow_bounds p v) e)" by (cases e) simp_all
  show "end_pos (grow_bounds p v) e = end_pos v e" by (cases e) simp_all
qed simp_all

lemma links_ok_node_set_position: "links_ok v \<Longrightarrow> links_ok (node_set_position i p v)"
proof -
  assume ok: "links_ok v"
  let ?w = "update_node i (\<lambda>n. n\<lparr>nd_pos := p, nd_svg := map_option (place_svg p) (nd_svg n)\<rparr>) v"
  have "links_ok (fold update_points (end_links ?w (NodeEnd i)) ?w)"
  proof (rule links_ok_move [OF ok])
    fix e
    show "present ?w e = present v e" "end_links ?w e = end_links v e" by (cases e; simp add: node_at_update_node)+
    show "end_pos ?w e = end_pos v e" if "e \<noteq> NodeEnd i" using that by (cases e) (simp_all add: node_at_update_node)
  qed simp
  then show ?thesis by (simp add: node_set_position_def Let_def links_ok_grow links_ok_neutral)
qed

lemma links_ok_channel_set_position: "links_ok v \<Longrightarrow> links_ok (channel_set_position c p v)"
proof -
  assume ok: "links_ok v"
  let ?w = "update_channel c (\<lambda>ch. ch\<lparr>ch_pos := p\<rparr>) v"
  have "links_ok (fold update_points (end_links ?w (ChannelEnd c)) ?w)"
  proof (rule links_ok_move [OF ok])
    fix e
    show "present ?w e = present v e" "end_links ?w e = end_links v e" by (cases e; simp add: channel_at_update_channel)+
    show "end_pos ?w e = end_pos v e" if "e \<noteq> ChannelEnd c" using that by (cases e) (simp_all add: channel_at_update_channel)
  qed simp
  then show ?thesis by (simp add: channel_set_position_def Let_def)
qed

lemma appear_fields [simp]:
  "nd_links (appear n) = nd_links n" "nd_pos (appear n) = nd_pos n" "nd_selected (appear n) = nd_selected n"
  "nd_highlighted (appear n) = nd_highlighted n" "nd_size (appear n) = nd_size n" "nd_color (appear n) = nd_color n"
  "nd_label (appear n) = nd_label n" "nd_svg (appear n) = nd_svg n" "nd_has_mobility (appear n) = nd_has_mobility n"
  by (simp_all add: appear_def Let_def)

lemma links_ok_update_appearance: "links_ok v \<Longrightarrow> links_ok (update_appearance i v)"
  by (simp add: update_appearance_def Let_def links_ok_neutral links_ok_node_set_position split: option.split)

lemmas setter_defs = set_selected_def set_highlighted_def set_size_def set_color_def set_label_def set_svg_icon_def

section \<open>Nodes look like their state\<close>

definition looks_right :: "viz_node \<Rightarrow> bool" where
  "looks_right n \<longleftrightarrow> nd_radius n = distance_to_canvas (nd_size n) \<and>
     nd_fill n = or (and (nd_color n) 0xffffff00) (if nd_svg n \<noteq> None then 0x80 else 0xff) \<and>
     nd_line_width n = distance_to_canvas (nd_size n) * (if nd_selected n then 3/10 else 15/100) \<and>
     nd_stroke n = (if nd_highlighted n then ''yellow'' else ''black'')"

definition in_bounds :: "rat \<times> rat \<times> rat \<times> rat \<Rightarrow> point \<Rightarrow> bool" where
  "in_bounds b p \<longleftrightarrow> (case b of (x1, y1, x2, y2) \<Rightarrow> x1 \<le> fst p \<and> y1 \<le> snd p \<and> fst p \<le> x2 \<and> snd p \<le> y2)"

abbreviation inside :: "viz_view \<Rightarrow> point \<Rightarrow> bool" where
  "inside v p \<equiv> vw_get_bounds v \<longrightarrow> in_bounds (vw_bounds v) p"

definition node_ok :: "viz_view \<Rightarrow> int \<Rightarrow> bool" where
  "node_ok v i \<longleftrightarrow> looks_right (node_at v i) \<and> (nd_selected (node_at v i) \<longleftrightarrow> vw_selected v = Some i) \<and>
     inside v (nd_pos (node_at v i))"

definition interest_ok :: "viz_view \<Rightarrow> bool" where
  \<comment> \<open>the simulation reports what the mode asks for\<close>
  "interest_ok v \<longleftrightarrow> (case vw_mode v of
     ShowAll \<Rightarrow> True | ShowNone \<Rightarrow> vw_interest v = [] | ShowSelected \<Rightarrow> vw_interest v = (case vw_selected v of None \<Rightarrow> [] | Some i \<Rightarrow> [i]))"

definition nodes_ok :: "viz_view \<Rightarrow> bool" where
  "nodes_ok v \<longleftrightarrow> (\<forall>i \<in> set (keys (vw_nodes v)). node_ok v i) \<and>
     (case vw_selected v of None \<Rightarrow> True | Some i \<Rightarrow> i \<in> set (keys (vw_nodes v))) \<and> interest_ok v"

lemma looks_right_appear: "looks_right (appear n)"
  by (simp add: looks_right_def appear_def Let_def)

lemma looks_right_frame [simp]:
  "looks_right (n\<lparr>nd_label_item := t\<rparr>) = looks_right n"
  "nd_svg n = s \<Longrightarrow> looks_right (n\<lparr>nd_pos := p, nd_svg := map_option f s\<rparr>) = looks_right n"
  "nd_svg n = s \<Longrightarrow> looks_right (n\<lparr>nd_pos := p, nd_svg := map_option f s, nd_label_item := t\<rparr>) = looks_right n"
  by (cases s; simp add: looks_right_def)+

lemma looks_right_new: "looks_right new_node"
  by (simp add: new_node_def looks_right_appear)

lemma new_node_fields [simp]:
  "nd_selected new_node = False" "nd_pos new_node = (0, 0)" "nd_links new_node = []"
  by (simp_all add: new_node_def)

lemma node_at_set_position:
  "node_at (node_set_position i p v) j = (if j = i \<and> i \<in> set (keys (vw_nodes v))
     then (node_at v i)\<lparr>nd_pos := p, nd_svg := map_option (place_svg p) (nd_svg (node_at v i)),
       nd_label_item := map_option (\<lambda>(text, _). (text, (fst p, snd p + nd_size (node_at v i) * 3))) (nd_label_item (node_at v i))\<rparr>
     else node_at v j)"
  by (simp add: node_set_position_def Let_def node_at_update_node)

lemma set_position_fields [simp]:
  "keys (vw_nodes (node_set_position i p v)) = keys (vw_nodes v)" "vw_channels (node_set_position i p v) = vw_channels v"
  "vw_selected (node_set_position i p v) = vw_selected v" "vw_mode (node_set_position i p v) = vw_mode v"
  "vw_interest (node_set_position i p v) = vw_interest v" "vw_bounds (node_set_position i p v) = vw_bounds (grow_bounds p v)"
  "vw_get_bounds (node_set_position i p v) = vw_get_bounds v"
  "length (vw_wired (node_set_position i p v)) = length (vw_wired v)"
  "length (vw_wifi (node_set_position i p v)) = length (vw_wifi v)"
  by (simp_all add: node_set_position_def Let_def) (simp add: grow_bounds_def case_prod_beta)

lemma in_bounds_grow: "inside v q \<Longrightarrow> inside (grow_bounds p v) q"
  and in_bounds_grown: "inside (grow_bounds p v) p"
  by (auto simp: in_bounds_def grow_bounds_def split: prod.splits)

lemma nodes_ok_cong:
  assumes "nodes_ok v" and "keys (vw_nodes w) = keys (vw_nodes v)" and "vw_selected w = vw_selected v"
    and "vw_mode w = vw_mode v" and "vw_interest w = vw_interest v"
    and "\<And>i. i \<in> set (keys (vw_nodes v)) \<Longrightarrow> node_ok v i \<Longrightarrow> node_ok w i"
  shows "nodes_ok w"
  using assms(1,6) unfolding nodes_ok_def interest_ok_def assms(2-5) by blast

lemma nodes_ok_node_set_position: "nodes_ok v \<Longrightarrow> nodes_ok (node_set_position i p v)"
  by (erule nodes_ok_cong) (auto simp: node_ok_def node_at_set_position in_bounds_grow in_bounds_grown)

lemma nodes_ok_channel_set_position: "nodes_ok v \<Longrightarrow> nodes_ok (channel_set_position c p v)"
  by (erule nodes_ok_cong) (auto simp: channel_set_position_def Let_def node_ok_def)

lemma update_appearance_fields [simp]:
  "keys (vw_nodes (update_appearance i v)) = keys (vw_nodes v)" "vw_channels (update_appearance i v) = vw_channels v"
  "vw_selected (update_appearance i v) = vw_selected v" "vw_mode (update_appearance i v) = vw_mode v"
  "vw_interest (update_appearance i v) = vw_interest v" "vw_get_bounds (update_appearance i v) = vw_get_bounds v"
  by (simp_all add: update_appearance_def Let_def split: option.split)

lemma update_appearance_node:
  "looks_right (node_at (update_appearance i v) i) \<or> i \<notin> set (keys (vw_nodes v))"
  "nd_selected (node_at (update_appearance i v) j) = nd_selected (node_at v j)"
  "nd_pos (node_at (update_appearance i v) j) = nd_pos (node_at v j)"
  "j \<noteq> i \<Longrightarrow> node_at (update_appearance i v) j = node_at v j"
  using looks_right_appear [of "node_at v i"]
  by (auto simp: update_appearance_def Let_def node_at_update_node node_at_set_position split: option.split)

lemma update_appearance_bounds:
  "inside v q \<Longrightarrow> inside (update_appearance i v) q"
  by (auto simp: update_appearance_def Let_def in_bounds_grow split: option.split)

lemma nodes_ok_restyle:
  \<comment> \<open>a setter that leaves position and selection alone\<close>
  assumes "nodes_ok v" and "\<And>n. nd_selected (f n) = nd_selected n" and "\<And>n. nd_pos (f n) = nd_pos n"
  shows "nodes_ok (update_appearance i (update_node i f v))"
proof (rule nodes_ok_cong [OF assms(1)])
  fix j assume j: "j \<in> set (keys (vw_nodes v))" "node_ok v j"
  let ?w = "update_appearance i (update_node i f v)"
  have "looks_right (node_at ?w j)"
    using j update_appearance_node(1) [of i "update_node i f v"] update_appearance_node(4) [of j i "update_node i f v"]
    by (cases "j = i") (auto simp: node_ok_def node_at_update_node)
  moreover have "inside ?w (nd_pos (node_at v j))"
    using j(2) by (simp add: node_ok_def update_appearance_bounds)
  ultimately show "node_ok ?w j"
    using j(2) assms(2,3) by (auto simp: node_ok_def update_appearance_node node_at_update_node)
qed simp_all

section \<open>The view is well formed\<close>

definition view_ok :: "viz_view \<Rightarrow> bool" where
  "view_ok v \<longleftrightarrow> dict_ok (vw_nodes v) \<and> dict_ok (vw_channels v) \<and> inside v (0, 0) \<and> links_ok v \<and> nodes_ok v"

lemma keys_update_channel_ok [simp]: "dict_ok (vw_channels (update_channel c f v)) = dict_ok (vw_channels v)"
  by (simp add: dict_ok_def)

lemma keys_update_node_ok [simp]: "dict_ok (vw_nodes (update_node i f v)) = dict_ok (vw_nodes v)"
  by (simp add: dict_ok_def)

lemma view_ok_new: "view_ok (new_viz_view gives n)"
  by (simp add: view_ok_def new_viz_view_def in_bounds_def links_ok_def nodes_ok_def interest_ok_def)

lemma view_ok_node_set_position: "view_ok v \<Longrightarrow> view_ok (node_set_position i p v)"
  by (simp add: view_ok_def dict_ok_def links_ok_node_set_position nodes_ok_node_set_position in_bounds_grow)

lemma view_ok_channel_set_position: "view_ok v \<Longrightarrow> view_ok (channel_set_position c p v)"
  by (simp add: view_ok_def links_ok_channel_set_position nodes_ok_channel_set_position)
     (simp add: channel_set_position_def Let_def)

lemma view_ok_restyle:
  "view_ok v \<Longrightarrow> (\<And>n. nd_selected (f n) = nd_selected n) \<Longrightarrow> (\<And>n. nd_pos (f n) = nd_pos n) \<Longrightarrow>
    (\<And>n. nd_links (f n) = nd_links n) \<Longrightarrow> view_ok (update_appearance i (update_node i f v))"
  by (simp add: view_ok_def dict_ok_def nodes_ok_restyle links_ok_update_appearance links_ok_neutral update_appearance_bounds)

lemma view_ok_setters:
  assumes "view_ok v"
  shows "view_ok (set_highlighted b i v)" "view_ok (set_size s i v)" "view_ok (set_color c i v)"
    "set_label p t i v = Inr w \<Longrightarrow> view_ok w" "set_svg_icon h wd ht ax ay i v = Inr w \<Longrightarrow> view_ok w"
  using assms by (auto simp: setter_defs Let_def rbind_Inr_iff intro!: view_ok_restyle split: if_splits)

lemma view_ok_get_node: "view_ok v \<Longrightarrow> view_ok (get_node i v)"
proof (cases "i \<in> set (keys (vw_nodes v))")
  case False
  assume ok: "view_ok v"
  have w: "vw_nodes (get_node i v) = vw_nodes v @ [(i, new_node)]" using False by (simp add: get_node_def)
  have none: "map_of (vw_nodes v) i = None" using False lookup_keys [of "vw_nodes v" i] by blast
  have at: "node_at (get_node i v) j = node_at v j" for j
    using none by (simp add: node_at_def w map_add_def split: option.split)
  have "links_ok (get_node i v)"
  proof (rule links_ok_cong [where v = v])
    fix e
    show "present (get_node i v) e" if "present v e" using that by (cases e) (auto simp: get_node_def)
    show "set (end_links v e) \<subseteq> set (end_links (get_node i v) e)" "end_pos (get_node i v) e = end_pos v e"
      by (cases e; simp add: at; simp add: get_node_def channel_at_def)+
  qed (use ok in \<open>simp_all add: view_ok_def get_node_def\<close>)
  moreover have "nodes_ok (get_node i v)"
  proof -
    have "node_ok v i"
      using none ok False
      by (auto simp: node_ok_def node_at_def looks_right_new view_ok_def nodes_ok_def split: option.splits)
    moreover have "node_ok (get_node i v) j = node_ok v j" for j
      by (simp add: node_ok_def at) (simp add: get_node_def)
    ultimately show ?thesis using ok by (auto simp: view_ok_def nodes_ok_def w) (auto simp: get_node_def interest_ok_def split: option.splits transmissions_mode.splits)
  qed
  ultimately show ?thesis using ok False by (auto simp: view_ok_def dict_ok_def get_node_def)
qed (simp add: get_node_def)

lemma nodes_ok_same:
  "nodes_ok v \<Longrightarrow> vw_nodes w = vw_nodes v \<Longrightarrow> vw_bounds w = vw_bounds v \<Longrightarrow> vw_get_bounds w = vw_get_bounds v \<Longrightarrow> vw_selected w = vw_selected v \<Longrightarrow>
    vw_mode w = vw_mode v \<Longrightarrow> vw_interest w = vw_interest v \<Longrightarrow> nodes_ok w"
  by (erule nodes_ok_cong) (auto simp: node_ok_def node_at_def)

lemma view_ok_get_channel: "view_ok v \<Longrightarrow> view_ok (get_channel c v)"
proof (cases "c \<in> set (keys (vw_channels v))")
  case False
  assume ok: "view_ok v"
  have none: "map_of (vw_channels v) c = None" using False lookup_keys [of "vw_channels v" c] by blast
  have at: "channel_at (get_channel c v) d = channel_at v d" for d
    using none False by (simp add: channel_at_def get_channel_def map_add_def split: option.split)
  have "links_ok (get_channel c v)"
  proof (rule links_ok_cong [where v = v])
    fix e
    show "present (get_channel c v) e" if "present v e" using that by (cases e) (auto simp: get_channel_def)
    show "set (end_links v e) \<subseteq> set (end_links (get_channel c v) e)" "end_pos (get_channel c v) e = end_pos v e"
      by (cases e; simp add: at; simp add: get_channel_def node_at_def)+
  qed (use ok in \<open>simp_all add: view_ok_def get_channel_def\<close>)
  moreover have "nodes_ok (get_channel c v)"
    using ok by (auto simp: view_ok_def get_channel_def intro: nodes_ok_same)
  ultimately show ?thesis using ok False by (auto simp: view_ok_def dict_ok_def get_channel_def)
qed (simp add: get_channel_def)

lemma attach_fields [simp]:
  "keys (vw_nodes (attach l e v)) = keys (vw_nodes v)" "keys (vw_channels (attach l e v)) = keys (vw_channels v)"
  "vw_wired (attach l e v) = vw_wired v" "vw_wifi (attach l e v) = vw_wifi v" "vw_bounds (attach l e v) = vw_bounds v"
  "vw_get_bounds (attach l e v) = vw_get_bounds v"
  "vw_selected (attach l e v) = vw_selected v" "vw_mode (attach l e v) = vw_mode v"
  "vw_interest (attach l e v) = vw_interest v" "present (attach l e v) e' = present v e'"
  "end_pos (attach l e v) e' = end_pos v e'"
  by (cases e; cases e'; simp add: attach_def node_at_update_node channel_at_update_channel)+

lemma end_links_attach:
  "end_links (attach l e v) e' = end_links v e' @ (if e' = e \<and> present v e then [l] else [])"
  by (cases e; cases e') (auto simp: attach_def node_at_update_node channel_at_update_channel)

lemma nodes_ok_attach: "nodes_ok v \<Longrightarrow> nodes_ok (attach l e v)"
  by (erule nodes_ok_cong)
     (auto simp: node_ok_def attach_def node_at_update_node looks_right_def split: endpoint.split)

lemma view_ok_create_link:
  assumes ok: "view_ok v" and "present v (NodeEnd i)" and "present v e"
  shows "view_ok (create_link i e v)"
proof -
  let ?k = "length (vw_wired v)"
  let ?l = "\<lparr>wl_node1 = i, wl_node2 = e, wl_data = None\<rparr>"
  let ?u = "v\<lparr>vw_wired := vw_wired v @ [?l]\<rparr>"
  let ?w = "attach (Wired ?k) e (attach (Wired ?k) (NodeEnd i) ?u)"
  have u: "present ?u e' = present v e'" "end_links ?u e' = end_links v e'" "end_pos ?u e' = end_pos v e'" for e'
    by (cases e'; simp add: node_at_def channel_at_def)+
  have "links_ok ?w"
  proof (rule links_okI)
    fix k assume k: "k < length (vw_wired ?w)"
    show "link_ok ?w k"
    proof (cases "k = ?k")
      case True
      with assms(2,3) show ?thesis by (auto simp: link_ok_def u end_links_attach simp del: present.simps end_links.simps)
    next
      case False
      with k have "k < length (vw_wired v)" by simp
      moreover from this ok have "link_ok v k" by (auto simp: view_ok_def dest: links_okD)
      ultimately show ?thesis
        by (auto simp: link_ok_def Let_def u end_links_attach nth_append wired_points_def
            simp del: present.simps end_links.simps end_pos.simps)
    qed
  qed
  moreover have "nodes_ok ?u" using ok by (auto simp: view_ok_def intro: nodes_ok_same)
  ultimately show ?thesis
    using ok by (simp add: view_ok_def create_link_def Let_def nodes_ok_attach dict_ok_def)
qed

definition styled :: "viz_view \<Rightarrow> int \<Rightarrow> bool" where
  "styled v i \<longleftrightarrow> looks_right (node_at v i) \<and> inside v (nd_pos (node_at v i))"

lemma set_selected_fields [simp]:
  "keys (vw_nodes (set_selected b i v)) = keys (vw_nodes v)" "vw_channels (set_selected b i v) = vw_channels v"
  "vw_selected (set_selected b i v) = vw_selected v" "vw_mode (set_selected b i v) = vw_mode v"
  "vw_interest (set_selected b i v) = vw_interest v" "vw_get_bounds (set_selected b i v) = vw_get_bounds v"
  by (simp_all add: set_selected_def)

lemma set_selected_node:
  assumes "j \<in> set (keys (vw_nodes v))"
  shows "styled v j \<Longrightarrow> styled (set_selected b i v) j"
    and "nd_selected (node_at (set_selected b i v) j) = (if j = i then b else nd_selected (node_at v j))"
proof -
  let ?u = "update_node i (\<lambda>n. n\<lparr>nd_selected := b\<rparr>) v"
  show "nd_selected (node_at (set_selected b i v) j) = (if j = i then b else nd_selected (node_at v j))"
    using assms by (auto simp: set_selected_def update_appearance_node node_at_update_node)
  assume s: "styled v j"
  have pos: "nd_pos (node_at ?u j) = nd_pos (node_at v j)" by (simp add: node_at_update_node)
  have "looks_right (node_at (set_selected b i v) j)"
    using s assms update_appearance_node(1) [of i ?u] update_appearance_node(4) [of j i ?u]
    by (cases "j = i") (auto simp: set_selected_def styled_def node_at_update_node)
  moreover have "inside (set_selected b i v) (nd_pos (node_at (set_selected b i v) j))"
    using s by (simp add: set_selected_def update_appearance_node pos styled_def update_appearance_bounds)
  ultimately show "styled (set_selected b i v) j" by (simp add: styled_def)
qed

lemma set_selected_bounds: "inside v p \<Longrightarrow> inside (set_selected b i v) p"
  by (simp add: set_selected_def update_appearance_bounds)

lemma links_ok_set_selected: "links_ok v \<Longrightarrow> links_ok (set_selected b i v)"
  by (simp add: set_selected_def links_ok_update_appearance links_ok_neutral)

lemma links_ok_same:
  "links_ok v \<Longrightarrow> vw_nodes w = vw_nodes v \<Longrightarrow> vw_channels w = vw_channels v \<Longrightarrow> vw_wired w = vw_wired v \<Longrightarrow> links_ok w"
proof (rule links_ok_cong [where v = v])
  fix e
  assume same: "vw_nodes w = vw_nodes v" "vw_channels w = vw_channels v"
  show "present w e" if "present v e" using that same by (cases e) simp_all
  show "set (end_links v e) \<subseteq> set (end_links w e)" "end_pos w e = end_pos v e"
    using same by (cases e; simp add: node_at_def channel_at_def)+
qed

lemma nodes_ok_styled: "nodes_ok v \<longleftrightarrow> (\<forall>i \<in> set (keys (vw_nodes v)). styled v i \<and>
     (nd_selected (node_at v i) \<longleftrightarrow> vw_selected v = Some i)) \<and>
     (case vw_selected v of None \<Rightarrow> True | Some i \<Rightarrow> i \<in> set (keys (vw_nodes v))) \<and> interest_ok v"
  unfolding nodes_ok_def node_ok_def styled_def by blast

lemma view_ok_select_node:
  assumes ok: "view_ok v" and "select_node node v = Inr w"
  shows "view_ok w \<and> vw_selected w = node \<and> keys (vw_nodes w) = keys (vw_nodes v)"
proof (cases "node = vw_selected v")
  case True
  with assms show ?thesis by (auto simp: select_node_def split: if_splits)
next
  case False
  obtain a where a_def: "a = (case vw_selected v of None \<Rightarrow> v | Some i \<Rightarrow> set_selected False i v)" by blast
  obtain b where b_def: "b = a\<lparr>vw_selected := node\<rparr>" by blast
  obtain c where c_def: "c = (case node of None \<Rightarrow> b | Some i \<Rightarrow> set_selected True i b)" by blast
  have known: "case node of None \<Rightarrow> True | Some i \<Rightarrow> i \<in> set (keys (vw_nodes v))" and
    w: "w = (if vw_mode c = ShowSelected then show_selected c else c)"
    using assms(2) False by (auto simp: select_node_def Let_def a_def b_def c_def split: if_splits option.splits)
  have a: "keys (vw_nodes a) = keys (vw_nodes v)" "vw_channels a = vw_channels v" "vw_mode a = vw_mode v"
    "vw_interest a = vw_interest v" "links_ok a" "inside a (0, 0)"
    using ok by (auto simp: a_def view_ok_def links_ok_set_selected set_selected_bounds split: option.split)
  have b: "vw_nodes b = vw_nodes a" "vw_bounds b = vw_bounds a" "vw_get_bounds b = vw_get_bounds a" "node_at b j = node_at a j" for j
    by (simp_all add: b_def node_at_def)
  have "links_ok b" using a(5) by (auto simp: b_def intro: links_ok_same)
  then have c: "keys (vw_nodes c) = keys (vw_nodes v)" "vw_channels c = vw_channels v" "vw_mode c = vw_mode v"
    "vw_interest c = vw_interest v" "vw_selected c = node" "links_ok c" "inside c (0, 0)"
    using a by (auto simp: b_def c_def links_ok_set_selected set_selected_bounds split: option.split)
  have nodes: "styled c j \<and> (nd_selected (node_at c j) \<longleftrightarrow> node = Some j)" if j: "j \<in> set (keys (vw_nodes v))" for j
  proof -
    have v: "styled v j" "nd_selected (node_at v j) \<longleftrightarrow> vw_selected v = Some j"
      using ok j by (auto simp: view_ok_def nodes_ok_styled)
    have "styled a j \<and> \<not> nd_selected (node_at a j)"
      using v set_selected_node [of j v, OF j] by (auto simp: a_def split: option.split)
    then have bj: "styled b j" "\<not> nd_selected (node_at b j)" using b by (auto simp: styled_def)
    have "j \<in> set (keys (vw_nodes b))" using j a(1) b(1) by metis
    from bj set_selected_node [OF this] show ?thesis by (auto simp: c_def split: option.split)
  qed
  have same: "vw_nodes w = vw_nodes c" "vw_channels w = vw_channels c" "vw_wired w = vw_wired c"
    "vw_bounds w = vw_bounds c" "vw_get_bounds w = vw_get_bounds c" "vw_selected w = node" "vw_mode w = vw_mode v"
    by (simp_all add: w c show_selected_def set_nodes_of_interest_def)
  then have at: "styled w j = styled c j" "node_at w j = node_at c j" for j by (simp_all add: styled_def node_at_def)
  have "interest_ok w"
  proof (cases "vw_mode v")
    case ShowSelected
    then show ?thesis by (simp add: interest_ok_def w c show_selected_def set_nodes_of_interest_def)
  qed (use ok in \<open>simp_all add: interest_ok_def w c view_ok_def nodes_ok_def\<close>)
  then have "nodes_ok w" unfolding nodes_ok_styled same at c(1) using nodes known by blast
  moreover have "links_ok w" using c(6) same by (auto intro: links_ok_same)
  ultimately show ?thesis using c ok by (simp add: view_ok_def dict_ok_def same)
qed

lemma view_ok_mode: "view_ok v \<Longrightarrow> view_ok (set_show_transmissions_mode n mode v)"
proof -
  assume ok: "view_ok v"
  let ?w = "set_show_transmissions_mode n mode v"
  have same: "vw_nodes ?w = vw_nodes v" "vw_channels ?w = vw_channels v" "vw_wired ?w = vw_wired v"
    "vw_bounds ?w = vw_bounds v" "vw_get_bounds ?w = vw_get_bounds v" "vw_selected ?w = vw_selected v"
    by (cases mode; simp add: set_show_transmissions_mode_def show_selected_def set_nodes_of_interest_def)+
  have at: "styled ?w j = styled v j" "node_at ?w j = node_at v j" for j by (simp_all add: styled_def node_at_def same)
  have "interest_ok ?w"
    by (cases mode) (simp_all add: interest_ok_def set_show_transmissions_mode_def show_selected_def set_nodes_of_interest_def)
  then have "nodes_ok ?w" unfolding nodes_ok_styled same at using ok by (simp add: view_ok_def nodes_ok_styled)
  moreover have "links_ok ?w" using ok same by (auto simp: view_ok_def intro: links_ok_same)
  ultimately show ?thesis using ok by (simp add: view_ok_def same)
qed

lemma view_ok_wifi: "view_ok v \<Longrightarrow> view_ok (v\<lparr>vw_wifi := ls\<rparr>)"
  by (auto simp: view_ok_def intro: links_ok_same nodes_ok_same)

lemma links_ok_attach: "links_ok v \<Longrightarrow> links_ok (attach l e v)"
  by (rule links_ok_cong [where v = v]) (auto simp: end_links_attach)

lemma view_ok_attach: "view_ok v \<Longrightarrow> view_ok (attach l e v)"
  by (simp add: view_ok_def dict_ok_def links_ok_attach nodes_ok_attach)

lemma view_ok_remove_link: "remove_link (Wifi k) i v = Inr w \<Longrightarrow> view_ok v \<Longrightarrow> view_ok w"
proof -
  assume "remove_link (Wifi k) i v = Inr w" and ok: "view_ok v"
  then have w: "w = update_node i (\<lambda>n. n\<lparr>nd_links := remove1 (Wifi k) (nd_links n)\<rparr>) v"
    by (simp add: remove_link_def split: if_splits)
  have "links_ok w"
  proof (rule links_okI)
    fix j assume "j < length (vw_wired w)"
    with ok w have "link_ok v j" by (simp add: view_ok_def links_okD)
    moreover have "present w e = present v e" "end_pos w e = end_pos v e"
        "Wired j \<in> set (end_links w e) \<longleftrightarrow> Wired j \<in> set (end_links v e)" for e
      by (cases e; auto simp: w node_at_update_node)+
    ultimately show "link_ok w j"
      by (simp add: link_ok_def Let_def wired_points_def w del: end_pos.simps present.simps end_links.simps)
  qed
  moreover have "nodes_ok w" using ok unfolding view_ok_def w
    by (auto intro!: nodes_ok_cong [where v = v] simp: node_ok_def node_at_update_node looks_right_def)
  ultimately show ?thesis using ok by (simp add: view_ok_def w)
qed

lemma view_ok_update_wifi: "view_ok v \<Longrightarrow> view_ok (update_points (Wifi k) v)"
  by (simp add: view_ok_wifi)

lemma view_ok_set_ap: "set_ap k ap v = Inr w \<Longrightarrow> view_ok v \<Longrightarrow> view_ok w"
  by (auto simp: set_ap_def Let_def rbind_Inr_iff simp del: update_points.simps
      intro!: view_ok_update_wifi view_ok_attach view_ok_wifi dest: view_ok_remove_link split: if_splits option.splits)

lemma view_ok_destroy: "view_ok v \<Longrightarrow> view_ok (destroy_wifi_link k v)"
  by (simp add: destroy_wifi_link_def view_ok_wifi)

lemma view_ok_scan_device: "view_ok (snd s) \<Longrightarrow> view_ok (snd (scan_device i d s))"
  by (cases "(i, d, s)" rule: scan_device.cases) (simp_all add: new_wifi_link_def view_ok_wifi)

lemma fold_preserves: "(\<And>x s. P s \<Longrightarrow> P (f x s)) \<Longrightarrow> P s \<Longrightarrow> P (fold f xs s)"
  by (induction xs arbitrary: s) simp_all

lemma view_ok_scan_nodes: "view_ok v \<Longrightarrow> view_ok (snd (scan_nodes devices m v))"
proof -
  assume "view_ok v"
  then have "view_ok (fold (\<lambda>(_, _, k). destroy_wifi_link k) (mo_stations m) v)"
    by (rule fold_preserves [rotated]) (auto simp: view_ok_destroy)
  then show ?thesis unfolding scan_nodes_def Let_def
    by (intro fold_preserves [where P = "\<lambda>s. view_ok (snd s)"]) (simp_all add: view_ok_scan_device)
qed

lemma view_ok_wifi_periodic_update: "wifi_periodic_update up bssid m v = Inr w \<Longrightarrow> view_ok v \<Longrightarrow> view_ok w"
  unfolding wifi_periodic_update_def
  by (erule rfold_invariant) (auto simp: rbind_Inr_iff dest: view_ok_set_ap split: prod.splits)

lemma view_ok_wifi_update_view: "view_ok v \<Longrightarrow> view_ok (wifi_update_view m v)"
  unfolding wifi_update_view_def by (rule fold_preserves) (auto simp: view_ok_wifi)

section \<open>Wifi links end at their access points\<close>

definition monitor_ok :: "monitor \<Rightarrow> viz_view \<Rightarrow> bool" where
  \<comment> \<open>the access points are nodes of the view and the links of the stations exist\<close>
  "monitor_ok m v \<longleftrightarrow> list_all (\<lambda>(_, i). i \<in> set (keys (vw_nodes v))) (mo_access_points m) \<and>
     list_all (\<lambda>(_, _, k). k < length (vw_wifi v)) (mo_stations m)"

definition wifi_link_ok :: "viz_view \<Rightarrow> nat \<Rightarrow> bool" where
  \<comment> \<open>the access point knows the link, which is drawn to where it is\<close>
  "wifi_link_ok v k \<longleftrightarrow> (case wf_ap (vw_wifi v ! k) of None \<Rightarrow> True | Some i \<Rightarrow>
     i \<in> set (keys (vw_nodes v)) \<and> Wifi k \<in> set (nd_links (node_at v i)) \<and>
     (\<exists>p. wf_points (vw_wifi v ! k) = Some (p, nd_pos (node_at v i))))"

definition wifi_ok :: "viz_view \<Rightarrow> bool" where
  "wifi_ok v \<longleftrightarrow> (\<forall>k < length (vw_wifi v). wifi_link_ok v k)"

lemma wifi_update_fields [simp]:
  "wf_ap (wifi_update v l) = wf_ap l" "wf_sta (wifi_update v l) = wf_sta l"
  by (simp_all add: wifi_update_def split: option.split)

lemma wifi_fold_update_points:
  "k < length (vw_wifi v) \<Longrightarrow> vw_wifi (fold update_points ls v) ! k =
    (if Wifi k \<in> set ls then wifi_update v (vw_wifi v ! k) else vw_wifi v ! k)"
proof (induction ls arbitrary: v)
  case (Cons l ls)
  have u: "vw_wifi (update_points l v) ! k = (if l = Wifi k then wifi_update v (vw_wifi v ! k) else vw_wifi v ! k)"
    using Cons.prems by (cases l) auto
  have "wifi_update (update_points l v) x = wifi_update v x" for x
    by (simp add: wifi_update_def split: option.split)
  moreover have "wifi_update v (wifi_update v x) = wifi_update v x" for x
    by (simp add: wifi_update_def split: option.split)
  ultimately show ?case using Cons u by simp
qed simp

lemma wifi_ok_cong:
  assumes "wifi_ok v" and "vw_wifi w = vw_wifi v" and "set (keys (vw_nodes v)) \<subseteq> set (keys (vw_nodes w))"
    and "\<And>i. i \<in> set (keys (vw_nodes v)) \<Longrightarrow> set (nd_links (node_at v i)) \<subseteq> set (nd_links (node_at w i)) \<and>
      nd_pos (node_at w i) = nd_pos (node_at v i)"
  shows "wifi_ok w"
  unfolding wifi_ok_def
proof (intro allI impI)
  fix k assume "k < length (vw_wifi w)"
  then have "wifi_link_ok v k" using assms(1,2) by (simp add: wifi_ok_def)
  with assms(2-4) show "wifi_link_ok w k"
    by (cases "wf_ap (vw_wifi v ! k)") (auto simp: wifi_link_ok_def)
qed

lemma wifi_ok_points:
  \<comment> \<open>updating links is never wrong, and enough when an access point has moved\<close>
  assumes "wifi_ok v" and "vw_wifi w = vw_wifi v" and "keys (vw_nodes w) = keys (vw_nodes v)"
    and "\<And>i. nd_links (node_at w i) = nd_links (node_at v i)"
    and "\<And>i k. i \<in> set (keys (vw_nodes v)) \<Longrightarrow> Wifi k \<in> set (nd_links (node_at v i)) \<Longrightarrow> Wifi k \<notin> set ls \<Longrightarrow>
      nd_pos (node_at w i) = nd_pos (node_at v i)"
  shows "wifi_ok (fold update_points ls w)"
  unfolding wifi_ok_def
proof (intro allI impI)
  fix k assume k: "k < length (vw_wifi (fold update_points ls w))"
  then have l: "k < length (vw_wifi w)" and ok: "wifi_link_ok v k" using assms(1,2) by (simp_all add: wifi_ok_def)
  show "wifi_link_ok (fold update_points ls w) k"
  proof (cases "wf_ap (vw_wifi v ! k)")
    case None
    then show ?thesis by (simp add: wifi_link_ok_def wifi_fold_update_points [OF l] assms(2))
  next
    case (Some i)
    then have i: "i \<in> set (keys (vw_nodes v))" "Wifi k \<in> set (nd_links (node_at v i))"
      "\<exists>p. wf_points (vw_wifi v ! k) = Some (p, nd_pos (node_at v i))" using ok by (simp_all add: wifi_link_ok_def)
    have "\<exists>p. wf_points (vw_wifi (fold update_points ls w) ! k) = Some (p, nd_pos (node_at w i))"
      using i assms(2,5) Some by (cases "Wifi k \<in> set ls") (simp_all add: wifi_fold_update_points [OF l] wifi_update_def)
    with i Some assms(2-4) show ?thesis
      by (simp add: wifi_link_ok_def wifi_fold_update_points [OF l] split: if_splits)
  qed
qed

lemma wifi_ok_neutral:
  "wifi_ok v \<Longrightarrow> (\<And>n. nd_links (f n) = nd_links n) \<Longrightarrow> (\<And>n. nd_pos (f n) = nd_pos n) \<Longrightarrow> wifi_ok (update_node i f v)"
  by (rule wifi_ok_cong [where v = v]) (simp_all add: node_at_update_node)

lemma wifi_ok_same: "wifi_ok v \<Longrightarrow> vw_nodes w = vw_nodes v \<Longrightarrow> vw_wifi w = vw_wifi v \<Longrightarrow> wifi_ok w"
  by (rule wifi_ok_cong [where v = v]) (simp_all add: node_at_def)

lemma wifi_ok_grow: "wifi_ok v \<Longrightarrow> wifi_ok (grow_bounds p v)"
  by (erule wifi_ok_same) simp_all

lemma wifi_ok_node_set_position: "wifi_ok v \<Longrightarrow> wifi_ok (node_set_position i p v)"
proof -
  assume ok: "wifi_ok v"
  let ?w = "update_node i (\<lambda>n. n\<lparr>nd_pos := p, nd_svg := map_option (place_svg p) (nd_svg n)\<rparr>) v"
  have "wifi_ok (fold update_points (nd_links (node_at ?w i)) ?w)"
    by (rule wifi_ok_points [OF ok]) (auto simp: node_at_update_node split: if_splits)
  then show ?thesis by (simp add: node_set_position_def Let_def wifi_ok_grow wifi_ok_neutral)
qed

lemma wifi_ok_channel_set_position: "wifi_ok v \<Longrightarrow> wifi_ok (channel_set_position c p v)"
  unfolding channel_set_position_def Let_def by (rule wifi_ok_points [where v = v]) simp_all

lemma wifi_ok_update_appearance: "wifi_ok v \<Longrightarrow> wifi_ok (update_appearance i v)"
  by (simp add: update_appearance_def Let_def wifi_ok_neutral wifi_ok_node_set_position split: option.split)

lemma wifi_ok_setters:
  assumes "wifi_ok v"
  shows "wifi_ok (set_selected b i v)" "wifi_ok (set_highlighted b i v)" "wifi_ok (set_size s i v)" "wifi_ok (set_color c i v)"
    "set_label p t i v = Inr w \<Longrightarrow> wifi_ok w" "set_svg_icon h wd ht ax ay i v = Inr w \<Longrightarrow> wifi_ok w"
  using assms by (auto simp: setter_defs Let_def rbind_Inr_iff intro!: wifi_ok_update_appearance wifi_ok_neutral split: if_splits)

lemma wifi_ok_get_node: "wifi_ok v \<Longrightarrow> wifi_ok (get_node i v)"
proof (rule wifi_ok_cong [where v = v])
  fix j assume "j \<in> set (keys (vw_nodes v))"
  then have "node_at (get_node i v) j = node_at v j"
    using lookup_keys [of "vw_nodes v" j] by (auto simp: get_node_def node_at_def map_add_def split: option.split)
  then show "set (nd_links (node_at v j)) \<subseteq> set (nd_links (node_at (get_node i v) j)) \<and>
      nd_pos (node_at (get_node i v) j) = nd_pos (node_at v j)" by simp
qed (auto simp: get_node_def)

lemma wifi_ok_get_channel: "wifi_ok v \<Longrightarrow> wifi_ok (get_channel c v)"
  by (erule wifi_ok_same) (simp_all add: get_channel_def)

lemma wifi_ok_attach: "wifi_ok v \<Longrightarrow> wifi_ok (attach l e v)"
proof (rule wifi_ok_cong [where v = v])
  show "set (keys (vw_nodes v)) \<subseteq> set (keys (vw_nodes (attach l e v)))" by (simp only: attach_fields)
  fix i
  show "set (nd_links (node_at v i)) \<subseteq> set (nd_links (node_at (attach l e v) i)) \<and>
      nd_pos (node_at (attach l e v) i) = nd_pos (node_at v i)"
    using end_links_attach [of l e v "NodeEnd i"] attach_fields(11) [of l e v "NodeEnd i"] by simp
qed simp_all

lemma wifi_ok_create_link: "wifi_ok v \<Longrightarrow> wifi_ok (create_link i e v)"
  unfolding create_link_def Let_def by (intro wifi_ok_attach, erule wifi_ok_same) simp_all

lemma wifi_ok_select_node: "select_node node v = Inr w \<Longrightarrow> wifi_ok v \<Longrightarrow> wifi_ok w"
proof -
  assume w: "select_node node v = Inr w" and ok: "wifi_ok v"
  have mark: "wifi_ok (case n of None \<Rightarrow> x | Some i \<Rightarrow> set_selected b i x)" if "wifi_ok x" for n b x
    using that by (simp add: wifi_ok_setters(1) split: option.split)
  have select: "wifi_ok (x\<lparr>vw_selected := n\<rparr>)" "wifi_ok (show_selected x)" if "wifi_ok x" for x n
    by (rule wifi_ok_same [OF that]; simp add: show_selected_def set_nodes_of_interest_def)+
  let ?x = "case node of None \<Rightarrow> (case vw_selected v of None \<Rightarrow> v | Some i \<Rightarrow> set_selected False i v)\<lparr>vw_selected := node\<rparr>
      | Some i \<Rightarrow> set_selected True i ((case vw_selected v of None \<Rightarrow> v | Some i \<Rightarrow> set_selected False i v)\<lparr>vw_selected := node\<rparr>)"
  have "w = v \<or> w = ?x \<or> w = show_selected ?x"
    using w unfolding select_node_def Let_def by (simp only: sum.inject sum.distinct split: if_splits) blast+
  moreover have "wifi_ok ?x" by (intro mark select ok)
  ultimately show ?thesis using ok select(2) by metis
qed

lemma wifi_ok_mode: "wifi_ok v \<Longrightarrow> wifi_ok (set_show_transmissions_mode n mode v)"
  by (erule wifi_ok_same) (cases mode; simp add: set_show_transmissions_mode_def show_selected_def set_nodes_of_interest_def)+

lemma wifi_link_ok_cong:
  assumes "wifi_link_ok v k" and "vw_wifi w ! k = vw_wifi v ! k" and "keys (vw_nodes w) = keys (vw_nodes v)"
    and "\<And>i. i \<in> set (keys (vw_nodes v)) \<Longrightarrow> Wifi k \<in> set (nd_links (node_at v i)) \<Longrightarrow> Wifi k \<in> set (nd_links (node_at w i))"
    and "\<And>i. nd_pos (node_at w i) = nd_pos (node_at v i)"
  shows "wifi_link_ok w k"
  using assms by (cases "wf_ap (vw_wifi v ! k)") (auto simp: wifi_link_ok_def simp del: set_map)

lemma remove_link_ok:
  assumes "remove_link (Wifi k) i v = Inr w"
  shows "keys (vw_nodes w) = keys (vw_nodes v)" "vw_wifi w = vw_wifi v" "nd_pos (node_at w j) = nd_pos (node_at v j)"
    "l \<noteq> k \<Longrightarrow> Wifi l \<in> set (nd_links (node_at v j)) \<Longrightarrow> Wifi l \<in> set (nd_links (node_at w j))"
  using assms by (auto simp: remove_link_def node_at_update_node split: if_splits)

lemma wifi_ok_set_ap:
  assumes w: "set_ap k ap v = Inr w" and ok: "wifi_ok v" and k: "k < length (vw_wifi v)"
    and ap: "\<And>i. ap = Some i \<Longrightarrow> i \<in> set (keys (vw_nodes v))"
  shows "wifi_ok w"
proof (cases "ap = wf_ap (vw_wifi v ! k)")
  case False
  obtain u where u: "(case wf_ap (vw_wifi v ! k) of None \<Rightarrow> Inr v | Some old \<Rightarrow> remove_link (Wifi k) old v) = Inr u"
    and wu: "w = (let v = u\<lparr>vw_wifi := (vw_wifi u)[k := (vw_wifi u ! k)\<lparr>wf_ap := ap, wf_visible := ap \<noteq> None\<rparr>]\<rparr>;
            v = (case ap of None \<Rightarrow> v | Some i \<Rightarrow> attach (Wifi k) (NodeEnd i) v) in update_points (Wifi k) v)"
    using w False by (auto simp: set_ap_def Let_def rbind_Inr_iff simp del: update_points.simps)
  have un: "keys (vw_nodes u) = keys (vw_nodes v)" "vw_wifi u = vw_wifi v" "nd_pos (node_at u j) = nd_pos (node_at v j)"
    "l \<noteq> k \<Longrightarrow> Wifi l \<in> set (nd_links (node_at v j)) \<Longrightarrow> Wifi l \<in> set (nd_links (node_at u j))" for j l
    using u remove_link_ok by (auto split: option.splits)
  define x where "x = u\<lparr>vw_wifi := (vw_wifi v)[k := (vw_wifi v ! k)\<lparr>wf_ap := ap, wf_visible := ap \<noteq> None\<rparr>]\<rparr>"
  define y where "y = (case ap of None \<Rightarrow> x | Some i \<Rightarrow> attach (Wifi k) (NodeEnd i) x)"
  have x: "keys (vw_nodes x) = keys (vw_nodes v)" "node_at x j = node_at u j" for j
    using un(1) by (simp_all add: x_def node_at_def)
  have y: "keys (vw_nodes y) = keys (vw_nodes v)" "vw_wifi y = vw_wifi x" "nd_pos (node_at y j) = nd_pos (node_at v j)"
    "nd_links (node_at y j) = nd_links (node_at u j) @ (if ap = Some j then [Wifi k] else [])" for j
    using un x ap by (auto simp: y_def attach_def node_at_update_node simp del: set_map split: option.split)
  have w: "w = update_points (Wifi k) y" using wu by (simp only: x_def y_def Let_def un(2))
  show ?thesis unfolding wifi_ok_def
  proof (intro allI impI)
    fix l assume "l < length (vw_wifi w)"
    then have l: "l < length (vw_wifi v)" by (simp add: w y x_def del: update_points.simps)
    show "wifi_link_ok w l"
    proof (cases "l = k")
      case True
      have "wf_ap (vw_wifi w ! k) = ap" and "vw_wifi w ! k = wifi_update y (vw_wifi y ! k)"
        using k by (simp_all add: w y x_def)
      with True ap y w show ?thesis
        by (auto simp: wifi_link_ok_def wifi_update_def simp del: set_map update_points.simps split: option.splits)
    next
      case False
      have "wifi_link_ok v l" using ok l by (simp add: wifi_ok_def)
      then show ?thesis
      proof (rule wifi_link_ok_cong)
        show "vw_wifi w ! l = vw_wifi v ! l" using False by (simp add: w y x_def)
        show "keys (vw_nodes w) = keys (vw_nodes v)" using y by (simp add: w)
        fix i
        show "nd_pos (node_at w i) = nd_pos (node_at v i)" using y by (simp add: w del: update_points.simps)
        show "Wifi l \<in> set (nd_links (node_at w i))" if "Wifi l \<in> set (nd_links (node_at v i))"
          using un(4) [OF False that] y by (simp add: w del: update_points.simps)
      qed
    qed
  qed
qed (use w ok in \<open>simp add: set_ap_def\<close>)

lemma wifi_ok_entries:
  assumes "wifi_ok v" and "vw_nodes w = vw_nodes v"
    and "\<And>k. k < length (vw_wifi w) \<Longrightarrow> wf_ap (vw_wifi w ! k) = None \<or> k < length (vw_wifi v) \<and> vw_wifi w ! k = vw_wifi v ! k"
  shows "wifi_ok w"
  unfolding wifi_ok_def
proof (intro allI impI)
  fix k assume "k < length (vw_wifi w)"
  from assms(3) [OF this] consider "wf_ap (vw_wifi w ! k) = None" | "k < length (vw_wifi v)" "vw_wifi w ! k = vw_wifi v ! k" by (elim disjE conjE)
  then show "wifi_link_ok w k"
  proof cases
    case 1
    then show ?thesis by (simp add: wifi_link_ok_def)
  next
    case 2
    with assms(1) have "wifi_link_ok v k" by (simp add: wifi_ok_def)
    then show ?thesis by (rule wifi_link_ok_cong) (simp_all add: 2 assms(2) node_at_def)
  qed
qed

lemma wifi_ok_destroy: "wifi_ok v \<Longrightarrow> wifi_ok (destroy_wifi_link k v)"
proof (erule wifi_ok_entries)
  fix l assume "l < length (vw_wifi (destroy_wifi_link k v))"
  then show "wf_ap (vw_wifi (destroy_wifi_link k v) ! l) = None \<or>
      l < length (vw_wifi v) \<and> vw_wifi (destroy_wifi_link k v) ! l = vw_wifi v ! l"
    by (cases "l = k") (simp_all add: destroy_wifi_link_def)
qed (simp add: destroy_wifi_link_def)

lemma wifi_ok_scan_device: "wifi_ok (snd s) \<Longrightarrow> wifi_ok (snd (scan_device i d s))"
proof (cases "(i, d, s)" rule: scan_device.cases)
  case (1 i d m v)
  assume "wifi_ok (snd s)"
  with 1 have "wifi_ok v" by simp
  then have "wifi_ok (new_wifi_link i v)"
    by (rule wifi_ok_entries) (auto simp: new_wifi_link_def nth_append less_Suc_eq)
  with 1 show ?thesis by simp
qed simp_all

lemma wifi_ok_scan_nodes: "wifi_ok v \<Longrightarrow> wifi_ok (snd (scan_nodes devices m v))"
proof -
  assume "wifi_ok v"
  then have "wifi_ok (fold (\<lambda>(_, _, k). destroy_wifi_link k) (mo_stations m) v)"
    by (rule fold_preserves [rotated]) (auto simp: wifi_ok_destroy)
  then show ?thesis unfolding scan_nodes_def Let_def
    by (intro fold_preserves [where P = "\<lambda>s. wifi_ok (snd s)"]) (simp_all add: wifi_ok_scan_device)
qed

lemma set_ap_keeps:
  assumes "set_ap k ap v = Inr w"
  shows "keys (vw_nodes w) = keys (vw_nodes v)" "length (vw_wifi w) = length (vw_wifi v)"
  using assms by (auto simp: set_ap_def Let_def rbind_Inr_iff remove_link_ok split: if_splits option.splits)

lemma wifi_ok_periodic_update:
  assumes "wifi_periodic_update up bssid m v = Inr w" and "wifi_ok v" and "monitor_ok m v"
  shows "wifi_ok w"
proof -
  define P where "P x \<longleftrightarrow> wifi_ok x \<and> keys (vw_nodes x) = keys (vw_nodes v) \<and> length (vw_wifi x) = length (vw_wifi v)" for x
  have "P w" if "rfold (\<lambda>(d, _, k) v. rbind (station_ap up bssid m d) (\<lambda>ap. set_ap k ap v)) ss x = Inr w" "P x"
      "\<forall>(d, j, k) \<in> set ss. k < length (vw_wifi v)" for ss x
    using that
  proof (induction ss arbitrary: x)
    case (Cons s ss)
    obtain d j k where s: "s = (d, j, k)" by (cases s)
    with Cons.prems(1) obtain ap y where y: "station_ap up bssid m d = Inr ap" "set_ap k ap x = Inr y"
      "rfold (\<lambda>(d, _, k) v. rbind (station_ap up bssid m d) (\<lambda>ap. set_ap k ap v)) ss y = Inr w"
      by (auto simp: rbind_Inr_iff)
    have "i \<in> set (keys (vw_nodes x))" if "ap = Some i" for i
    proof -
      have "(bssid d, i) \<in> set (mo_access_points m)"
        using y(1) that by (auto simp: station_ap_def rbind_Inr_iff dict_get_def split: if_splits option.splits dest: map_of_SomeD)
      then have "i \<in> set (keys (vw_nodes v))" using assms(3) by (auto simp: monitor_ok_def list_all_iff)
      with Cons.prems(2) show ?thesis unfolding P_def by metis
    qed
    moreover have "k < length (vw_wifi x)" using Cons.prems(2,3) s by (simp add: P_def)
    ultimately have "P y" using wifi_ok_set_ap [OF y(2)] set_ap_keeps [OF y(2)] Cons.prems(2) by (simp add: P_def)
    with Cons.IH [OF y(3)] Cons.prems(3) show ?case by simp
  qed simp
  from this [of "mo_stations m" v] assms show ?thesis
    by (auto simp: wifi_periodic_update_def P_def monitor_ok_def list_all_iff)
qed

lemma wifi_update_view_fold: "wifi_update_view m v = fold update_points (map (\<lambda>(_, _, k). Wifi k) (mo_stations m)) v"
  by (simp add: wifi_update_view_def fold_map comp_def split_def)

lemma wifi_ok_update_view: "wifi_ok v \<Longrightarrow> wifi_ok (wifi_update_view m v)"
  unfolding wifi_update_view_fold by (rule wifi_ok_points [where v = v]) simp_all

text \<open>What a scan of the nodes finds fits the view.\<close>

lemma fold_preserves_in: "(\<And>x s. x \<in> set xs \<Longrightarrow> P s \<Longrightarrow> P (f x s)) \<Longrightarrow> P s \<Longrightarrow> P (fold f xs s)"
  by (induction xs arbitrary: s) simp_all

lemma scan_device_monitor:
  assumes "i \<in> set (keys (vw_nodes (snd s)))" and "monitor_ok (fst s) (snd s)"
  shows "monitor_ok (fst (scan_device i d s)) (snd (scan_device i d s)) \<and> vw_nodes (snd (scan_device i d s)) = vw_nodes (snd s)"
proof (cases "(i, d, s)" rule: scan_device.cases)
  case (1 i d m v)
  with assms show ?thesis by (auto simp: monitor_ok_def list_all_iff new_wifi_link_def simp del: set_map)
next
  case (2 i b m v)
  have "set (AList.update b i ps) \<subseteq> insert (b, i) (set ps)" for ps :: "(string \<times> int) list"
    by (induction ps) auto
  with 2 assms show ?thesis by (fastforce simp: monitor_ok_def list_all_iff simp del: set_map)
qed (use assms in auto)

lemma monitor_ok_scan: "monitor_ok (fst (scan_nodes devices m v)) (snd (scan_nodes devices m v))"
proof -
  let ?v = "fold (\<lambda>(_, _, k). destroy_wifi_link k) (mo_stations m) v"
  define P where "P s \<longleftrightarrow> monitor_ok (fst s) (snd s) \<and> vw_nodes (snd s) = vw_nodes ?v" for s
  have "P (fold (\<lambda>i. fold (scan_device i) (devices i)) (keys (vw_nodes ?v)) (\<lparr>mo_access_points = [], mo_stations = []\<rparr>, ?v))"
  proof (rule fold_preserves_in)
    fix i s assume i: "i \<in> set (keys (vw_nodes ?v))" and "P s"
    then show "P (fold (scan_device i) (devices i) s)"
    proof (intro fold_preserves_in [where P = P])
      fix d s assume "P s"
      with scan_device_monitor [of i s d] i show "P (scan_device i d s)" unfolding P_def by metis
    qed
  qed (simp add: P_def monitor_ok_def)
  then show ?thesis by (simp add: P_def scan_nodes_def Let_def)
qed

section \<open>What the operations keep\<close>

inductive view_op :: "viz_view \<Rightarrow> viz_view \<Rightarrow> bool" where
  \<comment> \<open>a monitor that samples has scanned nodes before; a sample that raises has made the calls of \<open>set_ap\<close> before\<close>
  move: "view_op v (node_set_position i p v)"
| move_channel: "view_op v (channel_set_position c p v)"
| highlight: "view_op v (set_highlighted b i v)"
| resize: "view_op v (set_size s i v)"
| recolor: "view_op v (set_color c i v)"
| relabel: "set_label python3 label i v = Inr w \<Longrightarrow> view_op v w"
| icon: "set_svg_icon handle width height align_x align_y i v = Inr w \<Longrightarrow> view_op v w"
| node: "view_op v (get_node i v)"
| channel: "view_op v (get_channel c v)"
| link: "present v (NodeEnd i) \<Longrightarrow> present v e \<Longrightarrow> view_op v (create_link i e v)"
| choose: "select_node node v = Inr w \<Longrightarrow> view_op v w"
| mode: "view_op v (set_show_transmissions_mode n mode v)"
| wifi_scan: "view_op v (snd (scan_nodes devices m v))"
| wifi_sample: "monitor_ok m v \<Longrightarrow> wifi_periodic_update up bssid m v = Inr w \<Longrightarrow> view_op v w"
| wifi_ap: "k < length (vw_wifi v) \<Longrightarrow> list_all (\<lambda>i. i \<in> set (keys (vw_nodes v))) (case ap of None \<Rightarrow> [] | Some i \<Rightarrow> [i]) \<Longrightarrow>
    set_ap k ap v = Inr w \<Longrightarrow> view_op v w"
| wifi_view: "view_op v (wifi_update_view m v)"

lemma view_op_ok: "view_op v w \<Longrightarrow> view_ok v \<Longrightarrow> view_ok w"
proof (induction rule: view_op.induct)
  case (wifi_ap k v ap w)
  show ?case by (rule view_ok_set_ap [OF wifi_ap.hyps(3) wifi_ap.prems])
qed (auto intro: view_ok_node_set_position view_ok_channel_set_position view_ok_setters view_ok_get_node view_ok_get_channel
       view_ok_create_link view_ok_mode view_ok_scan_nodes view_ok_wifi_periodic_update view_ok_wifi_update_view
       dest: view_ok_select_node simp del: present.simps)

interpretation view: preserved view_op view_ok
  by unfold_locales (rule view_op_ok)

lemma view_op_wifi: "view_op v w \<Longrightarrow> wifi_ok v \<Longrightarrow> wifi_ok w"
proof (induction rule: view_op.induct)
  case (wifi_ap k v ap w)
  from wifi_ap.hyps(2) show ?case
    by (intro wifi_ok_set_ap [OF wifi_ap.hyps(3) wifi_ap.prems wifi_ap.hyps(1)]) simp
qed (auto intro: wifi_ok_node_set_position wifi_ok_channel_set_position wifi_ok_setters(2-4) wifi_ok_get_node wifi_ok_get_channel
       wifi_ok_create_link wifi_ok_mode wifi_ok_scan_nodes wifi_ok_periodic_update wifi_ok_update_view
       dest: wifi_ok_select_node wifi_ok_setters(5,6) simp del: present.simps)

interpretation wifi: preserved view_op wifi_ok
  by unfold_locales (rule view_op_wifi)

section \<open>Properties\<close>


definition two_devices :: "int \<Rightarrow> wifi_device list" where
  \<comment> \<open>node 0 is an access point, the others are stations\<close>
  "two_devices i = (if i = 0 then [AccessPoint ''a''] else [Station 5])"

definition wifi_start :: "monitor \<times> viz_view" where
  "wifi_start = scan_nodes two_devices \<lparr>mo_access_points = [], mo_stations = []\<rparr> (get_node 1 (get_node 0 (new_viz_view True 2)))"

lemma wifi_start_moved:
  "\<exists>u. wifi_periodic_update (\<lambda>_. True) (\<lambda>_. ''a'') (fst wifi_start) (snd wifi_start) = Inr u \<and>
    map wf_ap (vw_wifi (node_set_position 1 (7, 0) u)) = [Some 0] \<and>
    map wf_points (vw_wifi (node_set_position 1 (7, 0) u)) = [Some ((0, 0), (0, 0))] \<and>
    map wf_sta (vw_wifi (node_set_position 1 (7, 0) u)) = [1] \<and>
    nd_pos (node_at (node_set_position 1 (7, 0) u) 0) = (0, 0) \<and> nd_pos (node_at (node_set_position 1 (7, 0) u) 1) = (7, 0)"
proof -
  have "case wifi_periodic_update (\<lambda>_. True) (\<lambda>_. ''a'') (fst wifi_start) (snd wifi_start) of Inl _ \<Rightarrow> False | Inr u \<Rightarrow>
    map wf_ap (vw_wifi (node_set_position 1 (7, 0) u)) = [Some 0] \<and>
    map wf_points (vw_wifi (node_set_position 1 (7, 0) u)) = [Some ((0, 0), (0, 0))] \<and>
    map wf_sta (vw_wifi (node_set_position 1 (7, 0) u)) = [1] \<and>
    nd_pos (node_at (node_set_position 1 (7, 0) u) 0) = (0, 0) \<and> nd_pos (node_at (node_set_position 1 (7, 0) u) 1) = (7, 0)" by code_simp
  then show ?thesis by (auto split: sum.splits)
qed

lemma wifi_moved_reach:
  assumes "wifi_periodic_update (\<lambda>_. True) (\<lambda>_. ''a'') (fst wifi_start) (snd wifi_start) = Inr u"
  shows "view_op\<^sup>*\<^sup>* (new_viz_view True 2) (node_set_position 1 (7, 0) u)"
proof -
  let ?v0 = "new_viz_view True 2"
  have "view_op ?v0 (get_node 0 ?v0)" "view_op (get_node 0 ?v0) (get_node 1 (get_node 0 ?v0))" by (rule view_op.node)+
  moreover have "view_op (get_node 1 (get_node 0 ?v0)) (snd wifi_start)" unfolding wifi_start_def by (rule view_op.wifi_scan)
  moreover have "view_op (snd wifi_start) u"
    using monitor_ok_scan assms unfolding wifi_start_def by (rule view_op.wifi_sample)
  ultimately show ?thesis by (meson rtranclp.rtrancl_refl rtranclp.rtrancl_into_rtrancl view_op.move)
qed


end
