(* ===== verification/Viz_Axes.thy ===== *)
theory Viz_Axes
  imports Viz_Nodes
begin

text \<open>
  The axes over the picture, \<open>src/visualizer/visualizer/hud.py\<close>: the distance of the ticks, their loop
  and the labels, which are recycled. Coordinates are real numbers here because of the logarithm. The
  loop over the ticks is a partial function: a distance that is not positive would keep it going. The
  part of the canvas that is shown, and the zoom, are arguments.
\<close>

section \<open>The distance of the ticks\<close>

definition rint :: "real \<Rightarrow> int" where
  "rint x = \<lfloor>x + 1 / 2\<rfloor>"

definition division_size :: "real \<Rightarrow> real" where
  \<comment> \<open>a power of ten, or twice or half of it\<close>
  "division_size d =
     (let tbe = log 10 d; size = 10 powi rint tbe
      in if \<bar>size / 2 - d\<bar> < \<bar>size - d\<bar> then size / 2
         else if \<bar>size * 2 - d\<bar> < \<bar>size - d\<bar> then size * 2
         else size)"

definition division_pass :: "real \<Rightarrow> real \<Rightarrow> real \<Rightarrow> real \<Rightarrow> nat \<Rightarrow> real \<times> real \<times> real \<Rightarrow> real \<times> real \<times> real" where
  \<comment> \<open>one round of the loop, with \<open>ndiv\<close>, \<open>x0\<close> and \<open>div\<close>\<close>
  "division_pass xi extent text_width dx_over_ndiv n s =
     (case s of (ndiv, _, _) \<Rightarrow>
        let size = division_size dx_over_ndiv; x0 = size * real_of_int \<lceil>xi / size\<rceil> - size
        in (if n > 1 then real_of_int (rint (extent / text_width)) else ndiv, x0, size))"

definition compute_divisions :: "real \<Rightarrow> real \<Rightarrow> (real \<times> real) pyres" where
  "compute_divisions xi xf =
     (if \<not> xi < xf then Inl AssertionError
      else
        let dx = xf - xi; ndiv = 5; text_width = dx / ndiv / 2; dx_over_ndiv = dx / ndiv
        in case fold (division_pass xi dx text_width dx_over_ndiv) [0..<5] (ndiv, 0, 0) of (_, x0, xdiv) \<Rightarrow> Inr (x0, xdiv))"

partial_function (option) tick_loop :: "real \<Rightarrow> real \<Rightarrow> real \<Rightarrow> real list option" where
  "tick_loop x step limit =
     (if x < limit then Option.bind (tick_loop (x + step) step limit) (\<lambda>ts. Some (x # ts)) else Some [])"

section \<open>Drawing\<close>

record axis_label =
  al_id :: nat
  al_visible :: bool
  al_value :: real
  al_point :: "real \<times> real"

record axes =
  ax_labels :: "axis_label list"
  ax_hpath :: "((real \<times> real) \<times> (real \<times> real)) list"
  ax_vpath :: "((real \<times> real) \<times> (real \<times> real)) list"
  ax_line_width :: real
  ax_visible :: bool
  ax_lines_visible :: bool
  ax_created :: nat

definition get_label :: "axis_label list \<Rightarrow> nat \<Rightarrow> axis_label \<times> axis_label list \<times> nat" where
  "get_label unused n = (case unused of
     [] \<Rightarrow> (\<lparr>al_id = n, al_visible = True, al_value = 0, al_point = (0, 0)\<rparr>, [], n + 1)
   | l # ls \<Rightarrow> (l\<lparr>al_visible := True\<rparr>, ls, n))"

fun label_ticks :: "(real \<times> (real \<times> real)) list \<Rightarrow> axis_label list \<times> axis_label list \<times> nat \<Rightarrow>
    axis_label list \<times> axis_label list \<times> nat" where
  "label_ticks [] s = s"
| "label_ticks ((x, p) # ts) (labels, unused, n) =
     (case get_label unused n of (l, unused, n) \<Rightarrow>
        label_ticks ts (labels @ [l\<lparr>al_value := x, al_point := p\<rparr>], unused, n))"

definition pixels_per_meter :: real where
  "pixels_per_meter = of_rat PIXELS_PER_METER"

definition axes_update :: "real option \<Rightarrow> real \<times> real \<times> real \<times> real \<Rightarrow> axes \<Rightarrow> axes pyres option" where
  "axes_update zoom window ax = (case zoom of
     None \<Rightarrow> Some (Inr ax)
   | Some z \<Rightarrow> case window of (x1, y1, x2, y2) \<Rightarrow>
       let unused = map (\<lambda>l. l\<lparr>al_visible := False\<rparr>) (ax_labels ax); m = pixels_per_meter;
           offset = 10 / z; width = 5 / z; yc = y2 - width / 2; xc = x1 + width / 2
       in case compute_divisions (x1 / m) (x2 / m) of
            Inl e \<Rightarrow> Some (Inl e)
          | Inr (x0, xdiv) \<Rightarrow> Option.bind (tick_loop x0 xdiv (x2 / m)) (\<lambda>xs.
              case label_ticks (map (\<lambda>x. (x, (m * x, yc - offset))) xs) ([], unused, ax_created ax) of (labels, unused, n) \<Rightarrow>
              case compute_divisions (y1 / m) (y2 / m) of
                Inl e \<Rightarrow> Some (Inl e)
              | Inr (y0, ydiv) \<Rightarrow> Option.bind (tick_loop y0 ydiv (y2 / m)) (\<lambda>ys.
                  case label_ticks (map (\<lambda>y. (y, (xc + offset, m * y))) ys) (labels, unused, n) of (labels, unused, n) \<Rightarrow>
                  Some (Inr (ax\<lparr>ax_labels := labels @ unused, ax_line_width := width, ax_created := n,
                    ax_hpath := ((x1, yc), (x2, yc)) # map (\<lambda>x. ((m * x, yc - offset), (m * x, yc))) xs,
                    ax_vpath := ((xc, y1), (xc, y2)) # map (\<lambda>y. ((xc, m * y), (xc + offset, m * y))) ys\<rparr>)))))"

definition axes_set_visible :: "bool \<Rightarrow> axes \<Rightarrow> axes" where
  "axes_set_visible b ax =
     (if b then ax\<lparr>ax_visible := True, ax_lines_visible := True\<rparr>
      else ax\<lparr>ax_visible := False, ax_lines_visible := False, ax_labels := map (\<lambda>l. l\<lparr>al_visible := False\<rparr>) (ax_labels ax)\<rparr>)"

definition axes_scrolled :: "real option \<Rightarrow> real \<times> real \<times> real \<times> real \<Rightarrow> axes \<Rightarrow> axes pyres option" where
  \<comment> \<open>an adjustment has changed\<close>
  "axes_scrolled zoom window ax = (if ax_visible ax then axes_update zoom window ax else Some (Inr ax))"

section \<open>The distance is right\<close>

lemma compute_divisions_eq:
  \<comment> \<open>the rounds of the loop all do the same\<close>
  "xi < xf \<Longrightarrow> compute_divisions xi xf =
     (let size = division_size ((xf - xi) / 5) in Inr (size * real_of_int \<lceil>xi / size\<rceil> - size, size))"
  by (simp add: compute_divisions_def division_pass_def Let_def upt_rec numeral_eq_Suc)

lemma rint_log:
  assumes "0 < d"
  shows "10 powr (- 1 / 2) * d \<le> 10 powi rint (log 10 d)" "10 powi rint (log 10 d) \<le> 10 powr (1 / 2) * d"
proof -
  let ?e = "real_of_int (rint (log 10 d))"
  have e: "log 10 d - 1 / 2 \<le> ?e" "?e \<le> log 10 d + 1 / 2" unfolding rint_def by linarith+
  have d: "d = 10 powr log 10 d" and p: "10 powi rint (log 10 d) = 10 powr ?e"
    using assms by (simp_all add: powr_real_of_int')
  have "10 powr (- 1 / 2) * d = 10 powr (log 10 d - 1 / 2)" "10 powr (1 / 2) * d = 10 powr (log 10 d + 1 / 2)"
    using powr_add [of 10 "- 1 / 2" "log 10 d"] powr_add [of 10 "1 / 2" "log 10 d"] assms by (simp_all add: add.commute)
  with e p show "10 powr (- 1 / 2) * d \<le> 10 powi rint (log 10 d)" "10 powi rint (log 10 d) \<le> 10 powr (1 / 2) * d"
    by simp_all
qed

lemma sqrt_ten: "10 powr (1 / 2) = sqrt 10" "10 powr (- 1 / 2) = sqrt 10 / 10" "25 / 8 < sqrt 10" "sqrt 10 < 16 / 5"
proof -
  show s: "10 powr (1 / 2) = sqrt 10" by (simp add: powr_half_sqrt)
  have "10 powr (- 1 / 2) * 10 = 10 powr (- 1 / 2) * (10 powr 1 :: real)" by simp
  also have "\<dots> = 10 powr (1 / 2)" by (subst powr_add [symmetric]) simp
  finally show "10 powr (- 1 / 2) = sqrt 10 / 10" using s by simp
  show "25 / 8 < sqrt 10" "sqrt 10 < 16 / 5" by (rule real_less_rsqrt, simp add: power2_eq_square) (rule real_less_lsqrt, simp_all add: power2_eq_square)
qed

lemma division_size_bounds:
  assumes "0 < d"
  shows "0 < division_size d" "5 / 8 * d \<le> division_size d" "division_size d \<le> 8 / 5 * d"
proof -
  let ?p = "10 powi rint (log 10 d) :: real"
  have p: "sqrt 10 / 10 * d \<le> ?p" "?p \<le> sqrt 10 * d"
    using rint_log [OF assms] unfolding sqrt_ten(1,2) by auto
  have "5 / 16 * d < ?p" using p(1) mult_strict_right_mono [OF sqrt_ten(3) assms] by simp
  moreover have "?p < 16 / 5 * d" using p(2) mult_strict_right_mono [OF sqrt_ten(4) assms] by simp
  ultimately have "5 / 8 * d \<le> division_size d \<and> division_size d \<le> 8 / 5 * d"
    using p sqrt_ten(3,4) assms by (auto simp: division_size_def Let_def abs_if split: if_splits)
  then show "5 / 8 * d \<le> division_size d" "division_size d \<le> 8 / 5 * d" "0 < division_size d" using assms by auto
qed

lemma division_size_round: "\<exists>k. division_size d \<in> {10 powi k, 2 * 10 powi k, 5 * 10 powi k}"
proof -
  have "(10 :: real) powi k / 2 = 5 * 10 powi (k - 1)" for k by (simp add: power_int_diff)
  then have half: "(10 :: real) powi rint (log 10 d) / 2 = 5 * 10 powi (rint (log 10 d) - 1)" .
  have "division_size d \<in> {10 powi rint (log 10 d), 2 * 10 powi rint (log 10 d), 5 * 10 powi (rint (log 10 d) - 1)}"
    unfolding division_size_def Let_def half by (simp add: mult.commute)
  then show ?thesis by blast
qed

lemma ticks_end:
  assumes "0 < step"
  shows "\<exists>ts. tick_loop x step limit = Some ts \<and> ts = map (\<lambda>i. x + real i * step) [0..<length ts] \<and>
    (\<forall>i < length ts. x + real i * step < limit) \<and> limit \<le> x + real (length ts) * step"
proof (induction "nat \<lceil>(limit - x) / step\<rceil>" arbitrary: x)
  case 0
  then have "(limit - x) / step \<le> 0" by linarith
  then have "limit \<le> x" using assms by (simp add: divide_le_0_iff)
  then show ?case by (subst tick_loop.simps) simp
next
  case (Suc n)
  then have "0 < (limit - x) / step" by linarith
  then have x: "x < limit" using assms by (simp add: zero_less_divide_iff)
  have "(limit - (x + step)) / step = (limit - x) / step - 1" using assms by (simp add: field_simps)
  then have "n = nat \<lceil>(limit - (x + step)) / step\<rceil>" using Suc(2) by (simp add: ceiling_diff_one)
  from Suc(1) [OF this] obtain ts where ts: "tick_loop (x + step) step limit = Some ts"
    "ts = map (\<lambda>i. x + step + real i * step) [0..<length ts]" "\<forall>i < length ts. x + step + real i * step < limit"
    "limit \<le> x + step + real (length ts) * step" by blast
  have "map (\<lambda>i. x + real i * step) [0..<Suc (length ts)] = x # map (\<lambda>i. x + real (Suc i) * step) [0..<length ts]"
    by (simp add: upt_conv_Cons map_Suc_upt [symmetric] comp_def del: upt_Suc)
  also have "map (\<lambda>i. x + real (Suc i) * step) [0..<length ts] = ts" by (subst ts(2)) (simp add: algebra_simps)
  finally have "x # ts = map (\<lambda>i. x + real i * step) [0..<length (x # ts)]" by simp
  moreover have "x + real i * step < limit" if "i < Suc (length ts)" for i
    using that x ts(3) by (cases i) (auto simp: algebra_simps)
  moreover have "tick_loop x step limit = Some (x # ts)" using x ts(1) by (subst tick_loop.simps) simp
  ultimately show ?case using ts(4) by (intro exI [of _ "x # ts"]) (auto simp: algebra_simps)
qed

lemma last_map_upt: "0 < n \<Longrightarrow> xs = map f [0..<n] \<Longrightarrow> last xs = f (n - 1)"
  by (simp add: last_map)

section \<open>The labels\<close>

lemma label_ticks_spec:
  "label_ticks ts (labels, unused, n) =
    (labels @ map2 (\<lambda>i (x, p). \<lparr>al_id = i, al_visible = True, al_value = x, al_point = p\<rparr>)
       (take (length ts) (map al_id unused) @ [n..<n + (length ts - length unused)]) ts,
     drop (length ts) unused, n + (length ts - length unused))"
proof (induction ts arbitrary: labels unused n)
  case (Cons t ts)
  obtain x p where t: "t = (x, p)" by (cases t)
  show ?case
  proof (cases unused)
    case Nil
    then show ?thesis by (simp add: t get_label_def Cons upt_rec [of n] del: upt_Suc)
  next
    case (Cons l ls)
    then show ?thesis by (simp add: t get_label_def Cons.IH)
  qed
qed simp

lemma label_ticks_append: "label_ticks (ts @ us) s = label_ticks us (label_ticks ts s)"
proof (induction ts arbitrary: s)
  case (Cons t ts)
  then show ?case by (cases t; cases s) (simp add: case_prod_beta)
qed simp

definition labels_ok :: "axes \<Rightarrow> bool" where
  "labels_ok ax \<longleftrightarrow> distinct (map al_id (ax_labels ax)) \<and> list_all (\<lambda>l. al_id l < ax_created ax) (ax_labels ax)"

lemma divisions_good:
  assumes "xi < xf"
  shows "\<exists>x0 step ts k. compute_divisions xi xf = Inr (x0, step) \<and> step \<in> {10 powi k, 2 * 10 powi k, 5 * 10 powi k} \<and>
    tick_loop x0 step xf = Some ts \<and> ts = map (\<lambda>i. x0 + real i * step) [0..<length ts] \<and>
    4 \<le> length ts \<and> length ts \<le> 9 \<and> x0 < xi \<and> xi \<le> x0 + step \<and> last ts < xf \<and> xf \<le> last ts + step"
proof -
  let ?d = "(xf - xi) / 5"
  obtain step where step: "step = division_size ?d" by blast
  have pos: "0 < step" and size: "5 / 8 * ?d \<le> step" "step \<le> 8 / 5 * ?d"
    using division_size_bounds [of ?d] assms by (simp_all add: step)
  obtain x0 where x0: "x0 = step * real_of_int \<lceil>xi / step\<rceil> - step" by blast
  have "xi / step \<le> real_of_int \<lceil>xi / step\<rceil>" "real_of_int \<lceil>xi / step\<rceil> - 1 < xi / step" by linarith+
  then have "xi \<le> real_of_int \<lceil>xi / step\<rceil> * step" "(real_of_int \<lceil>xi / step\<rceil> - 1) * step < xi"
    using pos by (simp_all only: pos_divide_le_eq pos_less_divide_eq)
  then have x: "xi \<le> x0 + step" "x0 < xi" by (simp_all add: x0 algebra_simps)
  obtain ts where ts: "tick_loop x0 step xf = Some ts" "ts = map (\<lambda>i. x0 + real i * step) [0..<length ts]"
    "\<forall>i < length ts. x0 + real i * step < xf" "xf \<le> x0 + real (length ts) * step"
    using ticks_end [OF pos, of x0 xf] by blast
  have "xf - xi < real (length ts) * step" using ts(4) x(2) by linarith
  also have "\<dots> \<le> real (length ts) * (8 / 5 * ?d)" using size(2) by (intro mult_left_mono) simp_all
  finally have "1 * (xf - xi) < (real (length ts) * (8 / 25)) * (xf - xi)" by (simp add: field_simps)
  then have "1 < real (length ts) * (8 / 25)" using assms by (metis mult_less_cancel_right_pos diff_gt_0_iff_gt)
  then have four: "4 \<le> length ts" by linarith
  obtain m where m: "length ts = Suc m" using four by (cases "length ts") simp_all
  have "last ts = x0 + real m * step" using last_map_upt [OF _ ts(2)] m by simp
  moreover have below: "x0 + real m * step < xf" using ts(3) m by simp
  moreover have "x0 + real (Suc m) * step = x0 + real m * step + step" by (simp add: algebra_simps)
  ultimately have lst: "last ts < xf" "xf \<le> last ts + step" using ts(4) unfolding m by linarith+
  have "(real m - 1) * step = real m * step - step" by (simp add: algebra_simps)
  also have "real m * step < xf - x0" using below by simp
  also have "xf - x0 - step \<le> 8 * step" using x(1) size(1) by simp
  finally have "real m - 1 < 8" using pos by simp
  then have nine: "length ts \<le> 9" using m by linarith
  obtain k where k: "step \<in> {10 powi k, 2 * 10 powi k, 5 * 10 powi k}" using division_size_round [of ?d] step by blast
  have "compute_divisions xi xf = Inr (x0, step)"
    using compute_divisions_eq [OF assms] by (simp add: Let_def step [symmetric] x0)
  with k ts(1,2) four nine x lst show ?thesis by blast
qed

lemma distinct_fresh:
  "distinct (xs @ zs) \<Longrightarrow> \<forall>i \<in> set xs \<union> set zs. i < n \<Longrightarrow> distinct (xs @ [n..<m] @ zs)"
  by (auto simp: ball_Un)

lemma label_ticks_pool:
  assumes "label_ticks ts ([], unused, n) = (labels, rest, n')" and "list_all (\<lambda>l. \<not> al_visible l) unused"
    and "distinct (map al_id unused)" and "list_all (\<lambda>l. al_id l < n) unused"
  shows "map (\<lambda>l. (al_value l, al_point l)) (filter al_visible (labels @ rest)) = ts" and "distinct (map al_id (labels @ rest))"
    and "list_all (\<lambda>l. al_id l < n') (labels @ rest)" and "length (labels @ rest) = max (length ts) (length unused)"
proof -
  let ?ids = "take (length ts) (map al_id unused) @ [n..<n + (length ts - length unused)]"
  let ?f = "\<lambda>i (x, p). \<lparr>al_id = i, al_visible = True, al_value = x, al_point = p\<rparr>"
  have r: "labels = map2 ?f ?ids ts" "rest = drop (length ts) unused" "n' = n + (length ts - length unused)"
    using assms(1) unfolding label_ticks_spec by auto
  have len: "length ?ids = length ts" by simp
  have all: "map al_id (map2 ?f is ts) = is" "map (\<lambda>l. (al_value l, al_point l)) (map2 ?f is ts) = ts"
    "filter al_visible (map2 ?f is ts) = map2 ?f is ts" if "length is = length ts" for "is"
    using that by (induction "is" ts rule: list_induct2) auto
  have "list_all (\<lambda>l. \<not> al_visible l) rest" using assms(2) set_drop_subset [of "length ts" unused] unfolding r(2) list_all_iff by blast
  then have "filter al_visible rest = []" by (simp add: filter_empty_conv list_all_iff)
  then show "map (\<lambda>l. (al_value l, al_point l)) (filter al_visible (labels @ rest)) = ts" using all(2,3) [OF len] by (simp add: r(1))
  have ids: "map al_id (labels @ rest) = take (length ts) (map al_id unused) @ [n..<n'] @ drop (length ts) (map al_id unused)"
    using all(1) [OF len] by (simp add: r drop_map)
  have sets: "set (take (length ts) (map al_id unused)) \<union> set (drop (length ts) (map al_id unused)) = al_id ` set unused"
    by (metis append_take_drop_id list.set_map set_append)
  have below: "\<forall>i \<in> al_id ` set unused. i < n" using assms(4) by (simp add: list_all_iff)
  have "distinct (take (length ts) (map al_id unused) @ drop (length ts) (map al_id unused))" using assms(3) by simp
  then show "distinct (map al_id (labels @ rest))" 
    unfolding ids by (rule distinct_fresh) (simp add: sets below del: set_take_subset)
  have "i < n'" if "i \<in> set (map al_id (labels @ rest))" for i
  proof -
    have "i \<in> al_id ` set unused \<or> i < n'" using that sets unfolding ids by auto
    then show ?thesis using below r(3) by auto
  qed
  then show "list_all (\<lambda>l. al_id l < n') (labels @ rest)" by (auto simp add: list_all_iff)
  show "length (labels @ rest) = max (length ts) (length unused)" using arg_cong [OF ids, of length] r(3) by simp
qed

section \<open>Properties\<close>


text \<open>After an update the labels that are visible are those of the ticks of both axes, each beside its
  tick; labels are recycled, none is used twice and none is lost.\<close>

theorem axis_labels:
  assumes "labels_ok ax" and "x1 < x2" and "y1 < y2"
  shows "\<exists>w xs ys. axes_update (Some z) (x1, y1, x2, y2) ax = Some (Inr w) \<and> labels_ok w \<and>
    map (\<lambda>l. (al_value l, al_point l)) (filter al_visible (ax_labels w)) =
      map (\<lambda>x. (x, (3 * x, y2 - 5 / z / 2 - 10 / z))) xs @ map (\<lambda>y. (y, (x1 + 5 / z / 2 + 10 / z, 3 * y))) ys \<and>
    length (ax_hpath w) = length xs + 1 \<and> length (ax_vpath w) = length ys + 1 \<and> 4 \<le> length xs \<and> 4 \<le> length ys \<and>
    length (ax_labels w) = max (length xs + length ys) (length (ax_labels ax))"
proof -
  have m: "pixels_per_meter = 3" by (simp add: pixels_per_meter_def PIXELS_PER_METER_def)
  obtain x0 xs xstep where x: "compute_divisions (x1 / 3) (x2 / 3) = Inr (x0, xstep)" "tick_loop x0 xstep (x2 / 3) = Some xs" "4 \<le> length xs"
    using divisions_good [of "x1 / 3" "x2 / 3"] assms(2) by auto
  obtain y0 ys ystep where y: "compute_divisions (y1 / 3) (y2 / 3) = Inr (y0, ystep)" "tick_loop y0 ystep (y2 / 3) = Some ys" "4 \<le> length ys"
    using divisions_good [of "y1 / 3" "y2 / 3"] assms(3) by auto
  let ?hs = "map (\<lambda>x. (x, (3 * x, y2 - 5 / z / 2 - 10 / z))) xs" and ?vs = "map (\<lambda>y. (y, (x1 + 5 / z / 2 + 10 / z, 3 * y))) ys"
  let ?old = "map (\<lambda>l. l\<lparr>al_visible := False\<rparr>) (ax_labels ax)"
  obtain labels rest n where l: "label_ticks (?hs @ ?vs) ([], ?old, ax_created ax) = (labels, rest, n)" by (rule prod_cases3)
  obtain labels1 rest1 n1 where l1: "label_ticks ?hs ([], ?old, ax_created ax) = (labels1, rest1, n1)" by (rule prod_cases3)
  then have l2: "label_ticks ?vs (labels1, rest1, n1) = (labels, rest, n)" using l by (simp add: label_ticks_append)
  have old: "list_all (\<lambda>l. \<not> al_visible l) ?old" "distinct (map al_id ?old)" "list_all (\<lambda>l. al_id l < ax_created ax) ?old"
    using assms(1) by (simp_all add: labels_ok_def list_all_iff comp_def)
  obtain w where w: "axes_update (Some z) (x1, y1, x2, y2) ax = Some (Inr w)" "ax_labels w = labels @ rest" "ax_created w = n"
    "length (ax_hpath w) = length xs + 1" "length (ax_vpath w) = length ys + 1"
    using x y l1 l2 by (simp add: axes_update_def m Let_def)
  with label_ticks_pool [OF l old] x(3) y(3) show ?thesis
    by (intro exI [of _ w] exI [of _ xs] exI [of _ ys]) (simp add: labels_ok_def)
qed


lemma axis_labels_witness:
  "\<exists>w. axes_update (Some 1) (0, 0, 600, 450)
      \<lparr>ax_labels = [], ax_hpath = [], ax_vpath = [], ax_line_width = 0, ax_visible = True, ax_lines_visible = True, ax_created = 0\<rparr> =
    Some (Inr w) \<and> 8 \<le> length (ax_labels w)"
  using axis_labels [of "\<lparr>ax_labels = [], ax_hpath = [], ax_vpath = [], ax_line_width = 0, ax_visible = True, ax_lines_visible = True,
    ax_created = 0\<rparr>" 0 600 0 450 1] by (fastforce simp: labels_ok_def)

end
