(* ===== verification/Viz_Topology.thy ===== *)
theory Viz_Topology
  imports Viz_Nodes
begin

text \<open>
  \<open>scan_topology\<close> of \<open>src/visualizer/visualizer/core.py\<close>, which draws a simulated network, and the table
  of device types of \<open>base.py\<close>. The network is a parameter: per node its position, when it has a
  mobility model, and its devices; per channel the nodes of the devices attached to it. The layout of
  graphviz is a function of the graph. \<open>assign\<close> stands for the environment variable \<open>NS_VIS_ASSIGN\<close>.
  \<open>REPRESENT_CHANNELS_AS_NODES\<close> is set, so the branch without it is not modelled, nor is the output.
\<close>

section \<open>Types of devices\<close>

record traits =
  tr_wireless :: bool   \<comment> \<open>false for \<open>None\<close>\<close>
  tr_virtual :: bool

definition netdevice_traits :: "(string \<times> traits) list" where
  "netdevice_traits =
     [(''PointToPointNetDevice'', \<lparr>tr_wireless = False, tr_virtual = False\<rparr>),
      (''CsmaNetDevice'', \<lparr>tr_wireless = False, tr_virtual = False\<rparr>),
      (''WifiNetDevice'', \<lparr>tr_wireless = True, tr_virtual = False\<rparr>),
      (''BridgeNetDevice'', \<lparr>tr_wireless = False, tr_virtual = True\<rparr>),
      (''LoopbackNetDevice'', \<lparr>tr_wireless = False, tr_virtual = True\<rparr>),
      (''SubscriberStationNetDevice'', \<lparr>tr_wireless = True, tr_virtual = False\<rparr>),
      (''BaseStationNetDevice'', \<lparr>tr_wireless = True, tr_virtual = False\<rparr>),
      (''LteUeNetDevice'', \<lparr>tr_wireless = True, tr_virtual = False\<rparr>),
      (''LteEnbNetDevice'', \<lparr>tr_wireless = True, tr_virtual = False\<rparr>),
      (''MeshPointDevice'', \<lparr>tr_wireless = False, tr_virtual = True\<rparr>)]"

definition lookup_netdevice_traits :: "string \<Rightarrow> (string \<times> traits) list \<Rightarrow> traits \<times> (string \<times> traits) list" where
  \<comment> \<open>an unknown type is taken for a wireless one and remembered\<close>
  "lookup_netdevice_traits class_type table = (case map_of table class_type of
     Some t \<Rightarrow> (t, table)
   | None \<Rightarrow> let t = \<lparr>tr_wireless = True, tr_virtual = False\<rparr> in (t, AList.update class_type t table))"

section \<open>The network and the graph\<close>

record net_device =
  dv_type :: string
  dv_channel :: "int option"

record net_node =
  nn_position :: "point option"
  nn_devices :: "net_device list"

record network =
  nw_nodes :: "net_node list"
  nw_channels :: "(int \<times> nat list) list"

definition channel_nodes :: "network \<Rightarrow> int \<Rightarrow> nat list" where
  "channel_nodes net c = (case map_of (nw_channels net) c of None \<Rightarrow> [] | Some ns \<Rightarrow> ns)"

definition position :: "network \<Rightarrow> nat \<Rightarrow> point option" where
  "position net i = nn_position (nw_nodes net ! i)"

datatype layout_name = LayoutNode nat | LayoutChannel int

record layout_graph =
  lg_nodes :: "layout_name list"
  lg_edges :: "(layout_name \<times> layout_name) list"

definition graph_add_node :: "layout_name \<Rightarrow> layout_graph \<Rightarrow> layout_graph" where
  "graph_add_node x g = (if x \<in> set (lg_nodes g) then g else g\<lparr>lg_nodes := lg_nodes g @ [x]\<rparr>)"

definition graph_add_edge :: "layout_name \<Rightarrow> layout_name \<Rightarrow> layout_graph \<Rightarrow> layout_graph" where
  "graph_add_edge x y g =
     (let g = graph_add_node y (graph_add_node x g)
      in if (x, y) \<in> set (lg_edges g) \<or> (y, x) \<in> set (lg_edges g) then g else g\<lparr>lg_edges := lg_edges g @ [(x, y)]\<rparr>)"

section \<open>The scan\<close>

record scan =
  sc_view :: viz_view
  sc_graph :: layout_graph
  sc_traits :: "(string \<times> traits) list"

definition has_mobility :: "network \<Rightarrow> nat \<Rightarrow> viz_view \<Rightarrow> bool \<times> viz_view" where
  \<comment> \<open>remembered at the first use\<close>
  "has_mobility net i v = (case nd_has_mobility (node_at v (int i)) of
     Some b \<Rightarrow> (b, v)
   | None \<Rightarrow> let b = position net i \<noteq> None in (b, update_node (int i) (\<lambda>n. n\<lparr>nd_has_mobility := Some b\<rparr>) v))"

definition graph_edge :: "network \<Rightarrow> bool \<Rightarrow> nat \<Rightarrow> nat \<Rightarrow> viz_view \<Rightarrow> bool \<times> viz_view" where
  \<comment> \<open>whether the graph gets an edge, too\<close>
  "graph_edge net assign i j v =
     (if assign then (True, v)
      else if position net i \<noteq> None then (False, v)
      else let (b, v) = has_mobility net j v in (\<not> b, v))"

definition scan_neighbour :: "network \<Rightarrow> bool \<Rightarrow> nat \<Rightarrow> nat \<Rightarrow> scan \<Rightarrow> scan" where
  "scan_neighbour net assign i j s =
     (let v = get_node (int j) (sc_view s)
      in if j = i then s\<lparr>sc_view := v\<rparr>
         else
           let (edge, v) = graph_edge net assign i j v;
               g = (if edge then graph_add_edge (LayoutNode i) (LayoutNode j) (sc_graph s) else sc_graph s)
           in s\<lparr>sc_view := create_link (int i) (NodeEnd (int j)) v, sc_graph := g\<rparr>)"

definition scan_netdevice :: "network \<Rightarrow> bool \<Rightarrow> nat \<Rightarrow> net_device \<Rightarrow> scan \<Rightarrow> scan pyres" where
  "scan_netdevice net assign i dev s =
     (let (t, table) = lookup_netdevice_traits (dv_type dev) (sc_traits s);
          s = s\<lparr>sc_traits := table\<rparr>
      in if tr_wireless t then Inr s
         else if tr_virtual t then Inr s
         else case dv_channel dev of
                None \<Rightarrow> Inl AttributeError
              | Some c \<Rightarrow>
                  if length (channel_nodes net c) > 2 then
                    Inr (s\<lparr>sc_graph := (if position net i = None
                              then graph_add_edge (LayoutNode i) (LayoutChannel c) (sc_graph s) else sc_graph s),
                           sc_view := create_link (int i) (ChannelEnd c) (get_channel c (sc_view s))\<rparr>)
                  else Inr (fold (scan_neighbour net assign i) (channel_nodes net c) s))"

definition enter_net_node :: "network \<Rightarrow> nat \<Rightarrow> scan \<Rightarrow> scan" where
  "enter_net_node net i s =
     (let v = get_node (int i) (sc_view s)
      in case position net i of
           Some p \<Rightarrow> s\<lparr>sc_view := node_set_position (int i) (point_to_canvas p) (set_color (gdk_color (0xffff, 0, 0)) (int i) v)\<rparr>
         | None \<Rightarrow> s\<lparr>sc_view := v, sc_graph := graph_add_node (LayoutNode i) (sc_graph s)\<rparr>)"

definition scan_net_node :: "network \<Rightarrow> bool \<Rightarrow> nat \<Rightarrow> scan \<Rightarrow> scan pyres" where
  "scan_net_node net assign i s =
     rfold (scan_netdevice net assign i) (nn_devices (nw_nodes net ! i)) (enter_net_node net i s)"

definition set_mobility_position :: "nat \<Rightarrow> point \<Rightarrow> network \<Rightarrow> network" where
  "set_mobility_position i p net = net\<lparr>nw_nodes := (nw_nodes net)[i := (nw_nodes net ! i)\<lparr>nn_position := Some p\<rparr>]\<rparr>"

fun place :: "bool \<Rightarrow> (layout_name \<Rightarrow> point) \<Rightarrow> layout_name \<Rightarrow> viz_view \<times> network \<Rightarrow> (viz_view \<times> network) pyres" where
  "place assign pos (LayoutNode i) (v, net) =
     (if int i \<notin> set (keys (vw_nodes v)) then Inl KeyError
      else
        let net = (if assign \<and> position net i \<noteq> None then set_mobility_position i (pos (LayoutNode i)) net else net)
        in Inr (node_set_position (int i) (pos (LayoutNode i)) v, net))"
| "place assign pos (LayoutChannel c) (v, net) =
     (if c \<notin> set (keys (vw_channels v)) then Inl KeyError
      else Inr (channel_set_position c (pos (LayoutChannel c)) v, net))"

definition scan_topology :: "(layout_graph \<Rightarrow> layout_name \<Rightarrow> point) \<Rightarrow> bool \<Rightarrow> network \<Rightarrow> viz_view \<Rightarrow>
    (viz_view \<times> network) pyres" where
  "scan_topology layout assign net v =
     rbind (rfold (scan_net_node net assign) [0..<length (nw_nodes net)]
              \<lparr>sc_view = v, sc_graph = \<lparr>lg_nodes = [], lg_edges = []\<rparr>, sc_traits = netdevice_traits\<rparr>) (\<lambda>s.
     rfold (place assign (layout (sc_graph s))) (lg_nodes (sc_graph s)) (sc_view s, net))"

section \<open>The links of a network\<close>

definition wired :: "net_device \<Rightarrow> bool" where
  "wired dev \<longleftrightarrow> (let t = fst (lookup_netdevice_traits (dv_type dev) netdevice_traits) in \<not> tr_wireless t \<and> \<not> tr_virtual t)"

definition device_links :: "network \<Rightarrow> nat \<Rightarrow> net_device \<Rightarrow> (int \<times> endpoint) list" where
  "device_links net i dev = (case dv_channel dev of
     None \<Rightarrow> []
   | Some c \<Rightarrow>
       if \<not> wired dev then []
       else if length (channel_nodes net c) > 2 then [(int i, ChannelEnd c)]
       else map (\<lambda>j. (int i, NodeEnd (int j))) (filter (\<lambda>j. j \<noteq> i) (channel_nodes net c)))"

definition node_links :: "network \<Rightarrow> nat \<Rightarrow> (int \<times> endpoint) list" where
  "node_links net i = concat (map (device_links net i) (nn_devices (nw_nodes net ! i)))"

definition closed :: "network \<Rightarrow> bool" where
  \<comment> \<open>channels join nodes of the network, and wired devices are attached to one\<close>
  "closed net \<longleftrightarrow> list_all (\<lambda>(_, ns). list_all (\<lambda>j. j < length (nw_nodes net)) ns) (nw_channels net) \<and>
     list_all (\<lambda>node. list_all (\<lambda>dev. wired dev \<longrightarrow> dv_channel dev \<noteq> None) (nn_devices node)) (nw_nodes net)"

definition ends :: "viz_view \<Rightarrow> (int \<times> endpoint) list" where
  "ends v = map (\<lambda>l. (wl_node1 l, wl_node2 l)) (vw_wired v)"

lemma node_at_get_node [simp]: "node_at (get_node i v) j = node_at v j"
proof (cases "i \<in> set (keys (vw_nodes v))")
  case False
  then have "map_of (vw_nodes v) i = None" using lookup_keys [of "vw_nodes v" i] by blast
  then show ?thesis by (simp add: get_node_def node_at_def map_add_def split: option.split)
qed (simp add: get_node_def)

lemma get_node_simps [simp]:
  "fst ` set (vw_nodes (get_node i v)) = insert i (fst ` set (vw_nodes v))"
  "vw_channels (get_node i v) = vw_channels v" "vw_wired (get_node i v) = vw_wired v"
  by (auto simp: get_node_def)

lemma get_channel_simps [simp]:
  "vw_nodes (get_channel c v) = vw_nodes v" "fst ` set (vw_channels (get_channel c v)) = insert c (fst ` set (vw_channels v))"
  "vw_wired (get_channel c v) = vw_wired v" "node_at (get_channel c v) i = node_at v i"
  by (auto simp: get_channel_def node_at_def)

lemma attach_node_at [simp]:
  "nd_pos (node_at (attach l e v) j) = nd_pos (node_at v j)"
  "nd_has_mobility (node_at (attach l e v) j) = nd_has_mobility (node_at v j)"
  by (cases e; simp add: attach_def node_at_update_node)+

lemma create_link_simps [simp]:
  "keys (vw_nodes (create_link i e v)) = keys (vw_nodes v)" "keys (vw_channels (create_link i e v)) = keys (vw_channels v)"
  "ends (create_link i e v) = ends v @ [(i, e)]" "nd_pos (node_at (create_link i e v) j) = nd_pos (node_at v j)"
  "nd_has_mobility (node_at (create_link i e v) j) = nd_has_mobility (node_at v j)"
  by (simp_all add: create_link_def Let_def ends_def) (simp_all add: node_at_def)

lemma ends_frame [simp]:
  "ends (get_node i v) = ends v" "ends (get_channel c v) = ends v" "ends (update_node i f v) = ends v"
  "ends (update_channel c g v) = ends v" "ends (grow_bounds p v) = ends v"
  by (simp_all add: ends_def)

lemma ends_update_points [simp]: "ends (update_points l v) = ends v"
proof (cases l)
  case (Wired k)
  then show ?thesis by (cases "k < length (vw_wired v)") (auto simp: ends_def map_update list_update_same_conv list_update_beyond)
qed (simp add: ends_def)

lemma ends_fold_update_points [simp]: "ends (fold update_points ls v) = ends v"
  by (induction ls arbitrary: v) simp_all

lemma ends_set_position [simp]: "ends (node_set_position i p v) = ends v" "ends (channel_set_position c p v) = ends v"
  by (simp_all add: node_set_position_def channel_set_position_def Let_def)

lemma ends_update_appearance [simp]: "ends (update_appearance i v) = ends v"
  by (simp add: update_appearance_def Let_def split: option.split)

lemma position_set_position [simp]:
  "nd_pos (node_at (node_set_position i p v) j) = (if j = i \<and> i \<in> set (keys (vw_nodes v)) then p else nd_pos (node_at v j))"
  "nd_has_mobility (node_at (node_set_position i p v) j) = nd_has_mobility (node_at v j)"
  by (auto simp: node_at_set_position)

lemma position_channel_set_position [simp]:
  "node_at (channel_set_position c p v) j = node_at v j" "vw_nodes (channel_set_position c p v) = vw_nodes v"
  "keys (vw_channels (channel_set_position c p v)) = keys (vw_channels v)"
  by (simp_all add: channel_set_position_def Let_def)

lemma mobility_update_appearance [simp]:
  "nd_has_mobility (node_at (update_appearance i v) j) = nd_has_mobility (node_at v j)"
  by (auto simp: update_appearance_def Let_def node_at_update_node split: option.split)

lemma set_color_simps [simp]:
  "keys (vw_nodes (set_color c i v)) = keys (vw_nodes v)" "vw_channels (set_color c i v) = vw_channels v"
  "ends (set_color c i v) = ends v" "nd_pos (node_at (set_color c i v) j) = nd_pos (node_at v j)"
  "nd_has_mobility (node_at (set_color c i v) j) = nd_has_mobility (node_at v j)"
  by (auto simp: set_color_def update_appearance_node node_at_update_node)

lemma view_ok_neutral:
  assumes "view_ok v"
  shows "view_ok (update_node i (\<lambda>n. n\<lparr>nd_has_mobility := b\<rparr>) v)"
proof -
  have "nodes_ok (update_node i (\<lambda>n. n\<lparr>nd_has_mobility := b\<rparr>) v)"
    using assms by (auto intro!: nodes_ok_cong [where v = v] simp: view_ok_def node_ok_def node_at_update_node looks_right_def)
  with assms show ?thesis by (simp add: view_ok_def links_ok_neutral)
qed

section \<open>What the scan keeps\<close>

fun named :: "viz_view \<Rightarrow> layout_name \<Rightarrow> bool" where
  "named v (LayoutNode i) \<longleftrightarrow> int i \<in> set (keys (vw_nodes v))"
| "named v (LayoutChannel c) \<longleftrightarrow> c \<in> set (keys (vw_channels v))"

definition names_ok :: "viz_view \<Rightarrow> layout_graph \<Rightarrow> bool" where
  \<comment> \<open>the graph names things of the view\<close>
  "names_ok v g \<longleftrightarrow> list_all (named v) (lg_nodes g)"

lemma named_mono:
  "named v x \<Longrightarrow> set (keys (vw_nodes v)) \<subseteq> set (keys (vw_nodes w)) \<Longrightarrow>
    set (keys (vw_channels v)) \<subseteq> set (keys (vw_channels w)) \<Longrightarrow> named w x"
  by (cases x) auto

definition scan_ok :: "bool \<Rightarrow> network \<Rightarrow> scan \<Rightarrow> bool" where
  "scan_ok assign net s \<longleftrightarrow> view_ok (sc_view s) \<and> names_ok (sc_view s) (sc_graph s) \<and>
     (\<forall>t. fst (lookup_netdevice_traits t (sc_traits s)) = fst (lookup_netdevice_traits t netdevice_traits)) \<and>
     set (keys (vw_nodes (sc_view s))) \<subseteq> int ` {..<length (nw_nodes net)} \<and>
     (\<forall>j. nd_has_mobility (node_at (sc_view s) (int j)) \<in> {None, Some (position net j \<noteq> None)}) \<and>
     (\<forall>j. LayoutNode j \<in> set (lg_nodes (sc_graph s)) \<longrightarrow> assign \<or> position net j = None)"

definition placed_as :: "scan \<Rightarrow> scan \<Rightarrow> bool" where
  \<comment> \<open>nothing is lost or moved\<close>
  "placed_as s s' \<longleftrightarrow> set (keys (vw_nodes (sc_view s))) \<subseteq> set (keys (vw_nodes (sc_view s'))) \<and>
     (\<forall>j. nd_pos (node_at (sc_view s') j) = nd_pos (node_at (sc_view s) j)) \<and>
     set (lg_nodes (sc_graph s)) \<subseteq> set (lg_nodes (sc_graph s'))"

lemma placed_as_trans: "placed_as s t \<Longrightarrow> placed_as t u \<Longrightarrow> placed_as s u"
  by (auto simp: placed_as_def)

lemma placed_as_refl [simp]: "placed_as s s"
  by (simp add: placed_as_def)

lemma graph_add_simps [simp]:
  "set (lg_nodes (graph_add_node x g)) = insert x (set (lg_nodes g))"
  "set (lg_nodes (graph_add_edge x y g)) = {x, y} \<union> set (lg_nodes g)"
  by (auto simp: graph_add_edge_def graph_add_node_def Let_def)

lemma names_ok_mono:
  "names_ok v g \<Longrightarrow> set (keys (vw_nodes v)) \<subseteq> set (keys (vw_nodes w)) \<Longrightarrow>
    set (keys (vw_channels v)) \<subseteq> set (keys (vw_channels w)) \<Longrightarrow> names_ok w g"
  unfolding names_ok_def list_all_iff using named_mono by blast

lemma names_ok_add:
  "names_ok v g \<Longrightarrow> named v x \<Longrightarrow> names_ok v (graph_add_node x g)"
  "names_ok v g \<Longrightarrow> named v x \<Longrightarrow> named v y \<Longrightarrow> names_ok v (graph_add_edge x y g)"
  by (auto simp: names_ok_def list_all_iff)

lemma graph_edge_view:
  assumes "graph_edge net assign i j v = (edge, w)" and "nd_has_mobility (node_at v (int j)) \<in> {None, Some (position net j \<noteq> None)}"
  shows "(w = v \<or> w = update_node (int j) (\<lambda>n. n\<lparr>nd_has_mobility := Some (position net j \<noteq> None)\<rparr>) v) \<and>
    (edge \<longrightarrow> assign \<or> position net i = None \<and> position net j = None)"
  using assms by (cases "position net i"; cases "position net j"; cases "nd_has_mobility (node_at v (int j))")
    (auto simp: graph_edge_def has_mobility_def Let_def split: if_splits)

lemma scan_neighbour_step:
  assumes ok: "scan_ok assign net s" and "int i \<in> set (keys (vw_nodes (sc_view s)))" and "j < length (nw_nodes net)"
  shows "scan_ok assign net (scan_neighbour net assign i j s) \<and> placed_as s (scan_neighbour net assign i j s) \<and>
    ends (sc_view (scan_neighbour net assign i j s)) = ends (sc_view s) @ (if j = i then [] else [(int i, NodeEnd (int j))])"
proof -
  let ?v = "get_node (int j) (sc_view s)"
  have v: "view_ok ?v" "names_ok ?v (sc_graph s)" "set (keys (vw_nodes ?v)) \<subseteq> int ` {..<length (nw_nodes net)}"
    "int i \<in> set (keys (vw_nodes ?v))" "int j \<in> set (keys (vw_nodes ?v))"
    using assms by (auto simp: scan_ok_def view_ok_get_node intro: names_ok_mono)
  have mob: "nd_has_mobility (node_at ?v (int k)) \<in> {None, Some (position net k \<noteq> None)}" for k
    using ok by (simp add: scan_ok_def)
  show ?thesis
  proof (cases "j = i")
    case True
    with v ok mob show ?thesis by (auto simp: scan_neighbour_def Let_def scan_ok_def placed_as_def)
  next
    case False
    obtain edge w where ew: "graph_edge net assign i j ?v = (edge, w)" by fastforce
    have wv: "w = ?v \<or> w = update_node (int j) (\<lambda>n. n\<lparr>nd_has_mobility := Some (position net j \<noteq> None)\<rparr>) ?v"
      and new: "edge \<longrightarrow> assign \<or> position net i = None \<and> position net j = None"
      using graph_edge_view [OF ew mob] by blast+
    have keys: "keys (vw_nodes w) = keys (vw_nodes ?v)" "vw_channels w = vw_channels ?v" "ends w = ends ?v"
      using wv by (metis update_node_fields(1), metis update_node_fields(2), metis ends_frame(3))
    have pos: "nd_pos (node_at w k) = nd_pos (node_at ?v k)" for k
      using wv by (elim disjE) (simp_all add: node_at_update_node)
    have mob': "nd_has_mobility (node_at w (int m)) \<in> {None, Some (position net m \<noteq> None)}" for m
      using wv mob [of m] by (elim disjE) (simp_all add: node_at_update_node del: not_None_eq)
    have w': "view_ok w" "names_ok w (sc_graph s)"
      using wv v(1) view_ok_neutral names_ok_mono [OF v(2), of w] keys by (metis, simp)
    have s': "scan_neighbour net assign i j s = s\<lparr>sc_view := create_link (int i) (NodeEnd (int j)) w,
        sc_graph := if edge then graph_add_edge (LayoutNode i) (LayoutNode j) (sc_graph s) else sc_graph s\<rparr>"
      unfolding scan_neighbour_def Let_def ew using False by simp
    have here: "int i \<in> set (keys (vw_nodes w))" "int j \<in> set (keys (vw_nodes w))" using v(4,5) keys(1) by metis+
    have "view_ok (create_link (int i) (NodeEnd (int j)) w)"
      using here w'(1) by (intro view_ok_create_link) simp_all
    moreover have "names_ok (create_link (int i) (NodeEnd (int j)) w)
        (if edge then graph_add_edge (LayoutNode i) (LayoutNode j) (sc_graph s) else sc_graph s)"
    proof -
      have "names_ok (create_link (int i) (NodeEnd (int j)) w) (sc_graph s)" by (rule names_ok_mono [OF w'(2)]) simp_all
      with here show ?thesis by (simp add: names_ok_add)
    qed
    ultimately show ?thesis
      using ok v(3) False mob' new unfolding s' by (auto simp: scan_ok_def placed_as_def keys pos simp del: not_None_eq)
  qed
qed

lemma scan_neighbours:
  assumes "scan_ok assign net s" and "int i \<in> set (keys (vw_nodes (sc_view s)))" and "list_all (\<lambda>j. j < length (nw_nodes net)) js"
  shows "scan_ok assign net (fold (scan_neighbour net assign i) js s) \<and> placed_as s (fold (scan_neighbour net assign i) js s) \<and>
    ends (sc_view (fold (scan_neighbour net assign i) js s)) =
      ends (sc_view s) @ map (\<lambda>j. (int i, NodeEnd (int j))) (filter (\<lambda>j. j \<noteq> i) js)"
  using assms
proof (induction js arbitrary: s)
  case (Cons j js)
  let ?s = "scan_neighbour net assign i j s"
  have step: "scan_ok assign net ?s" "placed_as s ?s"
    "ends (sc_view ?s) = ends (sc_view s) @ (if j = i then [] else [(int i, NodeEnd (int j))])"
    using scan_neighbour_step [OF Cons.prems(1,2), of j] Cons.prems(3) by auto
  then have "int i \<in> set (keys (vw_nodes (sc_view ?s)))" using Cons.prems(2) by (auto simp: placed_as_def)
  from Cons.IH [OF step(1) this] Cons.prems(3) step show ?case by (auto intro: placed_as_trans)
qed simp

lemma traits_stable:
  assumes "lookup_netdevice_traits t table = (r, table')"
    and "\<forall>t. fst (lookup_netdevice_traits t table) = fst (lookup_netdevice_traits t netdevice_traits)"
  shows "r = fst (lookup_netdevice_traits t netdevice_traits) \<and>
    (\<forall>t. fst (lookup_netdevice_traits t table') = fst (lookup_netdevice_traits t netdevice_traits))"
proof -
  have "fst (lookup_netdevice_traits u table') = fst (lookup_netdevice_traits u table)" for u
    using assms(1) by (auto simp: lookup_netdevice_traits_def Let_def lookup_update split: option.splits if_splits)
  moreover have "r = fst (lookup_netdevice_traits t table)" using assms(1) by simp
  ultimately show ?thesis using assms(2) by simp
qed

lemma channel_nodes_closed: "closed net \<Longrightarrow> list_all (\<lambda>j. j < length (nw_nodes net)) (channel_nodes net c)"
proof (cases "map_of (nw_channels net) c")
  case (Some ns)
  assume "closed net"
  with map_of_SomeD [OF Some] Some show ?thesis by (auto simp: closed_def channel_nodes_def list_all_iff)
qed (simp add: channel_nodes_def)

lemma scan_netdevice_step:
  assumes "closed net" and "scan_ok assign net s" and "int i \<in> set (keys (vw_nodes (sc_view s)))"
    and "wired dev \<longrightarrow> dv_channel dev \<noteq> None"
  shows "\<exists>s'. scan_netdevice net assign i dev s = Inr s' \<and> scan_ok assign net s' \<and> placed_as s s' \<and>
    ends (sc_view s') = ends (sc_view s) @ device_links net i dev"
proof -
  obtain t table where tt: "lookup_netdevice_traits (dv_type dev) (sc_traits s) = (t, table)" by fastforce
  let ?s = "s\<lparr>sc_traits := table\<rparr>"
  have t: "t = fst (lookup_netdevice_traits (dv_type dev) netdevice_traits)" and ok: "scan_ok assign net ?s"
    using traits_stable [OF tt] assms(2) by (simp_all add: scan_ok_def)
  have same: "placed_as s ?s" by (simp add: placed_as_def)
  show ?thesis
  proof (cases "tr_wireless t \<or> tr_virtual t")
    case True
    with ok same t show ?thesis
      by (auto simp: scan_netdevice_def tt device_links_def wired_def Let_def split: option.split)
  next
    case False
    then obtain c where c: "dv_channel dev = Some c" and w: "wired dev" using assms(4) t by (auto simp: wired_def Let_def)
    show ?thesis
    proof (cases "length (channel_nodes net c) > 2")
      case True
      let ?v = "create_link (int i) (ChannelEnd c) (get_channel c (sc_view s))"
      let ?g = "if position net i = None then graph_add_edge (LayoutNode i) (LayoutChannel c) (sc_graph s) else sc_graph s"
      have "view_ok ?v"
        using assms(2,3) by (intro view_ok_create_link) (auto simp: scan_ok_def view_ok_get_channel)
      moreover have "names_ok ?v (sc_graph s)"
        using assms(2) by (auto simp: scan_ok_def intro: names_ok_mono [where v = "sc_view s"])
      then have "names_ok ?v ?g" using assms(3) by (simp add: names_ok_add)
      ultimately have "scan_ok assign net (?s\<lparr>sc_graph := ?g, sc_view := ?v\<rparr>)" "placed_as s (?s\<lparr>sc_graph := ?g, sc_view := ?v\<rparr>)"
        using ok by (auto simp: scan_ok_def placed_as_def)
      moreover have "scan_netdevice net assign i dev s = Inr (?s\<lparr>sc_graph := ?g, sc_view := ?v\<rparr>)"
        using True False c by (simp add: scan_netdevice_def tt Let_def)
      moreover have "ends (sc_view (?s\<lparr>sc_graph := ?g, sc_view := ?v\<rparr>)) = ends (sc_view s) @ device_links net i dev"
        using True c w by (simp add: device_links_def)
      ultimately show ?thesis by blast
    next
      case long: False
      from scan_neighbours [OF ok _ channel_nodes_closed [OF assms(1)], of i c] assms(3) same
      show ?thesis using long False c w by (auto simp: scan_netdevice_def tt device_links_def Let_def intro: placed_as_trans)
    qed
  qed
qed

lemma scan_netdevices:
  assumes "closed net" and "scan_ok assign net s" and "int i \<in> set (keys (vw_nodes (sc_view s)))"
    and "list_all (\<lambda>dev. wired dev \<longrightarrow> dv_channel dev \<noteq> None) devs"
  shows "\<exists>s'. rfold (scan_netdevice net assign i) devs s = Inr s' \<and> scan_ok assign net s' \<and> placed_as s s' \<and>
    ends (sc_view s') = ends (sc_view s) @ concat (map (device_links net i) devs)"
  using assms(2-)
proof (induction devs arbitrary: s)
  case (Cons dev devs)
  obtain s1 where s1: "scan_netdevice net assign i dev s = Inr s1" "scan_ok assign net s1" "placed_as s s1"
    "ends (sc_view s1) = ends (sc_view s) @ device_links net i dev"
    using scan_netdevice_step [OF assms(1) Cons.prems(1,2)] Cons.prems(3) by auto
  then have "int i \<in> set (keys (vw_nodes (sc_view s1)))" using Cons.prems(2) by (auto simp: placed_as_def)
  from Cons.IH [OF s1(2) this] Cons.prems(3) s1 show ?case by (auto intro: placed_as_trans)
qed simp

definition visited :: "network \<Rightarrow> scan \<Rightarrow> nat \<Rightarrow> bool" where
  "visited net s j \<longleftrightarrow> int j \<in> set (keys (vw_nodes (sc_view s))) \<and> (case position net j of
     None \<Rightarrow> LayoutNode j \<in> set (lg_nodes (sc_graph s))
   | Some p \<Rightarrow> nd_pos (node_at (sc_view s) (int j)) = point_to_canvas p)"

lemma visited_placed: "visited net s j \<Longrightarrow> placed_as s s' \<Longrightarrow> visited net s' j"
  by (auto simp: visited_def placed_as_def split: option.splits)

lemma enter_net_node_step:
  assumes "scan_ok assign net s" and "i < length (nw_nodes net)"
  shows "scan_ok assign net (enter_net_node net i s)" and "visited net (enter_net_node net i s) i"
    and "visited net s j \<Longrightarrow> visited net (enter_net_node net i s) j"
    and "ends (sc_view (enter_net_node net i s)) = ends (sc_view s)"
proof -
  let ?v = "get_node (int i) (sc_view s)"
  have v: "view_ok ?v" "names_ok ?v (sc_graph s)"
    using assms by (auto simp: scan_ok_def view_ok_get_node intro: names_ok_mono)
  have "scan_ok assign net (enter_net_node net i s) \<and> visited net (enter_net_node net i s) i \<and>
      (visited net s j \<longrightarrow> visited net (enter_net_node net i s) j) \<and>
      ends (sc_view (enter_net_node net i s)) = ends (sc_view s)"
  proof (cases "position net i")
    case None
    let ?s = "s\<lparr>sc_view := ?v, sc_graph := graph_add_node (LayoutNode i) (sc_graph s)\<rparr>"
    have s': "enter_net_node net i s = ?s" using None by (simp add: enter_net_node_def Let_def)
    have "names_ok ?v (graph_add_node (LayoutNode i) (sc_graph s))" using v(2) by (simp add: names_ok_add)
    then have "scan_ok assign net ?s" using v(1) assms None by (simp add: scan_ok_def)
    moreover have "visited net ?s i" using None by (simp add: visited_def)
    moreover have "visited net s j \<longrightarrow> visited net ?s j"
      by (cases "position net j") (simp_all add: visited_def)
    ultimately show ?thesis unfolding s' by simp
  next
    case (Some p)
    let ?w = "node_set_position (int i) (point_to_canvas p) (set_color (gdk_color (0xffff, 0, 0)) (int i) ?v)"
    have "view_ok ?w" by (rule view_ok_node_set_position [OF view_ok_setters(3) [OF v(1)]])
    moreover have "names_ok ?w (sc_graph s)" by (rule names_ok_mono [OF v(2)]) simp_all
    ultimately have "scan_ok assign net (s\<lparr>sc_view := ?w\<rparr>)" using assms by (auto simp add: scan_ok_def simp del: not_None_eq)
    moreover have "visited net (s\<lparr>sc_view := ?w\<rparr>) i" using Some by (simp add: visited_def)
    moreover have "visited net s j \<longrightarrow> visited net (s\<lparr>sc_view := ?w\<rparr>) j"
      using Some by (cases "position net j") (auto simp: visited_def)
    moreover have "enter_net_node net i s = s\<lparr>sc_view := ?w\<rparr>" using Some by (simp add: enter_net_node_def Let_def)
    ultimately show ?thesis by simp
  qed
  then show "scan_ok assign net (enter_net_node net i s)" "visited net (enter_net_node net i s) i"
    "visited net s j \<Longrightarrow> visited net (enter_net_node net i s) j"
    "ends (sc_view (enter_net_node net i s)) = ends (sc_view s)" by blast+
qed

lemma closed_devices:
  "closed net \<Longrightarrow> i < length (nw_nodes net) \<Longrightarrow>
    list_all (\<lambda>dev. wired dev \<longrightarrow> dv_channel dev \<noteq> None) (nn_devices (nw_nodes net ! i))"
  by (auto simp: closed_def list_all_length)

lemma scan_net_node_step:
  assumes "closed net" and "scan_ok assign net s" and "i < length (nw_nodes net)"
  shows "\<exists>s'. scan_net_node net assign i s = Inr s' \<and> scan_ok assign net s' \<and> visited net s' i \<and>
    (\<forall>j. visited net s j \<longrightarrow> visited net s' j) \<and> ends (sc_view s') = ends (sc_view s) @ node_links net i"
proof -
  note enter = enter_net_node_step [OF assms(2,3)]
  have "int i \<in> set (keys (vw_nodes (sc_view (enter_net_node net i s))))" using enter(2) by (simp add: visited_def)
  from scan_netdevices [OF assms(1) enter(1) this closed_devices [OF assms(1,3)]]
  obtain s' where s': "scan_net_node net assign i s = Inr s'" "scan_ok assign net s'" "placed_as (enter_net_node net i s) s'"
    "ends (sc_view s') = ends (sc_view s) @ node_links net i"
    unfolding scan_net_node_def node_links_def enter(4) by blast
  have "visited net s' i" using visited_placed [OF enter(2) s'(3)] .
  moreover have "visited net s' j" if "visited net s j" for j using visited_placed [OF enter(3) [OF that] s'(3)] .
  ultimately show ?thesis using s' by blast
qed

lemma scan_net_nodes:
  assumes "closed net" and "scan_ok assign net s" and "list_all (\<lambda>i. i < length (nw_nodes net)) is"
  shows "\<exists>s'. rfold (scan_net_node net assign) is s = Inr s' \<and> scan_ok assign net s' \<and>
    (\<forall>j. visited net s j \<or> j \<in> set is \<longrightarrow> visited net s' j) \<and> ends (sc_view s') = ends (sc_view s) @ concat (map (node_links net) is)"
  using assms(2,3)
proof (induction "is" arbitrary: s)
  case (Cons i "is")
  obtain s1 where s1: "scan_net_node net assign i s = Inr s1" "scan_ok assign net s1" "visited net s1 i"
    "\<forall>j. visited net s j \<longrightarrow> visited net s1 j" "ends (sc_view s1) = ends (sc_view s) @ node_links net i"
    using scan_net_node_step [OF assms(1) Cons.prems(1), of i] Cons.prems(2) by auto
  obtain s2 where s2: "rfold (scan_net_node net assign) is s1 = Inr s2" "scan_ok assign net s2"
    "\<forall>j. visited net s1 j \<or> j \<in> set is \<longrightarrow> visited net s2 j"
    "ends (sc_view s2) = ends (sc_view s1) @ concat (map (node_links net) is)"
    using Cons.IH [OF s1(2)] Cons.prems(2) by auto
  have "\<forall>j. visited net s j \<or> j \<in> set (i # is) \<longrightarrow> visited net s2 j" using s1(3,4) s2(3) by auto
  with s1(1,5) s2 show ?case by simp
qed simp

section \<open>The layout\<close>

definition scan_start :: "bool \<Rightarrow> nat \<Rightarrow> scan" where
  "scan_start gives n = \<lparr>sc_view = new_viz_view gives n, sc_graph = \<lparr>lg_nodes = [], lg_edges = []\<rparr>, sc_traits = netdevice_traits\<rparr>"

lemma scan_ok_start: "scan_ok assign net (scan_start gives n)"
  using view_ok_new [of gives n] by (simp add: scan_ok_def scan_start_def names_ok_def node_at_def new_viz_view_def new_node_def appear_def Let_def)

lemma named_keys:
  "keys (vw_nodes w) = keys (vw_nodes v) \<Longrightarrow> keys (vw_channels w) = keys (vw_channels v) \<Longrightarrow> named w x = named v x"
  by (cases x) simp_all

fun moved :: "bool \<Rightarrow> (layout_name \<Rightarrow> point) \<Rightarrow> layout_name list \<Rightarrow> network \<Rightarrow> nat \<Rightarrow> point option" where
  "moved assign pos xs net i =
     (if assign \<and> LayoutNode i \<in> set xs \<and> position net i \<noteq> None then Some (pos (LayoutNode i)) else position net i)"

lemma place_step:
  assumes "named v x" and "view_ok v"
  shows "\<exists>w net'. place assign pos x (v, net) = Inr (w, net') \<and> view_ok w \<and>
    keys (vw_nodes w) = keys (vw_nodes v) \<and> keys (vw_channels w) = keys (vw_channels v) \<and> ends w = ends v \<and>
    (\<forall>j. nd_pos (node_at w (int j)) = (if x = LayoutNode j then pos x else nd_pos (node_at v (int j)))) \<and>
    length (nw_nodes net') = length (nw_nodes net)"
  using assms
  by (cases x) (auto simp: Let_def view_ok_node_set_position view_ok_channel_set_position set_mobility_position_def simp del: not_None_eq)

lemma place_all:
  assumes "list_all (named v) xs" and "view_ok v"
  shows "\<exists>w net'. rfold (place assign pos) xs (v, net) = Inr (w, net') \<and> view_ok w \<and>
    keys (vw_nodes w) = keys (vw_nodes v) \<and> ends w = ends v \<and>
    (\<forall>j. nd_pos (node_at w (int j)) = (if LayoutNode j \<in> set xs then pos (LayoutNode j) else nd_pos (node_at v (int j))))"
  using assms
proof (induction xs arbitrary: v net)
  case (Cons x xs)
  obtain v1 net1 where 1: "place assign pos x (v, net) = Inr (v1, net1)" "view_ok v1" "keys (vw_nodes v1) = keys (vw_nodes v)"
    "keys (vw_channels v1) = keys (vw_channels v)" "ends v1 = ends v"
    "\<forall>j. nd_pos (node_at v1 (int j)) = (if x = LayoutNode j then pos x else nd_pos (node_at v (int j)))"
    using place_step [of v x assign pos net] Cons.prems by auto
  have "list_all (named v1) xs" using Cons.prems(1) named_keys [OF 1(3,4)] by (simp add: list_all_iff)
  from Cons.IH [OF this 1(2)] obtain w net' where 2: "rfold (place assign pos) xs (v1, net1) = Inr (w, net')" "view_ok w"
    "keys (vw_nodes w) = keys (vw_nodes v1)" "ends w = ends v1"
    "\<forall>j. nd_pos (node_at w (int j)) = (if LayoutNode j \<in> set xs then pos (LayoutNode j) else nd_pos (node_at v1 (int j)))"
    by blast
  have "\<forall>j. nd_pos (node_at w (int j)) = (if LayoutNode j \<in> set (x # xs) then pos (LayoutNode j) else nd_pos (node_at v (int j)))"
    using 1(6) 2(5) by auto
  with 1 2 show ?case by simp
qed simp

section \<open>The view draws the network\<close>

text \<open>C23: In a network whose channels join nodes of it and whose wired devices are attached, the scan
  ends without an error: every node is in the view, the links are those of the wired devices, node by
  node, and a node is where its mobility model says, or where the layout puts it when it has none; with
  \<open>NS_VIS_ASSIGN\<close> the layout also places nodes that have one.\<close>

theorem scan_draws_network:
  assumes "closed net"
  shows "\<exists>v net' g. scan_topology layout assign net (new_viz_view gives (length (nw_nodes net))) = Inr (v, net') \<and> view_ok v \<and>
    set (keys (vw_nodes v)) = int ` {..<length (nw_nodes net)} \<and>
    ends v = concat (map (node_links net) [0..<length (nw_nodes net)]) \<and>
    list_all (\<lambda>j. nd_pos (node_at v (int j)) = (case position net j of
        None \<Rightarrow> layout g (LayoutNode j)
      | Some p \<Rightarrow> if assign \<and> LayoutNode j \<in> set (lg_nodes g) then layout g (LayoutNode j) else point_to_canvas p))
      [0..<length (nw_nodes net)]"
proof -
  let ?n = "length (nw_nodes net)"
  obtain s where s: "rfold (scan_net_node net assign) [0..<?n] (scan_start gives ?n) = Inr s" "scan_ok assign net s"
    "\<forall>j. j \<in> set [0..<?n] \<longrightarrow> visited net s j" "ends (sc_view s) = concat (map (node_links net) [0..<?n])"
    using scan_net_nodes [OF assms scan_ok_start, of "[0..<?n]" assign gives ?n]
    by (fastforce simp: list_all_iff ends_def scan_start_def new_viz_view_def)
  let ?g = "sc_graph s" and ?v = "sc_view s"
  have visited: "visited net s j" if "j < ?n" for j using s(3) that by simp
  from s(2) have "list_all (named ?v) (lg_nodes ?g)" and ok: "view_ok ?v"
    and mobile: "LayoutNode j \<in> set (lg_nodes ?g) \<Longrightarrow> assign \<or> position net j = None" for j
    by (simp_all add: scan_ok_def names_ok_def)
  then obtain v net' where v: "rfold (place assign (layout ?g)) (lg_nodes ?g) (?v, net) = Inr (v, net')" "view_ok v"
    "keys (vw_nodes v) = keys (vw_nodes ?v)" "ends v = ends ?v"
    "\<And>j. nd_pos (node_at v (int j)) = (if LayoutNode j \<in> set (lg_nodes ?g) then layout ?g (LayoutNode j) else nd_pos (node_at ?v (int j)))"
    using place_all [of ?v "lg_nodes ?g" assign "layout ?g" net] by blast
  have "scan_topology layout assign net (new_viz_view gives ?n) = Inr (v, net')"
    using s(1) v(1) by (simp add: scan_topology_def scan_start_def)
  moreover have "set (keys (vw_nodes v)) = int ` {..<?n}"
    using visited s(2) unfolding v(3) by (auto simp: visited_def scan_ok_def)
  moreover have "ends v = concat (map (node_links net) [0..<?n])" using v(4) s(4) by simp
  moreover have "nd_pos (node_at v (int j)) = (case position net j of None \<Rightarrow> layout ?g (LayoutNode j)
      | Some p \<Rightarrow> if assign \<and> LayoutNode j \<in> set (lg_nodes ?g) then layout ?g (LayoutNode j) else point_to_canvas p)" if "j < ?n" for j
    using visited [OF that] mobile [of j] v(5) by (cases "position net j") (auto simp: visited_def)
  ultimately show ?thesis using v(2) unfolding list_all_iff by (intro exI conjI ballI) (assumption | simp)+
qed

definition small_network :: network where
  \<comment> \<open>a point-to-point link, a node with a position and a bus of three\<close>
  "small_network =
     \<lparr>nw_nodes = [\<lparr>nn_position = None, nn_devices = [\<lparr>dv_type = ''PointToPointNetDevice'', dv_channel = Some 7\<rparr>]\<rparr>,
                  \<lparr>nn_position = Some (1, 2), nn_devices = [\<lparr>dv_type = ''PointToPointNetDevice'', dv_channel = Some 7\<rparr>,
                     \<lparr>dv_type = ''CsmaNetDevice'', dv_channel = Some 8\<rparr>]\<rparr>,
                  \<lparr>nn_position = None, nn_devices = [\<lparr>dv_type = ''WifiNetDevice'', dv_channel = None\<rparr>,
                     \<lparr>dv_type = ''CsmaNetDevice'', dv_channel = Some 8\<rparr>]\<rparr>,
                  \<lparr>nn_position = None, nn_devices = [\<lparr>dv_type = ''CsmaNetDevice'', dv_channel = Some 8\<rparr>]\<rparr>],
      nw_channels = [(7, [0, 1]), (8, [1, 2, 3])]\<rparr>"

lemma small_network_closed: "closed small_network"
  by (simp add: small_network_def closed_def wired_def netdevice_traits_def lookup_netdevice_traits_def Let_def)

lemma small_network_links:
  "map (node_links small_network) [0..<4] =
    [[(0, NodeEnd 1)], [(1, NodeEnd 0), (1, ChannelEnd 8)], [(2, ChannelEnd 8)], [(3, ChannelEnd 8)]]"
  by code_simp

text \<open>Each point-to-point link is drawn twice, once from each end.\<close>

lemma scan_draws_network_witness:
  "\<exists>v net'. scan_topology (\<lambda>g x. (5, 6)) False small_network (new_viz_view True 4) = Inr (v, net') \<and>
    ends v = [(0, NodeEnd 1), (1, NodeEnd 0), (1, ChannelEnd 8), (2, ChannelEnd 8), (3, ChannelEnd 8)] \<and>
    nd_pos (node_at v 1) = (3, 6) \<and> nd_pos (node_at v 2) = (5, 6)"
proof -
  have n: "length (nw_nodes small_network) = 4" "position small_network 1 = Some (1, 2)" "position small_network 2 = None"
    by (simp_all add: small_network_def position_def)
  obtain v net' and g :: layout_graph where v: "scan_topology (\<lambda>g x. (5, 6)) False small_network (new_viz_view True 4) = Inr (v, net')"
    "ends v = concat (map (node_links small_network) [0..<4])"
    "list_all (\<lambda>j. nd_pos (node_at v (int j)) = (case position small_network j of None \<Rightarrow> (5, 6)
      | Some p \<Rightarrow> if False \<and> LayoutNode j \<in> set (lg_nodes g) then (5, 6) else point_to_canvas p)) [0..<4]"
    using scan_draws_network [OF small_network_closed, of "\<lambda>g x. (5, 6)" False True] unfolding n by blast
  have "nd_pos (node_at v (int 1)) = (3, 6)" "nd_pos (node_at v (int 2)) = (5, 6)"
    using v(3) [unfolded list_all_iff, rule_format, of 1] v(3) [unfolded list_all_iff, rule_format, of 2]
    by (simp_all add: n [simplified] point_to_canvas_def PIXELS_PER_METER_def)
  with v(1,2) show ?thesis unfolding small_network_links by simp
qed

end
