(* ===== verification/Viz_Canvas.thy ===== *)
theory Viz_Canvas
  imports Viz_Topology
begin

text \<open>
  Moving about in the picture: zooming, panning, dragging nodes, following and centring a node, the
  first scaling and the buttons of \<open>src/visualizer/visualizer/core.py\<close>. The positions that the
  simulation has are those of the network. An adjustment of GTK keeps its value between its bounds. The
  conversion between the canvas and pixels, and what the scrolled window makes of new bounds or a new
  scale of the canvas, are parameters; \<open>canvas_laws\<close> says what is documented of them. Cursors are left
  aside, and a menu that pops up is noted.
\<close>

section \<open>Adjustments\<close>

record adjustment =
  ad_value :: rat
  ad_lower :: rat
  ad_upper :: rat
  ad_page :: rat

definition adj_set_value :: "rat \<Rightarrow> adjustment \<Rightarrow> adjustment" where
  "adj_set_value x a = a\<lparr>ad_value := max (ad_lower a) (min x (max (ad_lower a) (ad_upper a - ad_page a)))\<rparr>"

type_synonym bounds = "rat \<times> rat \<times> rat \<times> rat"

record canvas_lib =
  cl_to_pixels :: "bounds \<Rightarrow> rat \<Rightarrow> point \<Rightarrow> point"
  cl_from_pixels :: "bounds \<Rightarrow> rat \<Rightarrow> point \<Rightarrow> point"
  cl_resize :: "bounds \<Rightarrow> rat \<Rightarrow> adjustment \<times> adjustment \<Rightarrow> adjustment \<times> adjustment"

section \<open>The state\<close>

record canvas_state =
  cs_view :: viz_view
  cs_net :: network
  cs_zoom :: adjustment
  cs_h :: adjustment
  cs_v :: adjustment
  cs_panning :: "(point \<times> point) option"       \<comment> \<open>initial positions of the mouse and the window\<close>
  cs_pan_handlers :: nat                            \<comment> \<open>connections of \<open>_panning_motion\<close>\<close>
  cs_drag :: "(int \<times> point \<times> point) option"  \<comment> \<open>connected node, initial points on canvas and in simulation\<close>
  cs_drag_handlers :: "int list"                    \<comment> \<open>nodes with a connection of \<open>node_drag_motion\<close>\<close>
  cs_follow :: "int option"
  cs_menus :: "int list"                            \<comment> \<open>nodes whose menu has been popped up\<close>

definition zoom_adjustment :: adjustment where
  "zoom_adjustment = \<lparr>ad_value = 1, ad_lower = 1 / 100, ad_upper = 10, ad_page = 1\<rparr>"

definition new_canvas :: "network \<Rightarrow> viz_view \<Rightarrow> adjustment \<Rightarrow> adjustment \<Rightarrow> canvas_state" where
  "new_canvas net v h vert = \<lparr>cs_view = v, cs_net = net, cs_zoom = zoom_adjustment, cs_h = h, cs_v = vert, cs_panning = None,
     cs_pan_handlers = 0, cs_drag = None, cs_drag_handlers = [], cs_follow = None, cs_menus = []\<rparr>"

definition to_pixels :: "canvas_lib \<Rightarrow> canvas_state \<Rightarrow> point \<Rightarrow> point" where
  "to_pixels lib st = cl_to_pixels lib (vw_bounds (cs_view st)) (ad_value (cs_zoom st))"

definition from_pixels :: "canvas_lib \<Rightarrow> canvas_state \<Rightarrow> point \<Rightarrow> point" where
  "from_pixels lib st = cl_from_pixels lib (vw_bounds (cs_view st)) (ad_value (cs_zoom st))"

definition resized :: "canvas_lib \<Rightarrow> canvas_state \<Rightarrow> canvas_state" where
  "resized lib st = (case cl_resize lib (vw_bounds (cs_view st)) (ad_value (cs_zoom st)) (cs_h st, cs_v st) of
     (h, vert) \<Rightarrow> st\<lparr>cs_h := h, cs_v := vert\<rparr>)"

definition show_view :: "canvas_lib \<Rightarrow> viz_view \<Rightarrow> canvas_state \<Rightarrow> canvas_state" where
  "show_view lib v st =
     (if vw_bounds v = vw_bounds (cs_view st) then st\<lparr>cs_view := v\<rparr> else resized lib (st\<lparr>cs_view := v\<rparr>))"

definition zoom_set_value :: "canvas_lib \<Rightarrow> rat \<Rightarrow> canvas_state \<Rightarrow> canvas_state" where
  \<comment> \<open>\<open>_zoom_changed\<close> is called when the value changes\<close>
  "zoom_set_value lib x st =
     (let z = adj_set_value x (cs_zoom st)
      in if ad_value z = ad_value (cs_zoom st) then st else resized lib (st\<lparr>cs_zoom := z\<rparr>))"

definition scroll_values :: "point \<Rightarrow> canvas_state \<Rightarrow> canvas_state" where
  "scroll_values p st = st\<lparr>cs_h := adj_set_value (fst p) (cs_h st), cs_v := adj_set_value (snd p) (cs_v st)\<rparr>"

section \<open>Following the simulation\<close>

definition center_on_point :: "canvas_lib \<Rightarrow> point \<Rightarrow> canvas_state \<Rightarrow> canvas_state" where
  "center_on_point lib q st =
     (let p = to_pixels lib st q in scroll_values (fst p - ad_page (cs_h st) / 2, snd p - ad_page (cs_v st) / 2) st)"

definition update_node_position :: "canvas_lib \<Rightarrow> int \<Rightarrow> canvas_state \<Rightarrow> canvas_state" where
  "update_node_position lib i st =
     (case has_mobility (cs_net st) (nat i) (cs_view st) of (mobile, v) \<Rightarrow>
        let st = st\<lparr>cs_view := v\<rparr>
        in if \<not> mobile then st
           else case position (cs_net st) (nat i) of
                  None \<Rightarrow> st
                | Some p \<Rightarrow>
                    let q = point_to_canvas p;
                        st = show_view lib (node_set_position i q (cs_view st)) st
                    in if cs_follow st = Some i then center_on_point lib q st else st)"

definition update_node_positions :: "canvas_lib \<Rightarrow> canvas_state \<Rightarrow> canvas_state" where
  "update_node_positions lib st = fold (update_node_position lib) (keys (vw_nodes (cs_view st))) st"

definition center_on_node :: "canvas_lib \<Rightarrow> int \<Rightarrow> canvas_state \<Rightarrow> canvas_state pyres" where
  "center_on_node lib i st =
     (if i \<in> set (keys (vw_nodes (cs_view st))) then Inr (center_on_point lib (nd_pos (node_at (cs_view st) i)) st)
      else Inl KeyError)"

definition set_follow_node :: "int option \<Rightarrow> canvas_state \<Rightarrow> canvas_state" where
  "set_follow_node node st = st\<lparr>cs_follow := node\<rparr>"

definition xs_of :: "canvas_state \<Rightarrow> rat set" where
  "xs_of st = fst ` set (map (\<lambda>(_, n). nd_pos n) (vw_nodes (cs_view st)))"

definition ys_of :: "canvas_state \<Rightarrow> rat set" where
  "ys_of st = snd ` set (map (\<lambda>(_, n). nd_pos n) (vw_nodes (cs_view st)))"

definition center_between :: "canvas_lib \<Rightarrow> point \<Rightarrow> point \<Rightarrow> canvas_state \<Rightarrow> canvas_state" where
  "center_between lib least greatest st =
     (let p1 = from_pixels lib st (ad_value (cs_h st), ad_value (cs_v st));
          p2 = from_pixels lib st (ad_value (cs_h st) + ad_page (cs_h st), ad_value (cs_v st) + ad_page (cs_v st));
          width = fst p2 - fst p1; height = snd p2 - snd p1;
          center_x = (fst least + fst greatest) / 2; center_y = (snd least + snd greatest) / 2
      in scroll_values (to_pixels lib st (center_x - width / 2, center_y - height / 2)) st)"

definition fit_nodes :: "canvas_lib \<Rightarrow> canvas_state \<Rightarrow> canvas_state" where
  "fit_nodes lib st =
     (let least = (Min (xs_of st), Min (ys_of st)); greatest = (Max (xs_of st), Max (ys_of st));
          least_px = to_pixels lib st least; greatest_px = to_pixels lib st greatest;
          new_dx = 3 / 2 * (fst greatest_px - fst least_px); new_dy = 3 / 2 * (snd greatest_px - snd least_px)
      in if new_dx = 0 \<or> new_dy = 0 then st
         else center_between lib least greatest
                (zoom_set_value lib (min (ad_page (cs_h st) / new_dx) (ad_page (cs_v st) / new_dy)) st))"

definition autoscale_view :: "canvas_lib \<Rightarrow> canvas_state \<Rightarrow> canvas_state" where
  "autoscale_view lib st = (if vw_nodes (cs_view st) = [] then st else fit_nodes lib (update_node_positions lib st))"

section \<open>The mouse\<close>

datatype scroll_direction = ScrollUp | ScrollDown | ScrollOther

definition begin_panning :: "point \<Rightarrow> canvas_state \<Rightarrow> canvas_state" where
  "begin_panning m st =
     st\<lparr>cs_panning := Some (m, (ad_value (cs_h st), ad_value (cs_v st))), cs_pan_handlers := cs_pan_handlers st + 1\<rparr>"

definition end_panning :: "canvas_state \<Rightarrow> canvas_state" where
  "end_panning st = (case cs_panning st of
     None \<Rightarrow> st
   | Some _ \<Rightarrow> st\<lparr>cs_panning := None, cs_pan_handlers := cs_pan_handlers st - 1\<rparr>)"

definition panning_motion :: "point \<Rightarrow> canvas_state \<Rightarrow> canvas_state pyres" where
  "panning_motion m st = (case cs_panning st of
     None \<Rightarrow> Inl AssertionError
   | Some (m0, c0) \<Rightarrow> Inr (scroll_values (fst c0 - (fst m - fst m0), snd c0 - (snd m - snd m0)) st))"

definition canvas_button_press :: "nat \<Rightarrow> point \<Rightarrow> canvas_state \<Rightarrow> bool \<times> canvas_state" where
  "canvas_button_press button m st = (if button = 2 then (True, begin_panning m st) else (False, st))"

definition canvas_button_release :: "nat \<Rightarrow> canvas_state \<Rightarrow> bool \<times> canvas_state" where
  "canvas_button_release button st = (if button = 2 then (True, end_panning st) else (False, st))"

definition canvas_scroll :: "canvas_lib \<Rightarrow> scroll_direction \<Rightarrow> canvas_state \<Rightarrow> bool \<times> canvas_state" where
  "canvas_scroll lib direction st = (case direction of
     ScrollUp \<Rightarrow> (True, zoom_set_value lib (ad_value (cs_zoom st) * (5 / 4)) st)
   | ScrollDown \<Rightarrow> (True, zoom_set_value lib (ad_value (cs_zoom st) / (5 / 4)) st)
   | ScrollOther \<Rightarrow> (False, st))"

definition pointer_at :: "canvas_lib \<Rightarrow> canvas_state \<Rightarrow> point \<Rightarrow> point" where
  \<comment> \<open>what the mouse points at, as \<open>_canvas_tooltip_cb\<close> computes it: the scrolling counts\<close>
  "pointer_at lib st m = from_pixels lib st (ad_value (cs_h st) + fst m, ad_value (cs_v st) + snd m)"

definition begin_node_drag :: "canvas_lib \<Rightarrow> int \<Rightarrow> point \<Rightarrow> canvas_state \<Rightarrow> canvas_state" where
  "begin_node_drag lib i m st = (case position (cs_net st) (nat i) of
     None \<Rightarrow> st
   | Some pos \<Rightarrow>
       if cs_drag st \<noteq> None then st
       else st\<lparr>cs_drag := Some (i, from_pixels lib st m, pos), cs_drag_handlers := cs_drag_handlers st @ [i]\<rparr>)"

definition node_drag_motion :: "canvas_lib \<Rightarrow> int \<Rightarrow> point \<Rightarrow> canvas_state \<Rightarrow> bool \<times> canvas_state" where
  "node_drag_motion lib i m st =
     (if position (cs_net st) (nat i) = None then (False, st)
      else case cs_drag st of
             None \<Rightarrow> (False, st)
           | Some (_, canvas0, sim0) \<Rightarrow>
               let c = from_pixels lib st m;
                   dx = fst c - fst canvas0; dy = snd c - snd canvas0;
                   pos = (fst sim0 + distance_to_simulation dx, snd sim0 + distance_to_simulation dy);
                   st = st\<lparr>cs_net := set_mobility_position (nat i) pos (cs_net st)\<rparr>
               in (True, show_view lib (node_set_position i (point_to_canvas pos) (cs_view st)) st))"

definition end_node_drag :: "int \<Rightarrow> canvas_state \<Rightarrow> canvas_state" where
  \<comment> \<open>the handler is looked up at the node that is given\<close>
  "end_node_drag i st = (case cs_drag st of
     None \<Rightarrow> st
   | Some (j, _, _) \<Rightarrow> st\<lparr>cs_drag := None,
       cs_drag_handlers := (if i = j then remove1 i (cs_drag_handlers st) else cs_drag_handlers st)\<rparr>)"

definition popup_node_menu :: "int \<Rightarrow> canvas_state \<Rightarrow> canvas_state" where
  "popup_node_menu i st = st\<lparr>cs_menus := cs_menus st @ [i]\<rparr>"

definition select_in_canvas :: "canvas_lib \<Rightarrow> int option \<Rightarrow> canvas_state \<Rightarrow> canvas_state pyres" where
  "select_in_canvas lib node st = rbind (select_node node (cs_view st)) (\<lambda>v. Inr (show_view lib v st))"

definition on_root_button_press :: "canvas_lib \<Rightarrow> nat \<Rightarrow> canvas_state \<Rightarrow> (bool \<times> canvas_state) pyres" where
  "on_root_button_press lib button st =
     (if button = 1 then rbind (select_in_canvas lib None st) (\<lambda>st. Inr (True, st)) else Inr (False, st))"

definition on_node_button_press :: "canvas_lib \<Rightarrow> nat \<Rightarrow> int \<Rightarrow> point \<Rightarrow> canvas_state \<Rightarrow> (bool \<times> canvas_state) pyres" where
  "on_node_button_press lib button i m st =
     (if button = 1 then rbind (select_in_canvas lib (Some i) st) (\<lambda>st. Inr (True, st))
      else if button = 3 then Inr (True, popup_node_menu i st)
      else if button = 2 then Inr (True, begin_node_drag lib i m st)
      else Inr (False, st))"

definition on_node_button_release :: "nat \<Rightarrow> int \<Rightarrow> canvas_state \<Rightarrow> bool \<times> canvas_state" where
  "on_node_button_release button i st = (if button = 2 then (True, end_node_drag i st) else (False, st))"

definition node_size_changed :: "canvas_lib \<Rightarrow> rat \<Rightarrow> canvas_state \<Rightarrow> canvas_state" where
  "node_size_changed lib s st =
     fold (\<lambda>i st. show_view lib (set_size s i (cs_view st)) st) (keys (vw_nodes (cs_view st))) st"

section \<open>What can happen\<close>

definition simulated :: "network \<Rightarrow> network \<Rightarrow> bool" where
  \<comment> \<open>the simulation moves the nodes that have a mobility model\<close>
  "simulated net net' \<longleftrightarrow> length (nw_nodes net') = length (nw_nodes net) \<and>
     list_all (\<lambda>i. position net' i = None \<longleftrightarrow> position net i = None) [0..<length (nw_nodes net)]"

inductive canvas_step :: "canvas_lib \<Rightarrow> canvas_state \<Rightarrow> canvas_state \<Rightarrow> bool" for lib where
  simulate: "simulated (cs_net st) net \<Longrightarrow> canvas_step lib st (st\<lparr>cs_net := net\<rparr>)"
| follow: "canvas_step lib st (update_node_positions lib st)"
| set_follow: "canvas_step lib st (set_follow_node node st)"
| center: "center_on_node lib i st = Inr w \<Longrightarrow> canvas_step lib st w"
| scale: "canvas_step lib st (autoscale_view lib st)"
| press: "canvas_step lib st (snd (canvas_button_press button m st))"
| release: "canvas_step lib st (snd (canvas_button_release button st))"
| pan: "0 < cs_pan_handlers st \<Longrightarrow> panning_motion m st = Inr w \<Longrightarrow> canvas_step lib st w"
| scroll: "canvas_step lib st (snd (canvas_scroll lib direction st))"
| root_press: "on_root_button_press lib button st = Inr (b, w) \<Longrightarrow> canvas_step lib st w"
| node_press: "i \<in> set (keys (vw_nodes (cs_view st))) \<Longrightarrow> on_node_button_press lib button i m st = Inr (b, w) \<Longrightarrow>
    canvas_step lib st w"
| node_release: "canvas_step lib st (snd (on_node_button_release button i st))"
| drag: "i \<in> set (cs_drag_handlers st) \<Longrightarrow> canvas_step lib st (snd (node_drag_motion lib i m st))"
| node_size: "canvas_step lib st (node_size_changed lib s st)"

section \<open>The state stays well formed\<close>

lemma fold_same: "(\<And>x s. g (f x s) = g s) \<Longrightarrow> g (fold f xs s) = g s"
  by (induction xs arbitrary: s) simp_all

lemma show_view_simps [simp]:
  "cs_view (show_view lib v st) = v" "cs_net (show_view lib v st) = cs_net st" "cs_zoom (show_view lib v st) = cs_zoom st"
  "cs_drag (show_view lib v st) = cs_drag st" "cs_follow (show_view lib v st) = cs_follow st"
  "cs_drag_handlers (show_view lib v st) = cs_drag_handlers st" "cs_panning (show_view lib v st) = cs_panning st"
  "cs_pan_handlers (show_view lib v st) = cs_pan_handlers st"
  by (simp_all add: show_view_def resized_def case_prod_beta)

lemma scroll_simps [simp]:
  "cs_view (scroll_values p st) = cs_view st" "cs_net (scroll_values p st) = cs_net st"
  "cs_zoom (scroll_values p st) = cs_zoom st" "cs_drag (scroll_values p st) = cs_drag st"
  "cs_drag_handlers (scroll_values p st) = cs_drag_handlers st" "cs_panning (scroll_values p st) = cs_panning st"
  "cs_pan_handlers (scroll_values p st) = cs_pan_handlers st" "cs_follow (scroll_values p st) = cs_follow st"
  by (simp_all add: scroll_values_def)

lemma center_simps [simp]:
  "cs_view (center_on_point lib p st) = cs_view st" "cs_net (center_on_point lib p st) = cs_net st"
  "cs_zoom (center_on_point lib p st) = cs_zoom st" "cs_drag (center_on_point lib p st) = cs_drag st"
  "cs_drag_handlers (center_on_point lib p st) = cs_drag_handlers st" "cs_panning (center_on_point lib p st) = cs_panning st"
  "cs_pan_handlers (center_on_point lib p st) = cs_pan_handlers st" "cs_follow (center_on_point lib p st) = cs_follow st"
  by (simp_all add: center_on_point_def Let_def)

lemma zoom_simps [simp]:
  "cs_view (zoom_set_value lib x st) = cs_view st" "cs_net (zoom_set_value lib x st) = cs_net st"
  "cs_drag (zoom_set_value lib x st) = cs_drag st" "cs_drag_handlers (zoom_set_value lib x st) = cs_drag_handlers st"
  "cs_panning (zoom_set_value lib x st) = cs_panning st" "cs_pan_handlers (zoom_set_value lib x st) = cs_pan_handlers st"
  by (simp_all add: zoom_set_value_def resized_def case_prod_beta Let_def)

lemma update_position_simps [simp]:
  "cs_net (update_node_position lib i st) = cs_net st" "cs_zoom (update_node_position lib i st) = cs_zoom st"
  "cs_drag (update_node_position lib i st) = cs_drag st" "cs_drag_handlers (update_node_position lib i st) = cs_drag_handlers st"
  "cs_panning (update_node_position lib i st) = cs_panning st" "cs_pan_handlers (update_node_position lib i st) = cs_pan_handlers st"
  by (simp_all add: update_node_position_def Let_def split: prod.split option.split)

lemma update_positions_simps [simp]:
  "cs_net (update_node_positions lib st) = cs_net st" "cs_zoom (update_node_positions lib st) = cs_zoom st"
  "cs_drag (update_node_positions lib st) = cs_drag st" "cs_drag_handlers (update_node_positions lib st) = cs_drag_handlers st"
  "cs_panning (update_node_positions lib st) = cs_panning st" "cs_pan_handlers (update_node_positions lib st) = cs_pan_handlers st"
  unfolding update_node_positions_def
  by (simp_all add: fold_same [where f = "update_node_position lib"])

lemma set_size_all_simps [simp]:
  "cs_net (node_size_changed lib s st) = cs_net st" "cs_zoom (node_size_changed lib s st) = cs_zoom st"
  "cs_drag (node_size_changed lib s st) = cs_drag st" "cs_drag_handlers (node_size_changed lib s st) = cs_drag_handlers st"
  "cs_panning (node_size_changed lib s st) = cs_panning st" "cs_pan_handlers (node_size_changed lib s st) = cs_pan_handlers st"
  unfolding node_size_changed_def by (simp_all add: fold_same)

lemma fit_nodes_cases: "fit_nodes lib st = st \<or> (\<exists>x p. fit_nodes lib st = scroll_values p (zoom_set_value lib x st))"
  unfolding fit_nodes_def center_between_def Let_def by (simp only: split: if_split) blast

lemma autoscale_simps [simp]:
  "cs_view (autoscale_view lib st) = (if vw_nodes (cs_view st) = [] then cs_view st else cs_view (update_node_positions lib st))"
  "cs_net (autoscale_view lib st) = cs_net st" "cs_drag (autoscale_view lib st) = cs_drag st"
  "cs_drag_handlers (autoscale_view lib st) = cs_drag_handlers st" "cs_panning (autoscale_view lib st) = cs_panning st"
  "cs_pan_handlers (autoscale_view lib st) = cs_pan_handlers st"
  using fit_nodes_cases [of lib "update_node_positions lib st"] by (auto simp: autoscale_view_def)

section \<open>The view stays consistent\<close>

lemma view_ok_has_mobility: "has_mobility net i v = (b, w) \<Longrightarrow> view_ok v \<Longrightarrow> view_ok w"
  by (auto simp: has_mobility_def Let_def view_ok_neutral split: option.splits)

lemma has_mobility_simps:
  assumes "has_mobility net i v = (b, w)"
  shows "keys (vw_nodes w) = keys (vw_nodes v)" "nd_pos (node_at w j) = nd_pos (node_at v j)" "vw_bounds w = vw_bounds v"
    "vw_get_bounds w = vw_get_bounds v"
  using assms by (auto simp: has_mobility_def Let_def node_at_update_node split: option.splits)

lemma view_ok_update_position: "view_ok (cs_view st) \<Longrightarrow> view_ok (cs_view (update_node_position lib i st))"
  by (auto simp: update_node_position_def Let_def view_ok_node_set_position dest: view_ok_has_mobility split: prod.split option.split)

lemma view_ok_update_positions: "view_ok (cs_view st) \<Longrightarrow> view_ok (cs_view (update_node_positions lib st))"
  unfolding update_node_positions_def
  by (rule fold_preserves [where P = "\<lambda>st. view_ok (cs_view st)"]) (rule view_ok_update_position)

lemma keys_update_position [simp]: "keys (vw_nodes (cs_view (update_node_position lib i st))) = keys (vw_nodes (cs_view st))"
  by (auto simp: update_node_position_def Let_def dest: has_mobility_simps(1) split: prod.split option.split)

lemma keys_update_positions [simp]: "keys (vw_nodes (cs_view (update_node_positions lib st))) = keys (vw_nodes (cs_view st))"
  unfolding update_node_positions_def by (simp add: fold_same [where g = "\<lambda>st. keys (vw_nodes (cs_view st))"])

lemma get_bounds_update_position: "vw_get_bounds (cs_view (update_node_position lib i st)) = vw_get_bounds (cs_view st)"
  by (auto simp: update_node_position_def Let_def dest: has_mobility_simps(4) split: prod.split option.split)

lemma get_bounds_update_positions [simp]: "vw_get_bounds (cs_view (update_node_positions lib st)) = vw_get_bounds (cs_view st)"
  unfolding update_node_positions_def
  by (simp add: fold_same [where g = "\<lambda>st. vw_get_bounds (cs_view st)"] get_bounds_update_position)

lemma select_node_keys: "select_node node v = Inr w \<Longrightarrow> keys (vw_nodes w) = keys (vw_nodes v)"
  by (auto simp: select_node_def show_selected_def set_nodes_of_interest_def Let_def split: if_splits option.splits)

section \<open>Invariants\<close>

definition drag_ok :: "canvas_state \<Rightarrow> bool" where
  "drag_ok st \<longleftrightarrow> (case cs_drag st of
     None \<Rightarrow> True
   | Some d \<Rightarrow> fst d \<in> set (cs_drag_handlers st) \<and> position (cs_net st) (nat (fst d)) \<noteq> None) \<and>
     set (cs_drag_handlers st) \<subseteq> set (keys (vw_nodes (cs_view st)))"

definition zoom_ok :: "adjustment \<Rightarrow> bool" where
  "zoom_ok z \<longleftrightarrow> ad_lower z = 1 / 100 \<and> ad_upper z = 10 \<and> ad_page z = 1 \<and> 1 / 100 \<le> ad_value z \<and> ad_value z \<le> 9"

definition canvas_ok :: "canvas_state \<Rightarrow> bool" where
  "canvas_ok st \<longleftrightarrow> view_ok (cs_view st) \<and> zoom_ok (cs_zoom st) \<and> drag_ok st \<and>
     (cs_panning st \<noteq> None \<longrightarrow> 0 < cs_pan_handlers st) \<and>
     set (keys (vw_nodes (cs_view st))) \<subseteq> int ` {..<length (nw_nodes (cs_net st))}"

lemma zoom_ok_set_value: "zoom_ok z \<Longrightarrow> zoom_ok (adj_set_value x z)"
  by (auto simp: zoom_ok_def adj_set_value_def min_def max_def)

lemma zoom_ok_zoom: "zoom_ok (cs_zoom st) \<Longrightarrow> zoom_ok (cs_zoom (zoom_set_value lib x st))"
  by (simp add: zoom_set_value_def resized_def case_prod_beta Let_def zoom_ok_set_value)

lemma zoom_ok_autoscale: "zoom_ok (cs_zoom st) \<Longrightarrow> zoom_ok (cs_zoom (autoscale_view lib st))"
  using fit_nodes_cases [of lib "update_node_positions lib st"] by (auto simp: autoscale_view_def zoom_ok_zoom)

lemma position_set_mobility:
  "i < length (nw_nodes net) \<Longrightarrow> position (set_mobility_position i p net) j = (if j = i then Some p else position net j)"
  "length (nw_nodes (set_mobility_position i p net)) = length (nw_nodes net)"
  by (auto simp: set_mobility_position_def position_def nth_list_update)

lemma set_keys_simps [simp]:
  "fst ` set (vw_nodes (node_set_position i p v)) = fst ` set (vw_nodes v)"
  "fst ` set (vw_nodes (cs_view (update_node_positions lib st))) = fst ` set (vw_nodes (cs_view st))"
  using set_position_fields(1) [of i p v] keys_update_positions [of lib st] by (metis list.set_map)+

lemma canvas_ok_change:
  \<comment> \<open>a handler that leaves the controls alone\<close>
  assumes "canvas_ok st" and "view_ok (cs_view w)" and "keys (vw_nodes (cs_view w)) = keys (vw_nodes (cs_view st))"
    and "cs_net w = cs_net st" "cs_drag w = cs_drag st" "cs_drag_handlers w = cs_drag_handlers st"
    "cs_panning w = cs_panning st" "cs_pan_handlers w = cs_pan_handlers st" "zoom_ok (cs_zoom w)"
  shows "canvas_ok w"
  using assms(1,2,9) unfolding canvas_ok_def drag_ok_def assms(3-8) by blast

lemma canvas_ok_select:
  assumes "canvas_ok st" and "select_in_canvas lib node st = Inr w"
  shows "canvas_ok w"
proof -
  obtain v where v: "select_node node (cs_view st) = Inr v" "w = show_view lib v st"
    using assms(2) by (auto simp: select_in_canvas_def rbind_Inr_iff)
  moreover from v(1) have "view_ok v" using assms(1) view_ok_select_node by (auto simp: canvas_ok_def)
  moreover have "zoom_ok (cs_zoom st)" using assms(1) by (simp add: canvas_ok_def)
  ultimately show ?thesis by (intro canvas_ok_change [OF assms(1)]) (simp_all add: select_node_keys)
qed

lemma view_ok_node_size_changed: "view_ok (cs_view st) \<Longrightarrow> view_ok (cs_view (node_size_changed lib s st))"
  unfolding node_size_changed_def
  by (rule fold_preserves [where P = "\<lambda>st. view_ok (cs_view st)"]) (simp_all add: view_ok_setters(2))

lemma keys_set_size [simp]: "keys (vw_nodes (set_size s i v)) = keys (vw_nodes v)"
  by (simp add: set_size_def)

lemma keys_node_size_changed [simp]: "keys (vw_nodes (cs_view (node_size_changed lib s st))) = keys (vw_nodes (cs_view st))"
  unfolding node_size_changed_def by (simp add: fold_same [where g = "\<lambda>st. keys (vw_nodes (cs_view st))"])

lemma canvas_ok_simulate:
  assumes "canvas_ok st" and "simulated (cs_net st) net"
  shows "canvas_ok (st\<lparr>cs_net := net\<rparr>)"
proof -
  have same: "position net (nat i) = None \<longleftrightarrow> position (cs_net st) (nat i) = None" if "i \<in> set (cs_drag_handlers st)" for i
  proof -
    have "i \<in> int ` {..<length (nw_nodes (cs_net st))}" using assms(1) that by (auto simp: canvas_ok_def drag_ok_def)
    with assms(2) show ?thesis by (auto simp: simulated_def list_all_iff simp del: not_None_eq)
  qed
  have "drag_ok (st\<lparr>cs_net := net\<rparr>)"
  proof (cases "cs_drag st")
    case (Some d)
    with assms(1) same [of "fst d"] show ?thesis
      by (cases d) (simp add: canvas_ok_def drag_ok_def del: not_None_eq)
  qed (use assms(1) in \<open>simp add: canvas_ok_def drag_ok_def\<close>)
  with assms show ?thesis by (simp add: canvas_ok_def simulated_def)
qed

lemma canvas_ok_begin_drag:
  assumes "canvas_ok st" and "i \<in> set (keys (vw_nodes (cs_view st)))"
  shows "canvas_ok (begin_node_drag lib i m st)"
  using assms by (auto simp: canvas_ok_def drag_ok_def begin_node_drag_def split: option.splits)

lemma canvas_ok_drag_motion:
  assumes "canvas_ok st" and "i \<in> set (cs_drag_handlers st)"
  shows "canvas_ok (snd (node_drag_motion lib i m st))"
proof -
  have "i \<in> int ` {..<length (nw_nodes (cs_net st))}" using assms by (auto simp: canvas_ok_def drag_ok_def)
  then have "nat i < length (nw_nodes (cs_net st))" by auto
  with assms show ?thesis
    by (cases "cs_drag st") (simp_all add: node_drag_motion_def Let_def canvas_ok_def drag_ok_def view_ok_node_set_position
        position_set_mobility case_prod_beta del: not_None_eq)
qed

lemma canvas_ok_end_drag: "canvas_ok st \<Longrightarrow> canvas_ok (end_node_drag i st)"
  using set_remove1_subset [of i "cs_drag_handlers st"]
  by (auto simp: canvas_ok_def drag_ok_def end_node_drag_def split: option.split)

lemma canvas_ok_frame [simp]:
  "canvas_ok (scroll_values p st) = canvas_ok st" "canvas_ok (center_on_point lib p st) = canvas_ok st"
  "canvas_ok (st\<lparr>cs_follow := node\<rparr>) = canvas_ok st" "canvas_ok (st\<lparr>cs_menus := menus\<rparr>) = canvas_ok st"
  by (simp_all add: canvas_ok_def drag_ok_def split: option.split)

lemma canvas_ok_panning:
  "canvas_ok st \<Longrightarrow> canvas_ok (begin_panning m st)" "canvas_ok st \<Longrightarrow> canvas_ok (end_panning st)"
  by (cases "cs_drag st"; cases "cs_panning st"; simp add: canvas_ok_def drag_ok_def begin_panning_def end_panning_def)+

lemma canvas_ok_panning_motion: "canvas_ok st \<Longrightarrow> panning_motion m st = Inr w \<Longrightarrow> canvas_ok w"
  by (auto simp: panning_motion_def split: option.splits)

lemma canvas_ok_step: "canvas_step lib st w \<Longrightarrow> canvas_ok st \<Longrightarrow> canvas_ok w"
proof (induction rule: canvas_step.induct)
  case (follow st)
  then have "view_ok (cs_view st)" "zoom_ok (cs_zoom st)" by (simp_all add: canvas_ok_def)
  then show ?case by (intro canvas_ok_change [OF follow]) (simp_all add: view_ok_update_positions)
next
  case (scale st)
  then have "view_ok (cs_view st)" "zoom_ok (cs_zoom st)" by (simp_all add: canvas_ok_def)
  then show ?case by (intro canvas_ok_change [OF scale]) (simp_all add: view_ok_update_positions zoom_ok_autoscale)
next
  case (scroll st direction)
  then have "view_ok (cs_view st)" "zoom_ok (cs_zoom st)" by (simp_all add: canvas_ok_def)
  then show ?case
    by (intro canvas_ok_change [OF scroll]; cases direction) (simp_all add: canvas_scroll_def zoom_ok_zoom)
next
  case (node_size st s)
  then have "view_ok (cs_view st)" "zoom_ok (cs_zoom st)" by (simp_all add: canvas_ok_def)
  then show ?case by (intro canvas_ok_change [OF node_size]) (simp_all add: view_ok_node_size_changed)
qed (auto simp: canvas_ok_simulate canvas_button_press_def canvas_button_release_def canvas_ok_panning on_root_button_press_def
    on_node_button_press_def on_node_button_release_def rbind_Inr_iff canvas_ok_begin_drag canvas_ok_drag_motion canvas_ok_end_drag
    set_follow_node_def center_on_node_def popup_node_menu_def split: if_splits
    intro: canvas_ok_select canvas_ok_panning_motion)

interpretation canvas: preserved "canvas_step lib" canvas_ok for lib
  by unfold_locales (rule canvas_ok_step)

section \<open>Dragging\<close>

definition canvas_laws :: "canvas_lib \<Rightarrow> bool" where
  \<comment> \<open>pixels count from the corner of the bounds at the present scale, and the window scrolls over them\<close>
  "canvas_laws lib \<longleftrightarrow> (\<forall>x1 y1 x2 y2 z. 0 < z \<longrightarrow>
     (\<forall>p. cl_to_pixels lib (x1, y1, x2, y2) z p = ((fst p - x1) * z, (snd p - y1) * z) \<and>
        cl_from_pixels lib (x1, y1, x2, y2) z p = (fst p / z + x1, snd p / z + y1)) \<and>
     (\<forall>h v. case cl_resize lib (x1, y1, x2, y2) z (h, v) of (h', v') \<Rightarrow>
        ad_lower h' = 0 \<and> ad_page h' = ad_page h \<and> ad_upper h' = max (ad_page h) ((x2 - x1) * z) \<and>
        ad_lower v' = 0 \<and> ad_page v' = ad_page v \<and> ad_upper v' = max (ad_page v) ((y2 - y1) * z)))"

lemma pixels_of:
  assumes "canvas_laws lib" and "vw_bounds (cs_view st) = (x1, y1, x2, y2)" and "0 < ad_value (cs_zoom st)"
  shows "to_pixels lib st p = ((fst p - x1) * ad_value (cs_zoom st), (snd p - y1) * ad_value (cs_zoom st))"
    "from_pixels lib st p = (fst p / ad_value (cs_zoom st) + x1, snd p / ad_value (cs_zoom st) + y1)"
  using assms unfolding to_pixels_def from_pixels_def canvas_laws_def by metis+

lemma pointer_at_pixels:
  assumes "canvas_laws lib" and "canvas_ok st"
  shows "fst (pointer_at lib st m) = fst (from_pixels lib st m) + ad_value (cs_h st) / ad_value (cs_zoom st)"
    "snd (pointer_at lib st m) = snd (from_pixels lib st m) + ad_value (cs_v st) / ad_value (cs_zoom st)"
proof -
  obtain x1 y1 x2 y2 where "vw_bounds (cs_view st) = (x1, y1, x2, y2)" by (metis prod_cases4)
  moreover have "0 < ad_value (cs_zoom st)" using assms(2) by (simp add: canvas_ok_def zoom_ok_def)
  ultimately show "fst (pointer_at lib st m) = fst (from_pixels lib st m) + ad_value (cs_h st) / ad_value (cs_zoom st)"
    "snd (pointer_at lib st m) = snd (from_pixels lib st m) + ad_value (cs_v st) / ad_value (cs_zoom st)"
    using assms(1) by (simp_all add: pointer_at_def pixels_of add_divide_distrib)
qed

definition dragging :: "canvas_lib \<Rightarrow> canvas_state \<Rightarrow> canvas_state \<Rightarrow> bool" where
  "dragging lib st w \<longleftrightarrow> canvas_step lib st w \<and> cs_drag w \<noteq> None"

lemma canvas_step_drag: "canvas_step lib st w \<Longrightarrow> cs_drag st = Some d \<Longrightarrow> cs_drag w = Some d \<or> cs_drag w = None"
proof (induction rule: canvas_step.induct)
  case (scroll st direction)
  then show ?case by (cases direction) (simp_all add: canvas_scroll_def)
next
  case (drag i st m)
  then show ?case by (cases d) (simp add: node_drag_motion_def Let_def)
next
  case (node_release st button i)
  then show ?case by (cases d) (simp add: on_node_button_release_def end_node_drag_def)
qed (auto simp: canvas_button_press_def canvas_button_release_def begin_panning_def end_panning_def panning_motion_def
    select_in_canvas_def on_root_button_press_def on_node_button_press_def begin_node_drag_def
    rbind_Inr_iff set_follow_node_def center_on_node_def popup_node_menu_def split: if_splits option.splits)

lemma dragging_keeps: "(dragging lib)\<^sup>*\<^sup>* st w \<Longrightarrow> cs_drag st = Some d \<Longrightarrow> canvas_ok st \<Longrightarrow> cs_drag w = Some d \<and> canvas_ok w"
proof (induction rule: rtranclp_induct)
  case (step w w')
  then have "canvas_step lib w w'" "cs_drag w' \<noteq> None" "cs_drag w = Some d" "canvas_ok w" by (auto simp: dragging_def)
  then show ?case using canvas_step_drag [of lib w w' d] canvas_ok_step [of lib w w'] by metis
qed simp

lemma keys_in_net: "canvas_ok st \<Longrightarrow> i \<in> set (keys (vw_nodes (cs_view st))) \<Longrightarrow> nat i < length (nw_nodes (cs_net st))"
  by (auto simp: canvas_ok_def)

text \<open>C25: Whatever happens between the press and a motion of the mouse, zooming, panning, following
  and new bounds included, a node that is dragged is moved from where the simulation had it by the
  difference of the two points that \<open>convert_from_pixels\<close> gives for the pointer in the window, the
  simulation gets that position, and the view stays consistent. The scrolling is left out of these points:
  the node keeps its distance to what the pointer points at but for the way that the window has been
  scrolled since the press, in the units of the canvas, so it stays under the pointer just when that is
  zero, and a window that is scrolled meanwhile pulls it away.\<close>

theorem drag_follows_pointer:
  assumes "canvas_laws lib" and "canvas_ok st" and "cs_drag st = None" and "i \<in> set (keys (vw_nodes (cs_view st)))"
    and "position (cs_net st) (nat i) = Some s0" and "(dragging lib)\<^sup>*\<^sup>* (begin_node_drag lib i m0 st) st'"
  shows "\<exists>w. node_drag_motion lib i m st' = (True, w) \<and> view_ok (cs_view w) \<and>
    nd_pos (node_at (cs_view w) i) =
      (fst (point_to_canvas s0) + (fst (from_pixels lib st' m) - fst (from_pixels lib st m0)),
       snd (point_to_canvas s0) + (snd (from_pixels lib st' m) - snd (from_pixels lib st m0))) \<and>
    position (cs_net w) (nat i) = Some (point_to_simulation (nd_pos (node_at (cs_view w) i))) \<and>
    fst (pointer_at lib st' m) - fst (nd_pos (node_at (cs_view w) i)) =
      fst (pointer_at lib st m0) - fst (point_to_canvas s0) +
      (ad_value (cs_h st') / ad_value (cs_zoom st') - ad_value (cs_h st) / ad_value (cs_zoom st)) \<and>
    snd (pointer_at lib st' m) - snd (nd_pos (node_at (cs_view w) i)) =
      snd (pointer_at lib st m0) - snd (point_to_canvas s0) +
      (ad_value (cs_v st') / ad_value (cs_zoom st') - ad_value (cs_v st) / ad_value (cs_zoom st))"
proof -
  let ?st = "begin_node_drag lib i m0 st"
  have "cs_drag ?st = Some (i, from_pixels lib st m0, s0)" using assms(3,5) by (simp add: begin_node_drag_def)
  moreover have "canvas_ok ?st" by (rule canvas_ok_begin_drag [OF assms(2,4)])
  moreover note dragging_keeps [OF assms(6)]
  ultimately have st': "cs_drag st' = Some (i, from_pixels lib st m0, s0)" and ok: "canvas_ok st'" by blast+
  then have i: "i \<in> set (cs_drag_handlers st')" and known: "position (cs_net st') (nat i) \<noteq> None"
    by (simp_all add: canvas_ok_def drag_ok_def)
  then have shown: "i \<in> set (keys (vw_nodes (cs_view st')))" using ok by (auto simp: canvas_ok_def drag_ok_def)
  obtain pos where pos: "pos = (fst s0 + (fst (from_pixels lib st' m) - fst (from_pixels lib st m0)) / 3,
      snd s0 + (snd (from_pixels lib st' m) - snd (from_pixels lib st m0)) / 3)" by blast
  obtain w where w: "w = show_view lib (node_set_position i (point_to_canvas pos) (cs_view st'))
      (st'\<lparr>cs_net := set_mobility_position (nat i) pos (cs_net st')\<rparr>)" by blast
  have "node_drag_motion lib i m st' = (True, w)"
    using known st' by (simp add: node_drag_motion_def Let_def w pos distance_to_simulation_def PIXELS_PER_METER_def)
  moreover have "view_ok (cs_view w)" using ok by (simp add: w canvas_ok_def view_ok_node_set_position)
  moreover have at: "nd_pos (node_at (cs_view w) i) = point_to_canvas pos" using shown by (simp add: w)
  moreover have "position (cs_net w) (nat i) = Some pos" using keys_in_net [OF ok shown] by (simp add: w position_set_mobility)
  moreover have "point_to_simulation (point_to_canvas pos) = pos"
    by (simp add: point_to_simulation_def point_to_canvas_def PIXELS_PER_METER_def)
  moreover have "point_to_canvas pos = (fst (point_to_canvas s0) + (fst (from_pixels lib st' m) - fst (from_pixels lib st m0)),
      snd (point_to_canvas s0) + (snd (from_pixels lib st' m) - snd (from_pixels lib st m0)))"
    by (simp add: point_to_canvas_def PIXELS_PER_METER_def pos field_simps)
  ultimately show ?thesis by (simp add: pointer_at_pixels [OF assms(1) ok] pointer_at_pixels [OF assms(1,2)])
qed

section \<open>The first scaling\<close>

definition fits :: "canvas_state \<Rightarrow> bool" where
  "fits st \<longleftrightarrow> (case vw_bounds (cs_view st) of (x1, y1, x2, y2) \<Rightarrow>
     ad_lower (cs_h st) = 0 \<and> ad_upper (cs_h st) = max (ad_page (cs_h st)) ((x2 - x1) * ad_value (cs_zoom st)) \<and>
     ad_lower (cs_v st) = 0 \<and> ad_upper (cs_v st) = max (ad_page (cs_v st)) ((y2 - y1) * ad_value (cs_zoom st)))"

definition in_window :: "canvas_lib \<Rightarrow> canvas_state \<Rightarrow> point \<Rightarrow> bool" where
  "in_window lib st p \<longleftrightarrow> (let q = to_pixels lib st p in
     ad_value (cs_h st) \<le> fst q \<and> fst q \<le> ad_value (cs_h st) + ad_page (cs_h st) \<and>
     ad_value (cs_v st) \<le> snd q \<and> snd q \<le> ad_value (cs_v st) + ad_page (cs_v st))"

lemma pages_resized [simp]:
  assumes "canvas_laws lib" and "0 < ad_value (cs_zoom st)"
  shows "ad_page (cs_h (resized lib st)) = ad_page (cs_h st)" "ad_page (cs_v (resized lib st)) = ad_page (cs_v st)"
    "fits (resized lib st)"
  using assms by (cases "vw_bounds (cs_view st)"; auto simp: canvas_laws_def resized_def fits_def split: prod.splits)+

lemma resized_simps [simp]:
  "cs_view (resized lib st) = cs_view st" "cs_zoom (resized lib st) = cs_zoom st" "cs_net (resized lib st) = cs_net st"
  by (simp_all add: resized_def case_prod_beta)

lemma adj_set_value_simps [simp]:
  "ad_lower (adj_set_value x a) = ad_lower a" "ad_upper (adj_set_value x a) = ad_upper a" "ad_page (adj_set_value x a) = ad_page a"
  by (simp_all add: adj_set_value_def)

lemma pages_scroll [simp]:
  "ad_page (cs_h (scroll_values p st)) = ad_page (cs_h st)" "ad_page (cs_v (scroll_values p st)) = ad_page (cs_v st)"
  "fits (scroll_values p st) = fits st"
  by (simp_all add: scroll_values_def fits_def)

lemma pages_zoom:
  assumes "canvas_laws lib" and "zoom_ok (cs_zoom st)" and "fits st"
  shows "ad_page (cs_h (zoom_set_value lib x st)) = ad_page (cs_h st)" "ad_page (cs_v (zoom_set_value lib x st)) = ad_page (cs_v st)"
    "fits (zoom_set_value lib x st)" "ad_value (cs_zoom (zoom_set_value lib x st)) = ad_value (adj_set_value x (cs_zoom st))"
proof -
  have "0 < ad_value (adj_set_value x (cs_zoom st))" using zoom_ok_set_value [OF assms(2), of x] by (simp add: zoom_ok_def)
  then show "ad_page (cs_h (zoom_set_value lib x st)) = ad_page (cs_h st)" "ad_page (cs_v (zoom_set_value lib x st)) = ad_page (cs_v st)"
    "fits (zoom_set_value lib x st)" "ad_value (cs_zoom (zoom_set_value lib x st)) = ad_value (adj_set_value x (cs_zoom st))"
    using assms by (simp_all add: zoom_set_value_def Let_def)
qed

lemma pages_update_position:
  assumes "canvas_laws lib" and "0 < ad_value (cs_zoom st)" and "fits st"
  shows "ad_page (cs_h (update_node_position lib i st)) = ad_page (cs_h st) \<and>
    ad_page (cs_v (update_node_position lib i st)) = ad_page (cs_v st) \<and> fits (update_node_position lib i st)"
proof -
  obtain b v where bv: "has_mobility (cs_net st) (nat i) (cs_view st) = (b, v)" by fastforce
  have "fits (st\<lparr>cs_view := v\<rparr>)" using assms(3) has_mobility_simps(3) [OF bv] by (simp add: fits_def)
  moreover have "fits (show_view lib w (st\<lparr>cs_view := v\<rparr>))" if "fits (st\<lparr>cs_view := v\<rparr>)" for w
    using that assms(1,2) by (auto simp: show_view_def fits_def [of "st\<lparr>cs_view := _\<rparr>"])
  moreover have "ad_page (cs_h (show_view lib w (st\<lparr>cs_view := v\<rparr>))) = ad_page (cs_h st)"
    "ad_page (cs_v (show_view lib w (st\<lparr>cs_view := v\<rparr>))) = ad_page (cs_v st)" for w
    using assms(1,2) by (simp_all add: show_view_def)
  ultimately show ?thesis
    by (simp add: update_node_position_def bv Let_def center_on_point_def split: option.split)
qed

lemma pages_update_positions:
  assumes "canvas_laws lib" and "0 < ad_value (cs_zoom st)" and "fits st"
  shows "ad_page (cs_h (update_node_positions lib st)) = ad_page (cs_h st) \<and>
    ad_page (cs_v (update_node_positions lib st)) = ad_page (cs_v st) \<and> fits (update_node_positions lib st)"
proof -
  have "ad_page (cs_h (fold (update_node_position lib) is st)) = ad_page (cs_h st) \<and>
    ad_page (cs_v (fold (update_node_position lib) is st)) = ad_page (cs_v st) \<and> fits (fold (update_node_position lib) is st)" for "is"
    using assms by (induction "is" arbitrary: st) (simp_all add: pages_update_position)
  then show ?thesis by (simp add: update_node_positions_def)
qed

lemma axis_visible:
  \<comment> \<open>one axis, in pixels: of \<open>a \<le> p \<le> b\<close> the middle is put in the middle of the window\<close>
  assumes "0 \<le> a" "a \<le> p" "p \<le> b" "b \<le> u" and "3 / 2 * (b - a) \<le> page"
    and "v = max 0 (min ((a + b) / 2 - page / 2) (max 0 (max page u - page)))"
  shows "v \<le> p \<and> p \<le> v + (page :: rat)"
proof -
  obtain c where c: "c = (a + b) / 2 - page / 2" by blast
  then have "2 * c = a + b - page" by simp
  with assms(1-5) show ?thesis unfolding assms(6) c [symmetric] max_def min_def by (simp split: if_split; linarith)
qed

lemma zoom_set_le: "zoom_ok z \<Longrightarrow> 1 / 100 \<le> x \<Longrightarrow> ad_value (adj_set_value x z) \<le> x"
  by (auto simp: adj_set_value_def zoom_ok_def max_def min_def)

lemma shown_in_bounds:
  assumes "view_ok v" and "vw_get_bounds v" and "(i, n) \<in> set (vw_nodes v)"
  shows "in_bounds (vw_bounds v) (nd_pos n)"
proof -
  have "node_at v i = n" using assms(1,3) by (simp add: node_at_def view_ok_def dict_ok_def)
  moreover have "i \<in> set (keys (vw_nodes v))" using assms(3) by force
  ultimately show ?thesis using assms(1,2) by (auto simp: view_ok_def nodes_ok_def node_ok_def simp del: set_map)
qed

lemma center_between_shows:
  assumes laws: "canvas_laws lib" and fits: "fits s" and b: "vw_bounds (cs_view s) = (x1, y1, x2, y2)" and z: "z = ad_value (cs_zoom s)" "0 < z"
    and edges: "x1 \<le> ax" "bx \<le> x2" "y1 \<le> ay" "by \<le> y2"
    and size: "3 / 2 * (bx - ax) * z \<le> ad_page (cs_h s)" "3 / 2 * (by - ay) * z \<le> ad_page (cs_v s)"
    and mid: "ax \<le> x" "x \<le> bx" "ay \<le> y" "y \<le> by"
  shows "in_window lib (center_between lib (ax, ay) (bx, by) s) (x, y)"
proof -
  let ?w = "center_between lib (ax, ay) (bx, by) s" and ?ph = "ad_page (cs_h s)" and ?pv = "ad_page (cs_v s)"
  have px: "to_pixels lib s p = ((fst p - x1) * z, (snd p - y1) * z)" "from_pixels lib s p = (fst p / z + x1, snd p / z + y1)" for p
    using pixels_of [OF laws b] z by simp_all
  have w: "?w = scroll_values (((ax + bx) / 2 - ?ph / z / 2 - x1) * z, ((ay + by) / 2 - ?pv / z / 2 - y1) * z) s"
    by (simp add: center_between_def Let_def px add_divide_distrib)
  have t: "((a + b) / 2 - q / (z * 2) - c) * z = ((a - c) * z + (b - c) * z) / 2 - q / 2" for a b c q
    using z(2) by (simp add: field_simps)
  have h: "ad_value (cs_h ?w) = max 0 (min (((ax - x1) * z + (bx - x1) * z) / 2 - ?ph / 2) (max 0 (max ?ph ((x2 - x1) * z) - ?ph)))"
    and v: "ad_value (cs_v ?w) = max 0 (min (((ay - y1) * z + (by - y1) * z) / 2 - ?pv / 2) (max 0 (max ?pv ((y2 - y1) * z) - ?pv)))"
    using fits b by (simp_all add: w scroll_values_def adj_set_value_def fits_def t z(1) [symmetric])
  have "ad_value (cs_h ?w) \<le> (x - x1) * z \<and> (x - x1) * z \<le> ad_value (cs_h ?w) + ?ph"
    by (rule axis_visible [OF _ _ _ _ _ h]) (use z edges mid size in \<open>simp_all add: mult_right_mono algebra_simps\<close>)
  moreover have "ad_value (cs_v ?w) \<le> (y - y1) * z \<and> (y - y1) * z \<le> ad_value (cs_v ?w) + ?pv"
    by (rule axis_visible [OF _ _ _ _ _ v]) (use z edges mid size in \<open>simp_all add: mult_right_mono algebra_simps\<close>)
  moreover have "to_pixels lib ?w (x, y) = ((x - x1) * z, (y - y1) * z)"
    using px(1) [of "(x, y)"] unfolding w by (simp add: to_pixels_def)
  ultimately show ?thesis by (simp add: in_window_def Let_def w)
qed

lemma shown_range:
  assumes "view_ok (cs_view w)" and "vw_get_bounds (cs_view w)" and "vw_bounds (cs_view w) = (x1, y1, x2, y2)" and "vw_nodes (cs_view w) \<noteq> []"
  shows "x1 \<le> Min (xs_of w)" "Max (xs_of w) \<le> x2" "y1 \<le> Min (ys_of w)" "Max (ys_of w) \<le> y2"
proof -
  have "x1 \<le> fst (nd_pos n) \<and> fst (nd_pos n) \<le> x2 \<and> y1 \<le> snd (nd_pos n) \<and> snd (nd_pos n) \<le> y2"
    if "(i, n) \<in> set (vw_nodes (cs_view w))" for i n
    using shown_in_bounds [OF assms(1,2) that] assms(3) by (simp add: in_bounds_def)
  then have r: "\<forall>x \<in> xs_of w. x1 \<le> x \<and> x \<le> x2" "\<forall>y \<in> ys_of w. y1 \<le> y \<and> y \<le> y2"
    by (auto simp: xs_of_def ys_of_def)
  have "finite (xs_of w)" "finite (ys_of w)" "xs_of w \<noteq> {}" "ys_of w \<noteq> {}" using assms(4) by (simp_all add: xs_of_def ys_of_def)
  then have "Min (xs_of w) \<in> xs_of w" "Max (xs_of w) \<in> xs_of w" "Min (ys_of w) \<in> ys_of w" "Max (ys_of w) \<in> ys_of w" by simp_all
  with r show "x1 \<le> Min (xs_of w)" "Max (xs_of w) \<le> x2" "y1 \<le> Min (ys_of w)" "Max (ys_of w) \<le> y2" by blast+
qed

lemma spread_shown:
  assumes laws: "canvas_laws lib" and st: "canvas_ok st" "fits st" "ad_value (cs_zoom st) = 1" "vw_get_bounds (cs_view st)"
    and some: "vw_nodes (cs_view st) \<noteq> []" and w: "w = update_node_positions lib st"
    and spread: "Min (xs_of w) < Max (xs_of w)" "Min (ys_of w) < Max (ys_of w)"
    and room: "3 / 200 * (Max (xs_of w) - Min (xs_of w)) \<le> ad_page (cs_h st)"
      "3 / 200 * (Max (ys_of w) - Min (ys_of w)) \<le> ad_page (cs_v st)"
  shows "list_all (in_window lib (autoscale_view lib st)) (map (\<lambda>(_, n). nd_pos n) (vw_nodes (cs_view (autoscale_view lib st))))"
proof -
  obtain x1 y1 x2 y2 where b: "vw_bounds (cs_view w) = (x1, y1, x2, y2)" by (metis prod_cases4)
  let ?ax = "Min (xs_of w)" and ?bx = "Max (xs_of w)" and ?ay = "Min (ys_of w)" and ?by = "Max (ys_of w)"
  let ?ph = "ad_page (cs_h st)" and ?pv = "ad_page (cs_v st)"
  let ?x = "min (?ph / (3 / 2 * (?bx - ?ax))) (?pv / (3 / 2 * (?by - ?ay)))"
  have z: "zoom_ok (cs_zoom w)" "ad_value (cs_zoom w) = 1" and ok: "view_ok (cs_view w)"
    using st(1,3) w by (simp_all add: canvas_ok_def view_ok_update_positions)
  have some_w: "vw_nodes (cs_view w) \<noteq> []" using some w keys_update_positions [of lib st] by (metis map_is_Nil_conv)
  have pages: "ad_page (cs_h w) = ?ph" "ad_page (cs_v w) = ?pv" "fits w"
    using pages_update_positions [of lib st] laws st w by simp_all
  obtain s where s: "s = zoom_set_value lib ?x w" by blast
  note zoomed = pages_zoom [OF laws z(1) pages(3), of ?x, folded s]
  have zpos: "0 < ad_value (cs_zoom s)" using zoom_ok_set_value [OF z(1), of ?x] zoomed(4) by (simp add: zoom_ok_def)
  have "1 / 100 \<le> ?x" using spread room by (simp add: field_simps)
  then have "ad_value (cs_zoom s) \<le> ?x" unfolding zoomed(4) by (rule zoom_set_le [OF z(1)])
  then have size: "3 / 2 * (?bx - ?ax) * ad_value (cs_zoom s) \<le> ad_page (cs_h s)"
      "3 / 2 * (?by - ?ay) * ad_value (cs_zoom s) \<le> ad_page (cs_v s)"
    using spread zoomed(1,2) pages(1,2) by (simp_all add: field_simps)
  have auto: "autoscale_view lib st = center_between lib (?ax, ?ay) (?bx, ?by) s"
    using some w spread pages(1,2) z(2) pixels_of(1) [OF laws b] by (simp add: autoscale_view_def fit_nodes_def Let_def s)
  have "in_window lib (autoscale_view lib st) (nd_pos n)" if n: "(i, n) \<in> set (vw_nodes (cs_view w))" for i n
  proof -
    obtain x y where p: "nd_pos n = (x, y)" by fastforce
    have "x \<in> xs_of w" "y \<in> ys_of w" using n p by (force simp: xs_of_def ys_of_def)+
    then have "?ax \<le> x" "x \<le> ?bx" "?ay \<le> y" "y \<le> ?by" by (simp_all add: xs_of_def ys_of_def)
    with center_between_shows [OF laws zoomed(3) _ refl zpos shown_range [OF ok _ b some_w] size] b st(4) w
    show ?thesis unfolding auto p s by simp
  qed
  moreover have "cs_view (autoscale_view lib st) = cs_view w" using some w by simp
  ultimately show ?thesis by (auto simp: list_all_iff)
qed

lemma fit_nodes_flat:
  assumes "canvas_laws lib" and "0 < ad_value (cs_zoom w)" and "Min (xs_of w) = Max (xs_of w) \<or> Min (ys_of w) = Max (ys_of w)"
  shows "fit_nodes lib w = w"
proof -
  obtain x1 y1 x2 y2 where b: "vw_bounds (cs_view w) = (x1, y1, x2, y2)" by (metis prod_cases4)
  show ?thesis using assms(3) by (auto simp: fit_nodes_def Let_def pixels_of(1) [OF assms(1) b assms(2)])
qed


section \<open>Examples\<close>

definition scrolled :: "rat \<Rightarrow> adjustment \<Rightarrow> adjustment" where
  "scrolled extent a = adj_set_value (ad_value a) (a\<lparr>ad_lower := 0, ad_upper := max (ad_page a) extent\<rparr>)"

definition goo_canvas :: canvas_lib where
  \<comment> \<open>a canvas with the documented behaviour\<close>
  "goo_canvas = \<lparr>cl_to_pixels = (\<lambda>(x1, y1, _, _) z p. ((fst p - x1) * z, (snd p - y1) * z)),
     cl_from_pixels = (\<lambda>(x1, y1, _, _) z p. (fst p / z + x1, snd p / z + y1)),
     cl_resize = (\<lambda>(x1, y1, x2, y2) z (h, v). (scrolled ((x2 - x1) * z) h, scrolled ((y2 - y1) * z) v))\<rparr>"

lemma goo_canvas_laws: "canvas_laws goo_canvas"
  by (simp add: canvas_laws_def goo_canvas_def scrolled_def)

definition two_nodes :: "point \<Rightarrow> network" where
  "two_nodes p = \<lparr>nw_nodes = [\<lparr>nn_position = Some (0, 0), nn_devices = []\<rparr>, \<lparr>nn_position = Some p, nn_devices = []\<rparr>], nw_channels = []\<rparr>"

definition two_shown :: "point \<Rightarrow> rat \<Rightarrow> canvas_state" where
  \<comment> \<open>two nodes in a window of 600 by 450 pixels\<close>
  "two_shown p z =
     resized goo_canvas ((new_canvas (two_nodes p) (get_node 1 (get_node 0 (new_viz_view True 2)))
       \<lparr>ad_value = 0, ad_lower = 0, ad_upper = 0, ad_page = 600\<rparr> \<lparr>ad_value = 0, ad_lower = 0, ad_upper = 0, ad_page = 450\<rparr>)
       \<lparr>cs_zoom := zoom_adjustment\<lparr>ad_value := z\<rparr>\<rparr>)"

lemma two_shown_ok: "zoom_ok (zoom_adjustment\<lparr>ad_value := z\<rparr>) \<Longrightarrow> canvas_ok (two_shown p z) \<and> fits (two_shown p z)"
proof -
  assume z: "zoom_ok (zoom_adjustment\<lparr>ad_value := z\<rparr>)"
  have "view_ok (get_node 1 (get_node 0 (new_viz_view True 2)))" by (intro view_ok_get_node view_ok_new)
  moreover have "keys (vw_nodes (get_node 1 (get_node 0 (new_viz_view True 2)))) = [0, 1]"
    by (simp add: get_node_def new_viz_view_def)
  moreover have "{0, 1} \<subseteq> int ` {..<2}" by force
  ultimately have "canvas_ok (two_shown p z)"
    using z by (simp add: two_shown_def canvas_ok_def drag_ok_def new_canvas_def resized_def case_prod_beta two_nodes_def)
  moreover have "0 < z" using z by (simp add: zoom_ok_def)
  then have "fits (two_shown p z)" by (simp add: two_shown_def goo_canvas_laws)
  ultimately show ?thesis ..
qed

lemma two_shown_start: "canvas_ok (two_shown p 1)" "fits (two_shown p 1)"
  using two_shown_ok [of 1 p] by (simp_all add: zoom_ok_def zoom_adjustment_def)


text \<open>The scaling counts the extent of the nodes in pixels at the present zoom but sets the zoom as if it
  were 1: after somebody has zoomed out to a quarter, it leaves a node outside the window.\<close>

theorem autoscale_after_zoom:
  "map (in_window goo_canvas (autoscale_view goo_canvas (two_shown (100, 50) (1 / 4)))) [(0, 0), (300, 150)] = [False, False] \<and>
   map (\<lambda>(_, n). nd_pos n) (vw_nodes (cs_view (autoscale_view goo_canvas (two_shown (100, 50) (1 / 4))))) = [(0, 0), (300, 150)]"
  by code_simp

text \<open>The window is centred on the other node while the pointer rests at one of its points: the dragged
  node does not move, so the pointer, which was at the node, now points at another place.\<close>

definition press_in_middle :: canvas_state where
  \<comment> \<open>the window shows (300, 150) in its middle\<close>
  "press_in_middle = scroll_values (10300 - 300, 10150 - 225) (update_node_positions goo_canvas (two_shown (100, 50) 1))"

lemma drag_follows_pointer_witness:
  "case center_on_node goo_canvas 0 (begin_node_drag goo_canvas 1 (300, 225) press_in_middle) of
     Inl _ \<Rightarrow> False
   | Inr st' \<Rightarrow> \<exists>w. node_drag_motion goo_canvas 1 (300, 225) st' = (True, w) \<and> nd_pos (node_at (cs_view w) 1) = (300, 150) \<and>
       pointer_at goo_canvas press_in_middle (300, 225) = (300, 150) \<and> pointer_at goo_canvas st' (300, 225) = (0, 0)"
proof -
  let ?st = "begin_node_drag goo_canvas 1 (300, 225) press_in_middle"
  let ?c = "center_on_point goo_canvas (0, 0) ?st"
  have c: "center_on_node goo_canvas 0 ?st = Inr ?c" by code_simp
  have "cs_drag ?c \<noteq> None" by code_simp
  then have run: "(dragging goo_canvas)\<^sup>*\<^sup>* ?st ?c" using canvas_step.center [OF c] by (simp add: dragging_def r_into_rtranclp)
  have "canvas_ok press_in_middle"
    using canvas_ok_step [OF canvas_step.follow two_shown_start(1)] by (simp add: press_in_middle_def)
  moreover have "cs_drag press_in_middle = None" "1 \<in> set (keys (vw_nodes (cs_view press_in_middle)))"
    "position (cs_net press_in_middle) (nat 1) = Some (100, 50)" by code_simp+
  ultimately obtain w where w: "node_drag_motion goo_canvas 1 (300, 225) ?c = (True, w)" "nd_pos (node_at (cs_view w) 1) =
      (fst (point_to_canvas (100, 50)) + (fst (from_pixels goo_canvas ?c (300, 225)) - fst (from_pixels goo_canvas press_in_middle (300, 225))),
       snd (point_to_canvas (100, 50)) + (snd (from_pixels goo_canvas ?c (300, 225)) - snd (from_pixels goo_canvas press_in_middle (300, 225))))"
    using drag_follows_pointer [OF goo_canvas_laws _ _ _ _ run, of "(100, 50)" "(300, 225)"] by blast
  have "from_pixels goo_canvas ?c (300, 225) = from_pixels goo_canvas press_in_middle (300, 225)"
    "pointer_at goo_canvas press_in_middle (300, 225) = (300, 150)" "pointer_at goo_canvas ?c (300, 225) = (0, 0)" by code_simp+
  with w c show ?thesis by (simp add: point_to_canvas_def PIXELS_PER_METER_def)
qed

end
