(* ===== verification/Viz_Traffic.thy ===== *)
theory Viz_Traffic
  imports Viz_Canvas
begin

text \<open>
  The traffic that \<open>src/visualizer/visualizer/core.py\<close> shows: the window of the last samples, the
  arrows between nodes with their rates, and the arrows of dropped packets. Arrows are recycled; each
  has a number here, so that it can be followed. \<open>PyViz.LineClipping\<close> is a parameter. Widths and angles
  are real numbers; a rate is the number before it is formatted.
\<close>

section \<open>Samples and arrows\<close>

record sample =
  sp_from :: int
  sp_to :: int
  sp_channel :: int
  sp_bytes :: int

record packet_drop =
  pd_node :: int
  pd_bytes :: int

datatype label_arrow = RightArrow | LeftArrow | NoArrow

record rate_label =
  lb_rate :: rat
  lb_arrow :: label_arrow
  lb_font :: int
  lb_center :: point
  lb_angle :: real
  lb_offset :: real     \<comment> \<open>across the line\<close>

record arrow =
  aw_id :: nat
  aw_visible :: bool
  aw_width :: real
  aw_points :: "point \<times> point"
  aw_label :: rate_label

record traffic =
  tf_canvas :: canvas_state
  tf_last_transmissions :: "sample list list"
  tf_last_drops :: "packet_drop list list"
  tf_smoothing :: rat
  tf_node_size :: rat
  tf_period :: rat
  tf_arrows :: "arrow list"
  tf_drop_arrows :: "arrow list"
  tf_created :: nat

section \<open>The window of samples\<close>

fun pop_oldest :: "int \<Rightarrow> 'a list \<Rightarrow> 'a list" where
  "pop_oldest n [] = []"
| "pop_oldest n (x # xs) = (if int (length (x # xs)) > n then pop_oldest n xs else x # xs)"

definition periodic_update :: "sample list \<Rightarrow> packet_drop list \<Rightarrow> traffic \<Rightarrow> traffic" where
  "periodic_update transmissions drops tf =
     (let smooth_factor = py_trunc (tf_smoothing tf * 10)
      in tf\<lparr>tf_last_transmissions := pop_oldest smooth_factor (tf_last_transmissions tf @ [transmissions]),
            tf_last_drops := pop_oldest smooth_factor (tf_last_drops tf @ [drops])\<rparr>)"

definition average :: "('a \<Rightarrow> 'k) \<Rightarrow> ('a \<Rightarrow> int) \<Rightarrow> 'a list list \<Rightarrow> ('k \<times> int \<times> nat) list" where
  "average key bytes sets = fold (fold (\<lambda>x d.
     case (case map_of d (key x) of None \<Rightarrow> (0, 0) | Some bc \<Rightarrow> bc) of
       (b, c) \<Rightarrow> AList.update (key x) (b + bytes x, c + 1) d)) sets []"

section \<open>Transmissions\<close>

definition hide :: "arrow \<Rightarrow> arrow" where
  "hide a = a\<lparr>aw_visible := False\<rparr>"

definition new_arrow :: "nat \<Rightarrow> arrow" where
  "new_arrow n = \<lparr>aw_id = n, aw_visible = True, aw_width = 2, aw_points = ((0, 0), (0, 0)),
     aw_label = \<lparr>lb_rate = 0, lb_arrow = NoArrow, lb_font = 0, lb_center = (0, 0), lb_angle = 0, lb_offset = 0\<rparr>\<rparr>"

definition take_arrow :: "arrow list \<Rightarrow> nat \<Rightarrow> arrow \<times> arrow list \<times> nat" where
  "take_arrow old n = (if old = [] then (new_arrow n, [], n + 1) else (last old, butlast old, n))"

definition line_width :: "int \<Rightarrow> nat \<Rightarrow> rat \<Rightarrow> rat \<Rightarrow> real pyres" where
  "line_width bytes samples period k =
     (if samples = 0 \<or> period = 0 then Inl ZeroDivisionError
      else
        let x = of_int bytes / of_nat samples / period
        in if x \<le> 0 then Inl ValueError else Inr (max (1 / 10) (ln (of_rat x) * of_rat k)))"

definition rate :: "int \<Rightarrow> nat \<Rightarrow> rat \<Rightarrow> rat" where
  "rate bytes samples period = of_int (bytes * 8) / 1000 / of_nat samples / period"

definition BITRATE_FONT_SIZE :: rat where
  "BITRATE_FONT_SIZE = 10"

definition atan2 :: "real \<Rightarrow> real \<Rightarrow> real" where
  "atan2 y x = Arg (Complex x y)"

definition label_side :: "real \<Rightarrow> real \<Rightarrow> label_arrow \<times> real \<times> real" where
  \<comment> \<open>text that would stand on its head is turned round\<close>
  "label_side angle width =
     (if - (pi / 2) \<le> angle \<and> angle \<le> pi / 2 then (RightArrow, - width / 2, angle)
      else (LeftArrow, width / 2, if angle < - (pi / 2) then angle + pi else angle - pi))"

definition label_over_line :: "canvas_lib \<Rightarrow> (point \<Rightarrow> point \<Rightarrow> point \<times> point \<Rightarrow> point \<times> point) \<Rightarrow> canvas_state \<Rightarrow>
    point \<Rightarrow> point \<Rightarrow> point" where
  "label_over_line lib clip st p q =
     (let b1 = from_pixels lib st (ad_value (cs_h st), ad_value (cs_v st));
          b2 = from_pixels lib st (ad_value (cs_h st) + ad_page (cs_h st), ad_value (cs_v st) + ad_page (cs_v st))
      in case clip b1 b2 (p, q) of (p, q) \<Rightarrow> ((fst p + fst q) / 2, (snd p + snd q) / 2))"

type_synonym arrow_state = "canvas_state \<times> arrow list \<times> arrow list \<times> nat"

definition draw_transmission :: "canvas_lib \<Rightarrow> (point \<Rightarrow> point \<Rightarrow> point \<times> point \<Rightarrow> point \<times> point) \<Rightarrow> rat \<Rightarrow> rat \<Rightarrow>
    (int \<times> int) \<times> int \<times> nat \<Rightarrow> arrow_state \<Rightarrow> arrow_state pyres" where
  "draw_transmission lib clip k period item s =
     (case item of ((transmitter, receiver), (bytes, samples)) \<Rightarrow> case s of (st, old, new, n) \<Rightarrow>
        let st = st\<lparr>cs_view := get_node receiver (get_node transmitter (cs_view st))\<rparr>
        in case take_arrow old n of (arrow, old, n) \<Rightarrow>
             rbind (line_width bytes samples period k) (\<lambda>width.
             let p = nd_pos (node_at (cs_view st) transmitter); q = nd_pos (node_at (cs_view st) receiver);
                 (shape, offset, angle) = label_side (atan2 (of_rat (snd q - snd p)) (of_rat (fst q - fst p))) width;
                 label = \<lparr>lb_rate = rate bytes samples period, lb_arrow = shape, lb_font = py_trunc (1 + BITRATE_FONT_SIZE * k),
                   lb_center = label_over_line lib clip st p q, lb_angle = angle, lb_offset = offset\<rparr>
             in Inr (st, old, new @ [arrow\<lparr>aw_visible := True, aw_width := width, aw_points := (p, q), aw_label := label\<rparr>], n)))"

definition update_transmissions_view :: "canvas_lib \<Rightarrow> (point \<Rightarrow> point \<Rightarrow> point \<times> point \<Rightarrow> point \<times> point) \<Rightarrow> traffic \<Rightarrow>
    traffic pyres" where
  "update_transmissions_view lib clip tf =
     rbind (rfold (draw_transmission lib clip (tf_node_size tf / 5) (tf_period tf))
              (average (\<lambda>x. (sp_from x, sp_to x)) sp_bytes (tf_last_transmissions tf))
              (tf_canvas tf, map hide (tf_arrows tf), [], tf_created tf)) (\<lambda>(st, old, new, n).
     Inr (tf\<lparr>tf_canvas := st, tf_arrows := new @ old, tf_created := n\<rparr>))"

section \<open>Dropped packets\<close>

definition edge_y :: "canvas_lib \<Rightarrow> canvas_state \<Rightarrow> rat" where
  "edge_y lib st = snd (from_pixels lib st (0, ad_value (cs_v st) + ad_page (cs_v st)))"

definition draw_drop :: "rat \<Rightarrow> rat \<Rightarrow> rat \<Rightarrow> int \<times> int \<times> nat \<Rightarrow> arrow_state \<Rightarrow> arrow_state pyres" where
  "draw_drop bottom k period item s =
     (case item of (transmitter, (bytes, samples)) \<Rightarrow> case s of (st, old, new, n) \<Rightarrow>
        let st = st\<lparr>cs_view := get_node transmitter (cs_view st)\<rparr>
        in case take_arrow old n of (arrow, old, n) \<Rightarrow>
             rbind (line_width bytes samples period k) (\<lambda>width.
             let p = nd_pos (node_at (cs_view st) transmitter); q = (fst p, bottom);
                 label = \<lparr>lb_rate = rate bytes samples period, lb_arrow = NoArrow, lb_font = py_trunc (1 + BITRATE_FONT_SIZE * k),
                   lb_center = ((fst p + fst q) / 2, (snd p + snd q) / 2), lb_angle = 0, lb_offset = 0\<rparr>
             in Inr (st, old, new @ [arrow\<lparr>aw_visible := True, aw_width := width, aw_points := (p, q), aw_label := label\<rparr>], n)))"

definition update_drops_view :: "canvas_lib \<Rightarrow> traffic \<Rightarrow> traffic pyres" where
  "update_drops_view lib tf =
     rbind (rfold (draw_drop (edge_y lib (tf_canvas tf)) (tf_node_size tf / 5) (tf_period tf))
              (average pd_node pd_bytes (tf_last_drops tf))
              (tf_canvas tf, map hide (tf_drop_arrows tf), [], tf_created tf)) (\<lambda>(st, old, new, n).
     Inr (tf\<lparr>tf_canvas := st, tf_drop_arrows := new @ old, tf_created := n\<rparr>))"

section \<open>The averages\<close>

definition occurring :: "('a \<Rightarrow> 'k) \<Rightarrow> 'a list \<Rightarrow> 'k list" where
  \<comment> \<open>the keys, each where it occurs first\<close>
  "occurring key xs = rev (remdups (rev (map key xs)))"

definition with_key :: "('a \<Rightarrow> 'k) \<Rightarrow> 'k \<Rightarrow> 'a list \<Rightarrow> 'a list" where
  "with_key key k xs = filter (\<lambda>x. key x = k) xs"

definition totals :: "('a \<Rightarrow> 'k) \<Rightarrow> ('a \<Rightarrow> int) \<Rightarrow> 'a list \<Rightarrow> ('k \<times> int \<times> nat) list" where
  "totals key bytes xs = map (\<lambda>k. (k, sum_list (map bytes (with_key key k xs)), length (with_key key k xs))) (occurring key xs)"

lemma update_map_pair:
  "distinct ks \<Longrightarrow> k \<in> set ks \<Longrightarrow> AList.update k v (map (\<lambda>j. (j, f j)) ks) = map (\<lambda>j. (j, (f(k := v)) j)) ks"
proof (induction ks)
  case (Cons j ks)
  then show ?case by (cases "j = k") (auto intro: map_cong)
qed simp

lemma update_map_new: "k \<notin> set ks \<Longrightarrow> AList.update k v (map (\<lambda>k. (k, f k)) ks) = map (\<lambda>k. (k, f k)) ks @ [(k, v)]"
  by (induction ks) auto

lemma occurring_append: "occurring key (xs @ [x]) = (if key x \<in> key ` set xs then occurring key xs else occurring key xs @ [key x])"
  by (simp add: occurring_def)

lemma occurring_set [simp]: "set (occurring key xs) = key ` set xs" "distinct (occurring key xs)"
  by (simp_all add: occurring_def)

lemma totals_append:
  "totals key bytes (xs @ [x]) = (case (case map_of (totals key bytes xs) (key x) of None \<Rightarrow> (0, 0) | Some bc \<Rightarrow> bc) of
     (b, c) \<Rightarrow> AList.update (key x) (b + bytes x, c + 1) (totals key bytes xs))"
proof -
  let ?f = "\<lambda>k. (sum_list (map bytes (with_key key k xs)), length (with_key key k xs))"
  let ?g = "\<lambda>k. (sum_list (map bytes (with_key key k (xs @ [x]))), length (with_key key k (xs @ [x])))"
  have g: "?g = ?f(key x := (fst (?f (key x)) + bytes x, snd (?f (key x)) + 1))" by (auto simp: with_key_def fun_eq_iff)
  have t: "totals key bytes xs = map (\<lambda>k. (k, ?f k)) (occurring key xs)"
    "totals key bytes (xs @ [x]) = map (\<lambda>k. (k, ?g k)) (occurring key (xs @ [x]))"
    by (simp_all add: totals_def)
  have look: "map_of (map (\<lambda>k. (k, ?f k)) ks) k = (if k \<in> set ks then Some (?f k) else None)" for ks k
    by (induction ks) auto
  show ?thesis
  proof (cases "key x \<in> key ` set xs")
    case True
    then show ?thesis unfolding t by (simp add: look update_map_pair [where f = ?f] occurring_append) (simp add: with_key_def)
  next
    case False
    then have "\<forall>y \<in> set xs. key y \<noteq> key x" by (metis image_eqI)
    then have "with_key key (key x) xs = []" by (simp add: with_key_def filter_empty_conv)
    moreover have "k \<noteq> key x" if "k \<in> set (occurring key xs)" for k using False that by (metis occurring_set(1))
    then have "map (\<lambda>k. (k, ?g k)) (occurring key xs) = map (\<lambda>k. (k, ?f k)) (occurring key xs)"
      by (intro map_cong) (auto simp: with_key_def)
    ultimately show ?thesis
      using False unfolding t by (simp add: look update_map_new occurring_append) (simp add: with_key_def)
  qed
qed

lemma average_totals: "average key bytes sets = totals key bytes (concat sets)"
proof -
  let ?add = "\<lambda>x d. case (case map_of d (key x) of None \<Rightarrow> (0, 0) | Some bc \<Rightarrow> bc) of
    (b, c) \<Rightarrow> AList.update (key x) (b + bytes x, c + 1) d"
  have flat: "fold (fold ?add) sets d = fold ?add (concat sets) d" for d by (induction sets arbitrary: d) simp_all
  have "fold ?add xs [] = totals key bytes xs" for xs
  proof (induction xs rule: rev_induct)
    case (snoc x xs)
    then show ?case by (simp add: totals_append)
  qed (simp add: totals_def occurring_def)
  then show ?thesis unfolding average_def flat .
qed

section \<open>Recycling arrows\<close>

locale arrow_loop =
  \<comment> \<open>each item takes the last old arrow, or a new one, and shows it\<close>
  fixes draw :: "'i \<Rightarrow> arrow_state \<Rightarrow> arrow_state pyres"
    and ready :: "canvas_state \<Rightarrow> bool" and good :: "'i \<Rightarrow> bool" and drawn :: "'i \<Rightarrow> arrow \<Rightarrow> bool"
  assumes draw: "ready st \<Longrightarrow> good x \<Longrightarrow> \<exists>st' a. draw x (st, old, new, n) =
      Inr (st', butlast old, new @ [a], if old = [] then n + 1 else n) \<and> ready st' \<and> drawn x a \<and> aw_visible a \<and>
      aw_id a = (if old = [] then n else aw_id (last old))"
begin

lemma draw_all:
  assumes "ready st" and "list_all good xs"
  shows "\<exists>st' as. rfold draw xs (st, old, new, n) =
      Inr (st', take (length old - length xs) old, new @ as, n + (length xs - length old)) \<and> ready st' \<and>
    list_all2 drawn xs as \<and> list_all aw_visible as \<and>
    map aw_id as = take (length xs) (rev (map aw_id old)) @ [n..<n + (length xs - length old)]"
  using assms
proof (induction xs arbitrary: st old new n)
  case (Cons x xs)
  have good: "list_all good xs" using Cons.prems(2) by simp
  obtain st1 a where 1: "draw x (st, old, new, n) = Inr (st1, butlast old, new @ [a], if old = [] then n + 1 else n)" "ready st1"
    "drawn x a" "aw_visible a" "aw_id a = (if old = [] then n else aw_id (last old))"
    using draw [of st x old new n] Cons.prems by auto
  obtain st2 as where 2: "rfold draw xs (st1, butlast old, new @ [a], if old = [] then n + 1 else n) =
      Inr (st2, take (length (butlast old) - length xs) (butlast old), (new @ [a]) @ as,
        (if old = [] then n + 1 else n) + (length xs - length (butlast old)))" "ready st2"
    "list_all2 drawn xs as" "list_all aw_visible as" "map aw_id as = take (length xs) (rev (map aw_id (butlast old))) @
      [(if old = [] then n + 1 else n)..<(if old = [] then n + 1 else n) + (length xs - length (butlast old))]"
    using Cons.IH [OF 1(2) good, of "butlast old" "new @ [a]" "if old = [] then n + 1 else n"] by blast
  show ?case
  proof (cases old rule: rev_cases)
    case Nil
    with 1 2 show ?thesis by (intro exI [of _ st2] exI [of _ "a # as"]) (simp add: upt_rec [of n] del: upt_Suc)
  next
    case (snoc olds o')
    with 1 2 show ?thesis by (intro exI [of _ st2] exI [of _ "a # as"]) (auto simp: Suc_diff_le take_Cons' not_le)
  qed
qed simp

lemma pool:
  \<comment> \<open>exactly the arrows of the items are visible, no arrow is there twice, none is lost and none made in vain\<close>
  assumes "ready st" and "list_all good xs" and "list_all (\<lambda>a. \<not> aw_visible a) old" and "distinct (map aw_id old)"
    and "list_all (\<lambda>a. aw_id a < n) old"
  shows "\<exists>st' old' new n'. rfold draw xs (st, old, [], n) = Inr (st', old', new, n') \<and>
    list_all2 drawn xs (filter aw_visible (new @ old')) \<and> distinct (map aw_id (new @ old')) \<and>
    n' = n + (length xs - length old) \<and> set (map aw_id (new @ old')) = set (map aw_id old) \<union> {n..<n'} \<and>
    list_all (\<lambda>a. aw_id a < n') (new @ old')"
proof -
  obtain st' as where all: "rfold draw xs (st, old, [], n) =
      Inr (st', take (length old - length xs) old, [] @ as, n + (length xs - length old))"
    "list_all2 drawn xs as" "list_all aw_visible as"
    "map aw_id as = take (length xs) (rev (map aw_id old)) @ [n..<n + (length xs - length old)]"
    using draw_all [OF assms(1,2), of old "[]" n] by blast
  let ?old = "take (length old - length xs) old"
  have f: "filter aw_visible as = as" "filter aw_visible ?old = []"
    using all(3) assms(3) set_take_subset [of "length old - length xs" old] by (auto simp: list_all_iff filter_empty_conv)
  have ids: "map aw_id as = rev (drop (length old - length xs) (map aw_id old)) @ [n..<n + (length xs - length old)]"
    using all(4) by (simp add: take_rev)
  have apart: "distinct (drop (length old - length xs) (map aw_id old) @ take (length old - length xs) (map aw_id old))"
    using assms(4) by (metis append_take_drop_id distinct_append inf_commute)
  have below: "aw_id a < n" if "a \<in> set old" for a using assms(5) that by (simp add: list_all_iff)
  have "distinct (map aw_id (as @ ?old))"
    using apart below set_take_subset [of "length old - length xs" old] set_drop_subset [of "length old - length xs" old]
    unfolding map_append ids by (fastforce simp: take_map drop_map)
  moreover have "k < n + (length xs - length old)" if "k \<in> aw_id ` set (as @ ?old)" for k
  proof -
    have "k \<in> set (map aw_id as) \<or> k \<in> set (map aw_id ?old)" using that by auto
    then show ?thesis
      using below set_take_subset [of "length old - length xs" old] set_drop_subset [of "length old - length xs" old]
      unfolding ids by (fastforce simp: take_map drop_map)
  qed
  then have "list_all (\<lambda>a. aw_id a < n + (length xs - length old)) (as @ ?old)" unfolding list_all_iff by blast
  moreover have "set (map aw_id (as @ ?old)) = set (map aw_id old) \<union> {n..<n + (length xs - length old)}"
  proof -
    have "set (map aw_id old) = set (take (length old - length xs) (map aw_id old)) \<union> set (drop (length old - length xs) (map aw_id old))"
      by (metis append_take_drop_id set_append)
    then show ?thesis unfolding map_append ids by (auto simp: take_map)
  qed
  ultimately show ?thesis using all(1,2) f by (intro exI conjI) (assumption | simp)+
qed

end

definition placed_nodes :: "(int \<Rightarrow> point) \<Rightarrow> canvas_state \<Rightarrow> bool" where
  "placed_nodes pos st \<longleftrightarrow> (\<forall>i. nd_pos (node_at (cs_view st) i) = pos i)"

definition has_traffic :: "rat \<Rightarrow> 'k \<times> int \<times> nat \<Rightarrow> bool" where
  "has_traffic period item \<longleftrightarrow> (case item of (_, bytes, samples) \<Rightarrow> 0 < bytes \<and> 0 < samples \<and> 0 < period)"

definition shows_rate :: "('k \<Rightarrow> point \<times> point) \<Rightarrow> rat \<Rightarrow> 'k \<times> int \<times> nat \<Rightarrow> arrow \<Rightarrow> bool" where
  "shows_rate pts period item a \<longleftrightarrow> (case item of (k, bytes, samples) \<Rightarrow>
     aw_points a = pts k \<and> lb_rate (aw_label a) = rate bytes samples period)"

lemma line_width_defined: "has_traffic period (x, bytes, samples) \<Longrightarrow> \<exists>w. line_width bytes samples period k = Inr w"
  by (simp add: line_width_def has_traffic_def Let_def not_le)

lemma take_arrow_eq: "take_arrow old n = (if old = [] then new_arrow n else last old, butlast old, if old = [] then n + 1 else n)"
  by (simp add: take_arrow_def)

interpretation transmission_arrows: arrow_loop "draw_transmission lib clip k period" "placed_nodes pos" "has_traffic period"
  "shows_rate (\<lambda>(i, j). (pos i, pos j)) period" for lib clip k period pos
proof (unfold_locales, goal_cases)
  case (1 st x old new n)
  obtain i j bytes samples where x: "x = ((i, j), (bytes, samples))" by (metis prod.collapse)
  obtain w where "line_width bytes samples period k = Inr w" using line_width_defined [OF 1(2) [unfolded x]] by blast
  with 1(1) show ?case
    by (auto simp: x draw_transmission_def take_arrow_eq Let_def placed_nodes_def shows_rate_def new_arrow_def case_prod_beta)
qed

interpretation drop_arrows: arrow_loop "draw_drop bottom k period" "placed_nodes pos" "has_traffic period"
  "shows_rate (\<lambda>i. (pos i, (fst (pos i), bottom))) period" for bottom k period pos
proof (unfold_locales, goal_cases)
  case (1 st x old new n)
  obtain i bytes samples where x: "x = (i, (bytes, samples))" by (metis prod.collapse)
  obtain w where "line_width bytes samples period k = Inr w" using line_width_defined [OF 1(2) [unfolded x]] by blast
  with 1(1) show ?case
    by (auto simp: x draw_drop_def take_arrow_eq Let_def placed_nodes_def shows_rate_def new_arrow_def case_prod_beta)
qed

section \<open>Properties\<close>

definition position_of :: "traffic \<Rightarrow> int \<Rightarrow> point" where
  "position_of tf i = nd_pos (node_at (cs_view (tf_canvas tf)) i)"

definition pool_ok :: "nat \<Rightarrow> arrow list \<Rightarrow> bool" where
  "pool_ok n as \<longleftrightarrow> distinct (map aw_id as) \<and> list_all (\<lambda>a. aw_id a < n) as"

lemma totals_traffic:
  assumes "0 < period" and "list_all (\<lambda>x. 0 < bytes x) xs"
  shows "list_all (has_traffic period) (totals key bytes xs)"
proof -
  have "0 < sum_list (map bytes (with_key key k xs)) \<and> with_key key k xs \<noteq> []" if "k \<in> key ` set xs" for k
  proof -
    have "with_key key k xs \<noteq> []" using that by (auto simp: with_key_def filter_empty_conv)
    moreover have "\<forall>x \<in> set (with_key key k xs). 0 < bytes x" using assms(2) by (auto simp: with_key_def list_all_iff)
    moreover have "ys \<noteq> [] \<Longrightarrow> \<forall>x \<in> set ys. 0 < bytes x \<Longrightarrow> 0 < sum_list (map bytes ys)" for ys
      by (induction ys) (auto intro: add_pos_pos, metis add.right_neutral add_pos_pos list.simps(8) sum_list.Nil)
    ultimately show ?thesis by blast
  qed
  with assms(1) show ?thesis by (auto simp: list_all_iff totals_def has_traffic_def)
qed

lemma shows_rate_map:
  "list_all2 (shows_rate pts period) items as \<Longrightarrow>
    map (\<lambda>a. (aw_points a, lb_rate (aw_label a))) as = map (\<lambda>(k, bytes, samples). (pts k, rate bytes samples period)) items"
  by (induction rule: list_all2_induct) (auto simp: shows_rate_def)

lemma hidden_pool: "pool_ok n as \<Longrightarrow> pool_ok n (map hide as) \<and> list_all (\<lambda>a. \<not> aw_visible a) (map hide as)"
  by (simp add: pool_ok_def list_all_iff hide_def comp_def)

text \<open>C27: When the window of samples has traffic, the view shows exactly one arrow for each pair of
  nodes in it, in the order in which the pairs first occur, from the sender to the receiver, and its
  label gives the bits of all its samples divided by their number and the sampling period. Arrows are
  recycled: those of before are all there afterwards, none twice, and new ones, which get the next
  numbers, are made for just so many pairs as there are more of than arrows.\<close>

theorem transmissions_shown:
  assumes "0 < tf_period tf" and "list_all (\<lambda>x. 0 < sp_bytes x) (concat (tf_last_transmissions tf))"
    and "pool_ok (tf_created tf) (tf_arrows tf)"
  shows "\<exists>w. update_transmissions_view lib clip tf = Inr w \<and>
    map (\<lambda>a. (aw_points a, lb_rate (aw_label a))) (filter aw_visible (tf_arrows w)) =
      map (\<lambda>(i, j). let xs = filter (\<lambda>x. sp_from x = i \<and> sp_to x = j) (concat (tf_last_transmissions tf)) in
        ((position_of tf i, position_of tf j), of_int (8 * sum_list (map sp_bytes xs)) / 1000 / of_nat (length xs) / tf_period tf))
        (occurring (\<lambda>x. (sp_from x, sp_to x)) (concat (tf_last_transmissions tf))) \<and>
    pool_ok (tf_created w) (tf_arrows w) \<and>
    set (map aw_id (tf_arrows w)) = set (map aw_id (tf_arrows tf)) \<union> {tf_created tf..<tf_created w} \<and>
    tf_created w = tf_created tf +
      (length (occurring (\<lambda>x. (sp_from x, sp_to x)) (concat (tf_last_transmissions tf))) - length (tf_arrows tf))"
proof -
  let ?xs = "concat (tf_last_transmissions tf)" and ?key = "\<lambda>x. (sp_from x, sp_to x)" and ?t = "tf_period tf"
  let ?pts = "\<lambda>(i, j). (position_of tf i, position_of tf j)"
  have "placed_nodes (position_of tf) (tf_canvas tf)" by (simp add: placed_nodes_def position_of_def)
  note pool = transmission_arrows.pool [OF this totals_traffic [OF assms(1,2), of ?key], of "map hide (tf_arrows tf)" "tf_created tf"]
  obtain st' old' new n' where run: "rfold (draw_transmission lib clip (tf_node_size tf / 5) ?t) (totals ?key sp_bytes ?xs)
      (tf_canvas tf, map hide (tf_arrows tf), [], tf_created tf) = Inr (st', old', new, n')"
    and shown: "list_all2 (shows_rate ?pts ?t) (totals ?key sp_bytes ?xs) (filter aw_visible (new @ old'))"
    and pool: "pool_ok n' (new @ old')" "n' = tf_created tf + (length (totals ?key sp_bytes ?xs) - length (tf_arrows tf))"
      "set (map aw_id (new @ old')) = set (map aw_id (map hide (tf_arrows tf))) \<union> {tf_created tf..<n'}"
    using pool [of lib clip "tf_node_size tf / 5"] hidden_pool [OF assms(3)] unfolding pool_ok_def by (metis length_map)
  have "map aw_id (map hide (tf_arrows tf)) = map aw_id (tf_arrows tf)" by (simp add: hide_def)
  with pool(3) have ids: "set (map aw_id (new @ old')) = set (map aw_id (tf_arrows tf)) \<union> {tf_created tf..<n'}" by (simp only:)
  show ?thesis
    using run shows_rate_map [OF shown] pool(1,2) ids
    by (simp add: update_transmissions_view_def average_totals totals_def with_key_def rate_def Let_def comp_def case_prod_beta mult.commute
        del: set_map)
qed

definition small_traffic :: traffic where
  \<comment> \<open>one sample: two channels join nodes 0 and 1, and each carried 100 bytes; two arrows are left from before\<close>
  "small_traffic = \<lparr>tf_canvas = two_shown (100, 50) 1,
     tf_last_transmissions = [[\<lparr>sp_from = 0, sp_to = 1, sp_channel = 7, sp_bytes = 100\<rparr>, \<lparr>sp_from = 0, sp_to = 1, sp_channel = 8, sp_bytes = 100\<rparr>]],
     tf_last_drops = [], tf_smoothing = 1 / 2, tf_node_size = 1, tf_period = 1 / 10, tf_arrows = [new_arrow 0, new_arrow 1],
     tf_drop_arrows = [], tf_created = 2\<rparr>"

text \<open>The samples of different channels count as different times: 16 kbit/s are shown as 8. No arrow is
  made, and both are kept.\<close>

lemma transmissions_shown_witness:
  "\<exists>w. update_transmissions_view goo_canvas (\<lambda>_ _ l. l) small_traffic = Inr w \<and>
    map (\<lambda>a. (aw_points a, lb_rate (aw_label a))) (filter aw_visible (tf_arrows w)) = [(((0, 0), (0, 0)), 8)] \<and>
    set (map aw_id (tf_arrows w)) = {0, 1} \<and> tf_created w = 2"
proof -
  have *: "tf_period small_traffic = 1 / 10" "map aw_id (tf_arrows small_traffic) = [0, 1]" "tf_created small_traffic = 2"
    "length (tf_arrows small_traffic) = 2" "pool_ok (tf_created small_traffic) (tf_arrows small_traffic)"
    "concat (tf_last_transmissions small_traffic) = [\<lparr>sp_from = 0, sp_to = 1, sp_channel = 7, sp_bytes = 100\<rparr>,
       \<lparr>sp_from = 0, sp_to = 1, sp_channel = 8, sp_bytes = 100\<rparr>]"
    "position_of small_traffic 0 = (0, 0)" "position_of small_traffic 1 = (0, 0)"
    by (simp_all add: small_traffic_def pool_ok_def position_of_def new_arrow_def) code_simp+
  have "0 < tf_period small_traffic" "list_all (\<lambda>x. 0 < sp_bytes x) (concat (tf_last_transmissions small_traffic))"
    by (simp_all add: *(1,6))
  from transmissions_shown [OF this *(5), of goo_canvas "\<lambda>_ _ l. l"] show ?thesis
    unfolding *(6) by (elim ex_forward) (simp add: *(1-4,7,8) occurring_def del: set_map)
qed

fun window_size :: "rat list \<Rightarrow> nat" where
  \<comment> \<open>latest first\<close>
  "window_size [] = 0"
| "window_size (s # ss) = min (window_size ss + 1) (nat \<lfloor>s * 10\<rfloor>)"

definition sample_all :: "(rat \<times> sample list \<times> packet_drop list) list \<Rightarrow> traffic \<Rightarrow> traffic" where
  "sample_all ups tf = fold (\<lambda>(s, txs, drs) tf. periodic_update txs drs (tf\<lparr>tf_smoothing := s\<rparr>)) ups tf"

lemma pop_oldest_drop: "0 \<le> n \<Longrightarrow> pop_oldest n xs = drop (length xs - nat n) xs"
proof (induction n xs rule: pop_oldest.induct)
  case (2 n x xs)
  then show ?case by (cases "int (length (x # xs)) > n") (auto simp: Suc_diff_le nat_le_iff le_nat_iff)
qed simp

lemma window_size_le: "window_size ss \<le> length ss"
  by (induction ss) auto

lemma pop_oldest_window:
  assumes "w \<le> length xs" and "0 \<le> m"
  shows "pop_oldest m (drop (length xs - w) xs @ [x]) = drop (Suc (length xs) - min (w + 1) (nat m)) (xs @ [x])"
proof -
  have "drop (length xs - w) xs @ [x] = drop (length xs - w) (xs @ [x])" by simp
  moreover have "length (drop (length xs - w) xs @ [x]) - nat m + (length xs - w) = Suc (length xs) - min (w + 1) (nat m)"
    using assms(1) by (simp add: min_def)
  ultimately show ?thesis using assms(2) by (simp only: pop_oldest_drop drop_drop)
qed

text \<open>However the smoothing is changed, the window holds the latest samples of both kinds, without a
  gap and in order, and as many of them as the smoothing has let stay.\<close>

theorem sample_window:
  assumes "tf_last_transmissions tf = []" and "tf_last_drops tf = []" and "list_all (\<lambda>(s, _, _). 0 \<le> s) ups"
  shows "let n = length ups - window_size (rev (map fst ups)) in
    tf_last_transmissions (sample_all ups tf) = drop n (map (\<lambda>(_, txs, _). txs) ups) \<and>
    tf_last_drops (sample_all ups tf) = drop n (map (\<lambda>(_, _, drs). drs) ups)"
  using assms(3)
proof (induction ups rule: rev_induct)
  case Nil
  then show ?case by (simp add: sample_all_def assms(1,2))
next
  case (snoc u ups)
  obtain s txs drs where u: "u = (s, txs, drs)" by (metis prod.collapse)
  let ?w = "window_size (rev (map fst ups))"
  have s: "py_trunc (s * 10) = \<lfloor>s * 10\<rfloor>" "0 \<le> \<lfloor>s * 10\<rfloor>" using snoc.prems by (simp_all add: u py_trunc_nonneg)
  have w: "?w \<le> length (map f ups)" for f :: "rat \<times> sample list \<times> packet_drop list \<Rightarrow> 'z"
    using window_size_le [of "rev (map fst ups)"] by simp
  have "sample_all (ups @ [u]) tf = periodic_update txs drs ((sample_all ups tf)\<lparr>tf_smoothing := s\<rparr>)"
    by (simp add: sample_all_def u)
  then show ?case
    using snoc pop_oldest_window [OF w s(2), of "\<lambda>(_, txs, _). txs" txs] pop_oldest_window [OF w s(2), of "\<lambda>(_, _, drs). drs" drs]
    by (simp add: periodic_update_def Let_def s(1) u)
qed

lemma sample_window_witness:
  \<comment> \<open>three samples at most, then two, then three again: the oldest does not come back\<close>
  "map (map sp_bytes) (tf_last_transmissions (sample_all
      (zip [3 / 10, 3 / 10, 1 / 5, 3 / 10]
        (map (\<lambda>b. ([\<lparr>sp_from = 0, sp_to = 1, sp_channel = 7, sp_bytes = b\<rparr>], [])) [1, 2, 3, 4]))
      (small_traffic\<lparr>tf_last_transmissions := []\<rparr>))) = [[2], [3], [4]]"
proof -
  let ?ups = "zip [3 / 10, 3 / 10, 1 / 5, 3 / 10 :: rat]
    (map (\<lambda>b. ([\<lparr>sp_from = 0, sp_to = 1, sp_channel = 7, sp_bytes = b\<rparr>], [] :: packet_drop list)) [1, 2, 3, 4])"
  have "window_size (rev (map fst ?ups)) = 3" "list_all (\<lambda>(s, _, _). 0 \<le> s) ?ups" by (simp, simp)
  with sample_window [of "small_traffic\<lparr>tf_last_transmissions := []\<rparr>" ?ups] show ?thesis
    by (simp add: small_traffic_def Let_def)
qed

text \<open>A label never stands on its head, and read from left to right its arrow points along the
  transmission.\<close>

theorem label_readable:
  assumes "p \<noteq> (q :: point)" and "label_side (atan2 (of_rat (snd q - snd p)) (of_rat (fst q - fst p))) width = (shape, offset, angle)"
  shows "- (pi / 2) \<le> angle \<and> angle \<le> pi / 2 \<and>
    cis angle * (if shape = RightArrow then 1 else - 1) = sgn (Complex (of_rat (fst q - fst p)) (of_rat (snd q - snd p)))"
proof -
  let ?z = "Complex (of_rat (fst q - fst p)) (of_rat (snd q - snd p))"
  have z: "?z \<noteq> 0" using assms(1) by (auto simp: complex_eq_iff prod_eq_iff)
  have cis: "cis (Arg ?z) = sgn ?z" using cis_Arg [OF z] .
  have bounds: "- pi < Arg ?z" "Arg ?z \<le> pi" using Arg_bounded [of ?z] by auto
  have turn: "cis (Arg ?z + pi) = - cis (Arg ?z)" "cis (Arg ?z - pi) = - cis (Arg ?z)"
    by (simp_all add: cis.ctr complex_eq_iff)
  show ?thesis
    using assms(2) cis bounds turn by (auto simp: label_side_def atan2_def split: if_splits)
qed

lemma label_readable_witness:
  "label_side (atan2 0 (- 1)) 4 = (LeftArrow, 2, 0) \<and> cis 0 * - 1 = sgn (Complex (- 1) 0)"
proof -
  have "Complex (- 1) 0 = - 1" by (simp add: complex_eq_iff)
  then have "label_side (atan2 0 (- 1)) 4 = (LeftArrow, 2, 0)"
    using cis_Arg_unique [of "- 1" pi] pi_gt_zero by (simp add: label_side_def atan2_def sgn_eq) (use pi_gt_zero in linarith)
  with label_readable [of "(1, 0)" "(0, 0)" 4 LeftArrow 2 0] show ?thesis by simp
qed

lemma drops_shown:
  assumes "0 < tf_period tf" and "list_all (\<lambda>x. 0 < pd_bytes x) (concat (tf_last_drops tf))"
    and "pool_ok (tf_created tf) (tf_drop_arrows tf)"
  shows "\<exists>w. update_drops_view lib tf = Inr w \<and>
    map (\<lambda>a. (aw_points a, lb_rate (aw_label a))) (filter aw_visible (tf_drop_arrows w)) =
      map (\<lambda>i. let xs = filter (\<lambda>x. pd_node x = i) (concat (tf_last_drops tf)) in
        ((position_of tf i, (fst (position_of tf i), edge_y lib (tf_canvas tf))),
         of_int (8 * sum_list (map pd_bytes xs)) / 1000 / of_nat (length xs) / tf_period tf))
        (occurring pd_node (concat (tf_last_drops tf))) \<and>
    pool_ok (tf_created w) (tf_drop_arrows w)"
proof -
  let ?xs = "concat (tf_last_drops tf)" and ?t = "tf_period tf" and ?b = "edge_y lib (tf_canvas tf)"
  let ?pts = "\<lambda>i. (position_of tf i, (fst (position_of tf i), ?b))"
  have "placed_nodes (position_of tf) (tf_canvas tf)" by (simp add: placed_nodes_def position_of_def)
  note pool = drop_arrows.pool [OF this totals_traffic [OF assms(1,2), of pd_node], of "map hide (tf_drop_arrows tf)" "tf_created tf"]
  obtain st' old' new n' where run: "rfold (draw_drop ?b (tf_node_size tf / 5) ?t) (totals pd_node pd_bytes ?xs)
      (tf_canvas tf, map hide (tf_drop_arrows tf), [], tf_created tf) = Inr (st', old', new, n')"
    and shown: "list_all2 (shows_rate ?pts ?t) (totals pd_node pd_bytes ?xs) (filter aw_visible (new @ old'))"
    and pool: "pool_ok n' (new @ old')"
    using pool [of ?b "tf_node_size tf / 5"] hidden_pool [OF assms(3)] unfolding pool_ok_def by (metis length_map)
  show ?thesis
    using run shows_rate_map [OF shown] pool
    by (simp add: update_drops_view_def average_totals totals_def with_key_def rate_def Let_def comp_def case_prod_beta mult.commute)
qed

end
