(* ===== verification/Viz_Stats.thy ===== *)
theory Viz_Stats
  imports Viz_Traffic
begin

text \<open>
  Two plugins of the visualizer: the counters of \<open>plugins/interface_statistics.py\<close>, of which it keeps
  the last ten per node, and the list of header types of \<open>plugins/show_last_packets.py\<close>. The counters
  and the tree of types are those of the simulation; the windows in which both are shown are in
  \<open>Viz_Windows\<close>. Climbing the tree is a partial function, because it need not be one.
\<close>

section \<open>Statistics of interfaces\<close>

record counters =
  ct_tx_packets :: int
  ct_tx_bytes :: int
  ct_rx_packets :: int
  ct_rx_bytes :: int

record net_dev_stats =
  ns_counters :: counters
  ns_tx_packet_rate :: rat
  ns_rx_packet_rate :: rat
  ns_tx_bit_rate :: rat
  ns_rx_bit_rate :: rat

definition NODE_STATISTICS_MEMORY :: nat where
  "NODE_STATISTICS_MEMORY = 10"

type_synonym node_statistics = "(int \<times> counters list list) list"

definition collect_node :: "int \<times> counters list \<Rightarrow> node_statistics \<Rightarrow> node_statistics" where
  "collect_node stats d = (case stats of (node, counters) \<Rightarrow>
     let raw = (case map_of d node of None \<Rightarrow> [] | Some raw \<Rightarrow> raw)
     in AList.update node (pop_oldest (int NODE_STATISTICS_MEMORY) (raw @ [counters])) d)"

definition statistics_update :: "(int \<times> counters list) list \<Rightarrow> node_statistics \<Rightarrow> node_statistics" where
  "statistics_update nodes d = fold collect_node nodes d"

definition interface_rates :: "rat \<Rightarrow> counters \<Rightarrow> counters \<Rightarrow> net_dev_stats" where
  "interface_rates k first now =
     \<lparr>ns_counters = now,
      ns_tx_packet_rate = of_int (ct_tx_packets now - ct_tx_packets first) / k,
      ns_rx_packet_rate = of_int (ct_rx_packets now - ct_rx_packets first) / k,
      ns_tx_bit_rate = of_int ((ct_tx_bytes now - ct_tx_bytes first) * 8) / k,
      ns_rx_bit_rate = of_int ((ct_rx_bytes now - ct_rx_bytes first) * 8) / k\<rparr>"

definition get_interface_statistics :: "rat \<Rightarrow> node_statistics \<Rightarrow> int \<Rightarrow> net_dev_stats list pyres" where
  "get_interface_statistics period d node = (case map_of d node of
     None \<Rightarrow> Inr []
   | Some raw \<Rightarrow>
       if length raw < NODE_STATISTICS_MEMORY then Inr []
       else if length raw \<noteq> NODE_STATISTICS_MEMORY then Inl AssertionError
       else
         let k = period * of_nat (NODE_STATISTICS_MEMORY - 1)
         in rmap (\<lambda>(iface, now). rbind (py_index (hd raw) (int iface)) (\<lambda>first.
                if k = 0 then Inl ZeroDivisionError else Inr (interface_rates k first now)))
              (enumerate 0 (last raw)))"

definition node_history :: "int \<Rightarrow> (int \<times> counters list) list list \<Rightarrow> counters list list" where
  \<comment> \<open>what has been reported of a node, oldest first\<close>
  "node_history node updates = map snd (filter (\<lambda>s. fst s = node) (concat updates))"

lemma pop_ten: "pop_oldest 10 (drop (length xs - 10) xs @ [x]) = drop (length xs + 1 - 10) (xs @ [x])"
proof (cases "10 \<le> length xs")
  case True
  with pop_oldest_window [of 10 xs 10 x] show ?thesis by (simp add: min_def)
next
  case False
  with pop_oldest_window [of "length xs" xs 10 x] show ?thesis by (simp add: min_def)
qed

lemma collect_history:
  "map_of (fold collect_node stats []) node = (let h = map snd (filter (\<lambda>s. fst s = node) stats) in
     if h = [] then None else Some (drop (length h - NODE_STATISTICS_MEMORY) h))"
proof (induction stats rule: rev_induct)
  case (snoc s stats)
  obtain i c where s: "s = (i, c)" by (cases s)
  let ?h = "map snd (filter (\<lambda>s. fst s = node) stats)"
  show ?case
  proof (cases "i = node")
    case True
    have "pop_oldest (int NODE_STATISTICS_MEMORY) (drop (length ?h - NODE_STATISTICS_MEMORY) ?h @ [c]) =
        drop (length ?h + 1 - NODE_STATISTICS_MEMORY) (?h @ [c])"
      using pop_ten [of ?h c] by (simp add: NODE_STATISTICS_MEMORY_def)
    with True snoc show ?thesis
      by (auto simp: s collect_node_def Let_def lookup_update pop_oldest_drop NODE_STATISTICS_MEMORY_def)
  next
    case False
    with snoc show ?thesis by (simp add: s collect_node_def Let_def lookup_update)
  qed
qed simp

lemma statistics_history:
  "map_of (fold statistics_update updates []) node = (let h = node_history node updates in
     if h = [] then None else Some (drop (length h - NODE_STATISTICS_MEMORY) h))"
proof -
  have "fold statistics_update updates d = fold collect_node (concat updates) d" for d
    by (induction updates arbitrary: d) (simp_all add: statistics_update_def)
  then show ?thesis by (simp add: collect_history node_history_def)
qed

lemma rates_rmap:
  "rmap (\<lambda>(i, now). rbind (py_index first (int i)) (\<lambda>f. if z then Inl ZeroDivisionError else Inr (g f now))) (enumerate k nows) =
    (if z \<and> nows \<noteq> [] \<and> k < length first then Inl ZeroDivisionError
     else if nows = [] \<or> k + length nows \<le> length first then Inr (map (\<lambda>i. g (first ! (k + i)) (nows ! i)) [0..<length nows])
     else Inl IndexError)"
proof (induction nows arbitrary: k)
  case (Cons now nows)
  have m: "map (\<lambda>i. g (first ! (k + i)) ((now # nows) ! i)) [0..<length (now # nows)] =
      g (first ! k) now # map (\<lambda>i. g (first ! (Suc k + i)) (nows ! i)) [0..<length nows]"
    by (simp add: upt_conv_Cons map_Suc_upt [symmetric] comp_def del: upt_Suc)
  show ?case
    using Cons [of "Suc k"] unfolding m by (cases "k < length first") (auto simp: py_index_nat py_index_def py_pos_def)
qed simp

text \<open>C29: Once ten samples of a node have been seen, its statistics are the present counters of its
  interfaces and, as rates, what each has counted since the tenth last sample, divided by nine sampling
  periods; before that they are empty. If the node has got an interface meanwhile, there is an
  \<open>IndexError\<close>, and a period of zero, which the visualizer never sets, raises
  \<open>ZeroDivisionError\<close> with the first interface.\<close>

theorem interface_statistics:
  "get_interface_statistics period (fold statistics_update updates []) node =
    (let h = node_history node updates in
     if length h < 10 then Inr []
     else
       let first = h ! (length h - 10); now = last h
       in if period = 0 \<and> first \<noteq> [] \<and> now \<noteq> [] then Inl ZeroDivisionError
          else if length first < length now then Inl IndexError
          else Inr (map (\<lambda>i. interface_rates (period * 9) (first ! i) (now ! i)) [0..<length now]))"
proof -
  let ?h = "node_history node updates"
  have "hd (drop (length ?h - 10) ?h) = ?h ! (length ?h - 10)" "last (drop (length ?h - 10) ?h) = last ?h" if "10 \<le> length ?h"
    using that by (simp_all add: hd_drop_conv_nth)
  moreover have "?h \<noteq> []" if "10 \<le> length ?h" using that by auto
  ultimately show ?thesis
    by (auto simp: get_interface_statistics_def statistics_history Let_def NODE_STATISTICS_MEMORY_def rates_rmap not_less)
qed

section \<open>Types of headers\<close>

partial_function (option) header_loop :: "(nat \<Rightarrow> nat option) \<Rightarrow> nat \<Rightarrow> nat \<Rightarrow> nat \<Rightarrow> bool option" where
  "header_loop parent header trailer t =
     (if t = header \<or> t = trailer then Some True
      else case parent t of
             None \<Rightarrow> Some False
           | Some u \<Rightarrow> header_loop parent header trailer u)"

fun packet_filter_list :: "(nat \<Rightarrow> nat option) \<Rightarrow> nat \<Rightarrow> nat \<Rightarrow> nat list \<Rightarrow> nat list option" where
  "packet_filter_list parent header trailer [] = Some []"
| "packet_filter_list parent header trailer (t # ts) =
     Option.bind (header_loop parent header trailer t) (\<lambda>good.
     Option.bind (packet_filter_list parent header trailer ts) (\<lambda>rest.
     Some (if good \<and> t \<notin> {header, trailer} then t # rest else rest)))"

definition selected_headers :: "(nat \<times> bool) list \<Rightarrow> nat list" where
  "selected_headers filters = map fst (filter snd filters)"

lemma climb: "parent t = Some u \<Longrightarrow> t \<noteq> v \<Longrightarrow>
    (\<lambda>t u. parent t = Some u)\<^sup>*\<^sup>* t v \<longleftrightarrow> (\<lambda>t u. parent t = Some u)\<^sup>*\<^sup>* u v"
  by (metis (mono_tags, lifting) converse_rtranclpE converse_rtranclp_into_rtranclp option.inject)

lemma header_loop_ends:
  assumes "wf {(u, t). parent t = Some u}"
  shows "header_loop parent header trailer t =
    Some (\<exists>u. u \<in> {header, trailer} \<and> (\<lambda>t u. parent t = Some u)\<^sup>*\<^sup>* t u)"
  using assms
proof (induction t rule: wf_induct_rule)
  case (less t)
  show ?case
  proof (cases "t = header \<or> t = trailer")
    case True
    then show ?thesis by (subst header_loop.simps) auto
  next
    case False
    show ?thesis
    proof (cases "parent t")
      case None
      with False show ?thesis by (subst header_loop.simps) (auto elim: converse_rtranclpE)
    next
      case (Some u)
      then have "(\<exists>v. v \<in> {header, trailer} \<and> (\<lambda>t u. parent t = Some u)\<^sup>*\<^sup>* u v) =
          (\<exists>v. v \<in> {header, trailer} \<and> (\<lambda>t u. parent t = Some u)\<^sup>*\<^sup>* t v)"
        using False climb [of parent t u] by blast
      with Some less False show ?thesis by (subst header_loop.simps) simp
    qed
  qed
qed

lemma packet_filter_types:
  assumes "wf {(u, t). parent t = Some u}"
  shows "packet_filter_list parent header trailer types = Some (filter (\<lambda>t. t \<notin> {header, trailer} \<and>
    (\<exists>u. u \<in> {header, trailer} \<and> (\<lambda>t u. parent t = Some u)\<^sup>*\<^sup>* t u)) types)"
  by (induction types) (simp_all add: header_loop_ends [OF assms])

end
