(* ===== verification/Viz_Windows.thy ===== *)
theory Viz_Windows
  imports Viz_Stats
begin

text \<open>
  The information windows of the visualizer: the tables of its plugins (\<open>plugins/*.py\<close>) and the list
  \<open>information_windows\<close> of \<open>core.py\<close>, through which they are updated with the view. What the windows read
  of the simulation at a moment is the record \<open>sim_view\<close>; opening, closing, updating and the buttons of
  the packet filter are functions on one state and the rules of a step relation. The column titles
  and the packing of the widgets are not modelled.
\<close>

section \<open>What is read of the simulation\<close>

record device =
  dv_name :: string     \<comment> \<open>\<open>Names.FindName\<close>, empty without a name\<close>
  dv_index :: int

record route =
  rt_dest :: string
  rt_gateway :: string
  rt_interface :: int

datatype routing =
    StaticRouting "route list"
  | GlobalRouting "route list"
  | ListRouting "(routing \<times> int) list"
  | OtherRouting

record ipv4 =
  ip_routing :: "routing option"
  ip_device :: "int \<Rightarrow> device option"

record olsr_route =
  ol_dest :: string
  ol_next :: string
  ol_interface :: int
  ol_distance :: int

record packet_sample =
  pk_time :: rat
  pk_device :: "device option"
  pk_size :: int
  pk_contents :: string

record forwarder =
  fd_fib :: "(string \<times> (string \<times> int \<times> int) list) list option"  \<comment> \<open>face, its id and cost\<close>
  fd_pit :: "string list option"
  fd_cs :: "string list option"
  fd_faces :: "(int \<times> string) list"

record sim_node =
  sn_ipv4 :: "ipv4 option"
  sn_olsr :: "olsr_route list option"
  sn_device :: "nat \<Rightarrow> device"
  sn_sent :: "packet_sample list"
  sn_received :: "packet_sample list"
  sn_dropped :: "packet_sample list"
  sn_ndn :: "forwarder option"

record sim_view =
  sv_node :: "nat \<Rightarrow> sim_node"
  sv_statistics :: node_statistics
  sv_period :: rat

section \<open>Rows\<close>

datatype cell = StrC string | IntC int | NumC rat  \<comment> \<open>a float, before it is printed\<close>

type_synonym table = "cell list list"

definition named :: "string \<Rightarrow> int \<Rightarrow> string" where
  "named name i = (if name \<noteq> [] then name else ''(interface '' @ str_int i @ '')'')"

definition route_interface :: "ipv4 \<Rightarrow> int \<Rightarrow> string" where
  "route_interface ip i = (case ip_device ip i of None \<Rightarrow> ''lo'' | Some d \<Rightarrow> named (dv_name d) i)"

definition routing_protocols :: "routing \<Rightarrow> (route list \<times> string \<times> int) list" where
  "routing_protocols r = (case r of
     StaticRouting rs \<Rightarrow> [(rs, ''static'', 0)]
   | ListRouting ps \<Rightarrow> concat (map (\<lambda>(r, prio). case r of
        StaticRouting rs \<Rightarrow> [(rs, ''static'', prio)]
      | GlobalRouting rs \<Rightarrow> [(rs, ''global'', prio)]
      | _ \<Rightarrow> []) ps)
   | _ \<Rightarrow> [])"

definition ipv4_rows :: "ipv4 \<Rightarrow> (route list \<times> string \<times> int) list \<Rightarrow> table" where
  "ipv4_rows ip protocols = concat (map (\<lambda>(rs, type_string, prio). map (\<lambda>r.
     [StrC (rt_dest r), StrC (rt_gateway r), StrC (route_interface ip (rt_interface r)), StrC type_string, IntC prio]) rs) protocols)"

definition update_ipv4 :: "sim_node \<Rightarrow> table \<Rightarrow> table \<times> unit pyres" where
  \<comment> \<open>the table after the update, and how it ended\<close>
  "update_ipv4 n t = (case sn_ipv4 n of
     None \<Rightarrow> (t, Inl AttributeError)
   | Some ip \<Rightarrow> (case ip_routing ip of
       None \<Rightarrow> (t, Inr ())
     | Some r \<Rightarrow> if routing_protocols r = [] then (t, Inr ()) else (ipv4_rows ip (routing_protocols r), Inr ())))"

definition olsr_row :: "ipv4 \<Rightarrow> olsr_route \<Rightarrow> cell list" where
  "olsr_row ip r = [StrC (ol_dest r), StrC (ol_next r), StrC (route_interface ip (ol_interface r)), IntC (ol_distance r)]"

definition update_olsr :: "sim_node \<Rightarrow> table \<Rightarrow> table \<times> unit pyres" where
  \<comment> \<open>without \<open>ipv4\<close> the first row has been appended and stays empty\<close>
  "update_olsr n t = (case sn_olsr n of
     None \<Rightarrow> (t, Inr ())
   | Some routes \<Rightarrow> (case sn_ipv4 n of
       Some ip \<Rightarrow> (map (olsr_row ip) routes, Inr ())
     | None \<Rightarrow> if routes = [] then ([], Inr ()) else ([[]], Inl AttributeError)))"

definition statistics_row :: "sim_node \<Rightarrow> nat \<times> net_dev_stats \<Rightarrow> cell list" where
  "statistics_row n is = (case is of (iface, s) \<Rightarrow>
     [StrC (named (dv_name (sn_device n iface)) (int iface)),
      IntC (ct_tx_packets (ns_counters s)), IntC (ct_tx_bytes (ns_counters s)), NumC (ns_tx_packet_rate s), NumC (ns_tx_bit_rate s),
      IntC (ct_rx_packets (ns_counters s)), IntC (ct_rx_bytes (ns_counters s)), NumC (ns_rx_packet_rate s), NumC (ns_rx_bit_rate s)])"

definition update_statistics :: "sim_view \<Rightarrow> nat \<Rightarrow> table \<Rightarrow> table \<times> unit pyres" where
  "update_statistics v i t = (case get_interface_statistics (sv_period v) (sv_statistics v) (int i) of
     Inl e \<Rightarrow> (t, Inl e)
   | Inr stats \<Rightarrow> (map (statistics_row (sv_node v i)) (enumerate 0 stats), Inr ()))"

definition packet_row :: "packet_sample \<Rightarrow> cell list" where
  "packet_row s = [NumC (pk_time s),
     StrC (case pk_device s of None \<Rightarrow> ''(unknown)'' | Some d \<Rightarrow> named (dv_name d) (dv_index d)),
     IntC (pk_size s), StrC (pk_contents s)]"

definition fib_row :: "string \<times> (string \<times> int \<times> int) list \<Rightarrow> cell list" where
  "fib_row item = [StrC (fst item),
     StrC (py_join '', '' (map (\<lambda>(face, i, cost). face @ str_int i @ '' ('' @ str_int cost @ '')'') (snd item)))]"

definition pit_row :: "string \<Rightarrow> cell list" where
  "pit_row name = [StrC name]"

definition cs_row :: "string \<Rightarrow> cell list" where
  "cs_row name = [StrC name]"

definition face_row :: "int \<times> string \<Rightarrow> cell list" where
  "face_row face = [StrC (str_int (fst face)), StrC (snd face)]"

definition update_ndn :: "(forwarder \<Rightarrow> table option) \<Rightarrow> sim_node \<Rightarrow> table \<Rightarrow> table \<times> unit pyres" where
  \<comment> \<open>a table of the forwarder, where there is one\<close>
  "update_ndn f n t = (case sn_ndn n of
     None \<Rightarrow> (t, Inl AttributeError)
   | Some fd \<Rightarrow> (case f fd of None \<Rightarrow> (t, Inr ()) | Some t \<Rightarrow> (t, Inr ())))"

section \<open>Windows\<close>

datatype window_kind = RoutingW | OlsrW | StatisticsW | PacketsW | FibW | PitW | CsW | FacesW

record window =
  wn_kind :: window_kind
  wn_node :: nat
  wn_tables :: "table list"          \<comment> \<open>three for the packets, one otherwise\<close>
  wn_shown :: bool
  wn_destroyed :: bool
  wn_filter :: "(nat \<times> bool) list"  \<comment> \<open>types of headers and whether they are selected\<close>
  wn_and :: bool                     \<comment> \<open>the button AND is active\<close>

definition one_table :: "(table \<Rightarrow> table \<times> unit pyres) \<Rightarrow> window \<Rightarrow> window \<times> unit pyres" where
  "one_table f w = (case f (hd (wn_tables w)) of (t, r) \<Rightarrow> (w\<lparr>wn_tables := [t]\<rparr>, r))"

definition update_window :: "sim_view \<Rightarrow> window \<Rightarrow> window \<times> unit pyres" where
  "update_window v w =
     (let n = sv_node v (wn_node w)
      in case wn_kind w of
           RoutingW \<Rightarrow> one_table (update_ipv4 n) w
         | OlsrW \<Rightarrow> one_table (update_olsr n) w
         | StatisticsW \<Rightarrow> one_table (update_statistics v (wn_node w)) w
         | PacketsW \<Rightarrow> (w\<lparr>wn_tables := [map packet_row (sn_sent n), map packet_row (sn_received n), map packet_row (sn_dropped n)]\<rparr>, Inr ())
         | FibW \<Rightarrow> one_table (update_ndn (\<lambda>fd. map_option (map fib_row) (fd_fib fd)) n) w
         | PitW \<Rightarrow> one_table (update_ndn (\<lambda>fd. map_option (map pit_row) (fd_pit fd)) n) w
         | CsW \<Rightarrow> one_table (update_ndn (\<lambda>fd. map_option (map cs_row) (fd_cs fd)) n) w
         | FacesW \<Rightarrow> one_table (update_ndn (\<lambda>fd. Some (map face_row (fd_faces fd))) n) w)"

record capture_options =
  co_and :: bool
  co_headers :: "nat list"
  co_last_packets :: int

record windows =
  ws_windows :: "window list"                         \<comment> \<open>all that have been made\<close>
  ws_list :: "nat list"                               \<comment> \<open>\<open>information_windows\<close>\<close>
  ws_options :: "nat \<Rightarrow> capture_options option"       \<comment> \<open>of the simulator, per node\<close>

definition set_window :: "nat \<Rightarrow> window \<Rightarrow> windows \<Rightarrow> windows" where
  "set_window i w st = st\<lparr>ws_windows := (ws_windows st)[i := w]\<rparr>"

definition filter_options :: "window \<Rightarrow> capture_options" where
  "filter_options w = \<lparr>co_and = wn_and w, co_headers = selected_headers (wn_filter w), co_last_packets = 100\<rparr>"

definition update_capture_options :: "nat \<Rightarrow> windows \<Rightarrow> windows" where
  "update_capture_options i st =
     (let w = ws_windows st ! i in st\<lparr>ws_options := (ws_options st)(wn_node w := Some (filter_options w))\<rparr>)"

definition update_one :: "sim_view \<Rightarrow> nat \<Rightarrow> windows \<Rightarrow> windows \<times> unit pyres" where
  "update_one v i st = (case update_window v (ws_windows st ! i) of (w, r) \<Rightarrow> (set_window i w st, r))"

definition add_information_window :: "sim_view \<Rightarrow> nat \<Rightarrow> windows \<Rightarrow> windows \<times> unit pyres" where
  "add_information_window v i st = update_one v i (st\<lparr>ws_list := ws_list st @ [i]\<rparr>)"

definition new_window :: "window_kind \<Rightarrow> nat \<Rightarrow> nat list \<Rightarrow> window" where
  "new_window kind node types =
     \<lparr>wn_kind = kind, wn_node = node, wn_tables = replicate (if kind = PacketsW then 3 else 1) [],
      wn_shown = False, wn_destroyed = False,
      wn_filter = (if kind = PacketsW then map (\<lambda>t. (t, True)) types else []), wn_and = False\<rparr>"

definition open_window :: "sim_view \<Rightarrow> window_kind \<Rightarrow> nat \<Rightarrow> nat list \<Rightarrow> windows \<Rightarrow> windows \<times> unit pyres" where
  \<comment> \<open>the constructor of a window; the last argument but one are the types of headers to filter by\<close>
  "open_window v kind node types st =
     (let i = length (ws_windows st);
          st = st\<lparr>ws_windows := ws_windows st @ [new_window kind node types]\<rparr>;
          st = (if kind = PacketsW then update_capture_options i st else st)
      in case add_information_window v i st of
           (st, Inl e) \<Rightarrow> (st, Inl e)
         | (st, Inr _) \<Rightarrow> (set_window i ((ws_windows st ! i)\<lparr>wn_shown := True\<rparr>) st, Inr ()))"

definition remove_information_window :: "nat \<Rightarrow> windows \<Rightarrow> windows \<times> unit pyres" where
  "remove_information_window i st =
     (if i \<in> set (ws_list st) then (st\<lparr>ws_list := remove1 i (ws_list st)\<rparr>, Inr ()) else (st, Inl ValueError))"

definition response :: "nat \<Rightarrow> windows \<Rightarrow> windows \<times> unit pyres" where
  \<comment> \<open>\<open>_response_cb\<close>\<close>
  "response i st = remove_information_window i (set_window i ((ws_windows st ! i)\<lparr>wn_shown := False, wn_destroyed := True\<rparr>) st)"

fun update_windows :: "sim_view \<Rightarrow> nat list \<Rightarrow> windows \<Rightarrow> windows \<times> unit pyres" where
  \<comment> \<open>the loop of \<open>update_view\<close>\<close>
  "update_windows v [] st = (st, Inr ())"
| "update_windows v (i # is) st = (case update_one v i st of
     (st, Inl e) \<Rightarrow> (st, Inl e)
   | (st, Inr _) \<Rightarrow> update_windows v is st)"

definition edit_filter :: "nat \<Rightarrow> (window \<Rightarrow> window) \<Rightarrow> windows \<Rightarrow> windows" where
  \<comment> \<open>the user changes the widgets of the filter, the handler gives them to the simulator\<close>
  "edit_filter i change st = update_capture_options i (set_window i (change (ws_windows st ! i)) st)"

definition select_all :: "bool \<Rightarrow> window \<Rightarrow> window" where
  \<comment> \<open>\<open>sel_all_cb\<close> and \<open>sel_none_cb\<close>\<close>
  "select_all b w = w\<lparr>wn_filter := map (\<lambda>(t, _). (t, b)) (wn_filter w)\<rparr>"

definition edit_cell :: "nat \<Rightarrow> bool \<Rightarrow> window \<Rightarrow> window" where
  "edit_cell k b w = w\<lparr>wn_filter := (wn_filter w)[k := (fst (wn_filter w ! k), b)]\<rparr>"

definition toggle_and :: "bool \<Rightarrow> window \<Rightarrow> window" where
  "toggle_and b w = w\<lparr>wn_and := b\<rparr>"

section \<open>The windows of a visualizer\<close>

definition no_windows :: windows where
  "no_windows = \<lparr>ws_windows = [], ws_list = [], ws_options = (\<lambda>_. None)\<rparr>"

abbreviation is_open :: "windows \<Rightarrow> nat \<Rightarrow> bool" where
  \<comment> \<open>the user can reach the widgets of the window\<close>
  "is_open st i \<equiv> i < length (ws_windows st) \<and> wn_shown (ws_windows st ! i)"

inductive windows_step :: "nat list \<Rightarrow> windows \<Rightarrow> windows \<Rightarrow> bool" for types where
  opened: "windows_step types st (fst (open_window v kind node types st))"
| closed: "is_open st i \<Longrightarrow> windows_step types st (fst (response i st))"
| updated: "windows_step types st (fst (update_windows v (ws_list st) st))"
| edited: "is_open st i \<Longrightarrow> wn_kind (ws_windows st ! i) = PacketsW \<Longrightarrow>
    change \<in> {select_all b, edit_cell k b, toggle_and b} \<Longrightarrow> windows_step types st (edit_filter i change st)"

definition bare :: "window \<Rightarrow> window" where
  "bare w = w\<lparr>wn_tables := []\<rparr>"

definition bares :: "windows \<Rightarrow> windows" where
  \<comment> \<open>all but the rows that are shown\<close>
  "bares st = st\<lparr>ws_windows := map bare (ws_windows st)\<rparr>"

definition windows_ok :: "windows \<Rightarrow> bool" where
  \<comment> \<open>the list holds the windows made and not destroyed, in the order they were opened\<close>
  "windows_ok st = (ws_list st = filter (\<lambda>i. \<not> wn_destroyed (ws_windows st ! i)) [0..<length (ws_windows st)] \<and>
     (\<forall>i < length (ws_windows st). wn_shown (ws_windows st ! i) \<longrightarrow> \<not> wn_destroyed (ws_windows st ! i)))"

definition packets_of :: "nat \<Rightarrow> windows \<Rightarrow> nat \<Rightarrow> bool" where
  "packets_of n st i = (i < length (ws_windows st) \<and> wn_kind (ws_windows st ! i) = PacketsW \<and> wn_node (ws_windows st ! i) = n)"

definition filter_ok :: "windows \<Rightarrow> bool" where
  \<comment> \<open>the simulator captures what one of the windows of the node, open or closed, selects\<close>
  "filter_ok st = (\<forall>n. if \<exists>i. packets_of n st i
     then \<exists>i. packets_of n st i \<and> ws_options st n = Some (filter_options (ws_windows st ! i))
     else ws_options st n = None)"

lemma bare_fields [simp]:
  "wn_kind (bare w) = wn_kind w" "wn_node (bare w) = wn_node w" "wn_shown (bare w) = wn_shown w"
  "wn_destroyed (bare w) = wn_destroyed w" "wn_filter (bare w) = wn_filter w" "wn_and (bare w) = wn_and w"
  "filter_options (bare w) = filter_options w"
  by (simp_all add: bare_def filter_options_def)

lemma bare_tables [simp]: "bare (w\<lparr>wn_tables := t\<rparr>) = bare w"
  by (simp add: bare_def)

lemma bare_update [simp]: "bare (fst (update_window v w)) = bare w"
  by (simp add: update_window_def one_table_def Let_def split: window_kind.split prod.split)

lemma bares_fields [simp]:
  "length (ws_windows (bares st)) = length (ws_windows st)" "ws_list (bares st) = ws_list st" "ws_options (bares st) = ws_options st"
  "i < length (ws_windows st) \<Longrightarrow> ws_windows (bares st) ! i = bare (ws_windows st ! i)"
  by (simp_all add: bares_def)

lemma bares_update_one [simp]: "bares (fst (update_one v i st)) = bares st"
proof -
  have "(map bare (ws_windows st))[i := bare (ws_windows st ! i)] = map bare (ws_windows st)"
    by (cases "i < length (ws_windows st)") (simp_all add: map_update [symmetric])
  then show ?thesis
    by (simp add: update_one_def set_window_def bares_def map_update bare_update [of v "ws_windows st ! i", symmetric]
      split: prod.split del: bare_update) (metis bare_update fst_conv)
qed

lemma bares_update_windows [simp]: "bares (fst (update_windows v is st)) = bares st"
proof (induction "is" arbitrary: st)
  case (Cons i "is")
  then show ?case
    using bares_update_one [of v i st] by (auto split: prod.split sum.split simp del: bares_update_one)
qed simp

lemma windows_ok_bares: "windows_ok (bares st) = windows_ok st"
proof -
  have "filter (\<lambda>i. \<not> wn_destroyed (ws_windows (bares st) ! i)) [0..<length (ws_windows st)] =
      filter (\<lambda>i. \<not> wn_destroyed (ws_windows st ! i)) [0..<length (ws_windows st)]"
    by (rule filter_cong) simp_all
  then show ?thesis by (simp add: windows_ok_def)
qed

lemma packets_of_bares: "packets_of n (bares st) i = packets_of n st i"
  by (auto simp: packets_of_def)

lemma filter_ok_bares: "filter_ok (bares st) = filter_ok st"
proof -
  have "(packets_of n st i \<and> r = Some (filter_options (ws_windows (bares st) ! i))) =
      (packets_of n st i \<and> r = Some (filter_options (ws_windows st ! i)))" for n i r
    by (auto simp: packets_of_def)
  then show ?thesis by (simp only: filter_ok_def packets_of_bares bares_fields)
qed

definition with_window :: "bool \<Rightarrow> window_kind \<Rightarrow> nat \<Rightarrow> nat list \<Rightarrow> windows \<Rightarrow> windows" where
  \<comment> \<open>one window more, shown or not\<close>
  "with_window shown kind node types st =
     st\<lparr>ws_windows := ws_windows st @ [(new_window kind node types)\<lparr>wn_shown := shown\<rparr>],
        ws_options := (if kind = PacketsW then (ws_options st)(node := Some (filter_options (new_window kind node types)))
                       else ws_options st),
        ws_list := ws_list st @ [length (ws_windows st)]\<rparr>"

lemma bares_shown:
  "bares s = bares t \<Longrightarrow> bares (set_window i ((ws_windows s ! i)\<lparr>wn_shown := b\<rparr>) s) =
    bares (set_window i ((ws_windows t ! i)\<lparr>wn_shown := b\<rparr>) t)"
proof -
  assume e: "bares s = bares t"
  then have l: "length (ws_windows s) = length (ws_windows t)" by (metis bares_fields(1))
  have "bare ((ws_windows s ! i)\<lparr>wn_shown := b\<rparr>) = bare ((ws_windows t ! i)\<lparr>wn_shown := b\<rparr>)" if "i < length (ws_windows t)"
  proof -
    have "bare (w\<lparr>wn_shown := b\<rparr>) = (bare w)\<lparr>wn_shown := b\<rparr>" for w by (simp add: bare_def)
    then show ?thesis using that l e by (metis bares_fields(4))
  qed
  moreover have "bares (set_window i w s) = (bares s)\<lparr>ws_windows := (ws_windows (bares s))[i := bare w]\<rparr>" for w s
    by (simp add: bares_def set_window_def map_update)
  ultimately show ?thesis using e l by (cases "i < length (ws_windows t)") (simp_all add: not_less list_update_beyond)
qed

lemma open_window_bares:
  "bares (fst (open_window v kind node types st)) = bares (with_window (snd (open_window v kind node types st) = Inr ()) kind node types st)"
proof -
  let ?i = "length (ws_windows st)" and ?s = "with_window False kind node types st"
  have n: "new_window kind node types\<lparr>wn_shown := False\<rparr> = new_window kind node types"
    "wn_node (new_window k node types) = node" for k by (simp_all add: new_window_def)
  have a: "open_window v kind node types st = (case update_one v ?i ?s of
       (st, Inl e) \<Rightarrow> (st, Inl e)
     | (st, Inr _) \<Rightarrow> (set_window ?i ((ws_windows st ! ?i)\<lparr>wn_shown := True\<rparr>) st, Inr ()))"
    by (simp add: open_window_def add_information_window_def with_window_def update_capture_options_def Let_def n)
  have "set_window ?i ((ws_windows ?s ! ?i)\<lparr>wn_shown := True\<rparr>) ?s = with_window True kind node types st"
    by (simp add: with_window_def set_window_def)
  with bares_shown [OF bares_update_one [of v ?i ?s]] show ?thesis
    unfolding a using bares_update_one [of v ?i ?s] by (auto split: prod.split sum.split simp del: bares_update_one)
qed

lemma windows_ok_with: "windows_ok st \<Longrightarrow> windows_ok (with_window b kind node types st)"
proof -
  assume ok: "windows_ok st"
  let ?ws = "ws_windows st" and ?w = "(new_window kind node types)\<lparr>wn_shown := b\<rparr>"
  have "filter (\<lambda>i. \<not> wn_destroyed ((?ws @ [?w]) ! i)) [0..<length ?ws] = filter (\<lambda>i. \<not> wn_destroyed (?ws ! i)) [0..<length ?ws]"
    by (rule filter_cong) (simp_all add: nth_append)
  moreover have "\<not> wn_destroyed ?w" by (simp add: new_window_def)
  ultimately show ?thesis using ok by (auto simp: windows_ok_def with_window_def nth_append less_Suc_eq)
qed

lemma filter_ok_with:
  assumes "filter_ok st"
  shows "filter_ok (with_window b kind node types st)"
proof -
  let ?s = "with_window b kind node types st" and ?i = "length (ws_windows st)"
  have p: "packets_of n ?s j \<longleftrightarrow> packets_of n st j \<or> j = ?i \<and> kind = PacketsW \<and> node = n" for n j
    by (auto simp: packets_of_def with_window_def nth_append new_window_def less_Suc_eq)
  have old: "packets_of n st j \<Longrightarrow> j < ?i \<and> ws_windows ?s ! j = ws_windows st ! j" for n j
    by (simp add: packets_of_def with_window_def nth_append)
  have new: "filter_options (ws_windows ?s ! ?i) = filter_options (new_window kind node types)"
    by (simp add: with_window_def filter_options_def)
  have o: "ws_options ?s n = (if kind = PacketsW \<and> node = n then Some (filter_options (new_window kind node types)) else ws_options st n)" for n
    by (simp add: with_window_def)
  show ?thesis unfolding filter_ok_def
  proof (intro allI)
    fix n
    show "if \<exists>i. packets_of n ?s i then \<exists>i. packets_of n ?s i \<and> ws_options ?s n = Some (filter_options (ws_windows ?s ! i))
      else ws_options ?s n = None"
    proof (cases "kind = PacketsW \<and> node = n")
      case True
      then have "packets_of n ?s ?i" using p by blast
      moreover have "ws_options ?s n = Some (filter_options (ws_windows ?s ! ?i))" using True o [of n] new by presburger
      ultimately show ?thesis by auto
    next
      case False
      then have q: "packets_of n ?s j = packets_of n st j" for j using p by blast
      have "ws_options ?s n = ws_options st n" by (simp only: o False if_False)
      with assms old show ?thesis unfolding filter_ok_def q by metis
    qed
  qed
qed

lemma packets_of_set:
  "i < length (ws_windows st) \<Longrightarrow> wn_kind w = wn_kind (ws_windows st ! i) \<Longrightarrow> wn_node w = wn_node (ws_windows st ! i) \<Longrightarrow>
    packets_of n (set_window i w st) j = packets_of n st j"
  by (auto simp: packets_of_def set_window_def nth_list_update)

lemma response_open:
  assumes "windows_ok st" "is_open st i"
  shows "response i st = ((set_window i ((ws_windows st ! i)\<lparr>wn_shown := False, wn_destroyed := True\<rparr>) st)
      \<lparr>ws_list := remove1 i (ws_list st)\<rparr>, Inr ())"
  using assms by (auto simp: response_def remove_information_window_def windows_ok_def set_window_def)

lemma windows_ok_response:
  assumes "windows_ok st" "is_open st i"
  shows "windows_ok (fst (response i st))"
proof -
  let ?ws = "ws_windows st" and ?w = "(ws_windows st ! i)\<lparr>wn_shown := False, wn_destroyed := True\<rparr>"
  have "remove1 i (ws_list st) = filter (\<lambda>j. j \<noteq> i \<and> \<not> wn_destroyed (?ws ! j)) [0..<length ?ws]"
    using assms(1) by (simp add: windows_ok_def distinct_remove1_removeAll removeAll_filter_not_eq)
      (metis (mono_tags, lifting))
  also have "\<dots> = filter (\<lambda>j. \<not> wn_destroyed (?ws[i := ?w] ! j)) [0..<length ?ws]"
    using assms(2) by (intro filter_cong) (auto simp: nth_list_update)
  finally show ?thesis
    using assms by (auto simp: response_open windows_ok_def set_window_def nth_list_update)
qed

lemma filter_ok_response:
  assumes "windows_ok st" "filter_ok st" "is_open st i"
  shows "filter_ok (fst (response i st))"
proof -
  let ?w = "(ws_windows st ! i)\<lparr>wn_shown := False, wn_destroyed := True\<rparr>" and ?s = "fst (response i st)"
  have p: "packets_of n ?s j = packets_of n st j" for n j
    using packets_of_set [of i st ?w n j] assms by (simp add: response_open packets_of_def)
  have "ws_options ?s = ws_options st" "filter_options (ws_windows ?s ! j) = filter_options (ws_windows st ! j)" for j
    using assms by (simp_all add: response_open set_window_def nth_list_update filter_options_def)
  with assms(2) show ?thesis by (simp only: filter_ok_def p)
qed

lemma windows_ok_edit:
  "wn_shown (change (ws_windows st ! i)) = wn_shown (ws_windows st ! i) \<Longrightarrow>
    wn_destroyed (change (ws_windows st ! i)) = wn_destroyed (ws_windows st ! i) \<Longrightarrow> windows_ok st \<Longrightarrow> windows_ok (edit_filter i change st)"
proof -
  assume a: "wn_shown (change (ws_windows st ! i)) = wn_shown (ws_windows st ! i)"
    "wn_destroyed (change (ws_windows st ! i)) = wn_destroyed (ws_windows st ! i)" and ok: "windows_ok st"
  have "wn_shown ((ws_windows st)[i := change (ws_windows st ! i)] ! j) = wn_shown (ws_windows st ! j)"
    "wn_destroyed ((ws_windows st)[i := change (ws_windows st ! i)] ! j) = wn_destroyed (ws_windows st ! j)"
    if "j < length (ws_windows st)" for j
    using a that by (cases "j = i"; simp)+
  moreover from this have "filter (\<lambda>j. \<not> wn_destroyed ((ws_windows st)[i := change (ws_windows st ! i)] ! j)) [0..<length (ws_windows st)] =
      filter (\<lambda>j. \<not> wn_destroyed (ws_windows st ! j)) [0..<length (ws_windows st)]"
    by (intro filter_cong) simp_all
  ultimately show ?thesis
    using ok by (simp add: windows_ok_def edit_filter_def update_capture_options_def set_window_def Let_def)
qed

lemma filter_ok_edit:
  assumes ok: "filter_ok st" and i: "packets_of m st i"
    and c: "wn_kind (change (ws_windows st ! i)) = PacketsW" "wn_node (change (ws_windows st ! i)) = m"
  shows "filter_ok (edit_filter i change st)"
proof -
  let ?s = "edit_filter i change st"
  have l: "i < length (ws_windows st)" using i by (simp add: packets_of_def)
  have p: "packets_of n ?s j = packets_of n st j" for n j
    using packets_of_set [OF l, of "change (ws_windows st ! i)" n j] i c
    by (simp add: packets_of_def edit_filter_def update_capture_options_def Let_def)
  have o: "ws_options ?s = (ws_options st)(m := Some (filter_options (change (ws_windows st ! i))))"
    and w: "ws_windows ?s = (ws_windows st)[i := change (ws_windows st ! i)]"
    using l c by (simp_all add: edit_filter_def update_capture_options_def set_window_def Let_def)
  show ?thesis unfolding filter_ok_def p
  proof (intro allI)
    fix n
    show "if \<exists>j. packets_of n st j then \<exists>j. packets_of n st j \<and> ws_options ?s n = Some (filter_options (ws_windows ?s ! j))
      else ws_options ?s n = None"
    proof (cases "n = m")
      case True
      then have "packets_of n st i \<and> ws_options ?s n = Some (filter_options (ws_windows ?s ! i))" using i l by (simp add: o w)
      then show ?thesis by auto
    next
      case False
      then have "packets_of n st j \<Longrightarrow> ws_windows ?s ! j = ws_windows st ! j" for j
        using i by (cases "j = i") (auto simp: packets_of_def w)
      moreover have "ws_options ?s n = ws_options st n" using False by (simp add: o)
      ultimately show ?thesis using ok unfolding filter_ok_def by metis
    qed
  qed
qed

lemma edit_fields [simp]:
  "wn_kind (select_all b w) = wn_kind w" "wn_node (select_all b w) = wn_node w"
  "wn_shown (select_all b w) = wn_shown w" "wn_destroyed (select_all b w) = wn_destroyed w"
  "wn_kind (edit_cell k b w) = wn_kind w" "wn_node (edit_cell k b w) = wn_node w"
  "wn_shown (edit_cell k b w) = wn_shown w" "wn_destroyed (edit_cell k b w) = wn_destroyed w"
  "wn_kind (toggle_and b w) = wn_kind w" "wn_node (toggle_and b w) = wn_node w"
  "wn_shown (toggle_and b w) = wn_shown w" "wn_destroyed (toggle_and b w) = wn_destroyed w"
  by (simp_all add: select_all_def edit_cell_def toggle_and_def)

lemma windows_step_ok:
  "windows_step types st st' \<Longrightarrow> windows_ok st \<and> filter_ok st \<Longrightarrow> windows_ok st' \<and> filter_ok st'"
proof (induction rule: windows_step.induct)
  case (opened st v kind node)
  then show ?case
    using windows_ok_with filter_ok_with
    by (metis (no_types) windows_ok_bares filter_ok_bares open_window_bares)
next
  case (closed st i)
  then show ?case by (simp add: windows_ok_response filter_ok_response)
next
  case (updated st v)
  then show ?case by (metis windows_ok_bares filter_ok_bares bares_update_windows)
next
  case (edited st i change b k)
  then show ?case
    using windows_ok_edit [of change st i] filter_ok_edit [of st "wn_node (ws_windows st ! i)" i change]
    by (auto simp: packets_of_def)
qed

interpretation windows: preserved "windows_step types" "\<lambda>st. windows_ok st \<and> filter_ok st"
  by unfold_locales (rule windows_step_ok)

lemma no_windows_ok: "windows_ok no_windows \<and> filter_ok no_windows"
  by (simp add: windows_ok_def filter_ok_def packets_of_def no_windows_def)

section \<open>What a window shows\<close>

definition updates :: "sim_view \<Rightarrow> windows \<Rightarrow> nat \<Rightarrow> bool" where
  "updates v st i = (snd (update_window v (ws_windows st ! i)) = Inr ())"

definition refreshed :: "sim_view \<Rightarrow> nat list \<Rightarrow> windows \<Rightarrow> window list" where
  \<comment> \<open>the windows of the list show what there is, up to and with the first whose update fails\<close>
  "refreshed v is st = map (\<lambda>i. let w = ws_windows st ! i in
     if i \<in> set (take (Suc (length (takeWhile (updates v st) is))) is) then fst (update_window v w) else w)
     [0..<length (ws_windows st)]"

lemma update_windows_list:
  assumes "distinct is" "\<forall>i \<in> set is. i < length (ws_windows st)"
  shows "update_windows v is st = (st\<lparr>ws_windows := refreshed v is st\<rparr>,
    case dropWhile (updates v st) is of [] \<Rightarrow> Inr () | i # _ \<Rightarrow> snd (update_window v (ws_windows st ! i)))"
  using assms
proof (induction "is" arbitrary: st)
  case Nil
  have "refreshed v [] st = ws_windows st" by (simp add: refreshed_def Let_def map_nth)
  then show ?case by simp
next
  case (Cons i "is")
  obtain w r where u: "update_window v (ws_windows st ! i) = (w, r)" by fastforce
  let ?s = "set_window i w st"
  have s: "update_one v i st = (?s, r)" by (simp add: update_one_def u)
  have same: "ws_windows ?s ! j = ws_windows st ! j" if "j \<in> set is" for j
  proof -
    from that Cons.prems(1) have "i \<noteq> j" by auto
    then show ?thesis by (simp add: set_window_def)
  qed
  show ?case
  proof (cases r)
    case (Inl e)
    then have "refreshed v (i # is) st = ws_windows ?s"
      using Cons.prems(2) u by (intro nth_equalityI) (auto simp: refreshed_def updates_def set_window_def Let_def nth_list_update)
    with Inl s u show ?thesis by (simp add: updates_def set_window_def)
  next
    case (Inr x)
    have up: "\<And>j. j \<in> set is \<Longrightarrow> updates v ?s j = updates v st j" by (simp add: updates_def same)
    then have t: "takeWhile (updates v ?s) is = takeWhile (updates v st) is" "dropWhile (updates v ?s) is = dropWhile (updates v st) is"
      by (auto cong: takeWhile_cong dropWhile_cong)
    let ?S = "set (take (Suc (length (takeWhile (updates v st) is))) is)"
    have "updates v st i" using u Inr by (simp add: updates_def)
    then have "refreshed v (i # is) st = map (\<lambda>j. if j = i \<or> j \<in> ?S then fst (update_window v (ws_windows st ! j)) else ws_windows st ! j)
        [0..<length (ws_windows st)]"
      by (simp add: refreshed_def Let_def)
    moreover have "refreshed v is ?s = map (\<lambda>j. if j \<in> ?S then fst (update_window v (ws_windows ?s ! j)) else ws_windows ?s ! j)
        [0..<length (ws_windows st)]"
      unfolding refreshed_def t Let_def by (simp add: set_window_def)
    moreover have "i \<notin> ?S" using Cons.prems(1) by (auto dest: in_set_takeD)
    moreover have "ws_windows ?s ! j = (if j = i then w else ws_windows st ! j)" if "j < length (ws_windows st)" for j
      using that by (simp add: set_window_def)
    ultimately have "refreshed v (i # is) st = refreshed v is ?s" using u by auto
    moreover have "?s\<lparr>ws_windows := ws\<rparr> = st\<lparr>ws_windows := ws\<rparr>" for ws by (simp add: set_window_def)
    moreover have "update_windows v is ?s = (?s\<lparr>ws_windows := refreshed v is ?s\<rparr>,
        case dropWhile (updates v ?s) is of [] \<Rightarrow> Inr () | j # _ \<Rightarrow> snd (update_window v (ws_windows ?s ! j)))"
      using Cons.prems by (intro Cons.IH) (simp_all add: set_window_def)
    moreover have "(case dropWhile (updates v st) is of [] \<Rightarrow> Inr () | j # _ \<Rightarrow> snd (update_window v (ws_windows ?s ! j))) =
        (case dropWhile (updates v st) is of [] \<Rightarrow> Inr () | j # _ \<Rightarrow> snd (update_window v (ws_windows st ! j)))"
    proof (cases "dropWhile (updates v st) is")
      case (Cons j js)
      then have "j \<in> set is" by (metis list.set_intros(1) set_dropWhileD)
      then show ?thesis by (simp only: Cons list.case same)
    qed (simp only: list.case)
    moreover have "update_windows v (i # is) st = update_windows v is ?s" using s Inr by simp
    moreover have "dropWhile (updates v st) (i # is) = dropWhile (updates v st) is" using \<open>updates v st i\<close> by simp
    ultimately show ?thesis by (simp only: t)
  qed
qed

lemma windows_listed: "windows_ok st \<Longrightarrow> distinct (ws_list st) \<and> (\<forall>i \<in> set (ws_list st). i < length (ws_windows st))"
  unfolding windows_ok_def by (metis atLeastLessThan_iff distinct_filter distinct_upt filter_is_subset set_upt subsetD)

section \<open>Windows that cannot be closed\<close>

definition lacks :: "sim_view \<Rightarrow> window \<Rightarrow> bool" where
  \<comment> \<open>the node has not got what the window is about\<close>
  "lacks v w = (wn_kind w = RoutingW \<and> sn_ipv4 (sv_node v (wn_node w)) = None \<or>
     wn_kind w \<in> {FibW, PitW, CsW, FacesW} \<and> sn_ndn (sv_node v (wn_node w)) = None)"

definition zombie :: "window_kind \<Rightarrow> nat \<Rightarrow> nat \<Rightarrow> windows \<Rightarrow> bool" where
  "zombie kind node i st = (i \<in> set (ws_list st) \<and> i < length (ws_windows st) \<and> \<not> wn_shown (ws_windows st ! i) \<and>
     wn_kind (ws_windows st ! i) = kind \<and> wn_node (ws_windows st ! i) = node)"

lemma lacks_update: "lacks v w \<Longrightarrow> snd (update_window v w) = Inl AttributeError"
  by (auto simp: lacks_def update_window_def one_table_def update_ipv4_def update_ndn_def Let_def split: window_kind.split)

lemma zombie_bares: "zombie kind node i (bares st) = zombie kind node i st"
  by (auto simp: zombie_def)

lemma zombie_step: "windows_step types st st' \<Longrightarrow> zombie kind node i st \<Longrightarrow> zombie kind node i st'"
proof (induction rule: windows_step.induct)
  case (opened st v k n)
  then have "zombie kind node i (with_window b k n types st)" for b by (simp add: zombie_def with_window_def nth_append)
  then show ?case by (metis zombie_bares open_window_bares)
next
  case (closed st j)
  then have "i \<noteq> j" by (auto simp: zombie_def)
  with closed show ?case by (simp add: zombie_def response_def remove_information_window_def set_window_def Let_def)
next
  case (updated st v)
  then show ?case by (metis zombie_bares bares_update_windows)
next
  case (edited st j change b k)
  then have "i \<noteq> j" by (auto simp: zombie_def)
  with edited show ?case by (simp add: zombie_def edit_filter_def update_capture_options_def set_window_def Let_def)
qed

interpretation zombie: preserved "windows_step types" "zombie kind node i"
  by unfold_locales (rule zombie_step)

lemma open_lacking:
  assumes "lacks v (new_window kind node types)"
  shows "snd (open_window v kind node types st) = Inl AttributeError \<and>
    zombie kind node (length (ws_windows st)) (fst (open_window v kind node types st))"
proof -
  let ?i = "length (ws_windows st)" and ?o = "open_window v kind node types st"
  have k: "kind \<noteq> PacketsW" and n: "wn_kind (new_window kind node types) = kind" "wn_node (new_window kind node types) = node"
    using assms by (auto simp: lacks_def new_window_def)
  have "snd (update_window v (new_window kind node types)) = Inl AttributeError" by (rule lacks_update [OF assms])
  then have e: "snd ?o = Inl AttributeError"
    using k by (auto simp: open_window_def add_information_window_def update_one_def Let_def nth_append split: prod.split)
  then have "bares (fst ?o) = bares (with_window False kind node types st)" by (simp add: open_window_bares)
  moreover have "zombie kind node ?i (with_window False kind node types st)"
    by (simp add: zombie_def with_window_def n)
  ultimately show ?thesis using e by (metis zombie_bares)
qed

lemma update_windows_lacking:
  "i \<in> set is \<Longrightarrow> i < length (ws_windows st) \<Longrightarrow> lacks v (ws_windows st ! i) \<Longrightarrow> snd (update_windows v is st) \<noteq> Inr ()"
proof (induction "is" arbitrary: st)
  case (Cons j "is")
  obtain s r where u: "update_one v j st = (s, r)" by fastforce
  then have b: "bares s = bares st" using bares_update_one [of v j st] by simp
  then have "length (ws_windows s) = length (ws_windows st)" by (metis bares_fields(1))
  moreover have "bare (ws_windows s ! i) = bare (ws_windows st ! i)" using b Cons.prems(2) calculation by (metis bares_fields(4))
  then have "lacks v (ws_windows s ! i)" using Cons.prems(3) unfolding lacks_def by (metis bare_fields(1,2))
  ultimately have "snd (update_windows v is s) \<noteq> Inr ()" if "i \<in> set is" using that Cons by simp
  moreover have "r \<noteq> Inr ()" if "j = i"
    using that lacks_update [OF Cons.prems(3)] u by (auto simp: update_one_def split: prod.splits)
  ultimately show ?case using Cons.prems(1) u by (auto split: sum.split)
qed simp

text \<open>C31: The list of information windows always holds those that have been made and not closed, in
  order. A window that is shown can always be closed, which takes it, and only it, off the list and
  leaves the capture of packets as it is. The simulator captures nothing at a node on which no window of
  the last packets has ever been opened; else it captures what one of the windows ever opened on the node
  selects, which may be one that is closed, so with only one ever opened it is that one; and whenever the
  filter of such a window is edited, it is the one that has been edited.\<close>

theorem information_windows:
  assumes "(windows_step types)\<^sup>*\<^sup>* no_windows st"
  shows "ws_list st = filter (\<lambda>i. \<not> wn_destroyed (ws_windows st ! i)) [0..<length (ws_windows st)] \<and>
    (\<forall>i. is_open st i \<longrightarrow> snd (response i st) = Inr () \<and> ws_list (fst (response i st)) = filter (\<lambda>j. j \<noteq> i) (ws_list st) \<and>
       ws_options (fst (response i st)) = ws_options st \<and>
       (\<forall>b k. \<forall>change \<in> {select_all b, edit_cell k b, toggle_and b}. wn_kind (ws_windows st ! i) = PacketsW \<longrightarrow>
          ws_options (edit_filter i change st) (wn_node (ws_windows st ! i)) =
            Some (filter_options (ws_windows (edit_filter i change st) ! i)))) \<and>
    (\<forall>n. if \<exists>i < length (ws_windows st). wn_kind (ws_windows st ! i) = PacketsW \<and> wn_node (ws_windows st ! i) = n
       then \<exists>i < length (ws_windows st). wn_kind (ws_windows st ! i) = PacketsW \<and> wn_node (ws_windows st ! i) = n \<and>
         ws_options st n = Some (filter_options (ws_windows st ! i))
       else ws_options st n = None)"
proof -
  have ok: "windows_ok st \<and> filter_ok st" by (rule windows.reach [OF assms no_windows_ok])
  then have "distinct (ws_list st)" by (simp add: windows_listed)
  then have "remove1 i (ws_list st) = filter (\<lambda>j. j \<noteq> i) (ws_list st)" for i
    by (metis (mono_tags, lifting) distinct_remove1_removeAll filter_cong removeAll_filter_not_eq)
  then have "snd (response i st) = Inr () \<and> ws_list (fst (response i st)) = filter (\<lambda>j. j \<noteq> i) (ws_list st) \<and>
      ws_options (fst (response i st)) = ws_options st" if "is_open st i" for i
    using ok that by (simp add: response_open set_window_def)
  moreover have "ws_options (edit_filter i change st) (wn_node (ws_windows st ! i)) =
      Some (filter_options (ws_windows (edit_filter i change st) ! i))"
    if "is_open st i" "change \<in> {select_all b, edit_cell k b, toggle_and b}" for i change b k
    using that by (auto simp: edit_filter_def update_capture_options_def set_window_def Let_def)
  ultimately show ?thesis using ok unfolding windows_ok_def filter_ok_def packets_of_def by (simp only: conj_assoc) blast
qed

text \<open>An update of the view goes through the windows in the order of the list and stops with the
  first that fails: these windows show what there is now, the others what they showed, and the
  exception is that of the first whose update raises.\<close>

theorem update_view_windows:
  assumes "(windows_step types)\<^sup>*\<^sup>* no_windows st"
  shows "update_windows v (ws_list st) st = (st\<lparr>ws_windows := refreshed v (ws_list st) st\<rparr>,
    case dropWhile (updates v st) (ws_list st) of [] \<Rightarrow> Inr () | i # _ \<Rightarrow> snd (update_window v (ws_windows st ! i)))"
  using windows.reach [OF assms no_windows_ok] windows_listed update_windows_list by blast

text \<open>C30: A window with the routes of a node that has no IPv4, or with the tables of one that has no NDN
  stack, raises in its constructor, but stays on the list without being shown, so that nothing takes it
  off again: whatever follows, every update of the view raises until the node gets the protocol.\<close>

theorem failed_window_stays:
  assumes "lacks v (new_window kind node types)"
    and "(windows_step types)\<^sup>*\<^sup>* (fst (open_window v kind node types st)) st'" and "lacks v' (new_window kind node types)"
  shows "snd (open_window v kind node types st) = Inl AttributeError \<and>
    length (ws_windows st) \<in> set (ws_list st') \<and> \<not> wn_shown (ws_windows st' ! length (ws_windows st)) \<and>
    snd (update_windows v' (ws_list st') st') \<noteq> Inr ()"
proof -
  let ?i = "length (ws_windows st)"
  have "zombie kind node ?i st'" using zombie.reach assms(2) open_lacking [OF assms(1)] by blast
  then have i: "?i \<in> set (ws_list st')" "?i < length (ws_windows st')" "\<not> wn_shown (ws_windows st' ! ?i)"
    and "lacks v' (ws_windows st' ! ?i)"
    using assms(3) by (auto simp: zombie_def lacks_def new_window_def)
  then have "snd (update_windows v' (ws_list st') st') \<noteq> Inr ()" by (simp add: update_windows_lacking)
  with i open_lacking [OF assms(1)] show ?thesis by blast
qed

section \<open>Concrete windows\<close>

definition example_view :: "bool \<Rightarrow> sim_view" where
  \<comment> \<open>node 3 has one route, or no IPv4\<close>
  "example_view routes =
     \<lparr>sv_node = (\<lambda>_. \<lparr>sn_ipv4 = (if routes then Some \<lparr>ip_routing = Some (ListRouting [(StaticRouting
             [\<lparr>rt_dest = ''10.1.1.0'', rt_gateway = ''0.0.0.0'', rt_interface = 1\<rparr>], -10), (OtherRouting, 0)]),
           ip_device = (\<lambda>i. if i = 1 then Some \<lparr>dv_name = [], dv_index = 0\<rparr> else None)\<rparr> else None),
         sn_olsr = None, sn_device = (\<lambda>_. \<lparr>dv_name = [], dv_index = 0\<rparr>),
         sn_sent = [\<lparr>pk_time = 1, pk_device = None, pk_size = 64, pk_contents = ''payload''\<rparr>], sn_received = [], sn_dropped = [],
         sn_ndn = None\<rparr>),
      sv_statistics = [], sv_period = 1\<rparr>"

definition example_windows :: windows where
  \<comment> \<open>the last packets of node 3, without any header selected, and its routes\<close>
  "example_windows =
     fst (open_window (example_view True) RoutingW 3 [7, 8]
       (edit_filter 0 (select_all False) (fst (open_window (example_view True) PacketsW 3 [7, 8] no_windows))))"

lemma example_opened:
  "is_open (fst (open_window (example_view True) PacketsW 3 [7, 8] no_windows)) 0 \<and>
    wn_kind (ws_windows (fst (open_window (example_view True) PacketsW 3 [7, 8] no_windows)) ! 0) = PacketsW"
  by code_simp

lemma example_reached: "(windows_step [7, 8])\<^sup>*\<^sup>* no_windows example_windows"
proof -
  let ?a = "fst (open_window (example_view True) PacketsW 3 [7, 8] no_windows)"
  have "windows_step [7, 8] no_windows ?a" by (rule opened)
  moreover have "windows_step [7, 8] ?a (edit_filter 0 (select_all False) ?a)"
    using example_opened by (intro edited [where b = False and k = 0]) simp_all
  moreover have "windows_step [7, 8] (edit_filter 0 (select_all False) ?a) example_windows"
    unfolding example_windows_def by (rule opened)
  ultimately show ?thesis by (meson converse_rtranclp_into_rtranclp rtranclp.rtrancl_refl)
qed

definition crowded_windows :: windows where
  "crowded_windows = fst (open_window (example_view True) PacketsW 3 [7, 8] example_windows)"

lemma crowded_reached: "(windows_step [7, 8])\<^sup>*\<^sup>* no_windows crowded_windows"
  unfolding crowded_windows_def using example_reached opened by (rule rtranclp.rtrancl_into_rtrancl)

text \<open>A second window on the packets of the node is opened and closed: its filter stays with the simulator,
  although the first window is the only one left and has nothing selected.\<close>

lemma information_windows_witness:
  "(windows_step [7, 8])\<^sup>*\<^sup>* no_windows crowded_windows \<and> is_open crowded_windows 0 \<and> ws_list crowded_windows = [0, 1, 2] \<and>
    ws_list (fst (response 2 crowded_windows)) = [0, 1] \<and> snd (response 2 crowded_windows) = Inr () \<and>
    filter_options (ws_windows crowded_windows ! 0) = \<lparr>co_and = False, co_headers = [], co_last_packets = 100\<rparr> \<and>
    ws_options (fst (response 2 crowded_windows)) 3 = Some \<lparr>co_and = False, co_headers = [7, 8], co_last_packets = 100\<rparr>"
proof -
  have e: "is_open crowded_windows 0" "is_open crowded_windows 2" "length (ws_windows crowded_windows) = 3"
    "map wn_destroyed (ws_windows crowded_windows) = [False, False, False]"
    "filter_options (ws_windows crowded_windows ! 0) = \<lparr>co_and = False, co_headers = [], co_last_packets = 100\<rparr>"
    "ws_options crowded_windows 3 = Some \<lparr>co_and = False, co_headers = [7, 8], co_last_packets = 100\<rparr>" by code_simp+
  have "\<forall>i \<in> set [0..<3]. \<not> wn_destroyed (ws_windows crowded_windows ! i)" by code_simp
  then have "filter (\<lambda>i. \<not> wn_destroyed (ws_windows crowded_windows ! i)) [0..<length (ws_windows crowded_windows)] = [0, 1, 2]"
    unfolding e(3) by (simp add: upt_rec)
  with information_windows [OF crowded_reached] e crowded_reached show ?thesis by simp
qed

lemma update_view_windows_witness:
  "snd (update_windows (example_view False) (ws_list example_windows) example_windows) = Inl AttributeError \<and>
    map wn_tables (ws_windows (fst (update_windows (example_view True) (ws_list example_windows) example_windows))) =
      [[[[NumC 1, StrC ''(unknown)'', IntC 64, StrC ''payload'']], [], []],
       [[[StrC ''10.1.1.0'', StrC ''0.0.0.0'', StrC ''(interface 1)'', StrC ''static'', IntC (-10)]]]]"
proof -
  have "(case dropWhile (updates (example_view False) example_windows) (ws_list example_windows) of [] \<Rightarrow> Inr ()
      | i # _ \<Rightarrow> snd (update_window (example_view False) (ws_windows example_windows ! i))) = Inl AttributeError"
    "map wn_tables (refreshed (example_view True) (ws_list example_windows) example_windows) =
      [[[[NumC 1, StrC ''(unknown)'', IntC 64, StrC ''payload'']], [], []],
       [[[StrC ''10.1.1.0'', StrC ''0.0.0.0'', StrC ''(interface 1)'', StrC ''static'', IntC (-10)]]]]" by code_simp+
  with update_view_windows [OF example_reached] show ?thesis by simp
qed

lemma failed_window_stays_witness:
  "snd (open_window (example_view False) RoutingW 3 [] example_windows) = Inl AttributeError \<and>
    ws_list (fst (open_window (example_view False) RoutingW 3 [] example_windows)) = [0, 1, 2] \<and>
    snd (update_windows (example_view False) [1, 2] (fst (response 0 (fst (open_window (example_view False) RoutingW 3 [] example_windows)))))
      \<noteq> Inr ()"
proof -
  let ?s = "fst (open_window (example_view False) RoutingW 3 [] example_windows)"
  have l: "lacks (example_view False) (new_window RoutingW 3 [])" by code_simp
  have o: "is_open ?s 0" "ws_list ?s = [0, 1, 2]" "ws_list (fst (response 0 ?s)) = [1, 2]" by code_simp+
  have "(windows_step [])\<^sup>*\<^sup>* ?s (fst (response 0 ?s))" by (rule r_into_rtranclp, rule closed, rule o(1))
  from failed_window_stays [OF l this l] o show ?thesis by simp
qed

end
