(* ===== verification/Flow_Stats.thy ===== *)
theory Flow_Stats
  imports Py_Prelude
begin

text \<open>
  \<open>src/src/flow-monitor/examples/flowmon-parse-results.py\<close>, which reads what the flow monitor has written
  and prints bit rates, delays and losses of the flows. An XML element is a tree; the flows of a
  simulation are a list and \<open>flow_map\<close> has their positions, because the classifier and the probes change
  them there. Numbers are exact; \<open>inf\<close> and \<open>nan\<close> are no numbers here, and what is printed are
  the values before they are rounded to two decimals.
\<close>

section \<open>Elements and numbers\<close>

datatype element = Element (el_tag: string) (el_attrs: "(string \<times> string) list") (el_children: "element list")

definition get_attr :: "element \<Rightarrow> string \<Rightarrow> string option" where
  "get_attr el name = map_of (el_attrs el) name"

definition el_findall :: "string \<Rightarrow> element \<Rightarrow> element list" where
  "el_findall tag el = filter (\<lambda>c. el_tag c = tag) (el_children el)"

definition el_findall2 :: "string \<Rightarrow> string \<Rightarrow> element \<Rightarrow> element list" where
  \<comment> \<open>\<open>findall("tag1/tag2")\<close>\<close>
  "el_findall2 tag1 tag2 el = concat (map (el_findall tag2) (el_findall tag1 el))"

definition signed :: "string \<Rightarrow> int \<times> string" where
  "signed s = (if s \<noteq> [] \<and> hd s = CHR ''-'' then (- 1, tl s) else if s \<noteq> [] \<and> hd s = CHR ''+'' then (1, tl s) else (1, s))"

definition int_literal :: "bool \<Rightarrow> string option \<Rightarrow> int pyres" where
  \<comment> \<open>what Python 2 reads: blanks may follow the sign, and an \<open>L\<close> ends a \<open>long\<close>\<close>
  "int_literal is_long v = (case v of
     None \<Rightarrow> Inl TypeError
   | Some s \<Rightarrow>
       let (sign, digits) = signed (py_strip s);
           digits = dropWhile is_space digits;
           digits = (if is_long \<and> digits \<noteq> [] \<and> last digits \<in> set ''Ll'' then butlast digits else digits)
       in case of_base 10 digits of None \<Rightarrow> Inl ValueError | Some n \<Rightarrow> Inr (sign * int n))"

definition py_int :: "string option \<Rightarrow> int pyres" where
  "py_int = int_literal False"

definition py_long :: "string option \<Rightarrow> int pyres" where
  "py_long = int_literal True"

definition fraction :: "string \<Rightarrow> (rat \<times> string) option" where
  \<comment> \<open>digits with an optional point, and the rest\<close>
  "fraction s =
     (let whole = takeWhile is_digit s; rest = dropWhile is_digit s;
          point = (rest \<noteq> [] \<and> hd rest = CHR ''.'');
          part = (if point then takeWhile is_digit (tl rest) else []);
          rest = (if point then dropWhile is_digit (tl rest) else rest)
      in map_option (\<lambda>n. (of_nat n / 10 ^ length part, rest)) (of_base 10 (whole @ part)))"

definition ten_power :: "int \<Rightarrow> rat" where
  "ten_power e = (if e < 0 then 1 / 10 ^ nat (- e) else 10 ^ nat e)"

definition py_float :: "string option \<Rightarrow> rat pyres" where
  "py_float v = (case v of
     None \<Rightarrow> Inl TypeError
   | Some s \<Rightarrow>
       let (sign, t) = signed (py_strip s)
       in case fraction t of
            None \<Rightarrow> Inl ValueError
          | Some (x, []) \<Rightarrow> Inr (of_int sign * x)
          | Some (x, c # r) \<Rightarrow>
              let (esign, digits) = signed r
              in if c \<noteq> CHR ''e'' \<and> c \<noteq> CHR ''E'' then Inl ValueError
                 else case of_base 10 digits of
                        None \<Rightarrow> Inl ValueError
                      | Some n \<Rightarrow> Inr (of_int sign * x * ten_power (esign * int n)))"

definition without_unit :: "string option \<Rightarrow> string option pyres" where
  \<comment> \<open>\<open>s[:-4]\<close>\<close>
  "without_unit v = (case v of None \<Rightarrow> Inl TypeError | Some s \<Rightarrow> Inr (Some (py_slice_to s (- 4))))"

definition time_of :: "string option \<Rightarrow> int pyres" where
  "time_of v = rbind (without_unit v) py_long"

definition parse_time_ns :: "string option \<Rightarrow> int pyres" where
  \<comment> \<open>two characters more than the unit are cut off\<close>
  "parse_time_ns v = (case v of
     None \<Rightarrow> Inl AttributeError
   | Some s \<Rightarrow> if suffix ''ns'' s then time_of (Some s) else Inl ValueError)"

section \<open>Flows\<close>

record five_tuple =
  ft_source_address :: "string option"
  ft_destination_address :: "string option"
  ft_source_port :: int
  ft_destination_port :: int
  ft_protocol :: int

definition make_five_tuple :: "element \<Rightarrow> five_tuple pyres" where
  "make_five_tuple el =
     rbind (py_int (get_attr el ''sourcePort'')) (\<lambda>sp.
     rbind (py_int (get_attr el ''destinationPort'')) (\<lambda>dp.
     rbind (py_int (get_attr el ''protocol'')) (\<lambda>pr.
     Inr \<lparr>ft_source_address = get_attr el ''sourceAddress'', ft_destination_address = get_attr el ''destinationAddress'',
          ft_source_port = sp, ft_destination_port = dp, ft_protocol = pr\<rparr>)))"

definition histogram_bins :: "element \<Rightarrow> (rat \<times> rat \<times> int) list pyres" where
  "histogram_bins el = rmap (\<lambda>b.
     rbind (py_float (get_attr b ''start'')) (\<lambda>s.
     rbind (py_float (get_attr b ''width'')) (\<lambda>w.
     rbind (py_int (get_attr b ''count'')) (\<lambda>n. Inr (s, w, n))))) (el_findall ''bin'' el)"

record probe_stats =
  pr_probe :: int
  pr_packets :: int
  pr_bytes :: int
  pr_delay :: rat

record flow =
  fw_id :: int
  fw_hop_count :: rat
  fw_delay_mean :: "rat option"
  fw_packet_size_mean :: "rat option"
  fw_rx_bitrate :: "rat option"
  fw_tx_bitrate :: "rat option"
  fw_loss_ratio :: "rat option"
  fw_rx_duration :: rat
  fw_interruptions :: "(rat \<times> rat \<times> int) list option"
  fw_five_tuple :: "five_tuple option"   \<comment> \<open>\<open>None\<close>: the attribute is not set\<close>
  fw_probes :: "probe_stats list"

definition duration :: "element \<Rightarrow> string \<Rightarrow> string \<Rightarrow> rat pyres" where
  "duration el last_attr first_attr =
     rbind (time_of (get_attr el last_attr)) (\<lambda>l.
     rbind (time_of (get_attr el first_attr)) (\<lambda>f. Inr (of_int (l - f) / 10 ^ 9)))"

definition per_packet :: "int \<Rightarrow> rat pyres \<Rightarrow> rat option pyres" where
  \<comment> \<open>a mean over the packets received, where there are any\<close>
  "per_packet rx v = (if rx \<noteq> 0 then rbind v (\<lambda>x. Inr (Some (x / of_int rx))) else Inr None)"

definition bitrate :: "element \<Rightarrow> string \<Rightarrow> rat \<Rightarrow> rat option pyres" where
  "bitrate el attr d =
     (if d > 0 then rbind (py_long (get_attr el attr)) (\<lambda>n. Inr (Some (of_int (n * 8) / d))) else Inr None)"

definition loss_ratio :: "int \<Rightarrow> rat \<Rightarrow> rat option pyres" where
  "loss_ratio rx lost =
     (if rx = 0 then Inr None
      else if of_int rx + lost = 0 then Inl ZeroDivisionError
      else Inr (Some (lost / (of_int rx + lost))))"

definition make_flow :: "element \<Rightarrow> flow pyres" where
  "make_flow el =
     rbind (py_int (get_attr el ''flowId'')) (\<lambda>i.
     rbind (py_long (get_attr el ''rxPackets'')) (\<lambda>rx.
     rbind (py_long (get_attr el ''txPackets'')) (\<lambda>tx.
     rbind (duration el ''timeLastTxPacket'' ''timeFirstTxPacket'') (\<lambda>tx_duration.
     rbind (duration el ''timeLastRxPacket'' ''timeFirstRxPacket'') (\<lambda>rx_duration.
     rbind (per_packet rx (py_float (get_attr el ''timesForwarded''))) (\<lambda>hops.
     rbind (per_packet rx (rbind (without_unit (get_attr el ''delaySum'')) py_float)) (\<lambda>delay.
     rbind (per_packet rx (py_float (get_attr el ''rxBytes''))) (\<lambda>psize.
     rbind (bitrate el ''rxBytes'' rx_duration) (\<lambda>rx_rate.
     rbind (bitrate el ''txBytes'' tx_duration) (\<lambda>tx_rate.
     rbind (py_float (get_attr el ''lostPackets'')) (\<lambda>lost.
     rbind (loss_ratio rx lost) (\<lambda>ratio.
     rbind (case el_findall ''flowInterruptionsHistogram'' el of
              [] \<Rightarrow> Inr None
            | h # _ \<Rightarrow> rbind (histogram_bins h) (\<lambda>bins. Inr (Some bins))) (\<lambda>interruptions.
     Inr \<lparr>fw_id = i, fw_hop_count = (case hops of None \<Rightarrow> - 1000 | Some h \<Rightarrow> h + 1),
          fw_delay_mean = map_option (\<lambda>d. d / 10 ^ 9) delay, fw_packet_size_mean = psize,
          fw_rx_bitrate = rx_rate, fw_tx_bitrate = tx_rate, fw_loss_ratio = ratio, fw_rx_duration = rx_duration,
          fw_interruptions = interruptions, fw_five_tuple = None, fw_probes = []\<rparr>)))))))))))))"

section \<open>Simulations\<close>

record simulation =
  sm_flows :: "flow list"
  sm_map :: "(int \<times> nat) list"   \<comment> \<open>\<open>flow_map\<close>\<close>

definition add_flow :: "element \<Rightarrow> simulation \<Rightarrow> simulation pyres" where
  "add_flow el sim = rbind (make_flow el) (\<lambda>f.
     Inr \<lparr>sm_flows = sm_flows sim @ [f], sm_map = AList.update (fw_id f) (length (sm_flows sim)) (sm_map sim)\<rparr>)"

definition change_flow :: "int \<Rightarrow> (flow \<Rightarrow> flow) \<Rightarrow> simulation \<Rightarrow> simulation pyres" where
  "change_flow i change sim = (case map_of (sm_map sim) i of
     None \<Rightarrow> Inl KeyError
   | Some p \<Rightarrow> Inr (sim\<lparr>sm_flows := (sm_flows sim)[p := change (sm_flows sim ! p)]\<rparr>))"

definition classify_flow :: "element \<Rightarrow> simulation \<Rightarrow> simulation pyres" where
  "classify_flow el sim =
     rbind (py_int (get_attr el ''flowId'')) (\<lambda>i.
     rbind (make_five_tuple el) (\<lambda>t. change_flow i (\<lambda>f. f\<lparr>fw_five_tuple := Some t\<rparr>) sim))"

definition probe_delay :: "element \<Rightarrow> int \<Rightarrow> rat pyres" where
  "probe_delay el packets =
     (if packets > 0 then
        rbind (parse_time_ns (get_attr el ''delayFromFirstProbeSum'')) (\<lambda>d. Inr (of_int d / of_int packets))
      else Inr 0)"

definition add_probe_stats :: "int \<Rightarrow> element \<Rightarrow> simulation \<Rightarrow> simulation pyres" where
  "add_probe_stats probe el sim =
     rbind (py_int (get_attr el ''flowId'')) (\<lambda>i.
     rbind (py_int (get_attr el ''packets'')) (\<lambda>packets.
     rbind (py_long (get_attr el ''bytes'')) (\<lambda>bytes.
     rbind (probe_delay el packets) (\<lambda>delay.
     change_flow i (\<lambda>f. f\<lparr>fw_probes := fw_probes f @
       [\<lparr>pr_probe = probe, pr_packets = packets, pr_bytes = bytes, pr_delay = delay\<rparr>]\<rparr>) sim))))"

definition add_probe :: "element \<Rightarrow> simulation \<Rightarrow> simulation pyres" where
  "add_probe el sim =
     rbind (py_int (get_attr el ''index'')) (\<lambda>probe. rfold (add_probe_stats probe) (el_findall ''FlowStats'' el) sim)"

definition make_simulation :: "element \<Rightarrow> simulation pyres" where
  "make_simulation el = (case el_findall ''Ipv4FlowClassifier'' el of
     [classifier] \<Rightarrow>
       rbind (rfold add_flow (el_findall2 ''FlowStats'' ''Flow'' el) \<lparr>sm_flows = [], sm_map = []\<rparr>) (\<lambda>sim.
       rbind (rfold classify_flow (el_findall ''Flow'' classifier) sim) (\<lambda>sim.
       rfold add_probe (el_findall2 ''FlowProbes'' ''FlowProbe'' el) sim))
   | _ \<Rightarrow> Inl ValueError)"

section \<open>The report\<close>

datatype xml_event = StartOf element | EndOf element

fun xml_events :: "element \<Rightarrow> xml_event list" where
  \<comment> \<open>what \<open>iterparse\<close> gives for a document\<close>
  "xml_events (Element tag attrs cs) =
     StartOf (Element tag attrs cs) # concat (map xml_events cs) @ [EndOf (Element tag attrs cs)]"

fun read_events :: "xml_event list \<Rightarrow> int \<Rightarrow> simulation list pyres" where
  "read_events [] level = Inr []"
| "read_events (StartOf el # es) level = read_events es (level + 1)"
| "read_events (EndOf el # es) level =
     (if level - 1 = 0 \<and> el_tag el = ''FlowMonitor'' then
        rbind (make_simulation el) (\<lambda>sim. rbind (read_events es (level - 1)) (\<lambda>sims. Inr (sim # sims)))
      else read_events es (level - 1))"

record flow_report =
  fr_id :: int
  fr_protocol :: string
  fr_source :: "string option \<times> int"
  fr_destination :: "string option \<times> int"
  fr_tx_kbit :: "rat option"
  fr_rx_kbit :: "rat option"
  fr_delay_ms :: "rat option"
  fr_loss_percent :: "rat option"

definition protocol_name :: "int \<Rightarrow> string option" where
  "protocol_name p = (if p = 6 then Some ''TCP'' else if p = 17 then Some ''UDP'' else None)"

definition flow_line :: "flow \<Rightarrow> flow_report pyres" where
  "flow_line f = (case fw_five_tuple f of
     None \<Rightarrow> Inl AttributeError
   | Some t \<Rightarrow> (case protocol_name (ft_protocol t) of
       None \<Rightarrow> Inl KeyError
     | Some proto \<Rightarrow> Inr \<lparr>fr_id = fw_id f, fr_protocol = proto,
         fr_source = (ft_source_address t, ft_source_port t),
         fr_destination = (ft_destination_address t, ft_destination_port t),
         fr_tx_kbit = map_option (\<lambda>x. x / 1000) (fw_tx_bitrate f),
         fr_rx_kbit = map_option (\<lambda>x. x / 1000) (fw_rx_bitrate f),
         fr_delay_ms = map_option (\<lambda>x. x * 1000) (fw_delay_mean f),
         fr_loss_percent = map_option (\<lambda>x. x * 100) (fw_loss_ratio f)\<rparr>))"

fun print_flows :: "flow list \<Rightarrow> flow_report list \<times> unit pyres" where
  \<comment> \<open>what has been printed, and how the loop ends\<close>
  "print_flows [] = ([], Inr ())"
| "print_flows (f # fs) = (case flow_line f of
     Inl e \<Rightarrow> ([], Inl e)
   | Inr r \<Rightarrow> (case print_flows fs of (rs, res) \<Rightarrow> (r # rs, res)))"

definition main :: "element \<Rightarrow> flow_report list \<times> unit pyres" where
  "main doc = (case read_events (xml_events doc) 0 of
     Inl e \<Rightarrow> ([], Inl e)
   | Inr sims \<Rightarrow> print_flows (concat (map sm_flows sims)))"

section \<open>What is read\<close>

lemma read_inner: "0 < level \<Longrightarrow> read_events (xml_events el @ es) level = read_events es level"
proof (induction el arbitrary: level es)
  case (Element tag attrs cs)
  have inner: "0 < l \<Longrightarrow> read_events (concat (map xml_events ds) @ es') l = read_events es' l"
    if "set ds \<subseteq> set cs" for l :: int and ds es'
    using that by (induction ds arbitrary: es') (simp_all add: Element.IH)
  show ?case using Element.prems by (simp add: inner)
qed

lemma read_document:
  "read_events (xml_events doc) 0 =
    (if el_tag doc = ''FlowMonitor'' then rbind (make_simulation doc) (\<lambda>sim. Inr [sim]) else Inr [])"
proof (cases doc)
  case (Element tag attrs cs)
  have inner: "read_events (concat (map xml_events ds) @ es) 1 = read_events es 1" for ds es
    by (induction ds arbitrary: es) (simp_all add: read_inner)
  show ?thesis by (simp add: Element inner)
qed

lemma print_flows_prefix:
  "print_flows fs = (rs, res) \<Longrightarrow>
    rmap flow_line (take (length rs) fs) = Inr rs \<and>
    (case res of Inr _ \<Rightarrow> length rs = length fs
     | Inl e \<Rightarrow> length rs < length fs \<and> flow_line (fs ! length rs) = Inl e)"
  by (induction fs arbitrary: rs) (auto split: sum.splits prod.splits)

section \<open>The flows as functions of the document\<close>

definition class_entry :: "element \<Rightarrow> (int \<times> five_tuple) pyres" where
  "class_entry el = rbind (py_int (get_attr el ''flowId'')) (\<lambda>i. rbind (make_five_tuple el) (\<lambda>t. Inr (i, t)))"

definition stats_entry :: "int \<Rightarrow> element \<Rightarrow> (int \<times> probe_stats) pyres" where
  "stats_entry probe el =
     rbind (py_int (get_attr el ''flowId'')) (\<lambda>i.
     rbind (py_int (get_attr el ''packets'')) (\<lambda>packets.
     rbind (py_long (get_attr el ''bytes'')) (\<lambda>bytes.
     rbind (probe_delay el packets) (\<lambda>delay.
     Inr (i, \<lparr>pr_probe = probe, pr_packets = packets, pr_bytes = bytes, pr_delay = delay\<rparr>)))))"

definition probe_entries :: "element \<Rightarrow> (int \<times> probe_stats) list pyres" where
  "probe_entries el = rbind (py_int (get_attr el ''index'')) (\<lambda>probe. rmap (stats_entry probe) (el_findall ''FlowStats'' el))"

definition set_tuple :: "five_tuple \<Rightarrow> flow \<Rightarrow> flow" where
  "set_tuple t f = f\<lparr>fw_five_tuple := Some t\<rparr>"

definition append_stats :: "probe_stats \<Rightarrow> flow \<Rightarrow> flow" where
  "append_stats s f = f\<lparr>fw_probes := fw_probes f @ [s]\<rparr>"

lemma rbind_assoc: "rbind (rbind m f) g = rbind m (\<lambda>x. rbind (f x) g)"
  by (cases m) simp_all

lemma classify_flow_entry: "classify_flow el sim = rbind (class_entry el) (\<lambda>(i, t). change_flow i (set_tuple t) sim)"
  by (simp add: classify_flow_def class_entry_def set_tuple_def [abs_def] rbind_assoc)

lemma add_probe_stats_entry:
  "add_probe_stats probe el sim = rbind (stats_entry probe el) (\<lambda>(i, s). change_flow i (append_stats s) sim)"
  by (simp add: add_probe_stats_def stats_entry_def append_stats_def [abs_def] rbind_assoc)

definition indexed :: "simulation \<Rightarrow> bool" where
  \<comment> \<open>the map has the position of every flow, under its identifier\<close>
  "indexed sim \<longleftrightarrow> distinct (map fw_id (sm_flows sim)) \<and>
     (\<forall>i p. map_of (sm_map sim) i = Some p \<longleftrightarrow> p < length (sm_flows sim) \<and> fw_id (sm_flows sim ! p) = i)"

definition ids :: "simulation \<Rightarrow> int set" where
  "ids sim = fw_id ` set (sm_flows sim)"

lemma indexed_change:
  assumes "indexed sim" and "\<And>f. fw_id (g f) = fw_id f"
  shows "change_flow i g sim =
    (if i \<in> ids sim then Inr (sim\<lparr>sm_flows := map (\<lambda>f. if fw_id f = i then g f else f) (sm_flows sim)\<rparr>) else Inl KeyError)"
proof (cases "map_of (sm_map sim) i")
  case None
  have "i \<notin> ids sim"
  proof
    assume "i \<in> ids sim"
    then obtain p where "p < length (sm_flows sim)" "fw_id (sm_flows sim ! p) = i"
      unfolding ids_def by (metis imageE in_set_conv_nth)
    with assms(1) have "map_of (sm_map sim) i = Some p" by (simp add: indexed_def)
    with None show False by simp
  qed
  with None show ?thesis by (simp add: change_flow_def)
next
  case (Some p)
  with assms(1) have p: "p < length (sm_flows sim)" "fw_id (sm_flows sim ! p) = i" by (auto simp: indexed_def)
  have "(sm_flows sim)[p := g (sm_flows sim ! p)] = map (\<lambda>f. if fw_id f = i then g f else f) (sm_flows sim)"
  proof (rule nth_equalityI)
    fix q
    assume "q < length ((sm_flows sim)[p := g (sm_flows sim ! p)])"
    then have q: "q < length (sm_flows sim)" by simp
    have "fw_id (sm_flows sim ! q) = i \<longleftrightarrow> q = p"
      using assms(1) p q by (auto simp: indexed_def distinct_conv_nth)
    with p q show "(sm_flows sim)[p := g (sm_flows sim ! p)] ! q =
        map (\<lambda>f. if fw_id f = i then g f else f) (sm_flows sim) ! q"
      by (auto simp: nth_list_update)
  qed simp
  moreover have "i \<in> ids sim" using p by (auto simp: ids_def)
  ultimately show ?thesis using Some by (simp add: change_flow_def)
qed

lemma indexed_map:
  assumes "indexed sim" and "\<And>f. fw_id (g f) = fw_id f"
  shows "indexed (sim\<lparr>sm_flows := map g (sm_flows sim)\<rparr>)" and "ids (sim\<lparr>sm_flows := map g (sm_flows sim)\<rparr>) = ids sim"
proof -
  have "map fw_id (map g fs) = map fw_id fs" for fs using assms(2) by simp
  with assms show "indexed (sim\<lparr>sm_flows := map g (sm_flows sim)\<rparr>)"
    by (auto simp: indexed_def comp_def)
  show "ids (sim\<lparr>sm_flows := map g (sm_flows sim)\<rparr>) = ids sim"
    using assms(2) by (simp add: ids_def image_image)
qed

definition apply_entries :: "('v \<Rightarrow> flow \<Rightarrow> flow) \<Rightarrow> (int \<times> 'v) list \<Rightarrow> flow \<Rightarrow> flow" where
  "apply_entries g es f = fold (\<lambda>(i, v) f. if fw_id f = i then g v f else f) es f"

lemma apply_entries_simps [simp]:
  "apply_entries g [] f = f"
  "apply_entries g ((i, v) # es) f = apply_entries g es (if fw_id f = i then g v f else f)"
  by (simp_all add: apply_entries_def)

lemma change_all:
  assumes "indexed sim" and "\<And>v f. fw_id (g v f) = fw_id f"
  shows "rfold (\<lambda>(i, v). change_flow i (g v)) es sim =
    (if fst ` set es \<subseteq> ids sim then Inr (sim\<lparr>sm_flows := map (apply_entries g es) (sm_flows sim)\<rparr>) else Inl KeyError)"
  using assms(1)
proof (induction es arbitrary: sim)
  case Nil
  have "map (apply_entries g []) (sm_flows sim) = sm_flows sim" by (simp add: map_idI)
  then show ?case by simp
next
  case (Cons e es)
  obtain i v where e: "e = (i, v)" by fastforce
  let ?h = "\<lambda>f. if fw_id f = i then g v f else f"
  let ?sim = "sim\<lparr>sm_flows := map ?h (sm_flows sim)\<rparr>"
  have h: "fw_id (?h f) = fw_id f" for f using assms(2) by simp
  have sim: "indexed ?sim" "ids ?sim = ids sim" using indexed_map [where g = ?h, OF Cons.prems h] by auto
  have "map (apply_entries g es) (sm_flows ?sim) = map (apply_entries g (e # es)) (sm_flows sim)"
    by (simp add: e)
  with Cons.IH [OF sim(1)] sim(2) show ?case
    by (simp add: e indexed_change [where g = "g v", OF Cons.prems assms(2)])
qed

lemma fold_entries:
  "rmap parse els = Inr es \<Longrightarrow> rfold (\<lambda>el sim. rbind (parse el) (\<lambda>e. step e sim)) els sim = rfold step es sim"
proof (induction els arbitrary: es sim)
  case (Cons el els)
  then obtain e es' where "parse el = Inr e" "rmap parse els = Inr es'" "es = e # es'" by (auto simp: rbind_Inr_iff)
  with Cons.IH [of es'] show ?case by (cases "step e sim") simp_all
qed simp

lemma fold_classes:
  assumes "rmap class_entry els = Inr es"
  shows "rfold classify_flow els sim = rfold (\<lambda>(i, t). change_flow i (set_tuple t)) es sim"
proof -
  have "classify_flow = (\<lambda>el sim. rbind (class_entry el) (\<lambda>e. (case e of (i, t) \<Rightarrow> change_flow i (set_tuple t)) sim))"
    by (intro ext) (auto simp: classify_flow_entry rbind_def split: sum.split)
  with fold_entries [OF assms, of "\<lambda>(i, t). change_flow i (set_tuple t)" sim] show ?thesis by simp
qed

lemma fold_probes:
  assumes "rmap probe_entries els = Inr ess"
  shows "rfold add_probe els sim = rfold (\<lambda>(i, s). change_flow i (append_stats s)) (concat ess) sim"
  using assms
proof (induction els arbitrary: ess sim)
  case (Cons el els)
  then obtain es ess' where es: "probe_entries el = Inr es" "rmap probe_entries els = Inr ess'" "ess = es # ess'"
    by (auto simp: rbind_Inr_iff)
  then obtain probe where e: "py_int (get_attr el ''index'') = Inr probe"
    "rmap (stats_entry probe) (el_findall ''FlowStats'' el) = Inr es"
    by (auto simp: rbind_Inr_iff probe_entries_def)
  have "add_probe_stats probe = (\<lambda>el sim. rbind (stats_entry probe el) (\<lambda>e. (case e of (i, s) \<Rightarrow> change_flow i (append_stats s)) sim))"
    by (intro ext) (auto simp: add_probe_stats_entry rbind_def split: sum.split)
  with fold_entries [OF e(2), of "\<lambda>(i, s). change_flow i (append_stats s)"] have "add_probe el =
      rfold (\<lambda>(i, s). change_flow i (append_stats s)) es"
    by (intro ext) (simp add: add_probe_def e(1))
  with Cons.IH [OF es(2)] show ?case by (simp add: es(3) rfold_append rbind_def split: sum.split)
qed simp

lemma add_flow_Inr:
  "make_flow el = Inr f \<Longrightarrow> add_flow el sim =
     Inr \<lparr>sm_flows = sm_flows sim @ [f], sm_map = AList.update (fw_id f) (length (sm_flows sim)) (sm_map sim)\<rparr>"
  by (simp add: add_flow_def)

lemma add_flows:
  assumes "rmap make_flow els = Inr fs" and "indexed sim"
    and "distinct (map fw_id (sm_flows sim @ fs))"
  shows "\<exists>m. rfold add_flow els sim = Inr \<lparr>sm_flows = sm_flows sim @ fs, sm_map = m\<rparr> \<and>
    indexed \<lparr>sm_flows = sm_flows sim @ fs, sm_map = m\<rparr>"
  using assms
proof (induction els arbitrary: fs sim)
  case Nil
  then show ?case by (cases sim) auto
next
  case (Cons el els)
  then obtain f fs' where f: "make_flow el = Inr f" "rmap make_flow els = Inr fs'" "fs = f # fs'"
    by (auto simp: rbind_Inr_iff)
  let ?sim = "\<lparr>sm_flows = sm_flows sim @ [f], sm_map = AList.update (fw_id f) (length (sm_flows sim)) (sm_map sim)\<rparr>"
  have new: "fw_id f \<notin> fw_id ` set (sm_flows sim)" using Cons.prems(3) f(3) by auto
  have "map_of (sm_map ?sim) i = Some p \<longleftrightarrow> p < length (sm_flows ?sim) \<and> fw_id (sm_flows ?sim ! p) = i" for i p
  proof (cases "i = fw_id f")
    case True
    have "fw_id (sm_flows sim ! p) \<noteq> fw_id f" if "p < length (sm_flows sim)"
      using new that by (metis image_eqI nth_mem)
    with True show ?thesis by (auto simp: update_conv' nth_append less_Suc_eq)
  next
    case False
    with Cons.prems(2) show ?thesis by (auto simp: indexed_def update_conv' nth_append less_Suc_eq)
  qed
  then have "indexed ?sim" using Cons.prems(2) new by (simp add: indexed_def)
  moreover have "distinct (map fw_id (sm_flows ?sim @ fs'))" using Cons.prems(3) f(3) by simp
  ultimately obtain m where "rfold add_flow els ?sim = Inr \<lparr>sm_flows = sm_flows ?sim @ fs', sm_map = m\<rparr>"
    "indexed \<lparr>sm_flows = sm_flows ?sim @ fs', sm_map = m\<rparr>"
    using Cons.IH [OF f(2)] by blast
  then show ?case using f by (simp add: add_flow_Inr)
qed

lemma apply_tuples:
  "apply_entries set_tuple es f =
    f\<lparr>fw_five_tuple := (case map_of (rev es) (fw_id f) of None \<Rightarrow> fw_five_tuple f | Some t \<Rightarrow> Some t)\<rparr>"
proof (induction es arbitrary: f rule: rev_induct)
  case (snoc e es)
  obtain i t where e: "e = (i, t)" by fastforce
  have step: "apply_entries set_tuple (es @ [e]) f =
      (if fw_id (apply_entries set_tuple es f) = i then set_tuple t (apply_entries set_tuple es f) else apply_entries set_tuple es f)"
    by (simp add: apply_entries_def e)
  show ?case unfolding step snoc.IH by (simp add: e set_tuple_def)
qed simp

lemma apply_stats:
  "apply_entries append_stats es f = f\<lparr>fw_probes := fw_probes f @ map snd (filter (\<lambda>(i, s). i = fw_id f) es)\<rparr>"
proof (induction es arbitrary: f)
  case (Cons e es)
  obtain i s where e: "e = (i, s)" by fastforce
  show ?case unfolding e apply_entries_simps Cons.IH by (simp add: append_stats_def)
qed simp

lemma ids_map_eq: "(\<And>f. fw_id (g f) = fw_id f) \<Longrightarrow> fw_id ` set (map g fs) = fw_id ` set fs"
  by (simp add: image_image)

lemma make_flow_fresh:
  assumes "make_flow el = Inr f"
  shows "fw_five_tuple f = None \<and> fw_probes f = []"
  using assms by (auto simp: make_flow_def rbind_Inr_iff)

lemma flow_figures:
  assumes "make_flow el = Inr f" and "py_long (get_attr el ''rxPackets'') = Inr rx"
    and "py_float (get_attr el ''lostPackets'') = Inr lost" and "0 \<le> rx" and "0 \<le> lost"
  shows "fw_delay_mean f = None \<longleftrightarrow> rx = 0" and "fw_packet_size_mean f = None \<longleftrightarrow> rx = 0"
    and "fw_rx_bitrate f = None \<longleftrightarrow> fw_rx_duration f \<le> 0" and "fw_loss_ratio f = None \<longleftrightarrow> rx = 0"
    and "fw_loss_ratio f = Some r \<Longrightarrow> 0 \<le> r \<and> r < 1"
proof -
  obtain delay psize rate ratio d where v: "per_packet rx (rbind (without_unit (get_attr el ''delaySum'')) py_float) = Inr delay"
    "per_packet rx (py_float (get_attr el ''rxBytes'')) = Inr psize" "bitrate el ''rxBytes'' d = Inr rate"
    "loss_ratio rx lost = Inr ratio" "fw_delay_mean f = map_option (\<lambda>d. d / 10 ^ 9) delay" "fw_packet_size_mean f = psize"
    "fw_rx_bitrate f = rate" "fw_rx_duration f = d" "fw_loss_ratio f = ratio"
    using assms(1-3) by (auto simp: make_flow_def rbind_Inr_iff)
  have none: "x = None \<longleftrightarrow> rx = 0" if "per_packet rx w = Inr x" for w x
    using that by (auto simp: per_packet_def rbind_Inr_iff split: if_splits)
  show "fw_delay_mean f = None \<longleftrightarrow> rx = 0" "fw_packet_size_mean f = None \<longleftrightarrow> rx = 0"
    using v(5,6) none [OF v(1)] none [OF v(2)] by simp_all
  have "rate = None \<longleftrightarrow> d \<le> 0" using v(3) by (auto simp: bitrate_def rbind_Inr_iff split: if_splits)
  with v show "fw_rx_bitrate f = None \<longleftrightarrow> fw_rx_duration f \<le> 0" by simp
  have "ratio = None \<longleftrightarrow> rx = 0" using v(4) by (auto simp: loss_ratio_def split: if_splits)
  with v show "fw_loss_ratio f = None \<longleftrightarrow> rx = 0" by simp
  show "0 \<le> r \<and> r < 1" if "fw_loss_ratio f = Some r"
  proof -
    from that v have r: "rx \<noteq> 0" "r = lost / (of_int rx + lost)" by (auto simp: loss_ratio_def split: if_splits)
    with assms(4) have "(0::rat) < of_int rx" by simp
    with r(2) assms(5) show ?thesis by (simp add: divide_less_eq)
  qed
qed

section \<open>Properties\<close>

text \<open>C40: when the flows of a document have different identifiers, reading it gives the flows in the
  order of the document, each with the last entry of the classifier and with all statistics of
  the probes for its identifier, in order; it raises \<open>KeyError\<close> exactly when an entry names
  an identifier that no flow has.\<close>

theorem simulation_of_document:
  assumes "el_findall ''Ipv4FlowClassifier'' el = [classifier]"
    and "rmap make_flow (el_findall2 ''FlowStats'' ''Flow'' el) = Inr fs" and "distinct (map fw_id fs)"
    and "rmap class_entry (el_findall ''Flow'' classifier) = Inr cls"
    and "rmap probe_entries (el_findall2 ''FlowProbes'' ''FlowProbe'' el) = Inr prs"
  shows "rbind (make_simulation el) (\<lambda>sim. Inr (sm_flows sim)) =
    (if fst ` set cls \<subseteq> fw_id ` set fs \<and> fst ` set (concat prs) \<subseteq> fw_id ` set fs then
       Inr (map (\<lambda>f. f\<lparr>fw_five_tuple := map_of (rev cls) (fw_id f),
                     fw_probes := map snd (filter (\<lambda>(i, s). i = fw_id f) (concat prs))\<rparr>) fs)
     else Inl KeyError)"
proof -
  have fresh: "fw_five_tuple f = None \<and> fw_probes f = []" if "f \<in> set fs" for f
    using that assms(2) make_flow_fresh by (auto simp: rmap_Inr_iff list_all2_conv_all_nth in_set_conv_nth)
  have whole: "apply_entries append_stats (concat prs) (apply_entries set_tuple cls f) =
      f\<lparr>fw_five_tuple := map_of (rev cls) (fw_id f),
        fw_probes := map snd (filter (\<lambda>(i, s). i = fw_id f) (concat prs))\<rparr>" if "f \<in> set fs" for f
    using fresh [OF that] by (auto simp: apply_tuples apply_stats split: option.split)
  let ?empty = "\<lparr>sm_flows = [], sm_map = []\<rparr> :: simulation"
  have "indexed ?empty" by (simp add: indexed_def)
  then obtain m where m: "rfold add_flow (el_findall2 ''FlowStats'' ''Flow'' el) ?empty = Inr \<lparr>sm_flows = fs, sm_map = m\<rparr>"
    "indexed \<lparr>sm_flows = fs, sm_map = m\<rparr>"
    using add_flows [OF assms(2), of ?empty] assms(3) by auto
  let ?sim = "\<lparr>sm_flows = fs, sm_map = m\<rparr>"
  let ?sim' = "\<lparr>sm_flows = map (apply_entries set_tuple cls) fs, sm_map = m\<rparr>"
  have keep: "fw_id (set_tuple t f) = fw_id f" "fw_id (append_stats s f) = fw_id f" for t s f
    by (simp_all add: set_tuple_def append_stats_def)
  have classes: "rfold classify_flow (el_findall ''Flow'' classifier) ?sim =
      (if fst ` set cls \<subseteq> fw_id ` set fs then Inr ?sim' else Inl KeyError)"
    using change_all [where g = set_tuple, OF m(2) keep(1)] by (simp add: fold_classes [OF assms(4)] ids_def)
  have tuples: "fw_id (apply_entries set_tuple cls f) = fw_id f" for f by (simp add: apply_tuples)
  have sim': "indexed ?sim'" "ids ?sim' = fw_id ` set fs"
    using indexed_map [where g = "apply_entries set_tuple cls", OF m(2) tuples] by (auto simp: ids_def)
  have probes: "rfold add_probe (el_findall2 ''FlowProbes'' ''FlowProbe'' el) ?sim' =
      (if fst ` set (concat prs) \<subseteq> fw_id ` set fs then
         Inr (?sim'\<lparr>sm_flows := map (apply_entries append_stats (concat prs)) (sm_flows ?sim')\<rparr>) else Inl KeyError)"
    unfolding fold_probes [OF assms(5)] sim'(2) [symmetric] by (rule change_all [OF sim'(1) keep(2)])
  show ?thesis
    by (simp add: make_simulation_def assms(1) m(1) classes probes whole comp_def cong: map_cong del: set_concat)
qed

definition sample_flow :: element where
  "sample_flow = Element ''Flow'' [(''flowId'', ''1''), (''rxPackets'', ''3''), (''txPackets'', ''4''),
     (''timeFirstTxPacket'', ''+1000.0ns''), (''timeLastTxPacket'', ''+3000.0ns''),
     (''timeFirstRxPacket'', ''+2000.0ns''), (''timeLastRxPacket'', ''+4000.0ns''), (''timesForwarded'', ''3''),
     (''delaySum'', ''+30.0ns''), (''rxBytes'', ''300''), (''txBytes'', ''400''), (''lostPackets'', ''1'')] []"

definition sample_document :: element where
  "sample_document = Element ''FlowMonitor'' []
     [Element ''FlowStats'' [] [sample_flow],
      Element ''Ipv4FlowClassifier'' [] [Element ''Flow'' [(''flowId'', ''1''), (''sourceAddress'', ''a''),
        (''destinationAddress'', ''b''), (''protocol'', ''17''), (''sourcePort'', ''9''), (''destinationPort'', ''80'')] []],
      Element ''FlowProbes'' [] [Element ''FlowProbe'' [(''index'', ''0'')] [Element ''FlowStats''
        [(''flowId'', ''1''), (''packets'', ''3''), (''bytes'', ''300''), (''delayFromFirstProbeSum'', ''+30.0ns'')] []]]]"

theorem simulation_of_document_witness:
  "\<exists>sim f. make_simulation sample_document = Inr sim \<and> sm_flows sim = [f] \<and>
     map_option ft_destination_port (fw_five_tuple f) = Some 80 \<and> map pr_packets (fw_probes f) = [3]"
proof -
  let ?tuple = "\<lparr>ft_source_address = Some ''a'', ft_destination_address = Some ''b'', ft_source_port = 9,
    ft_destination_port = 80, ft_protocol = 17\<rparr>"
  let ?stats = "\<lparr>pr_probe = 0, pr_packets = 3, pr_bytes = 300, pr_delay = 10\<rparr>"
  have "case make_flow sample_flow of Inl _ \<Rightarrow> False | Inr f \<Rightarrow> fw_id f = 1" by code_simp
  then obtain f where f: "make_flow sample_flow = Inr f" "fw_id f = 1" by (auto split: sum.splits)
  have parts: "el_findall ''Ipv4FlowClassifier'' sample_document = [el_children sample_document ! 1]"
    "el_findall2 ''FlowStats'' ''Flow'' sample_document = [sample_flow]"
    by (simp_all add: sample_document_def sample_flow_def el_findall_def el_findall2_def)
  have "rmap class_entry (el_findall ''Flow'' (el_children sample_document ! 1)) = Inr [(1, ?tuple)]"
    "rmap probe_entries (el_findall2 ''FlowProbes'' ''FlowProbe'' sample_document) = Inr [[(1, ?stats)]]"
    by code_simp+
  then have "rbind (make_simulation sample_document) (\<lambda>sim. Inr (sm_flows sim)) =
      Inr [f\<lparr>fw_five_tuple := Some ?tuple, fw_probes := [?stats]\<rparr>]"
    using simulation_of_document [OF parts(1), of "[f]" "[(1, ?tuple)]" "[[(1, ?stats)]]"] f by (simp add: parts(2))
  then show ?thesis by (auto simp: rbind_Inr_iff)
qed

end
