(* ===== verification/Spec2Isabelle.thy ===== *)
theory Spec2Isabelle
  imports Scan_Modules Ptr_Types Check_Style Grid_Gtk Test_Pool Run_Program Waf_Command Cflags
    Viz_Sim Viz_Axes Viz_Windows Flow_Stats
begin

text \<open>
  Verification library of the Python programs of this ns-3 tree. The tree is a network simulator in
  C++; its Python code is the tooling around it, and most of its lines are binding modules that a
  scanner has generated. The library models the tools that have logic of their own:

  \<^item> the test driver \<open>src/test.py\<close>, with the configuration readers \<open>src/utils.py\<close>;
  \<^item> the launcher of programs \<open>src/wutils.py\<close> and the command lines of the build,
    \<open>src/waf-tools/shellcmd.py\<close>;
  \<^item> the style checker \<open>src/utils/check-style.py\<close>;
  \<^item> the timeline viewer \<open>src/utils/grid.py\<close>;
  \<^item> the visualizer \<open>src/src/visualizer/visualizer/\<close>, which shows a simulation while it runs;
  \<^item> the sorting of dependencies and the helpers of the binding generator,
    \<open>src/bindings/python/topsort.py\<close> and \<open>rad_util.py\<close>, with the scanners that sort the modules by it,
    \<open>ns3modulescan.py\<close> and \<open>ns3modulescan-modular.py\<close>, and its treatment of smart pointers;
  \<^item> the build tasks \<open>src/waf-tools/command.py\<close> and the compiler flags \<open>cflags.py\<close>;
  \<^item> the reader of the results of the flow monitor, \<open>flowmon-parse-results.py\<close>.

  (In paths \<open>src/\<close> is the root of the tree; the theories below name files relative to it.)

  Every function keeps its name, with a suffix where HOL has the name. An exception is the left value
  of a sum (\<open>pyres\<close>), statements are joined by \<open>rbind\<close> and loops over lists that may raise are \<open>rfold\<close>; a
  dictionary is an association list in the order of insertion. A class is a record, its mutable
  instances are positions in a list where they are shared. A number of Python is an integer, an exact
  rational where the code uses floats, or \<open>pynum\<close> where it may be either and the difference matters.

  \<^bold>\<open>The theories\<close>

  \<^item> \<open>Py_Prelude\<close>: exceptions, dictionaries, slices and string methods of Python; the locale
    \<open>stream_codec\<close> (a printed sequence of items parses back to the items) and the locale \<open>preserved\<close> (a
    property that each step of a relation keeps holds in every reachable state).
    \<open>Py_Num\<close>: integers and floats of Python 2 in one type, with integer division.
  \<^item> \<open>Rad_Util\<close> and \<open>Topsort\<close>: the generator's helpers and \<open>topsort\<close>, \<open>topsort_levels\<close>, \<open>find_cycles\<close>. The
    lemmas show that sorting returns a permutation of the nodes in which every edge goes forward,
    raises \<open>CycleError\<close> exactly when there is a cycle, that levels are the levels of the graph, and that
    \<open>find_cycles\<close> yields cycles only and all simple ones. Their \<open>function\<close>s have termination proofs; two
    loops of \<open>Rad_Util\<close> that may not end are partial functions.
  \<^item> \<open>Check_Style\<close>: patches, the passes over them and the three drivers. Lines, chunks and patches are three
    instances of \<open>stream_codec\<close>, which gives that printing and parsing a patch set is the identity;
    then what the whitespace pass changes and leaves, and what verdict and exit status follow.
  \<^item> \<open>Timeline\<close>, \<open>Grid_Render\<close>, \<open>Grid_Gtk\<close>: the data of the viewer with its searches (locale \<open>bisection\<close>)
    and registries (locale \<open>registry\<close>), the drawing as the list of the calls to cairo, and the window
    as a state with one function per signal and a step relation over arbitrary events. The lemmas show
    that the windows returned are the ranges and events that meet the window, that what is drawn lies
    inside its box, and that after any sequence of events the visible range lies in the bounds of the
    trace or is empty and has been pushed out of them on one side.
  \<^item> \<open>Config_Utils\<close>, \<open>Test_Report\<close>, \<open>Test_Jobs\<close>, \<open>Test_Pool\<close>: the test driver in the order in which it
    works: configuration, the list of jobs, the worker threads, the reports (locale \<open>markup_writer\<close>). The
    threads and the two queues are a step relation over all interleavings. \<open>job_runner\<close> is what a worker
    needs of the code that runs a job, and \<open>worker\<close> its instance. The lemmas show that every schedule
    ends, that it gives the results of running the jobs one after the other, and that the exit code is
    0 just when all of them have passed or were skipped.
  \<^item> \<open>Shell_Cmd\<close>, \<open>Run_Program\<close>: \<open>shlex.split\<close>, the parser of command lines into pipelines and lists, and
    their execution, compared with a reference semantics of pipes, \<open>&&\<close> and \<open>||\<close>; finding a
    program of the build, its environment, its argument vector, and the error stream of valgrind, which
    is decoded as UTF-8.
  \<^item> \<open>Waf_Command\<close>: the words of a command line are substituted by values and the line is run; the
    lemmas show that a template is replaced by its text and values, and that a chain of pipes runs with
    the values as words, whatever they contain. \<open>Cflags\<close>: the flags of a build profile.
  \<^item> \<open>Scan_Modules\<close>: the path of a header (a loop that may not end and its successor that does), the hook
    that annotates a declaration, and the sections of the modules, which follow the order of \<open>topsort\<close>.
    \<open>Ptr_Types\<close>: the spellings of a pointer type have one normal form.
  \<^item> \<open>Flow_Stats\<close>: flows are changed in place through a map of positions; the lemmas show that the
    result is a function of the document.
  \<^item> \<open>Viz_Sim\<close>, \<open>Viz_Svg\<close>, \<open>Viz_Nodes\<close>, \<open>Viz_Topology\<close>: the visualizer. \<open>Viz_Sim\<close> has the simulation
    thread and the handlers of the window that share its lock as two step relations; the activations
    of the window form a stack, because \<open>update_view_timeout\<close> runs pending events while it waits for the
    lock. Two calls of the window, the first scaling and the menu of a node, read the simulation without
    the lock and are steps of their own. Mutual exclusion of all others, the bound on the time shown, the delivery of messages and the termination of
    quitting are invariants (instances of \<open>preserved\<close>). \<open>Viz_Nodes\<close> has what is drawn of nodes, channels
    and links, with one invariant \<open>view_ok\<close> for all operations and another for the links of the wifi
    plugin, which are known to their access point only; whether the binding gives the bounds of the
    canvas is an argument. \<open>Viz_Topology\<close> uses these
    operations to draw a network and shows which picture results.
  \<^item> \<open>Viz_Canvas\<close>: zooming, panning, dragging and following as one step relation on the canvas; the lemmas
    show how far a dragged node and the pointer get apart when the window is scrolled, and which nodes the
    first scaling brings into the window. \<open>Viz_Traffic\<close>: the window of samples and the arrows drawn from
    it (locale \<open>arrow_loop\<close> for the two loops that recycle arrows, of which none is lost); \<open>Viz_Axes\<close>: the ticks of the axes; \<open>Viz_Stats\<close>: the statistics of interfaces
    and the filter of the last packets; \<open>Viz_Windows\<close>: the windows of the plugins, their rows, and the list
    through which they are updated, as a step relation over any states of the simulation.

  How the parts meet: \<open>test.py\<close> reads its lists with \<open>utils.py\<close> (\<open>Test_Jobs\<close> over \<open>Config_Utils\<close>) and its
  reports are of the results that its threads wrote (\<open>Test_Pool\<close> over \<open>Test_Jobs\<close>); \<open>wutils.py\<close> splits
  templates with \<open>shlex.split\<close> of \<open>Shell_Cmd\<close>, and the tasks of \<open>command.py\<close> run its pipelines; the
  scanner orders its modules with \<open>topsort\<close>; the renderers read the timelines, and the handlers of the
  window change what the renderers draw; the scan of the topology, the wifi plugin and the selection
  all act on the view of \<open>Viz_Nodes\<close>.

  \<^bold>\<open>Parameters\<close>

  What is not in the tree, or not Python code of it, is an argument: the file system, the
  environment and \<open>eval\<close> (records of functions, e.g. \<open>os_env\<close>); starting a process and waiting for it
  (\<open>shell_world\<close>); what waf knows of the build (\<open>build\<close>); uncrustify, patch and \<open>difflib\<close> in the style
  checker; the XML parser; nodes of waf and declarations of pygccxml; the extents of a text that cairo draws; the natural size of an SVG picture;
  how GooCanvas converts to pixels and the window scrolls (\<open>canvas_lib\<close>, with its laws as hypotheses);
  the simulated network, the layout of graphviz, and the progress of the simulator, which runs at most
  to the time it is given. The order in which a dictionary or a set is iterated is an argument where
  the result depends on it. GLib timers, locks, queues and events behave as documented.

  \<^bold>\<open>Bounds and fuel\<close>

  No definition takes fuel. Loops are structural recursions, or functions with a termination proof
  (bisection by the width of the interval, sorting by the nodes left, the scale of the viewer by the
  distance to its target), so that they return for every input; the loops that do not are partial
  functions. Liveness of the test driver is by a measure on its states that every step decreases; the end
  of the visualizer is by a bound of five steps. Window coordinates and times are unbounded as
  in Python; colours are integers under the bit operations of the source.

  \<^bold>\<open>What is not modelled\<close>

  Rounding of floats (rationals are exact); the clock and random numbers; printing for the
  user, \<open>--verbose\<close> included; packing widgets, menus and tooltips; the IPython shell of the
  visualizer. The wscripts, the
  generator of the bindings, the parsing of the scanners and the extensions of waf
  (\<open>waf-tools/boost.py\<close>, \<open>relocation.py\<close>, \<open>misc.py\<close>) act on objects of waf, pybindgen and
  pygccxml, which are not in the tree. The generated modules \<open>modulegen__gcc_*.py\<close> are
  straight-line calls of pybindgen. Tests, examples, tables of examples and the tools of the vendored
  libraries are left aside.
\<close>

end
